(* ===== verification/Silk_Prelude.thy ===== *)
theory Silk_Prelude
  imports Main "HOL-Library.Sublist" "HOL-Library.Char_ord" "HOL-Library.List_Lexorder"
begin

text \<open>
  Shared vocabulary of the development: the result type of fallible Rust functions, checked and
  saturating arithmetic of the unsigned integer widths, durations, the ASCII classes of bytes, and
  the string operations of the Rust standard library (\<open>split\<close>, \<open>split_once\<close>,
  \<open>find\<close>, \<open>starts_with\<close>, \<open>strip_prefix\<close>), with the lemmas the
  components share. A Rust \<open>str\<close> is its UTF-8 byte sequence, one \<open>char\<close> per byte.
\<close>

named_theorems rust_arith \<open>definitions of the checked arithmetic\<close>
named_theorems ascii_defs \<open>definitions of the ASCII byte classes\<close>

section \<open>Results\<close>

type_synonym ('e, 'a) result = "'e + 'a"

definition res_bind :: "('e, 'a) result \<Rightarrow> ('a \<Rightarrow> ('e, 'b) result) \<Rightarrow> ('e, 'b) result" where
  "res_bind r f = (case r of Inl e \<Rightarrow> Inl e | Inr x \<Rightarrow> f x)"

definition ok_or :: "'e \<Rightarrow> 'a option \<Rightarrow> ('e, 'a) result" where
  "ok_or e v = (case v of None \<Rightarrow> Inl e | Some x \<Rightarrow> Inr x)"

definition is_ok :: "('e, 'a) result \<Rightarrow> bool" where
  "is_ok r = (case r of Inl _ \<Rightarrow> False | Inr _ \<Rightarrow> True)"

lemma res_bind_simps [simp]:
  "res_bind (Inl e) f = Inl e"
  "res_bind (Inr x) f = f x"
  by (simp_all add: res_bind_def)

lemma res_bind_Inr_conv: "res_bind r f = Inr y \<longleftrightarrow> (\<exists>x. r = Inr x \<and> f x = Inr y)"
  by (cases r) auto

lemma ok_or_simps [simp]: "ok_or e None = Inl e" "ok_or e (Some x) = Inr x"
  by (simp_all add: ok_or_def)

lemma ok_or_Inr_conv: "ok_or e v = Inr x \<longleftrightarrow> v = Some x"
  by (cases v) auto

lemma is_ok_simps [simp]: "\<not> is_ok (Inl e)" "is_ok (Inr x)"
  by (simp_all add: is_ok_def)

lemma is_ok_conv: "is_ok r \<longleftrightarrow> (\<exists>x. r = Inr x)"
  by (cases r) auto

section \<open>Unsigned integers at their width\<close>

definition umax :: "nat \<Rightarrow> nat" where
  "umax w = 2 ^ w - 1"

definition checked_add :: "nat \<Rightarrow> nat \<Rightarrow> nat \<Rightarrow> nat option" where
  [rust_arith]: "checked_add limit a b = (if a + b \<le> limit then Some (a + b) else None)"

definition checked_mul :: "nat \<Rightarrow> nat \<Rightarrow> nat \<Rightarrow> nat option" where
  [rust_arith]: "checked_mul limit a b = (if a * b \<le> limit then Some (a * b) else None)"

definition checked_sub :: "nat \<Rightarrow> nat \<Rightarrow> nat option" where
  [rust_arith]: "checked_sub a b = (if b \<le> a then Some (a - b) else None)"

definition saturating_add :: "nat \<Rightarrow> nat \<Rightarrow> nat \<Rightarrow> nat" where
  [rust_arith]: "saturating_add limit a b = min limit (a + b)"

definition saturating_mul :: "nat \<Rightarrow> nat \<Rightarrow> nat \<Rightarrow> nat" where
  [rust_arith]: "saturating_mul limit a b = min limit (a * b)"

definition checked_div :: "nat \<Rightarrow> nat \<Rightarrow> nat option" where
  [rust_arith]: "checked_div a b = (if b = 0 then None else Some (a div b))"

text \<open>\<open>Ord::clamp\<close>; the source only calls it with ordered bounds (it panics otherwise).\<close>

definition clamp_nat :: "nat \<Rightarrow> nat \<Rightarrow> nat \<Rightarrow> nat" where
  "clamp_nat x lo hi = (if x < lo then lo else if hi < x then hi else x)"

lemma clamp_nat_bounds: "lo \<le> hi \<Longrightarrow> lo \<le> clamp_nat x lo hi \<and> clamp_nat x lo hi \<le> hi"
  by (auto simp: clamp_nat_def)

lemma checked_add_Some: "checked_add l a b = Some c \<longleftrightarrow> c = a + b \<and> a + b \<le> l"
  by (auto simp: checked_add_def)

lemma checked_sub_Some: "checked_sub a b = Some c \<longleftrightarrow> c = a - b \<and> b \<le> a"
  by (auto simp: checked_sub_def)

lemma checked_mul_Some: "checked_mul l a b = Some c \<longleftrightarrow> c = a * b \<and> a * b \<le> l"
  by (auto simp: checked_mul_def)

section \<open>Durations\<close>

text \<open>
  A \<open>std::time::Duration\<close> is a \<open>u64\<close> of seconds and a \<open>u32\<close> of
  nanoseconds below one second; it is represented by its number of nanoseconds
  (\<open>as_nanos\<close>), which is at most \<open>duration_max\<close>.
\<close>

type_synonym duration = nat

definition nanos_per_sec :: nat where
  "nanos_per_sec = 1000000000"

definition duration_max :: duration where
  "duration_max = umax 64 * 1000000000 + 999999999"

definition from_secs :: "nat \<Rightarrow> duration" where
  "from_secs s = s * 1000000000"

definition from_millis :: "nat \<Rightarrow> duration" where
  "from_millis m = m * 1000000"

text \<open>\<open>Duration::new\<close> of a second count and a sub-second part below one second.\<close>

definition duration_new :: "nat \<Rightarrow> nat \<Rightarrow> duration" where
  "duration_new s n = s * 1000000000 + n"

lemmas duration_defs = umax_def duration_max_def from_secs_def from_millis_def duration_new_def

section \<open>ASCII classes of bytes\<close>

definition byte_nat :: "char \<Rightarrow> nat" where
  [ascii_defs]: "byte_nat c = of_char c"

definition is_ascii_digit :: "char \<Rightarrow> bool" where
  [ascii_defs]: "is_ascii_digit c \<longleftrightarrow> 48 \<le> byte_nat c \<and> byte_nat c \<le> 57"

definition is_ascii_lowercase :: "char \<Rightarrow> bool" where
  [ascii_defs]: "is_ascii_lowercase c \<longleftrightarrow> 97 \<le> byte_nat c \<and> byte_nat c \<le> 122"

definition is_ascii_uppercase :: "char \<Rightarrow> bool" where
  [ascii_defs]: "is_ascii_uppercase c \<longleftrightarrow> 65 \<le> byte_nat c \<and> byte_nat c \<le> 90"

definition is_ascii_alphabetic :: "char \<Rightarrow> bool" where
  [ascii_defs]: "is_ascii_alphabetic c \<longleftrightarrow> is_ascii_lowercase c \<or> is_ascii_uppercase c"

definition is_ascii_alphanumeric :: "char \<Rightarrow> bool" where
  [ascii_defs]: "is_ascii_alphanumeric c \<longleftrightarrow> is_ascii_alphabetic c \<or> is_ascii_digit c"

definition is_ascii_hexdigit :: "char \<Rightarrow> bool" where
  [ascii_defs]: "is_ascii_hexdigit c \<longleftrightarrow>
     is_ascii_digit c \<or> (97 \<le> byte_nat c \<and> byte_nat c \<le> 102) \<or> (65 \<le> byte_nat c \<and> byte_nat c \<le> 70)"

definition is_ascii :: "char \<Rightarrow> bool" where
  [ascii_defs]: "is_ascii c \<longleftrightarrow> byte_nat c < 128"

definition to_ascii_lower :: "char \<Rightarrow> char" where
  "to_ascii_lower c = (if is_ascii_uppercase c then char_of (byte_nat c + 32) else c)"

section \<open>String operations of the standard library\<close>

fun split_on :: "'a \<Rightarrow> 'a list \<Rightarrow> 'a list list" where
  "split_on c [] = [[]]"
| "split_on c (x # xs) =
     (if x = c then [] # split_on c xs
      else (case split_on c xs of [] \<Rightarrow> [[x]] | y # ys \<Rightarrow> (x # y) # ys))"

fun join_with :: "'a list \<Rightarrow> 'a list list \<Rightarrow> 'a list" where
  "join_with sep [] = []"
| "join_with sep [x] = x"
| "join_with sep (x # y # ys) = x @ sep @ join_with sep (y # ys)"

fun split_once_on :: "'a \<Rightarrow> 'a list \<Rightarrow> ('a list \<times> 'a list) option" where
  "split_once_on c [] = None"
| "split_once_on c (x # xs) =
     (if x = c then Some ([], xs)
      else (case split_once_on c xs of None \<Rightarrow> None | Some (a, b) \<Rightarrow> Some (x # a, b)))"

definition rsplit_once_on :: "'a \<Rightarrow> 'a list \<Rightarrow> ('a list \<times> 'a list) option" where
  "rsplit_once_on c xs =
     (case split_once_on c (rev xs) of None \<Rightarrow> None | Some (a, b) \<Rightarrow> Some (rev b, rev a))"

fun find_sub :: "'a list \<Rightarrow> 'a list \<Rightarrow> nat option" where
  "find_sub p [] = (if p = [] then Some 0 else None)"
| "find_sub p (x # xs) =
     (if prefix p (x # xs) then Some 0
      else (case find_sub p xs of None \<Rightarrow> None | Some i \<Rightarrow> Some (Suc i)))"

fun find_index :: "('a \<Rightarrow> bool) \<Rightarrow> 'a list \<Rightarrow> nat option" where
  "find_index P [] = None"
| "find_index P (x # xs) =
     (if P x then Some 0 else (case find_index P xs of None \<Rightarrow> None | Some i \<Rightarrow> Some (Suc i)))"

definition starts_with :: "'a list \<Rightarrow> 'a list \<Rightarrow> bool" where
  "starts_with xs p \<longleftrightarrow> take (length p) xs = p"

definition strip_prefix :: "'a list \<Rightarrow> 'a list \<Rightarrow> 'a list option" where
  "strip_prefix p xs = (if starts_with xs p then Some (drop (length p) xs) else None)"

subsection \<open>Splitting and joining\<close>

lemma split_on_nonempty [simp]: "split_on c xs \<noteq> []"
  by (induction xs) (auto split: list.splits)

lemma split_on_no_sep: "s \<in> set (split_on c xs) \<Longrightarrow> c \<notin> set s"
  by (induction xs arbitrary: s) (auto split: if_splits list.splits)

lemma join_with_Cons: "xs \<noteq> [] \<Longrightarrow> join_with sep (x # xs) = x @ sep @ join_with sep xs"
  by (cases xs) auto

lemma join_with_push: "xs \<noteq> [] \<Longrightarrow> join_with sep ((a # hd xs) # tl xs) = a # join_with sep xs"
  by (cases xs; cases "tl xs") auto

lemma join_split_on [simp]: "join_with [c] (split_on c xs) = xs"
proof (induction xs)
  case Nil
  show ?case by simp
next
  case (Cons x xs)
  show ?case
  proof (cases "x = c")
    case True
    then show ?thesis using Cons by (simp add: join_with_Cons)
  next
    case False
    obtain y ys where s: "split_on c xs = y # ys" by (metis list.exhaust split_on_nonempty)
    then show ?thesis using False Cons join_with_push [of "y # ys" "[c]" x] by simp
  qed
qed

lemma split_on_append_sep:
  "c \<notin> set xs \<Longrightarrow> split_on c (xs @ c # ys) = xs # split_on c ys"
  by (induction xs) auto

lemma split_on_no_sep_id: "c \<notin> set xs \<Longrightarrow> split_on c xs = [xs]"
  by (induction xs) auto

lemma split_on_join:
  "xss \<noteq> [] \<Longrightarrow> \<forall>s \<in> set xss. c \<notin> set s \<Longrightarrow> split_on c (join_with [c] xss) = xss"
proof (induction xss)
  case Nil
  then show ?case by simp
next
  case (Cons x xss)
  then show ?case
    by (cases "xss = []") (simp_all add: split_on_no_sep_id join_with_Cons split_on_append_sep)
qed

lemma set_split_on: "\<Union> (set ` set (split_on c xs)) \<union> {c} = set xs \<union> {c}"
proof (induction xs)
  case (Cons x xs)
  then show ?case by (cases "split_on c xs") auto
qed simp

lemma split_once_on_Some: "split_once_on c xs = Some (a, b) \<Longrightarrow> xs = a @ c # b \<and> c \<notin> set a"
  by (induction xs arbitrary: a) (auto split: if_splits option.splits)

lemma split_once_on_None: "split_once_on c xs = None \<longleftrightarrow> c \<notin> set xs"
  by (induction xs) (auto split: option.splits)

lemma split_once_on_append: "c \<notin> set a \<Longrightarrow> split_once_on c (a @ c # b) = Some (a, b)"
  by (induction a) auto

lemma rsplit_once_on_Some: "rsplit_once_on c xs = Some (a, b) \<Longrightarrow> xs = a @ c # b \<and> c \<notin> set b"
  by (auto simp: rsplit_once_on_def rev_eq_append_conv split: option.splits dest!: split_once_on_Some)

lemma rsplit_once_on_None: "rsplit_once_on c xs = None \<longleftrightarrow> c \<notin> set xs"
proof (cases "split_once_on c (rev xs)")
  case None
  moreover from None have "c \<notin> set (rev xs)" by (rule split_once_on_None [THEN iffD1])
  ultimately show ?thesis by (simp add: rsplit_once_on_def)
next
  case (Some ab)
  then show ?thesis
    using split_once_on_None [of c "rev xs"] by (cases ab) (simp add: rsplit_once_on_def)
qed

subsection \<open>Searching\<close>

lemma find_sub_Some:
  "find_sub p xs = Some i \<Longrightarrow> i + length p \<le> length xs \<and> take (length p) (drop i xs) = p"
proof (induction xs arbitrary: i)
  case (Cons x xs)
  show ?case
  proof (cases "prefix p (x # xs)")
    case True
    then obtain zs where "x # xs = p @ zs" by (auto elim: prefixE)
    then show ?thesis using Cons.prems True by (metis add_0 append_eq_conv_conj drop0 find_sub.simps(2)
      length_append le_add1 option.inject)
  next
    case False
    then show ?thesis using Cons by (auto split: option.splits)
  qed
qed (auto split: if_splits)

lemma find_sub_None: "find_sub p xs = None \<longleftrightarrow> \<not> sublist p xs"
  by (induction xs) (auto simp: sublist_Cons_right split: option.splits)

lemma find_index_Some:
  "find_index P xs = Some i \<Longrightarrow> i < length xs \<and> P (xs ! i) \<and> (\<forall>j < i. \<not> P (xs ! j))"
  by (induction xs arbitrary: i) (auto simp: less_Suc_eq_0_disj split: if_splits option.splits)

lemma find_index_None: "find_index P xs = None \<longleftrightarrow> (\<forall>x \<in> set xs. \<not> P x)"
  by (induction xs) (auto split: option.splits)

lemma starts_with_conv: "starts_with xs p \<longleftrightarrow> (\<exists>r. xs = p @ r)"
  by (metis append_eq_conv_conj starts_with_def append_take_drop_id)

lemma starts_with_prefix: "starts_with xs p \<longleftrightarrow> prefix p xs"
  by (auto simp: starts_with_conv prefix_def)

lemma strip_prefix_Some: "strip_prefix p xs = Some r \<longleftrightarrow> xs = p @ r"
  by (auto simp: strip_prefix_def starts_with_conv)

lemma strip_prefix_append [simp]: "strip_prefix p (p @ r) = Some r"
  by (simp add: strip_prefix_Some)

section \<open>Trimming\<close>

text \<open>The white space of Unicode, in UTF-8.\<close>

definition unicode_whitespace :: "string list" where
  "unicode_whitespace =
    [[CHR 0x09], [CHR 0x0A], [CHR 0x0B], [CHR 0x0C], [CHR 0x0D], [CHR 0x20], [CHR 0xC2, CHR 0x85],
     [CHR 0xC2, CHR 0xA0], [CHR 0xE1, CHR 0x9A, CHR 0x80], [CHR 0xE2, CHR 0x80, CHR 0x80],
     [CHR 0xE2, CHR 0x80, CHR 0x81], [CHR 0xE2, CHR 0x80, CHR 0x82], [CHR 0xE2, CHR 0x80, CHR 0x83],
     [CHR 0xE2, CHR 0x80, CHR 0x84], [CHR 0xE2, CHR 0x80, CHR 0x85], [CHR 0xE2, CHR 0x80, CHR 0x86],
     [CHR 0xE2, CHR 0x80, CHR 0x87], [CHR 0xE2, CHR 0x80, CHR 0x88], [CHR 0xE2, CHR 0x80, CHR 0x89],
     [CHR 0xE2, CHR 0x80, CHR 0x8A], [CHR 0xE2, CHR 0x80, CHR 0xA8], [CHR 0xE2, CHR 0x80, CHR 0xA9],
     [CHR 0xE2, CHR 0x80, CHR 0xAF], [CHR 0xE2, CHR 0x81, CHR 0x9F], [CHR 0xE3, CHR 0x80, CHR 0x80]]"

definition whitespace_prefix :: "string \<Rightarrow> string option" where
  "whitespace_prefix s = List.find (\<lambda>w. starts_with s w) unicode_whitespace"

text \<open>\<open>trim_start\<close> with fuel, one unit for each byte.\<close>

fun trim_start_fuel :: "nat \<Rightarrow> string \<Rightarrow> string" where
  "trim_start_fuel 0 s = s"
| "trim_start_fuel (Suc n) s =
     (case whitespace_prefix s of None \<Rightarrow> s | Some w \<Rightarrow> trim_start_fuel n (drop (length w) s))"

definition trim_start :: "string \<Rightarrow> string" where
  "trim_start s = trim_start_fuel (length s) s"

definition whitespace_suffix :: "string \<Rightarrow> string option" where
  "whitespace_suffix s = List.find (\<lambda>w. starts_with (rev s) (rev w)) unicode_whitespace"

fun trim_end_fuel :: "nat \<Rightarrow> string \<Rightarrow> string" where
  "trim_end_fuel 0 s = s"
| "trim_end_fuel (Suc n) s =
     (case whitespace_suffix s of None \<Rightarrow> s | Some w \<Rightarrow> trim_end_fuel n (take (length s - length w) s))"

definition trim :: "string \<Rightarrow> string" where
  "trim s = trim_end_fuel (length s) (trim_start s)"

section \<open>Decimal numbers\<close>

definition decimal_digit :: "nat \<Rightarrow> char" where
  "decimal_digit d = char_of (48 + d mod 10)"

fun show_nat :: "nat \<Rightarrow> string" where
  "show_nat n = (if n < 10 then [decimal_digit n] else show_nat (n div 10) @ [decimal_digit n])"

declare show_nat.simps [simp del]

lemma decimal_digit_nat: "of_char (decimal_digit d) = 48 + d mod 10"
proof -
  have "48 + d mod 10 < 256" by (simp add: mod_less_divisor order_less_le_trans [of "d mod 10" 10])
  then show ?thesis by (simp add: decimal_digit_def)
qed

lemma show_nat_nonempty [simp]: "show_nat n \<noteq> []" "[] \<noteq> show_nat n"
  by (subst show_nat.simps, simp)+

lemma show_nat_digits: "c \<in> set (show_nat n) \<Longrightarrow> is_ascii_digit c"
proof (induction n rule: show_nat.induct)
  case (1 n)
  have d: "is_ascii_digit (decimal_digit n)"
    using decimal_digit_nat [of n] mod_less_divisor [of 10 n]
    by (simp add: is_ascii_digit_def byte_nat_def)
  show ?case using "1.IH" "1.prems" d by (subst (asm) show_nat.simps) (auto split: if_splits)
qed

lemma show_nat_inject: "show_nat m = show_nat n \<longleftrightarrow> m = n"
proof
  show "show_nat m = show_nat n \<Longrightarrow> m = n"
  proof (induction m arbitrary: n rule: show_nat.induct)
    case (1 m)
    have dig: "decimal_digit m = decimal_digit n \<Longrightarrow> m mod 10 = n mod 10"
      using decimal_digit_nat by (metis add_left_cancel)
    show ?case
    proof (cases "m < 10")
      case True
      then show ?thesis using "1.prems" dig
        by (cases "n < 10") (auto simp: show_nat.simps [of m] show_nat.simps [of n])
    next
      case False
      then have "n \<ge> 10 \<and> show_nat (m div 10) = show_nat (n div 10) \<and> m mod 10 = n mod 10"
        using "1.prems" dig
        by (cases "n < 10") (auto simp: show_nat.simps [of m] show_nat.simps [of n] append_eq_Cons_conv)
      then show ?thesis using "1.IH" [OF False] by (metis div_mult_mod_eq)
    qed
  qed
qed simp

text \<open>
  \<open>from_str\<close> of an unsigned integer: an optional plus sign and at least one digit, without overflow.
\<close>

definition parse_unsigned :: "nat \<Rightarrow> string \<Rightarrow> nat option" where
  "parse_unsigned limit s =
     (let digits = (case s of c # rest \<Rightarrow> if c = CHR ''+'' then rest else s | [] \<Rightarrow> []) in
      if digits = [] \<or> \<not> list_all is_ascii_digit digits then None
      else let n = foldl (\<lambda>n c. 10 * n + (byte_nat c - 48)) 0 digits in
        if n \<le> limit then Some n else None)"

lemma parse_digit: "byte_nat (decimal_digit d) - 48 = d mod 10"
  by (simp add: byte_nat_def decimal_digit_nat)

lemma digits_value: "foldl (\<lambda>n c. 10 * n + (byte_nat c - 48)) 0 (show_nat n) = n"
proof (induction n rule: show_nat.induct)
  case (1 n)
  then show ?case by (cases "n < 10") (simp_all add: show_nat.simps [of n] parse_digit)
qed

lemma parse_show_nat: "n \<le> limit \<Longrightarrow> parse_unsigned limit (show_nat n) = Some n"
proof -
  assume limit: "n \<le> limit"
  have digits: "list_all is_ascii_digit (show_nat n)" using show_nat_digits by (auto simp: list_all_iff)
  obtain c cs where s: "show_nat n = c # cs" by (cases "show_nat n") auto
  then have "is_ascii_digit c" using digits by simp
  then have "c \<noteq> CHR ''+''" by (auto simp: is_ascii_digit_def byte_nat_def)
  with s digits limit digits_value [of n] show ?thesis by (simp add: parse_unsigned_def)
qed

end
