(* ===== verification/Retry_Backoff.thy ===== *)
theory Retry_Backoff
  imports Silk_Prelude
begin

text \<open>
  The exponential backoff of the BigQuery input
  (\<open>crates/silk-chiffon-input-bigquery/src/retry/backoff.rs\<close>): policies, the capped delay of
  a failure streak, full jitter, and the reset of the streak by sustained progress. The locale
  \<open>delay_schedule\<close> states what retry planning relies on; the policy built by
  \<open>create_read_session\<close> is an interpretation of it.
\<close>

section \<open>Policies\<close>

datatype backoff_error = BackoffError

record backoff_policy =
  initial_delay :: duration
  multiplier_numerator :: nat
  multiplier_denominator :: nat
  maximum_delay :: duration
  sustained_accepted_progress :: duration

definition sustained_progress :: duration where
  "sustained_progress = from_secs 60"

definition create_read_session_policy :: backoff_policy where
  "create_read_session_policy =
     \<lparr>initial_delay = from_millis 100, multiplier_numerator = 13, multiplier_denominator = 10,
      maximum_delay = from_secs 60, sustained_accepted_progress = sustained_progress\<rparr>"

definition policy_new ::
  "duration \<Rightarrow> nat \<Rightarrow> nat \<Rightarrow> duration \<Rightarrow> (backoff_error, backoff_policy) result" where
  "policy_new initial numerator denominator maximum =
     (if initial = 0 \<or> denominator = 0 \<or> numerator < denominator \<or> maximum < initial
      then Inl BackoffError
      else Inr \<lparr>initial_delay = initial, multiplier_numerator = numerator,
                multiplier_denominator = denominator, maximum_delay = maximum,
                sustained_accepted_progress = sustained_progress\<rparr>)"

definition read_rows_policy ::
  "duration \<Rightarrow> duration \<Rightarrow> (backoff_error, backoff_policy) result" where
  "read_rows_policy initial maximum = policy_new initial 13 10 maximum"

text \<open>
  The invariant of a constructed policy. The fields are private, so every policy of the program
  comes from \<open>create_read_session\<close> or \<open>new\<close>; the last two conjuncts are the
  ranges of the fields' Rust types.
\<close>

definition policy_ok :: "backoff_policy \<Rightarrow> bool" where
  "policy_ok p \<longleftrightarrow>
     0 < initial_delay p \<and> 0 < multiplier_denominator p \<and>
     multiplier_denominator p \<le> multiplier_numerator p \<and> initial_delay p \<le> maximum_delay p \<and>
     multiplier_numerator p \<le> umax 32 \<and> maximum_delay p \<le> duration_max"

section \<open>Delays\<close>

definition duration_from_nanos :: "nat \<Rightarrow> (backoff_error, duration) result" where
  "duration_from_nanos nanos =
     (let seconds = nanos div 1000000000; subsecond = nanos mod 1000000000
      in if seconds > umax 64 then Inl BackoffError
         else if subsecond > umax 32 then Inl BackoffError
         else Inr (duration_new seconds subsecond))"

text \<open>The \<open>while remaining > 0 && nanos < maximum\<close> loop, recursion on \<open>remaining\<close>.\<close>

fun delay_cap_loop :: "backoff_policy \<Rightarrow> nat \<Rightarrow> nat \<Rightarrow> (backoff_error, nat) result" where
  "delay_cap_loop p 0 nanos = Inr nanos"
| "delay_cap_loop p (Suc remaining) nanos =
     (if nanos < maximum_delay p
      then (case checked_mul (umax 128) nanos (multiplier_numerator p) of
              None \<Rightarrow> Inl BackoffError
            | Some m \<Rightarrow>
                delay_cap_loop p remaining
                  (min (m div multiplier_denominator p) (maximum_delay p)))
      else Inr nanos)"

definition delay_cap :: "backoff_policy \<Rightarrow> nat \<Rightarrow> (backoff_error, duration) result" where
  "delay_cap p failure_streak =
     (if failure_streak = 0 then Inl BackoffError
      else res_bind (delay_cap_loop p (failure_streak - 1) (initial_delay p)) duration_from_nanos)"

definition full_jitter :: "backoff_policy \<Rightarrow> nat \<Rightarrow> nat \<Rightarrow> (backoff_error, duration) result" where
  "full_jitter p failure_streak sample =
     res_bind (delay_cap p failure_streak) (\<lambda>cap.
       case checked_mul (umax 128) cap sample of
         None \<Rightarrow> Inl BackoffError
       | Some m \<Rightarrow> duration_from_nanos (m div umax 64))"

definition failure_streak_after_progress ::
  "backoff_policy \<Rightarrow> nat \<Rightarrow> nat \<Rightarrow> duration \<Rightarrow> nat" where
  "failure_streak_after_progress p failure_streak accepted_rows accepted_progress =
     (if accepted_rows > 0 \<and> accepted_progress \<ge> sustained_accepted_progress p
      then 0 else failure_streak)"

section \<open>The invariant of policies\<close>

lemma policy_new_Inr:
  "policy_new i n d m = Inr p \<longleftrightarrow>
     0 < i \<and> 0 < d \<and> d \<le> n \<and> i \<le> m \<and>
     p = \<lparr>initial_delay = i, multiplier_numerator = n, multiplier_denominator = d,
          maximum_delay = m, sustained_accepted_progress = sustained_progress\<rparr>"
  by (auto simp: policy_new_def)

lemma policy_new_ok:
  "policy_new i n d m = Inr p \<Longrightarrow> n \<le> umax 32 \<Longrightarrow> m \<le> duration_max \<Longrightarrow> policy_ok p"
  by (auto simp: policy_new_Inr policy_ok_def)

lemma create_read_session_policy_ok: "policy_ok create_read_session_policy"
  by (simp add: policy_ok_def create_read_session_policy_def duration_defs)

section \<open>The delay of a streak\<close>

lemma duration_from_nanos_ok: "n \<le> duration_max \<Longrightarrow> duration_from_nanos n = Inr n"
proof -
  assume "n \<le> duration_max"
  then have "n div 1000000000 \<le> duration_max div 1000000000" by (rule div_le_mono)
  also have "\<dots> = umax 64" by (simp add: duration_defs)
  finally have "n div 1000000000 \<le> umax 64" .
  moreover have "n mod 1000000000 \<le> umax 32"
    by (rule le_trans [OF less_imp_le [OF mod_less_divisor]]) (simp_all add: umax_def)
  ultimately show ?thesis by (simp add: duration_from_nanos_def duration_new_def)
qed

lemma delay_step_no_overflow:
  assumes "policy_ok p" and "n < maximum_delay p"
  shows "checked_mul (umax 128) n (multiplier_numerator p) = Some (n * multiplier_numerator p)"
proof -
  have "n \<le> duration_max" and "multiplier_numerator p \<le> umax 32"
    using assms by (auto simp: policy_ok_def)
  then have "n * multiplier_numerator p \<le> duration_max * umax 32" by (rule mult_le_mono)
  also have "\<dots> \<le> umax 128" by (simp add: duration_defs)
  finally show ?thesis by (simp add: checked_mul_def)
qed

definition delay_step :: "backoff_policy \<Rightarrow> nat \<Rightarrow> nat" where
  "delay_step p n = min (n * multiplier_numerator p div multiplier_denominator p) (maximum_delay p)"

lemma delay_step_grows:
  assumes "policy_ok p" and "n \<le> maximum_delay p"
  shows "n \<le> delay_step p n" and "delay_step p n \<le> maximum_delay p"
proof -
  have "n * multiplier_denominator p \<le> n * multiplier_numerator p"
    using assms by (simp add: policy_ok_def)
  then have "n * multiplier_denominator p div multiplier_denominator p
      \<le> n * multiplier_numerator p div multiplier_denominator p"
    by (rule div_le_mono)
  then have "n \<le> n * multiplier_numerator p div multiplier_denominator p"
    using assms by (simp add: policy_ok_def)
  then show "n \<le> delay_step p n" using assms by (simp add: delay_step_def)
  show "delay_step p n \<le> maximum_delay p" by (simp add: delay_step_def)
qed

lemma delay_step_mono: "a \<le> b \<Longrightarrow> delay_step p a \<le> delay_step p b"
  unfolding delay_step_def by (intro min.mono div_le_mono mult_le_mono) simp_all

lemma delay_step_at_maximum: "policy_ok p \<Longrightarrow> delay_step p (maximum_delay p) = maximum_delay p"
  using delay_step_grows [of p "maximum_delay p"] by simp

lemma delay_step_funpow_at_maximum:
  "policy_ok p \<Longrightarrow> (delay_step p ^^ k) (maximum_delay p) = maximum_delay p"
  by (induction k) (simp_all add: delay_step_at_maximum)

text \<open>The loop with its early exit is plain iteration: at the maximum a step changes nothing.\<close>

lemma delay_cap_loop_iterates:
  "policy_ok p \<Longrightarrow> n \<le> maximum_delay p \<Longrightarrow> delay_cap_loop p k n = Inr ((delay_step p ^^ k) n)"
proof (induction k arbitrary: n)
  case (Suc k)
  show ?case
  proof (cases "n < maximum_delay p")
    case True
    then show ?thesis
      using Suc delay_step_no_overflow [OF Suc.prems(1) True]
      by (simp add: funpow_swap1 flip: delay_step_def) (simp add: delay_step_def)
  next
    case False
    then show ?thesis using Suc.prems delay_step_funpow_at_maximum [of p "Suc k"] by simp
  qed
qed simp

lemma delay_iter_bounds:
  assumes "policy_ok p"
  shows "initial_delay p \<le> (delay_step p ^^ k) (initial_delay p) \<and>
         (delay_step p ^^ k) (initial_delay p) \<le> maximum_delay p"
proof (induction k)
  case 0
  then show ?case using assms by (simp add: policy_ok_def)
next
  case (Suc k)
  then show ?case using delay_step_grows [OF assms] le_trans by fastforce
qed

lemma delay_cap_eq:
  assumes "policy_ok p" and "0 < s"
  shows "delay_cap p s = Inr ((delay_step p ^^ (s - 1)) (initial_delay p))"
proof -
  have "(delay_step p ^^ (s - 1)) (initial_delay p) \<le> duration_max"
    using delay_iter_bounds [OF assms(1), of "s - 1"] assms(1) by (auto simp: policy_ok_def)
  then show ?thesis
    using assms delay_iter_bounds [OF assms(1), of 0]
    by (simp add: delay_cap_def delay_cap_loop_iterates duration_from_nanos_ok)
qed

lemma delay_iter_mono:
  assumes "policy_ok p" and "j \<le> k"
  shows "(delay_step p ^^ j) (initial_delay p) \<le> (delay_step p ^^ k) (initial_delay p)"
  using assms(2)
proof (induction k rule: dec_induct)
  case (step n)
  then show ?case
    using delay_step_grows(1) [OF assms(1)] delay_iter_bounds [OF assms(1), of n] le_trans
    by fastforce
qed simp

section \<open>The contract of a delay schedule\<close>

locale delay_schedule =
  fixes cap :: "nat \<Rightarrow> (backoff_error, duration) result"
    and jitter :: "nat \<Rightarrow> nat \<Rightarrow> (backoff_error, duration) result"
    and first :: duration
    and limit :: duration
  assumes cap_none: "cap 0 = Inl BackoffError"
    and cap_some: "0 < s \<Longrightarrow> \<exists>d. cap s = Inr d \<and> first \<le> d \<and> d \<le> limit"
    and cap_mono: "0 < s \<Longrightarrow> s \<le> t \<Longrightarrow> cap s = Inr d \<Longrightarrow> cap t = Inr e \<Longrightarrow> d \<le> e"
    and jitter_within: "0 < s \<Longrightarrow> sample \<le> umax 64 \<Longrightarrow> cap s = Inr d \<Longrightarrow>
          \<exists>j. jitter s sample = Inr j \<and> j \<le> d"
begin

text \<open>Whatever the failure streak and the random sample, a retry never waits longer than the limit.\<close>

lemma jitter_limit:
  assumes "0 < s" and "sample \<le> umax 64"
  shows "\<exists>j. jitter s sample = Inr j \<and> j \<le> limit"
  using cap_some [OF assms(1)] jitter_within [OF assms] le_trans by blast

lemma cap_defined: "(\<exists>d. cap s = Inr d) \<longleftrightarrow> 0 < s"
  using cap_none cap_some by (cases s) auto

end

text \<open>
  The product \<open>cap * sample\<close> of the jitter is checked at 128 bits: it fits whenever the
  cap is below \<open>2 ^ 64\<close> nanoseconds (about 584 years).
\<close>

lemma full_jitter_eq:
  assumes "policy_ok p" and "maximum_delay p \<le> umax 64"
    and "0 < s" and "sample \<le> umax 64" and "delay_cap p s = Inr d"
  shows "full_jitter p s sample = Inr (d * sample div umax 64)"
    and "d * sample div umax 64 \<le> d"
proof -
  have d: "d \<le> maximum_delay p" and dm: "d \<le> duration_max"
    using assms delay_iter_bounds [OF assms(1), of "s - 1"] by (auto simp: delay_cap_eq policy_ok_def)
  have "d * sample \<le> umax 64 * umax 64" using d assms(2,4) by (intro mult_le_mono) simp_all
  also have "\<dots> \<le> umax 128" by (simp add: umax_def)
  finally have fits: "d * sample \<le> umax 128" .
  have "d * sample \<le> d * umax 64" using assms(4) by simp
  then have "d * sample div umax 64 \<le> d * umax 64 div umax 64" by (rule div_le_mono)
  then show le: "d * sample div umax 64 \<le> d" by (simp add: umax_def)
  then have "d * sample div umax 64 \<le> duration_max" using dm by simp
  then show "full_jitter p s sample = Inr (d * sample div umax 64)"
    using fits assms(5) by (simp add: full_jitter_def checked_mul_def duration_from_nanos_ok)
qed

lemma policy_delay_schedule:
  assumes "policy_ok p" and "maximum_delay p \<le> umax 64"
  shows "delay_schedule (delay_cap p) (full_jitter p) (initial_delay p) (maximum_delay p)"
proof unfold_locales
  fix s t d e sample :: nat
  show "delay_cap p 0 = Inl BackoffError" by (simp add: delay_cap_def)
  show "\<exists>d. delay_cap p s = Inr d \<and> initial_delay p \<le> d \<and> d \<le> maximum_delay p" if "0 < s"
    using delay_iter_bounds [OF assms(1)] by (auto simp: delay_cap_eq [OF assms(1) that])
  show "d \<le> e" if "0 < s" "s \<le> t" "delay_cap p s = Inr d" "delay_cap p t = Inr e"
    using that delay_iter_mono [OF assms(1), of "s - 1" "t - 1"] assms(1)
    by (auto simp: delay_cap_eq)
  show "\<exists>j. full_jitter p s sample = Inr j \<and> j \<le> d"
    if "0 < s" "sample \<le> umax 64" "delay_cap p s = Inr d"
    using full_jitter_eq [OF assms that] by blast
qed

interpretation session_backoff: delay_schedule
  "delay_cap create_read_session_policy" "full_jitter create_read_session_policy"
  "from_millis 100" "from_secs 60"
  using policy_delay_schedule [OF create_read_session_policy_ok]
  by (simp add: create_read_session_policy_def duration_defs)

section \<open>Properties\<close>

lemma session_delay_step: "delay_step create_read_session_policy n = min (n * 13 div 10) 60000000000"
  by (simp add: delay_step_def create_read_session_policy_def from_secs_def)

lemma funpow_numeral_step: "(f ^^ numeral k) x = f ((f ^^ pred_numeral k) x)"
  by (simp add: numeral_eq_Suc)

lemma session_delay_25: "(delay_step create_read_session_policy ^^ 24) 100000000 = 54280076951"
  by (simp add: funpow_numeral_step session_delay_step)

lemma session_delay_26: "(delay_step create_read_session_policy ^^ 25) 100000000 = 60000000000"
  by (simp add: funpow_numeral_step session_delay_step)

section \<open>Properties\<close>

text \<open>
  For every policy the constructor accepts, the delay of any failure streak is defined (the
  128-bit product never overflows), starts at the initial delay, never shrinks as the streak grows,
  and never passes the maximum; a streak of zero is rejected.
\<close>

theorem delay_cap_bounded_monotone:
  assumes "policy_new initial numerator denominator maximum = Inr p"
    and "numerator \<le> umax 32" and "maximum \<le> duration_max" and "0 < s" and "s \<le> t"
  shows "\<exists>a b. delay_cap p s = Inr a \<and> delay_cap p t = Inr b \<and> initial \<le> a \<and> a \<le> b \<and> b \<le> maximum
    \<and> delay_cap p 1 = Inr initial \<and> delay_cap p 0 = Inl BackoffError"
proof -
  have ok: "policy_ok p" using policy_new_ok assms(1-3) by blast
  have p: "initial_delay p = initial" "maximum_delay p = maximum"
    using assms(1) by (auto simp: policy_new_Inr)
  show ?thesis
    using delay_iter_bounds [OF ok] delay_iter_mono [OF ok, of "s - 1" "t - 1"] assms(4,5) p
    by (auto simp: delay_cap_eq [OF ok] delay_cap_def [of p 0])
qed

theorem delay_cap_bounded_monotone_witness:
  "\<exists>p. read_rows_policy (from_millis 100) (from_secs 60) = Inr p \<and>
     (\<exists>a b. delay_cap p 3 = Inr a \<and> delay_cap p 9 = Inr b \<and> from_millis 100 \<le> a \<and> a \<le> b \<and>
       b \<le> from_secs 60 \<and> delay_cap p 1 = Inr (from_millis 100) \<and> delay_cap p 0 = Inl BackoffError)"
proof -
  obtain p where p: "policy_new (from_millis 100) 13 10 (from_secs 60) = Inr p"
    by (auto simp: policy_new_def duration_defs)
  have "(13::nat) \<le> umax 32" "from_secs 60 \<le> duration_max" by (simp_all add: duration_defs)
  from delay_cap_bounded_monotone [OF p this, of 3 9] p show ?thesis
    by (auto simp: read_rows_policy_def)
qed

text \<open>
  The policy of session creation reaches its one-minute maximum exactly at the 26th
  consecutive failure and stays there.
\<close>

theorem session_delay_saturates:
  "delay_cap create_read_session_policy s = Inr (from_secs 60) \<longleftrightarrow> 26 \<le> s"
proof -
  let ?p = create_read_session_policy
  have init: "initial_delay ?p = 100000000" "maximum_delay ?p = 60000000000"
    by (simp_all add: create_read_session_policy_def duration_defs)
  have up: "(delay_step ?p ^^ (s - 1)) 100000000 = 60000000000" if "26 \<le> s"
    using delay_iter_mono [OF create_read_session_policy_ok, of 25 "s - 1"] that
      delay_iter_bounds [OF create_read_session_policy_ok, of "s - 1"] session_delay_26 init by auto
  have low: "(delay_step ?p ^^ (s - 1)) 100000000 < 60000000000" if "s < 26"
  proof -
    have "s - 1 \<le> 24" using that by arith
    from delay_iter_mono [OF create_read_session_policy_ok this] show ?thesis
      using session_delay_25 init by simp
  qed
  show ?thesis
  proof (cases "s = 0")
    case True
    then show ?thesis by (simp add: delay_cap_def)
  next
    case False
    then show ?thesis
      using up low init delay_cap_eq [OF create_read_session_policy_ok, of s]
      by (cases "26 \<le> s") (auto simp: from_secs_def)
  qed
qed

text \<open>
  Full jitter never fails and never exceeds the cap of its streak, for every 64-bit random
  sample, as long as the configured maximum is below \<open>2 ^ 64\<close> nanoseconds; the largest sample
  yields the whole cap.
\<close>

theorem full_jitter_within_cap:
  assumes "policy_new initial numerator denominator maximum = Inr p"
    and "numerator \<le> umax 32" and "maximum \<le> umax 64" and "0 < s" and "sample \<le> umax 64"
  shows "\<exists>cap j. delay_cap p s = Inr cap \<and> full_jitter p s sample = Inr j \<and> j \<le> cap \<and> cap \<le> maximum
    \<and> full_jitter p s (umax 64) = Inr cap"
proof -
  have "umax 64 \<le> duration_max" by (simp add: duration_defs)
  then have ok: "policy_ok p" using policy_new_ok assms(1-3) le_trans by blast
  have p: "initial_delay p = initial" "maximum_delay p = maximum"
    using assms(1) by (auto simp: policy_new_Inr)
  define cap where "cap = (delay_step p ^^ (s - 1)) (initial_delay p)"
  have c: "delay_cap p s = Inr cap" using delay_cap_eq [OF ok assms(4)] by (simp add: cap_def)
  have "cap \<le> maximum" using delay_iter_bounds [OF ok, of "s - 1"] p by (simp add: cap_def)
  moreover have "cap * umax 64 div umax 64 = cap" by (simp add: umax_def)
  ultimately show ?thesis
    using full_jitter_eq [OF ok _ assms(4) assms(5) c] full_jitter_eq(1) [OF ok _ assms(4) le_refl c]
      p assms(3) c by auto
qed

theorem full_jitter_within_cap_witness:
  "\<exists>p cap j. read_rows_policy (from_millis 100) (from_secs 60) = Inr p \<and> delay_cap p 4 = Inr cap \<and>
     full_jitter p 4 12345 = Inr j \<and> j \<le> cap \<and> cap \<le> from_secs 60 \<and> full_jitter p 4 (umax 64) = Inr cap"
proof -
  obtain p where p: "policy_new (from_millis 100) 13 10 (from_secs 60) = Inr p"
    by (auto simp: policy_new_def duration_defs)
  have "(13::nat) \<le> umax 32" "from_secs 60 \<le> umax 64" "(12345::nat) \<le> umax 64"
    by (simp_all add: duration_defs)
  from full_jitter_within_cap [OF p this(1,2) _ this(3), of 4] p show ?thesis
    by (auto simp: read_rows_policy_def)
qed

end
