(* ===== verification/Retry_Budget.thy ===== *)
theory Retry_Budget
  imports Retry_Backoff
begin

text \<open>
  Deadline planning of the BigQuery input
  (\<open>crates/silk-chiffon-input-bigquery/src/retry/budget.rs\<close>): a budget is fixed when an
  operation starts and every retry is planned inside it. All instants are durations on the
  monotonic clock. The locale \<open>retry_planner\<close> is the contract the reconnecting stream and
  the session creation rely on; \<open>plan_retry\<close> of a constructed budget provides it.
\<close>

section \<open>Budgets and plans\<close>

datatype retry_scope = CreateReadSession | ReadRows

datatype retry_delay = Backoff duration | ServerMinimum duration

record retry_plan =
  plan_scope :: retry_scope
  plan_attempt :: nat
  plan_delay :: duration
  plan_attempt_timeout :: duration
  plan_attempt_deadline :: duration

record retry_budget =
  budget_scope :: retry_scope
  started :: duration
  retry_deadline :: duration
  max_attempts :: nat
  attempt_timeout :: duration
  session_deadline :: "duration option"

datatype budget_error =
    InvalidDeadline
  | ArithmeticOverflow
  | NonMonotonicClock
  | AttemptCounterOverflow
  | AttemptsExhausted
  | DeadlineExhausted
  | ServerDelayExceedsDeadline

definition create_read_session_retry_window :: duration where
  "create_read_session_retry_window = from_secs (10 * 60)"

definition session_expiry_safety_margin :: duration where
  "session_expiry_safety_margin = from_secs 60"

definition effective_deadline :: "retry_budget \<Rightarrow> duration" where
  "effective_deadline b =
     (case session_deadline b of None \<Rightarrow> retry_deadline b | Some s \<Rightarrow> min (retry_deadline b) s)"

definition is_session_limited :: "retry_budget \<Rightarrow> bool" where
  "is_session_limited b =
     (case session_deadline b of None \<Rightarrow> False | Some s \<Rightarrow> s \<le> retry_deadline b)"

definition budget_new ::
  "retry_scope \<Rightarrow> duration \<Rightarrow> duration \<Rightarrow> nat \<Rightarrow> duration \<Rightarrow> duration option \<Rightarrow> duration \<Rightarrow>
   (budget_error, retry_budget) result" where
  "budget_new scope start window attempts timeout expiration margin =
     (if window = 0 \<or> attempts = 0 \<or> timeout = 0 then Inl InvalidDeadline
      else res_bind (ok_or ArithmeticOverflow (checked_add duration_max start window)) (\<lambda>deadline.
        res_bind
          (case expiration of
             None \<Rightarrow> Inr None
           | Some d \<Rightarrow> (case checked_sub d margin of
               None \<Rightarrow> Inl InvalidDeadline
             | Some s \<Rightarrow> Inr (Some s)))
          (\<lambda>session.
            let b = \<lparr>budget_scope = scope, started = start, retry_deadline = deadline,
                     max_attempts = attempts, attempt_timeout = timeout, session_deadline = session\<rparr>
            in if effective_deadline b < start then Inl InvalidDeadline else Inr b)))"

definition create_read_session_budget ::
  "duration \<Rightarrow> duration \<Rightarrow> (budget_error, retry_budget) result" where
  "create_read_session_budget start timeout =
     budget_new CreateReadSession start create_read_session_retry_window (umax 32) timeout None 0"

definition read_rows_budget ::
  "duration \<Rightarrow> duration \<Rightarrow> nat \<Rightarrow> duration \<Rightarrow> duration option \<Rightarrow>
   (budget_error, retry_budget) result" where
  "read_rows_budget start window attempts timeout expiration =
     budget_new ReadRows start window attempts timeout expiration session_expiry_safety_margin"

section \<open>Planning a retry\<close>

definition plan_retry ::
  "retry_budget \<Rightarrow> duration \<Rightarrow> duration \<Rightarrow> nat \<Rightarrow> retry_delay \<Rightarrow>
   (budget_error, retry_plan) result" where
  "plan_retry b previous_observation now completed_attempts proposed =
     (if previous_observation < started b \<or> now < previous_observation then Inl NonMonotonicClock
      else res_bind (ok_or AttemptCounterOverflow (checked_add (umax 32) completed_attempts 1)) (\<lambda>attempt.
        if attempt > max_attempts b then Inl AttemptsExhausted
        else (let deadline = effective_deadline b in
          res_bind (ok_or DeadlineExhausted (checked_sub deadline (attempt_timeout b))) (\<lambda>latest_start.
          res_bind (ok_or DeadlineExhausted (checked_sub latest_start now)) (\<lambda>available.
          res_bind
            (case proposed of
               Backoff delay \<Rightarrow> Inr (min delay available)
             | ServerMinimum delay \<Rightarrow>
                 (if delay \<le> available then Inr delay else Inl ServerDelayExceedsDeadline))
            (\<lambda>delay.
          res_bind (ok_or ArithmeticOverflow (checked_add duration_max now delay)) (\<lambda>attempt_start.
          res_bind (ok_or ArithmeticOverflow
                     (checked_add duration_max attempt_start (attempt_timeout b))) (\<lambda>attempt_deadline.
            if attempt_deadline > deadline then Inl DeadlineExhausted
            else Inr \<lparr>plan_scope = budget_scope b, plan_attempt = attempt, plan_delay = delay,
                      plan_attempt_timeout = attempt_timeout b,
                      plan_attempt_deadline = attempt_deadline\<rparr>))))))))"

section \<open>The invariant of budgets\<close>

definition budget_ok :: "retry_budget \<Rightarrow> bool" where
  "budget_ok b \<longleftrightarrow>
     started b \<le> effective_deadline b \<and> 0 < max_attempts b \<and> 0 < attempt_timeout b \<and>
     retry_deadline b \<le> duration_max"

lemma budget_new_Inr:
  assumes "budget_new scope start window attempts timeout expiration margin = Inr b"
  shows "budget_ok b" and "budget_scope b = scope" and "started b = start"
    and "retry_deadline b = start + window" and "max_attempts b = attempts"
    and "attempt_timeout b = timeout"
    and "\<And>d. expiration = Some d \<Longrightarrow> margin \<le> d \<and> session_deadline b = Some (d - margin)"
    and "expiration = None \<Longrightarrow> session_deadline b = None"
  using assms
  by (auto simp: budget_new_def budget_ok_def res_bind_Inr_conv ok_or_Inr_conv checked_add_Some
      checked_sub_Some not_less Let_def split: if_splits option.splits)

lemma effective_deadline_le: "effective_deadline b \<le> retry_deadline b"
  by (auto simp: effective_deadline_def split: option.splits)

section \<open>What a plan promises\<close>

text \<open>
  The specification of planning: when the clock is monotone and an attempt is left, a retry is
  planned exactly if a whole attempt of \<open>attempt_timeout\<close> still fits before the effective
  deadline (after the server's minimum delay, if there is one); a local backoff is shortened to fit.
\<close>

definition spec_delay :: "duration \<Rightarrow> retry_delay \<Rightarrow> duration option" where
  "spec_delay room proposed =
     (case proposed of
        Backoff d \<Rightarrow> Some (min d room)
      | ServerMinimum d \<Rightarrow> (if d \<le> room then Some d else None))"

lemma spec_delay_le: "spec_delay room proposed = Some d \<Longrightarrow> d \<le> room"
  by (auto simp: spec_delay_def split: retry_delay.splits if_splits)

lemma plan_retry_success:
  assumes "budget_ok b" and "started b \<le> prev" and "prev \<le> now"
    and "Suc completed \<le> max_attempts b" and "Suc completed \<le> umax 32"
    and room: "now + attempt_timeout b \<le> effective_deadline b"
    and delay: "spec_delay (effective_deadline b - attempt_timeout b - now) proposed = Some d"
  shows "plan_retry b prev now completed proposed =
    Inr \<lparr>plan_scope = budget_scope b, plan_attempt = Suc completed, plan_delay = d,
         plan_attempt_timeout = attempt_timeout b,
         plan_attempt_deadline = now + d + attempt_timeout b\<rparr>"
proof -
  have "effective_deadline b \<le> duration_max"
    using effective_deadline_le [of b] assms(1) by (auto simp: budget_ok_def)
  then show ?thesis
    using assms(2-6) delay
    by (cases proposed) (auto simp: plan_retry_def spec_delay_def Let_def checked_add_def
        checked_sub_def split: if_splits)
qed

lemma plan_retry_Inr_iff:
  assumes "budget_ok b"
  shows "plan_retry b prev now completed proposed = Inr plan \<longleftrightarrow>
    started b \<le> prev \<and> prev \<le> now \<and> Suc completed \<le> max_attempts b \<and> Suc completed \<le> umax 32 \<and>
    now + attempt_timeout b \<le> effective_deadline b \<and>
    (\<exists>d. spec_delay (effective_deadline b - attempt_timeout b - now) proposed = Some d \<and>
      plan = \<lparr>plan_scope = budget_scope b, plan_attempt = Suc completed, plan_delay = d,
         plan_attempt_timeout = attempt_timeout b,
         plan_attempt_deadline = now + d + attempt_timeout b\<rparr>)" (is "?L \<longleftrightarrow> ?R")
proof
  assume L: ?L
  then have pre: "started b \<le> prev" "prev \<le> now" "Suc completed \<le> max_attempts b"
      "Suc completed \<le> umax 32" "now + attempt_timeout b \<le> effective_deadline b"
    and "\<exists>d. spec_delay (effective_deadline b - attempt_timeout b - now) proposed = Some d"
    by (auto simp: plan_retry_def res_bind_Inr_conv ok_or_Inr_conv checked_add_Some checked_sub_Some
        spec_delay_def Let_def not_less split: if_splits retry_delay.splits)
  then obtain d where
    d: "spec_delay (effective_deadline b - attempt_timeout b - now) proposed = Some d" by blast
  from plan_retry_success [OF assms pre d] L d pre show ?R by simp
next
  assume ?R
  then show ?L using plan_retry_success [OF assms] by blast
qed

lemma plan_retry_errors:
  assumes "budget_ok b"
  shows "plan_retry b prev now completed proposed \<noteq> Inl ArithmeticOverflow"
proof
  assume L: "plan_retry b prev now completed proposed = Inl ArithmeticOverflow"
  have "effective_deadline b \<le> duration_max"
    using effective_deadline_le [of b] assms by (auto simp: budget_ok_def)
  with L show False
    by (auto simp: plan_retry_def res_bind_def ok_or_def checked_add_def checked_sub_def Let_def
        split: if_splits retry_delay.splits)
qed

section \<open>The contract of a planner\<close>

locale retry_planner =
  fixes plan :: "duration \<Rightarrow> duration \<Rightarrow> nat \<Rightarrow> retry_delay \<Rightarrow> (budget_error, retry_plan) result"
    and start :: duration
    and deadline :: duration
    and attempts :: nat
    and timeout :: duration
  assumes timeout_pos: "0 < timeout"
    and plan_ok: "plan prev now completed proposed = Inr p \<Longrightarrow>
      start \<le> prev \<and> prev \<le> now \<and> plan_attempt p = Suc completed \<and> plan_attempt p \<le> attempts \<and>
      plan_attempt_deadline p = now + plan_delay p + timeout \<and> plan_attempt_deadline p \<le> deadline"
begin

text \<open>A planned retry starts strictly before the deadline, with room for one whole attempt.\<close>

lemma plan_starts_before_deadline:
  "plan prev now completed proposed = Inr p \<Longrightarrow> now + plan_delay p < deadline"
  using plan_ok [of prev now completed proposed p] timeout_pos by auto

text \<open>After the deadline, and after the last attempt, nothing is planned.\<close>

lemma no_plan_after_deadline: "deadline \<le> now \<Longrightarrow> \<not> is_ok (plan prev now completed proposed)"
  using plan_starts_before_deadline [of prev now completed proposed] by (auto simp: is_ok_conv)

lemma no_plan_after_last_attempt: "attempts \<le> completed \<Longrightarrow> \<not> is_ok (plan prev now completed proposed)"
  using plan_ok [of prev now completed proposed] by (fastforce simp: is_ok_conv)

end

lemma budget_retry_planner:
  assumes "budget_ok b"
  shows "retry_planner (plan_retry b) (started b) (effective_deadline b) (max_attempts b)
    (attempt_timeout b)"
  using assms
  by unfold_locales (auto simp: plan_retry_Inr_iff budget_ok_def dest: spec_delay_le)

lemma create_session_budget_ok:
  "create_read_session_budget 0 (from_secs 60) =
     Inr \<lparr>budget_scope = CreateReadSession, started = 0, retry_deadline = from_secs 600,
          max_attempts = umax 32, attempt_timeout = from_secs 60, session_deadline = None\<rparr>"
  by (simp add: create_read_session_budget_def budget_new_def checked_add_def duration_defs
      create_read_session_retry_window_def effective_deadline_def Let_def)

section \<open>A budget of session creation\<close>

text \<open>
  The budget that session creation builds at clock zero with a one-minute attempt timeout provides
  the planner contract.
\<close>

definition session_budget :: retry_budget where
  "session_budget =
     \<lparr>budget_scope = CreateReadSession, started = 0, retry_deadline = from_secs 600,
      max_attempts = umax 32, attempt_timeout = from_secs 60, session_deadline = None\<rparr>"

lemma session_budget_created: "create_read_session_budget 0 (from_secs 60) = Inr session_budget"
  by (simp add: create_session_budget_ok session_budget_def)

lemma session_budget_ok: "budget_ok session_budget"
  using session_budget_created unfolding create_read_session_budget_def by (rule budget_new_Inr)

interpretation session_planner: retry_planner
  "plan_retry session_budget" "started session_budget" "effective_deadline session_budget"
  "max_attempts session_budget" "attempt_timeout session_budget"
  by (rule budget_retry_planner [OF session_budget_ok])

section \<open>Properties\<close>

text \<open>
  C33: Planning is sound and complete: for a constructed budget a retry is planned exactly when the
  clock is monotone, an attempt is left, and a whole attempt (after the server's minimum delay, if
  any) ends by the effective deadline; the plan then is the next attempt with the requested delay,
  a local backoff being cut down to the remaining room. Deadline arithmetic never overflows.
\<close>

theorem plan_retry_sound_and_complete:
  assumes "budget_new scope start window attempts timeout expiration margin = Inr b"
  shows "plan_retry b prev now completed proposed \<noteq> Inl ArithmeticOverflow \<and>
    (plan_retry b prev now completed proposed = Inr plan \<longleftrightarrow>
      start \<le> prev \<and> prev \<le> now \<and> Suc completed \<le> attempts \<and> Suc completed \<le> umax 32 \<and>
      now + timeout \<le> effective_deadline b \<and>
      (\<exists>d. spec_delay (effective_deadline b - timeout - now) proposed = Some d \<and>
        plan = \<lparr>plan_scope = scope, plan_attempt = Suc completed, plan_delay = d,
          plan_attempt_timeout = timeout, plan_attempt_deadline = now + d + timeout\<rparr>))"
  using plan_retry_Inr_iff [OF budget_new_Inr(1) [OF assms]] budget_new_Inr(2,3,5,6) [OF assms]
    plan_retry_errors [OF budget_new_Inr(1) [OF assms]] by simp

theorem plan_retry_sound_and_complete_witness:
  "plan_retry session_budget 0 (from_secs 5) 1 (ServerMinimum (from_secs 7)) =
     Inr \<lparr>plan_scope = CreateReadSession, plan_attempt = 2, plan_delay = from_secs 7,
         plan_attempt_timeout = from_secs 60, plan_attempt_deadline = from_secs 72\<rparr>"
proof -
  have n: "budget_new CreateReadSession 0 create_read_session_retry_window (umax 32) (from_secs 60)
      None 0 = Inr session_budget"
    using session_budget_created by (simp add: create_read_session_budget_def)
  show ?thesis
    using plan_retry_sound_and_complete [OF n, of 0 "from_secs 5" 1 "ServerMinimum (from_secs 7)"
        "\<lparr>plan_scope = CreateReadSession, plan_attempt = 2, plan_delay = from_secs 7,
          plan_attempt_timeout = from_secs 60, plan_attempt_deadline = from_secs 72\<rparr>"]
    by (simp add: session_budget_def effective_deadline_def spec_delay_def duration_defs)
qed

text \<open>
  No attempt planned for a ReadRows budget may still run when the read session expires: the
  planned attempt ends at least the one-minute safety margin before the expiration.
\<close>

theorem planned_attempt_ends_before_session_expiry:
  assumes "read_rows_budget start window attempts timeout (Some expiration) = Inr b"
    and "plan_retry b prev now completed proposed = Inr plan"
  shows "now \<le> plan_attempt_deadline plan \<and> plan_attempt_deadline plan = now + plan_delay plan + timeout \<and>
    plan_attempt_deadline plan + from_secs 60 \<le> expiration \<and>
    plan_attempt_deadline plan \<le> start + window"
proof -
  note b = budget_new_Inr [OF assms(1) [unfolded read_rows_budget_def]]
  have "effective_deadline b + session_expiry_safety_margin \<le> expiration"
    "effective_deadline b \<le> start + window"
    using b(4) b(7) [OF refl] by (auto simp: effective_deadline_def)
  then show ?thesis
    using retry_planner.plan_ok [OF budget_retry_planner [OF b(1)] assms(2)] b(6)
    by (auto simp: session_expiry_safety_margin_def)
qed

theorem planned_attempt_ends_before_session_expiry_witness:
  "\<exists>b plan. read_rows_budget 0 (from_secs 86400) 9 (from_secs 60) (Some (from_secs 21600)) = Inr b \<and>
     plan_retry b 0 (from_secs 10) 1 (Backoff (from_secs 3)) = Inr plan \<and>
     plan_attempt_deadline plan + from_secs 60 \<le> from_secs 21600"
proof -
  obtain b where b: "read_rows_budget 0 (from_secs 86400) 9 (from_secs 60) (Some (from_secs 21600)) = Inr b"
    by (simp add: read_rows_budget_def budget_new_def duration_defs checked_add_def checked_sub_def
        session_expiry_safety_margin_def effective_deadline_def Let_def)
  obtain plan where p: "plan_retry b 0 (from_secs 10) 1 (Backoff (from_secs 3)) = Inr plan"
    using b by (auto simp: read_rows_budget_def budget_new_def duration_defs checked_add_def
        checked_sub_def session_expiry_safety_margin_def effective_deadline_def Let_def plan_retry_def)
  show ?thesis using planned_attempt_ends_before_session_expiry [OF b p] b p by blast
qed

end
