(* ===== verification/Retry_Classify.thy ===== *)
theory Retry_Classify
  imports Retry_Budget
begin

text \<open>
  Retry evidence and classification of failures of the BigQuery Storage Read calls
  (\<open>crates/silk-chiffon-input-bigquery/src/retry/mod.rs\<close> and
  \<open>retry/status_detail.rs\<close>): the structured details of a gRPC status, the transport evidence
  in its error chain, and the decision to retry or to stop. The protobuf decoders are generated
  code outside the repository and are a parameter (\<open>detail_decoders\<close>).
\<close>

section \<open>Statuses and their details\<close>

datatype grpc_code =
    GrpcOk | Cancelled | Unknown | InvalidArgument | DeadlineExceeded | NotFound | AlreadyExists
  | PermissionDenied | ResourceExhausted | FailedPrecondition | Aborted | OutOfRange
  | Unimplemented | Internal | Unavailable | DataLoss | Unauthenticated

fun code_as_i32 :: "grpc_code \<Rightarrow> int" where
  "code_as_i32 GrpcOk = 0"
| "code_as_i32 Cancelled = 1"
| "code_as_i32 Unknown = 2"
| "code_as_i32 InvalidArgument = 3"
| "code_as_i32 DeadlineExceeded = 4"
| "code_as_i32 NotFound = 5"
| "code_as_i32 AlreadyExists = 6"
| "code_as_i32 PermissionDenied = 7"
| "code_as_i32 ResourceExhausted = 8"
| "code_as_i32 FailedPrecondition = 9"
| "code_as_i32 Aborted = 10"
| "code_as_i32 OutOfRange = 11"
| "code_as_i32 Unimplemented = 12"
| "code_as_i32 Internal = 13"
| "code_as_i32 Unavailable = 14"
| "code_as_i32 DataLoss = 15"
| "code_as_i32 Unauthenticated = 16"

datatype storage_error_code =
    SecUnspecified | TableNotFound | StreamAlreadyCommitted | StreamNotFound | InvalidStreamType
  | InvalidStreamState | StreamFinalized | SchemaMismatchExtraFields | OffsetAlreadyExists
  | OffsetOutOfRange | CmekNotProvided | InvalidCmekProvided | CmekEncryptionError
  | KmsServiceError | KmsPermissionDenied

definition storage_error_codes :: "storage_error_code list" where
  "storage_error_codes =
     [SecUnspecified, TableNotFound, StreamAlreadyCommitted, StreamNotFound, InvalidStreamType,
      InvalidStreamState, StreamFinalized, SchemaMismatchExtraFields, OffsetAlreadyExists,
      OffsetOutOfRange, CmekNotProvided, InvalidCmekProvided, CmekEncryptionError,
      KmsServiceError, KmsPermissionDenied]"

definition storage_error_code_try_from :: "int \<Rightarrow> storage_error_code option" where
  "storage_error_code_try_from n =
     (if 0 \<le> n \<and> n < 15 then Some (storage_error_codes ! nat n) else None)"

record hyper_error =
  hyper_is_closed :: bool
  hyper_is_incomplete_message :: bool

record grpc_status =
  status_code :: grpc_code
  status_details :: string
  status_sources :: "hyper_error option list"

record any_detail =
  type_url :: string
  any_value :: string

record rpc_status =
  envelope_code :: int
  envelope_details :: "any_detail list"

record detail_decoders =
  decode_rpc_status :: "string \<Rightarrow> rpc_status option"
  decode_retry_info :: "string \<Rightarrow> (int \<times> int) option option"
  decode_storage_error :: "string \<Rightarrow> int option"

datatype status_detail_error =
    MalformedEnvelope | CodeMismatch | MalformedTypeUrl | MalformedRetryInfo | MissingRetryDelay
  | InvalidRetryDelay | DuplicateRetryInfo | MalformedStorageError | DuplicateStorageError
  | ConflictingDetails

record parsed_details =
  pd_status_code :: grpc_code
  pd_retry_delay :: "duration option"
  pd_storage_error_code :: "storage_error_code option"

definition retry_info_url :: string where
  "retry_info_url = ''type.googleapis.com/google.rpc.RetryInfo''"

definition storage_error_url :: string where
  "storage_error_url = ''type.googleapis.com/google.cloud.bigquery.storage.v1.StorageError''"

definition proto_duration_max_seconds :: int where
  "proto_duration_max_seconds = 315576000000"

definition validate_type_url :: "string \<Rightarrow> (status_detail_error, unit) result" where
  "validate_type_url url =
     (case rsplit_once_on (CHR ''/'') url of
        None \<Rightarrow> Inl MalformedTypeUrl
      | Some (before, name) \<Rightarrow>
          (if before = [] \<or> name = [] \<or>
              \<not> list_all (\<lambda>part. part \<noteq> [] \<and>
                   list_all (\<lambda>byte. is_ascii_alphanumeric byte \<or> byte = CHR ''_'') part)
                 (split_on (CHR ''.'') name)
           then Inl MalformedTypeUrl else Inr ()))"

definition retry_duration :: "int \<Rightarrow> int \<Rightarrow> (status_detail_error, duration) result" where
  "retry_duration seconds nanos =
     (if \<not> (0 \<le> seconds \<and> seconds \<le> proto_duration_max_seconds) \<or> \<not> (0 \<le> nanos \<and> nanos < 1000000000)
      then Inl InvalidRetryDelay
      else Inr (duration_new (nat seconds) (nat nanos)))"

text \<open>One iteration of the loop over \<open>envelope.details\<close>.\<close>

definition parse_detail ::
  "detail_decoders \<Rightarrow> any_detail \<Rightarrow> duration option \<times> storage_error_code option \<Rightarrow>
   (status_detail_error, duration option \<times> storage_error_code option) result" where
  "parse_detail dec detail acc =
     (let (retry_delay, error_code) = acc in
      res_bind (validate_type_url (type_url detail)) (\<lambda>_.
        if type_url detail = retry_info_url then
          (if retry_delay \<noteq> None then Inl DuplicateRetryInfo
           else (case decode_retry_info dec (any_value detail) of
                   None \<Rightarrow> Inl MalformedRetryInfo
                 | Some None \<Rightarrow> Inl MissingRetryDelay
                 | Some (Some (seconds, nanos)) \<Rightarrow>
                     res_bind (retry_duration seconds nanos) (\<lambda>d. Inr (Some d, error_code))))
        else if type_url detail = storage_error_url then
          (if error_code \<noteq> None then Inl DuplicateStorageError
           else (case decode_storage_error dec (any_value detail) of
                   None \<Rightarrow> Inl MalformedStorageError
                 | Some n \<Rightarrow>
                     (case storage_error_code_try_from n of
                        None \<Rightarrow> Inl MalformedStorageError
                      | Some code \<Rightarrow>
                          (if code = SecUnspecified then Inl MalformedStorageError
                           else Inr (retry_delay, Some code)))))
        else Inr acc))"

fun parse_details ::
  "detail_decoders \<Rightarrow> any_detail list \<Rightarrow> duration option \<times> storage_error_code option \<Rightarrow>
   (status_detail_error, duration option \<times> storage_error_code option) result" where
  "parse_details dec [] acc = Inr acc"
| "parse_details dec (d # ds) acc = res_bind (parse_detail dec d acc) (parse_details dec ds)"

definition status_details_parse ::
  "detail_decoders \<Rightarrow> grpc_status \<Rightarrow> (status_detail_error, parsed_details) result" where
  "status_details_parse dec status =
     (if status_details status = []
      then Inr \<lparr>pd_status_code = status_code status, pd_retry_delay = None,
                pd_storage_error_code = None\<rparr>
      else (case decode_rpc_status dec (status_details status) of
              None \<Rightarrow> Inl MalformedEnvelope
            | Some envelope \<Rightarrow>
                (if envelope_code envelope \<noteq> code_as_i32 (status_code status) then Inl CodeMismatch
                 else res_bind (parse_details dec (envelope_details envelope) (None, None))
                   (\<lambda>(retry_delay, error_code).
                      if retry_delay \<noteq> None \<and> error_code \<noteq> None then Inl ConflictingDetails
                      else Inr \<lparr>pd_status_code = status_code status, pd_retry_delay = retry_delay,
                                pd_storage_error_code = error_code\<rparr>))))"

section \<open>Evidence, reasons and decisions\<close>

datatype transport_evidence = ChannelClosed | IncompleteMessage

text \<open>
  \<open>TransportEvidence::from_status\<close> walks the chain of error sources; an entry is
  \<open>None\<close> when it is not a \<open>hyper::Error\<close>.
\<close>

fun evidence_from_sources :: "hyper_error option list \<Rightarrow> transport_evidence option" where
  "evidence_from_sources [] = None"
| "evidence_from_sources (None # rest) = evidence_from_sources rest"
| "evidence_from_sources (Some e # rest) =
     (if hyper_is_closed e then Some ChannelClosed
      else if hyper_is_incomplete_message e then Some IncompleteMessage
      else evidence_from_sources rest)"

datatype retry_reason =
    Credentials | GrpcDeadlineExceeded | GrpcUnavailable | GrpcResourceExhausted
  | GrpcStatus grpc_code | Transport transport_evidence | MalformedStatusDetails | IdleTimeout
  | SessionExpired | LostSessionState | RetryBudgetExhausted | Schema | Decode | OffsetOverflow
  | LocalResource

datatype retry_decision =
    Retry retry_scope retry_reason "duration option"
  | Permanent retry_scope retry_reason

fun decision_reason :: "retry_decision \<Rightarrow> retry_reason" where
  "decision_reason (Retry _ reason _) = reason"
| "decision_reason (Permanent _ reason) = reason"

fun decision_delay :: "retry_decision \<Rightarrow> duration \<Rightarrow> retry_delay option" where
  "decision_delay (Retry _ _ (Some delay)) backoff = Some (ServerMinimum (max delay backoff))"
| "decision_delay (Retry _ _ None) backoff = Some (Backoff backoff)"
| "decision_delay (Permanent _ _) backoff = None"

datatype create_failure =
    CreateStatus grpc_status | CreateTransientCredentials | CreateCredentials | CreateLocalResource

definition classify_create_status :: "detail_decoders \<Rightarrow> grpc_status \<Rightarrow> retry_decision" where
  "classify_create_status dec status =
     (case status_details_parse dec status of
        Inl _ \<Rightarrow> Permanent CreateReadSession MalformedStatusDetails
      | Inr details \<Rightarrow>
          (case status_code status of
             DeadlineExceeded \<Rightarrow> Retry CreateReadSession GrpcDeadlineExceeded (pd_retry_delay details)
           | Unavailable \<Rightarrow> Retry CreateReadSession GrpcUnavailable (pd_retry_delay details)
           | code \<Rightarrow> Permanent CreateReadSession (GrpcStatus code)))"

fun classify_create_read_session :: "detail_decoders \<Rightarrow> create_failure \<Rightarrow> retry_decision" where
  "classify_create_read_session dec CreateTransientCredentials = Retry CreateReadSession Credentials None"
| "classify_create_read_session dec CreateCredentials = Permanent CreateReadSession Credentials"
| "classify_create_read_session dec CreateLocalResource = Permanent CreateReadSession LocalResource"
| "classify_create_read_session dec (CreateStatus status) = classify_create_status dec status"

datatype read_rows_failure =
    RowsStatus grpc_status | RowsTransientCredentials | RowsCredentials | RowsIdleTimeout
  | RowsSessionExpired | RowsDecode | RowsLocalResource

definition classify_read_rows_status :: "detail_decoders \<Rightarrow> grpc_status \<Rightarrow> retry_decision" where
  "classify_read_rows_status dec status =
     (case status_details_parse dec status of
        Inl _ \<Rightarrow> Permanent ReadRows MalformedStatusDetails
      | Inr details \<Rightarrow>
          (if pd_storage_error_code details = Some StreamNotFound
           then Permanent ReadRows LostSessionState
           else if pd_storage_error_code details \<noteq> None
           then Permanent ReadRows (GrpcStatus (status_code status))
           else (case evidence_from_sources (status_sources status) of
                   Some evidence \<Rightarrow> Retry ReadRows (Transport evidence) None
                 | None \<Rightarrow>
                     (case status_code status of
                        DeadlineExceeded \<Rightarrow> Retry ReadRows GrpcDeadlineExceeded (pd_retry_delay details)
                      | Unavailable \<Rightarrow> Retry ReadRows GrpcUnavailable (pd_retry_delay details)
                      | ResourceExhausted \<Rightarrow>
                          (case pd_retry_delay details of
                             Some delay \<Rightarrow> Retry ReadRows GrpcResourceExhausted (Some delay)
                           | None \<Rightarrow> Permanent ReadRows (GrpcStatus ResourceExhausted))
                      | code \<Rightarrow> Permanent ReadRows (GrpcStatus code)))))"

fun classify_read_rows :: "detail_decoders \<Rightarrow> read_rows_failure \<Rightarrow> retry_decision" where
  "classify_read_rows dec (RowsStatus status) = classify_read_rows_status dec status"
| "classify_read_rows dec RowsTransientCredentials = Retry ReadRows Credentials None"
| "classify_read_rows dec RowsCredentials = Permanent ReadRows Credentials"
| "classify_read_rows dec RowsIdleTimeout = Retry ReadRows IdleTimeout None"
| "classify_read_rows dec RowsSessionExpired = Permanent ReadRows SessionExpired"
| "classify_read_rows dec RowsDecode = Permanent ReadRows Decode"
| "classify_read_rows dec RowsLocalResource = Permanent ReadRows LocalResource"

section \<open>What parsing accepts\<close>

lemma parse_detail_keeps:
  assumes "parse_detail dec d (delay, code) = Inr (delay', code')"
  shows "delay \<noteq> None \<Longrightarrow> delay' = delay" and "code \<noteq> None \<Longrightarrow> code' = code"
  using assms
  by (auto simp: parse_detail_def res_bind_Inr_conv split: if_splits option.splits)

lemma retry_duration_bound:
  "retry_duration s n = Inr d \<Longrightarrow> d \<le> from_secs 315576000000 + 999999999"
  by (auto simp: retry_duration_def proto_duration_max_seconds_def duration_defs split: if_splits)

lemma parse_detail_delay_bound:
  assumes "parse_detail dec d (delay, code) = Inr (Some x, code')"
    and "\<And>y. delay = Some y \<Longrightarrow> y \<le> from_secs 315576000000 + 999999999"
  shows "x \<le> from_secs 315576000000 + 999999999"
  using assms
  by (auto simp: parse_detail_def res_bind_Inr_conv split: if_splits option.splits
      dest: retry_duration_bound)

lemma parse_details_delay_bound:
  "parse_details dec ds (delay, code) = Inr (Some x, code') \<Longrightarrow>
   (\<And>y. delay = Some y \<Longrightarrow> y \<le> from_secs 315576000000 + 999999999) \<Longrightarrow>
   x \<le> from_secs 315576000000 + 999999999"
proof (induction ds arbitrary: delay code)
  case (Cons d ds)
  then obtain delay1 code1 where 1: "parse_detail dec d (delay, code) = Inr (delay1, code1)"
    and 2: "parse_details dec ds (delay1, code1) = Inr (Some x, code')"
    by (auto simp: res_bind_Inr_conv)
  show ?case
    using Cons.IH [OF 2] parse_detail_delay_bound [of dec d delay code] 1 Cons.prems(2) by blast
qed auto

lemma status_details_parse_Inr:
  assumes "status_details_parse dec status = Inr details"
  shows "pd_retry_delay details = None \<or> pd_storage_error_code details = None"
    and "pd_retry_delay details = Some d \<Longrightarrow> d \<le> from_secs 315576000000 + 999999999"
  using assms
  by (auto simp: status_details_parse_def res_bind_Inr_conv split: if_splits option.splits prod.splits
      dest: parse_details_delay_bound)

fun delay_of_decision :: "retry_decision \<Rightarrow> duration option" where
  "delay_of_decision (Retry _ _ d) = d"
| "delay_of_decision (Permanent _ _) = None"

definition is_retry :: "retry_decision \<Rightarrow> bool" where
  "is_retry d = (case d of Retry _ _ _ \<Rightarrow> True | Permanent _ _ \<Rightarrow> False)"

lemma is_retry_simps [simp]: "is_retry (Retry a b c)" "\<not> is_retry (Permanent a b)"
  by (simp_all add: is_retry_def)

section \<open>Properties\<close>

lemma classify_read_rows_status_retry:
  "is_retry (classify_read_rows_status dec status) \<longleftrightarrow>
     (\<exists>details. status_details_parse dec status = Inr details \<and>
        pd_storage_error_code details = None \<and>
        (evidence_from_sources (status_sources status) \<noteq> None \<or>
         status_code status \<in> {DeadlineExceeded, Unavailable} \<or>
         status_code status = ResourceExhausted \<and> pd_retry_delay details \<noteq> None))"
  by (cases "status_details_parse dec status")
     (auto simp: classify_read_rows_status_def split: option.splits grpc_code.splits)

lemma classify_create_status_retry:
  "is_retry (classify_create_status dec status) \<longleftrightarrow>
     is_ok (status_details_parse dec status) \<and> status_code status \<in> {DeadlineExceeded, Unavailable}"
  by (cases "status_details_parse dec status")
     (auto simp: classify_create_status_def split: grpc_code.splits)

text \<open>
  The complete retry table of gRPC statuses. A ReadRows status is retried exactly when its
  details parse, it carries no storage error, and it shows a closed or cut connection, a deadline or
  unavailability, or resource exhaustion for which the server named a delay. Session creation
  retries only deadlines and unavailability. Malformed details are never retried by either.
\<close>

theorem status_retry_table:
  "(is_retry (classify_read_rows dec (RowsStatus status)) \<longleftrightarrow>
     (\<exists>details. status_details_parse dec status = Inr details \<and>
        pd_storage_error_code details = None \<and>
        ((\<exists>e. evidence_from_sources (status_sources status) = Some e) \<or>
         status_code status \<in> {DeadlineExceeded, Unavailable} \<or>
         status_code status = ResourceExhausted \<and> (\<exists>d. pd_retry_delay details = Some d)))) \<and>
   (is_retry (classify_create_read_session dec (CreateStatus status)) \<longleftrightarrow>
     is_ok (status_details_parse dec status) \<and> status_code status \<in> {DeadlineExceeded, Unavailable})"
  by (simp only: classify_read_rows.simps classify_create_read_session.simps
      classify_read_rows_status_retry classify_create_status_retry simp_thms not_None_eq)

lemma spec_delay_server: "spec_delay room (ServerMinimum d) = Some x \<longleftrightarrow> x = d \<and> d \<le> room"
  by (auto simp: spec_delay_def)

text \<open>
  A delay the server asks for is honoured: when a status is retried with a server delay, the
  planned retry waits at least that long and at least the local backoff, and such a delay is at
  most the protobuf maximum of 315,576,000,000 seconds plus a fraction.
\<close>

theorem server_delay_honoured:
  assumes "classify_read_rows dec (RowsStatus status) = Retry scope reason (Some server)"
    and "decision_delay (Retry scope reason (Some server)) backoff = Some proposed"
    and "budget_new bscope start window attempts timeout expiration margin = Inr b"
    and "plan_retry b prev now completed proposed = Inr plan"
  shows "server \<le> plan_delay plan \<and> backoff \<le> plan_delay plan \<and>
    plan_delay plan = max server backoff \<and> server \<le> from_secs 315576000000 + 999999999"
proof -
  have "proposed = ServerMinimum (max server backoff)" using assms(2) by simp
  then have "plan_delay plan = max server backoff"
    using assms(4) plan_retry_Inr_iff [OF budget_new_Inr(1) [OF assms(3)]] by (auto simp: spec_delay_server)
  moreover have "server \<le> from_secs 315576000000 + 999999999"
    using assms(1) status_details_parse_Inr(2) [of dec status]
    by (cases "status_details_parse dec status")
       (auto simp: classify_read_rows_status_def split: if_splits option.splits grpc_code.splits)
  ultimately show ?thesis by auto
qed

definition sample_decoders :: detail_decoders where
  "sample_decoders =
     \<lparr>decode_rpc_status = (\<lambda>_. Some \<lparr>envelope_code = 8,
        envelope_details = [\<lparr>type_url = retry_info_url, any_value = []\<rparr>]\<rparr>),
      decode_retry_info = (\<lambda>_. Some (Some (2, 5))), decode_storage_error = (\<lambda>_. None)\<rparr>"

theorem server_delay_honoured_witness:
  "\<exists>plan. classify_read_rows sample_decoders
       (RowsStatus \<lparr>status_code = ResourceExhausted, status_details = ''x'', status_sources = []\<rparr>) =
       Retry ReadRows GrpcResourceExhausted (Some 2000000005) \<and>
     plan_retry session_budget 0 0 1 (ServerMinimum 2000000005) = Inr plan \<and>
     plan_delay plan = max 2000000005 100"
proof -
  let ?st = "\<lparr>status_code = ResourceExhausted, status_details = ''x'', status_sources = []\<rparr>"
  have c: "classify_read_rows sample_decoders (RowsStatus ?st) =
      Retry ReadRows GrpcResourceExhausted (Some 2000000005)"
    by (simp add: classify_read_rows_status_def status_details_parse_def sample_decoders_def
        parse_detail_def validate_type_url_def retry_info_url_def rsplit_once_on_def ascii_defs
        retry_duration_def proto_duration_max_seconds_def duration_new_def)
  have n: "budget_new CreateReadSession 0 create_read_session_retry_window (umax 32) (from_secs 60)
      None 0 = Inr session_budget"
    using session_budget_created by (simp add: create_read_session_budget_def)
  have d: "decision_delay (Retry ReadRows GrpcResourceExhausted (Some 2000000005)) 100 =
      Some (ServerMinimum 2000000005)" by simp
  obtain plan where p: "plan_retry session_budget 0 0 1 (ServerMinimum 2000000005) = Inr plan"
    by (simp add: plan_retry_def session_budget_def effective_deadline_def duration_defs
        checked_add_def checked_sub_def Let_def)
  show ?thesis using server_delay_honoured [OF c d n p] c p by blast
qed

end
