(* ===== verification/Read_Stream.thy ===== *)
theory Read_Stream
  imports Retry_Classify
begin

text \<open>
  The demand-driven ReadRows stream of one BigQuery partition
  (\<open>crates/silk-chiffon-input-bigquery/src/read_stream.rs\<close>): opening at the accepted offset,
  waiting, decoding with memory admission, accepting a batch, and reconnecting under the retry
  budget. The server, the clock, the sleeper, the jitter source, DataFusion's memory pool and the
  payload codec are the fields of \<open>read_env\<close>, each a function of a world state
  \<open>'w\<close> that it may change. The loop of \<open>next_batch\<close> takes fuel: a server that sends
  empty responses forever keeps the code in the loop.
\<close>

section \<open>Accepted offsets\<close>

definition i64_max :: int where
  "i64_max = 9223372036854775807"

datatype accepted_offset_error = AcceptedOffsetError

definition accepted_offset_new :: "int \<Rightarrow> (accepted_offset_error, int) result" where
  "accepted_offset_new value = (if value < 0 then Inl AcceptedOffsetError else Inr value)"

definition checked_advance :: "int \<Rightarrow> nat \<Rightarrow> (accepted_offset_error, int) result" where
  "checked_advance offset rows =
     (if int rows > i64_max then Inl AcceptedOffsetError
      else if offset + int rows > i64_max then Inl AcceptedOffsetError
      else Inr (offset + int rows))"

section \<open>Environment and state\<close>

datatype response_rows = ArrowRecordBatch string | AvroRows string

record read_rows_response =
  response_rows :: "response_rows option"

definition serialized_payload_len :: "read_rows_response \<Rightarrow> nat" where
  "serialized_payload_len response =
     (case response_rows response of
        Some (ArrowRecordBatch bytes) \<Rightarrow> length bytes
      | Some (AvroRows bytes) \<Rightarrow> length bytes
      | None \<Rightarrow> 0)"

text \<open>\<open>StorageTransportError\<close>; the flag of a credentials error is \<open>retryable()\<close>.\<close>

datatype transport_error =
    TransportStatus grpc_status
  | TransportCredentials bool
  | TransportConnect
  | TransportConfig
  | TransportInvalidMetadata

datatype open_outcome = Opened | OpenFailed transport_error | OpenTimedOut

datatype next_outcome =
    NextResponse read_rows_response | NextStatus grpc_status | NextEnd | NextTimedOut

text \<open>
  \<open>'r\<close> is the type of a row, \<open>'p\<close> of a prepared payload, \<open>'o\<close> of an
  output row. Every operation that may touch the outside takes and returns the world.
\<close>

record ('w, 'r, 'p, 'o) read_env =
  env_clock :: "'w \<Rightarrow> duration \<times> 'w"
  env_jitter :: "'w \<Rightarrow> nat \<times> 'w"
  env_sleep :: "duration \<Rightarrow> 'w \<Rightarrow> 'w"
  env_open :: "nat \<Rightarrow> int \<Rightarrow> nat \<Rightarrow> duration \<Rightarrow> 'w \<Rightarrow> open_outcome \<times> 'w"
  env_next :: "duration \<Rightarrow> 'w \<Rightarrow> next_outcome \<times> 'w"
  env_reserve :: "nat \<Rightarrow> 'w \<Rightarrow> bool \<times> 'w"
  env_free :: "'w \<Rightarrow> 'w"
  env_acquire_permit :: "'w \<Rightarrow> bool \<times> 'w"
  env_release_permit :: "'w \<Rightarrow> 'w"
  env_prepare :: "read_rows_response \<Rightarrow> (unit, ('p \<times> nat) option) result"
  env_decode :: "'p \<Rightarrow> (unit, 'r list) result"
  env_project :: "'r list \<Rightarrow> 'o list option"
  env_decoders :: detail_decoders
  env_idle_timeout :: duration

record 'w read_state =
  rs_world :: 'w
  rs_ordinal :: nat
  rs_connected :: bool
  rs_offset :: int
  rs_attempt :: nat
  rs_streak :: nat
  rs_progress_started :: "duration option"
  rs_progress_rows :: nat
  rs_previous :: duration
  rs_response_ordinal :: nat
  rs_backoff :: backoff_policy
  rs_budget :: retry_budget
  rs_rpc_attempts :: nat
  rs_responses :: nat
  rs_retries :: nat
  rs_serialized_bytes :: nat
  rs_output_rows :: nat
  rs_retry_delay_time :: duration

record stream_read_error =
  err_partition :: nat
  err_attempt :: nat
  err_offset :: int
  err_reason :: retry_reason

datatype attempt_failure =
    FailTransport transport_error
  | FailStatus grpc_status
  | FailIdleTimeout
  | FailSessionExpired
  | FailTerminal retry_reason

type_synonym ('w, 'a) read_step = "(stream_read_error, 'a) result \<times> 'w read_state"

definition stream_error :: "'w read_state \<Rightarrow> retry_reason \<Rightarrow> stream_read_error" where
  "stream_error s reason =
     \<lparr>err_partition = rs_ordinal s, err_attempt = rs_attempt s, err_offset = rs_offset s,
      err_reason = reason\<rparr>"

section \<open>The steps\<close>

definition deadline_reason :: "'w read_state \<Rightarrow> retry_reason" where
  "deadline_reason s =
     (if is_session_limited (rs_budget s) then SessionExpired else RetryBudgetExhausted)"

definition wait_timeout ::
  "('w, 'r, 'p, 'o) read_env \<Rightarrow> 'w read_state \<Rightarrow>
   (retry_reason, duration \<times> bool) result \<times> 'w read_state" where
  "wait_timeout env s =
     (let (now, w) = env_clock env (rs_world s); s = s\<lparr>rs_world := w\<rparr> in
      case checked_sub (effective_deadline (rs_budget s)) now of
        None \<Rightarrow> (Inl (deadline_reason s), s)
      | Some remaining \<Rightarrow>
          (Inr (min remaining (env_idle_timeout env),
                remaining \<le> env_idle_timeout env \<and> is_session_limited (rs_budget s)), s))"

fun failure_decision :: "detail_decoders \<Rightarrow> attempt_failure \<Rightarrow> retry_decision" where
  "failure_decision dec (FailTransport (TransportStatus status)) =
     classify_read_rows dec (RowsStatus status)"
| "failure_decision dec (FailStatus status) = classify_read_rows dec (RowsStatus status)"
| "failure_decision dec (FailTransport (TransportCredentials retryable)) =
     (if retryable then classify_read_rows dec RowsTransientCredentials
      else classify_read_rows dec RowsCredentials)"
| "failure_decision dec (FailTransport TransportConnect) = classify_read_rows dec RowsLocalResource"
| "failure_decision dec (FailTransport TransportConfig) = classify_read_rows dec RowsLocalResource"
| "failure_decision dec (FailTransport TransportInvalidMetadata) =
     classify_read_rows dec RowsLocalResource"
| "failure_decision dec FailIdleTimeout = classify_read_rows dec RowsIdleTimeout"
| "failure_decision dec FailSessionExpired = classify_read_rows dec RowsSessionExpired"
| "failure_decision dec (FailTerminal reason) = Permanent ReadRows reason"

definition open_stream ::
  "('w, 'r, 'p, 'o) read_env \<Rightarrow> 'w read_state \<Rightarrow> (attempt_failure, unit) result \<times> 'w read_state" where
  "open_stream env s =
     (case wait_timeout env s of
        (Inl reason, s) \<Rightarrow> (Inl (FailTerminal reason), s)
      | (Inr (timeout, session_limited), s) \<Rightarrow>
          (let s = s\<lparr>rs_rpc_attempts := rs_rpc_attempts s + 1\<rparr>;
               (outcome, w) = env_open env (rs_ordinal s) (rs_offset s) (rs_attempt s) timeout (rs_world s);
               s = s\<lparr>rs_world := w\<rparr>
           in case outcome of
                Opened \<Rightarrow> (Inr (), s)
              | OpenFailed e \<Rightarrow> (Inl (FailTransport e), s)
              | OpenTimedOut \<Rightarrow>
                  (Inl (if session_limited then FailSessionExpired else FailIdleTimeout), s)))"

text \<open>The streak update of \<open>retry_or_fail\<close> after progress.\<close>

definition streak_after_progress ::
  "'w read_state \<Rightarrow> duration \<Rightarrow> ('w, unit) read_step" where
  "streak_after_progress s now =
     (case rs_progress_started s of
        None \<Rightarrow> (Inr (), s)
      | Some start \<Rightarrow>
          (case checked_sub now start of
             None \<Rightarrow> (Inl (stream_error s RetryBudgetExhausted), s)
           | Some elapsed \<Rightarrow>
               (let streak = failure_streak_after_progress (rs_backoff s) (rs_streak s)
                               (rs_progress_rows s) elapsed;
                    s = s\<lparr>rs_streak := streak\<rparr>
                in (Inr (), if streak = 0 then s\<lparr>rs_progress_started := None, rs_progress_rows := 0\<rparr>
                            else s))))"

definition retry_or_fail ::
  "('w, 'r, 'p, 'o) read_env \<Rightarrow> attempt_failure \<Rightarrow> 'w read_state \<Rightarrow> ('w, unit) read_step" where
  "retry_or_fail env failure s =
     (let (now, w) = env_clock env (rs_world s); s = s\<lparr>rs_world := w\<rparr> in
      if now \<ge> effective_deadline (rs_budget s) then (Inl (stream_error s (deadline_reason s)), s)
      else (case failure_decision (env_decoders env) failure of
        Permanent _ reason \<Rightarrow> (Inl (stream_error s reason), s)
      | decision \<Rightarrow>
        (case streak_after_progress s now of
          (Inl e, s) \<Rightarrow> (Inl e, s)
        | (Inr _, s) \<Rightarrow>
          (case checked_add (umax 32) (rs_streak s) 1 of
            None \<Rightarrow> (Inl (stream_error s RetryBudgetExhausted), s)
          | Some streak \<Rightarrow>
            (let s = s\<lparr>rs_streak := streak\<rparr>;
                 (sample, w) = env_jitter env (rs_world s); s = s\<lparr>rs_world := w\<rparr> in
             case full_jitter (rs_backoff s) streak sample of
               Inl _ \<Rightarrow> (Inl (stream_error s RetryBudgetExhausted), s)
             | Inr backoff \<Rightarrow>
               (case decision_delay decision backoff of
                  None \<Rightarrow> (Inl (stream_error s RetryBudgetExhausted), s)
                | Some delay \<Rightarrow>
                  (case plan_retry (rs_budget s) (rs_previous s) now (rs_attempt s) delay of
                     Inl _ \<Rightarrow> (Inl (stream_error s RetryBudgetExhausted), s)
                   | Inr plan \<Rightarrow>
                     (let s = s\<lparr>rs_retries := rs_retries s + 1\<rparr>;
                          s = (if plan_delay plan \<noteq> 0
                               then s\<lparr>rs_world := env_sleep env (plan_delay plan) (rs_world s),
                                      rs_retry_delay_time := rs_retry_delay_time s + plan_delay plan\<rparr>
                               else s)
                      in (Inr (), s\<lparr>rs_previous := now, rs_attempt := plan_attempt plan,
                                    rs_connected := False\<rparr>)))))))))"

definition accept_batch ::
  "('w, 'r, 'p, 'o) read_env \<Rightarrow> 'r list \<Rightarrow> 'w read_state \<Rightarrow> ('w, 'o list option) read_step" where
  "accept_batch env decoded s =
     (let row_count = length decoded in
      case checked_advance (rs_offset s) row_count of
        Inl _ \<Rightarrow> (Inl (stream_error s OffsetOverflow), s)
      | Inr next_offset \<Rightarrow>
          (case env_project env decoded of
             None \<Rightarrow> (Inl (stream_error s Schema), s)
           | Some output \<Rightarrow>
               (let s = s\<lparr>rs_offset := next_offset, rs_output_rows := rs_output_rows s + row_count\<rparr>;
                    s = (if row_count > 0
                         then (let (now, w) = env_clock env (rs_world s) in
                               s\<lparr>rs_world := w,
                                 rs_progress_started :=
                                   (case rs_progress_started s of None \<Rightarrow> Some now | Some t \<Rightarrow> Some t),
                                 rs_progress_rows :=
                                   saturating_add (umax 64) (rs_progress_rows s) row_count\<rparr>)
                         else s)
                in (Inr (Some output), s))))"

definition decode_response ::
  "('w, 'r, 'p, 'o) read_env \<Rightarrow> read_rows_response \<Rightarrow> 'w read_state \<Rightarrow>
   ('w, 'o list option) read_step" where
  "decode_response env response s =
     (let bytes = serialized_payload_len response;
          s = s\<lparr>rs_serialized_bytes := rs_serialized_bytes s + bytes\<rparr>;
          (reserved, w) = env_reserve env bytes (rs_world s); s = s\<lparr>rs_world := w\<rparr> in
      if \<not> reserved then (Inl (stream_error s LocalResource), s)
      else (let (permit, w) = env_acquire_permit env (rs_world s); s = s\<lparr>rs_world := w\<rparr> in
        if \<not> permit then (Inl (stream_error s LocalResource), s)
        else (case env_prepare env response of
            Inl _ \<Rightarrow> (Inl (stream_error s Decode), s\<lparr>rs_world := env_release_permit env (rs_world s)\<rparr>)
          | Inr None \<Rightarrow> (Inr None, s\<lparr>rs_world := env_release_permit env (rs_world s)\<rparr>)
          | Inr (Some (rows, upper_bound)) \<Rightarrow>
              (let (reserved, w) = env_reserve env upper_bound (rs_world s); s = s\<lparr>rs_world := w\<rparr> in
               if \<not> reserved
               then (Inl (stream_error s LocalResource),
                     s\<lparr>rs_world := env_release_permit env (rs_world s)\<rparr>)
               else (case env_decode env rows of
                   Inl _ \<Rightarrow> (Inl (stream_error s Decode),
                            s\<lparr>rs_world := env_release_permit env (rs_world s)\<rparr>)
                 | Inr decoded \<Rightarrow>
                     accept_batch env decoded (s\<lparr>rs_world := env_release_permit env (rs_world s)\<rparr>))))))"

text \<open>
  One pass of the \<open>loop\<close> of \<open>next_batch\<close>: \<open>Inl s\<close> is \<open>continue\<close>,
  \<open>Inr\<close> is \<open>return\<close>.
\<close>

definition retry_pass ::
  "('w, 'r, 'p, 'o) read_env \<Rightarrow> attempt_failure \<Rightarrow> 'w read_state \<Rightarrow>
   ('w read_state, ('w, 'o list option) read_step) result" where
  "retry_pass env failure s =
     (case retry_or_fail env failure s of
        (Inl e, s) \<Rightarrow> Inr (Inl e, s)
      | (Inr _, s) \<Rightarrow> Inl s)"

definition receive_pass ::
  "('w, 'r, 'p, 'o) read_env \<Rightarrow> 'w read_state \<Rightarrow>
   ('w read_state, ('w, 'o list option) read_step) result" where
  "receive_pass env s =
     (case wait_timeout env s of
        (Inl reason, s) \<Rightarrow> Inr (Inl (stream_error s reason), s)
      | (Inr (timeout, session_limited), s) \<Rightarrow>
          (let (outcome, w) = env_next env timeout (rs_world s); s = s\<lparr>rs_world := w\<rparr> in
           case outcome of
             NextStatus status \<Rightarrow> retry_pass env (FailStatus status) (s\<lparr>rs_connected := False\<rparr>)
           | NextEnd \<Rightarrow> Inr (Inr None, s)
           | NextTimedOut \<Rightarrow>
               (if session_limited then Inr (Inl (stream_error s SessionExpired), s)
                else retry_pass env FailIdleTimeout (s\<lparr>rs_connected := False\<rparr>))
           | NextResponse response \<Rightarrow>
               (let s = s\<lparr>rs_response_ordinal := saturating_add (umax 64) (rs_response_ordinal s) 1,
                          rs_responses := rs_responses s + 1\<rparr> in
                case decode_response env response s of
                  (Inl e, s) \<Rightarrow> Inr (Inl e, s)
                | (Inr (Some batch), s) \<Rightarrow> Inr (Inr (Some batch), s)
                | (Inr None, s) \<Rightarrow> Inl (s\<lparr>rs_world := env_free env (rs_world s)\<rparr>))))"

definition next_pass ::
  "('w, 'r, 'p, 'o) read_env \<Rightarrow> 'w read_state \<Rightarrow>
   ('w read_state, ('w, 'o list option) read_step) result" where
  "next_pass env s =
     (if rs_connected s then receive_pass env s
      else (case open_stream env s of
              (Inl failure, s) \<Rightarrow> retry_pass env failure s
            | (Inr _, s) \<Rightarrow> receive_pass env (s\<lparr>rs_connected := True\<rparr>)))"

fun next_batch ::
  "('w, 'r, 'p, 'o) read_env \<Rightarrow> nat \<Rightarrow> 'w read_state \<Rightarrow> ('w, 'o list option) read_step option" where
  "next_batch env 0 s = None"
| "next_batch env (Suc fuel) s =
     (case next_pass env s of Inl s \<Rightarrow> next_batch env fuel s | Inr r \<Rightarrow> Some r)"

text \<open>
  The \<open>try_unfold\<close> of \<open>read_rows_stream\<close>, polled at most \<open>polls\<close> times: the
  batches it yields and how the stream ended (\<open>None\<close>: the consumer stopped polling).
\<close>

datatype stream_end = StreamDone | StreamFailed stream_read_error | StreamStuck

fun poll_stream ::
  "('w, 'r, 'p, 'o) read_env \<Rightarrow> nat \<Rightarrow> nat \<Rightarrow> 'w read_state \<Rightarrow>
   'o list list \<times> stream_end option \<times> 'w read_state" where
  "poll_stream env fuel 0 s = ([], None, s)"
| "poll_stream env fuel (Suc polls) s =
     (case next_batch env fuel (s\<lparr>rs_world := env_free env (rs_world s)\<rparr>) of
        None \<Rightarrow> ([], Some StreamStuck, s)
      | Some (Inl e, s) \<Rightarrow> ([], Some (StreamFailed e), s)
      | Some (Inr None, s) \<Rightarrow> ([], Some StreamDone, s)
      | Some (Inr (Some batch), s) \<Rightarrow>
          (let (batches, fin, s) = poll_stream env fuel polls s in (batch # batches, fin, s)))"

definition read_rows_start ::
  "('w, 'r, 'p, 'o) read_env \<Rightarrow> nat \<Rightarrow> duration \<Rightarrow> duration \<Rightarrow> duration \<Rightarrow> duration \<Rightarrow> 'w \<Rightarrow>
   ('w, unit) read_step" where
  "read_rows_start env ordinal initial_backoff max_backoff window lease_deadline w =
     (let s = \<lparr>rs_world = w, rs_ordinal = ordinal, rs_connected = False, rs_offset = 0, rs_attempt = 1,
               rs_streak = 0, rs_progress_started = None, rs_progress_rows = 0, rs_previous = 0,
               rs_response_ordinal = 0, rs_backoff = create_read_session_policy,
               rs_budget = \<lparr>budget_scope = ReadRows, started = 0, retry_deadline = 0,
                            max_attempts = 1, attempt_timeout = 0, session_deadline = None\<rparr>,
               rs_rpc_attempts = 0, rs_responses = 0, rs_retries = 0, rs_serialized_bytes = 0,
               rs_output_rows = 0, rs_retry_delay_time = 0\<rparr> in
      case read_rows_policy initial_backoff max_backoff of
        Inl _ \<Rightarrow> (Inl (stream_error s LocalResource), s)
      | Inr policy \<Rightarrow>
          (let (now, w) = env_clock env w in
           case read_rows_budget now window (umax 32) (env_idle_timeout env) (Some lease_deadline) of
             Inl _ \<Rightarrow> (Inl (stream_error s LocalResource), s\<lparr>rs_world := w\<rparr>)
           | Inr budget \<Rightarrow>
               (Inr (), s\<lparr>rs_world := w, rs_previous := now, rs_backoff := policy,
                         rs_budget := budget\<rparr>)))"

section \<open>The server contract\<close>

text \<open>
  What the code relies on from BigQuery and from the codec, as a hypothesis of the delivery
  theorems: \<open>rows\<close> is the row sequence of the stream, \<open>pos w\<close> the position of the
  open call, \<open>carried r\<close> the rows in a response. A call opened at an offset starts there;
  responses carry consecutive rows; decoding yields the carried rows and projection maps them one
  by one; the clock, the sleeper, the memory pool and the decode permits do not move the call.
\<close>

definition honest_server ::
  "('w, 'r, 'p, 'o) read_env \<Rightarrow> ('w \<Rightarrow> nat) \<Rightarrow> 'r list \<Rightarrow> (read_rows_response \<Rightarrow> 'r list) \<Rightarrow>
   ('r \<Rightarrow> 'o) \<Rightarrow> bool" where
  "honest_server env pos rows carried f \<longleftrightarrow>
     (\<forall>n off att t w w'. env_open env n off att t w = (Opened, w') \<longrightarrow> pos w' = nat off) \<and>
     (\<forall>t w w' r. env_next env t w = (NextResponse r, w') \<longrightarrow>
        carried r = take (length (carried r)) (drop (pos w) rows) \<and>
        pos w' = pos w + length (carried r)) \<and>
     (\<forall>r. env_prepare env r = Inr None \<longrightarrow> carried r = []) \<and>
     (\<forall>r p n d. env_prepare env r = Inr (Some (p, n)) \<longrightarrow> env_decode env p = Inr d \<longrightarrow> d = carried r) \<and>
     (\<forall>d os. env_project env d = Some os \<longrightarrow> os = map f d) \<and>
     (\<forall>w. pos (snd (env_clock env w)) = pos w) \<and>
     (\<forall>n w. pos (snd (env_reserve env n w)) = pos w) \<and>
     (\<forall>w. pos (env_free env w) = pos w) \<and>
     (\<forall>w. pos (snd (env_acquire_permit env w)) = pos w) \<and>
     (\<forall>w. pos (env_release_permit env w) = pos w)"

text \<open>The server ends the call only after the last row.\<close>

definition ends_at_last_row :: "('w, 'r, 'p, 'o) read_env \<Rightarrow> ('w \<Rightarrow> nat) \<Rightarrow> 'r list \<Rightarrow> bool" where
  "ends_at_last_row env pos rows \<longleftrightarrow>
     (\<forall>t w w'. env_next env t w = (NextEnd, w') \<longrightarrow> pos w = length rows)"

text \<open>While a call is open it stands exactly at the accepted offset.\<close>

definition stream_inv :: "('w \<Rightarrow> nat) \<Rightarrow> 'w read_state \<Rightarrow> bool" where
  "stream_inv pos s \<longleftrightarrow>
     0 \<le> rs_offset s \<and> (rs_connected s \<longrightarrow> pos (rs_world s) = nat (rs_offset s))"

lemma honest_frame:
  assumes "honest_server env pos rows carried f"
  shows "env_clock env w = (t, w') \<Longrightarrow> pos w' = pos w"
    and "env_reserve env n w = (b, w') \<Longrightarrow> pos w' = pos w"
    and "env_acquire_permit env w = (b, w') \<Longrightarrow> pos w' = pos w"
  using assms unfolding honest_server_def by (metis snd_conv)+

lemma honest_frame_simps:
  assumes "honest_server env pos rows carried f"
  shows "pos (env_free env w) = pos w" and "pos (env_release_permit env w) = pos w"
  using assms unfolding honest_server_def by metis+

lemma honest_laws:
  assumes "honest_server env pos rows carried f"
  shows "env_open env k off att t w = (Opened, w') \<Longrightarrow> pos w' = nat off"
    and "env_next env t w = (NextResponse r, w') \<Longrightarrow>
      carried r = take (length (carried r)) (drop (pos w) rows) \<and>
      pos w' = pos w + length (carried r)"
    and "env_prepare env r = Inr None \<Longrightarrow> carried r = []"
    and "env_prepare env r = Inr (Some (p, n)) \<Longrightarrow> env_decode env p = Inr d \<Longrightarrow> d = carried r"
    and "env_project env d = Some os \<Longrightarrow> os = map f d"
proof -
  note h = assms [unfolded honest_server_def]
  note h1 = h [THEN conjunct1] and t1 = h [THEN conjunct2]
  note h2 = t1 [THEN conjunct1] and t2 = t1 [THEN conjunct2]
  note h3 = t2 [THEN conjunct1] and t3 = t2 [THEN conjunct2]
  note h4 = t3 [THEN conjunct1] and h5 = t3 [THEN conjunct2, THEN conjunct1]
  show "env_open env k off att t w = (Opened, w') \<Longrightarrow> pos w' = nat off" using h1 by fast
  show "env_next env t w = (NextResponse r, w') \<Longrightarrow>
      carried r = take (length (carried r)) (drop (pos w) rows) \<and>
      pos w' = pos w + length (carried r)" using h2 by fast
  show "env_prepare env r = Inr None \<Longrightarrow> carried r = []" using h3 by fast
  show "env_prepare env r = Inr (Some (p, n)) \<Longrightarrow> env_decode env p = Inr d \<Longrightarrow> d = carried r"
    using h4 by fast
  show "env_project env d = Some os \<Longrightarrow> os = map f d" using h5 by fast
qed

lemma wait_timeout_frame:
  assumes "honest_server env pos rows carried f" and "wait_timeout env s = (r, s')"
  shows "rs_offset s' = rs_offset s" and "rs_connected s' = rs_connected s"
    and "pos (rs_world s') = pos (rs_world s)"
  using assms(2)
  by (auto simp: wait_timeout_def Let_def split: prod.splits option.splits
      dest: honest_frame [OF assms(1)])

lemma streak_after_progress_frame:
  assumes "streak_after_progress s now = (r, s')"
  shows "rs_offset s' = rs_offset s" and "rs_world s' = rs_world s"
    and "rs_connected s' = rs_connected s" and "rs_attempt s' = rs_attempt s"
    and "rs_budget s' = rs_budget s" and "rs_previous s' = rs_previous s"
    and "rs_ordinal s' = rs_ordinal s" and "rs_backoff s' = rs_backoff s"
  using assms
  by (auto simp: streak_after_progress_def Let_def split: option.splits if_splits)

lemma retry_or_fail_frame:
  assumes "retry_or_fail env failure s = (r, s')"
  shows "rs_offset s' = rs_offset s" and "r = Inr () \<Longrightarrow> \<not> rs_connected s'"
  using assms
  by (auto simp: retry_or_fail_def Let_def split: prod.splits if_splits retry_decision.splits
      sum.splits option.splits dest: streak_after_progress_frame)

lemma retry_pass_frame:
  assumes "retry_pass env failure s = Inl s'"
  shows "rs_offset s' = rs_offset s \<and> \<not> rs_connected s'"
  using assms retry_or_fail_frame [of env failure s]
  by (auto simp: retry_pass_def split: prod.splits sum.splits)

lemma retry_pass_not_batch: "retry_pass env failure s \<noteq> Inr (Inr v, s')"
  by (auto simp: retry_pass_def split: prod.splits sum.splits)

lemma checked_advance_Inr:
  "checked_advance off n = Inr off' \<longleftrightarrow> off' = off + int n \<and> off + int n \<le> i64_max \<and> int n \<le> i64_max"
  by (auto simp: checked_advance_def)

lemma accept_batch_Inr:
  assumes "honest_server env pos rows carried f" and "accept_batch env d s = (Inr v, s')"
  shows "v = Some (map f d) \<and> rs_offset s' = rs_offset s + int (length d) \<and>
    pos (rs_world s') = pos (rs_world s) \<and> rs_connected s' = rs_connected s"
proof (cases "env_project env d")
  case None
  then show ?thesis using assms(2) by (simp add: accept_batch_def Let_def split: sum.splits)
next
  case (Some os)
  then have "os = map f d" by (rule honest_laws(5) [OF assms(1)])
  then show ?thesis using assms(2) Some
    by (auto simp: accept_batch_def Let_def checked_advance_Inr split: sum.splits prod.splits if_splits
        dest: honest_frame(1) [OF assms(1)])
qed

lemma decode_response_Inr:
  assumes h: "honest_server env pos rows carried f"
    and d: "decode_response env response s = (Inr v, s')"
  shows "pos (rs_world s') = pos (rs_world s) \<and> rs_connected s' = rs_connected s \<and>
    (case v of None \<Rightarrow> carried response = [] \<and> rs_offset s' = rs_offset s
     | Some out \<Rightarrow> out = map f (carried response) \<and>
         rs_offset s' = rs_offset s + int (length (carried response)))"
proof (cases "env_prepare env response")
  case (Inl e)
  then show ?thesis using d by (auto simp: decode_response_def Let_def split: prod.splits if_splits)
next
  case (Inr prepared)
  note frame = honest_frame [OF h] and frame_simps = honest_frame_simps [OF h]
  show ?thesis
  proof (cases prepared)
    case None
    obtain w1 w2 where w: "env_reserve env (serialized_payload_len response) (rs_world s) = (True, w1)"
        "env_acquire_permit env w1 = (True, w2)"
      using d Inr None by (auto simp: decode_response_def Let_def split: prod.splits if_splits)
    then have "pos w2 = pos (rs_world s)" using frame(2,3) by metis
    then show ?thesis using d Inr None w honest_laws(3) [OF h]
      by (auto simp: decode_response_def Let_def frame_simps)
  next
    case (Some pn)
    obtain p n where pn: "pn = (p, n)" by (cases pn)
    obtain w1 w2 w3 where w: "env_reserve env (serialized_payload_len response) (rs_world s) = (True, w1)"
        "env_acquire_permit env w1 = (True, w2)" "env_reserve env n w2 = (True, w3)"
      using d Inr Some pn by (auto simp: decode_response_def Let_def split: prod.splits if_splits)
    then have "pos w3 = pos (rs_world s)" using frame(2,3) by metis
    then obtain s1 decoded where acc: "accept_batch env decoded s1 = (Inr v, s')"
      and dec: "env_decode env p = Inr decoded"
      and s1: "rs_offset s1 = rs_offset s" "rs_connected s1 = rs_connected s"
        "pos (rs_world s1) = pos (rs_world s)"
      using d Inr Some pn w frame_simps
      by (auto simp: decode_response_def Let_def split: sum.splits)
    have "decoded = carried response" using honest_laws(4) [OF h] Inr Some pn dec by blast
    then show ?thesis using accept_batch_Inr [OF h acc] s1 by simp
  qed
qed

section \<open>Passes keep the offset in step with the server\<close>

lemma receive_pass_continue:
  assumes h: "honest_server env pos rows carried f" and inv: "stream_inv pos s" "rs_connected s"
    and r: "receive_pass env s = Inl s'"
  shows "stream_inv pos s' \<and> rs_offset s' = rs_offset s"
proof -
  obtain t lim s1 where w: "wait_timeout env s = (Inr (t, lim), s1)"
    using r by (auto simp: receive_pass_def split: prod.splits sum.splits)
  note f1 = wait_timeout_frame [OF h w]
  obtain out w1 where n: "env_next env t (rs_world s1) = (out, w1)" by fastforce
  show ?thesis
  proof (cases out)
    case (NextResponse response)
    obtain s2 s3 where d: "decode_response env response s2 = (Inr None, s3)"
      and s2: "rs_offset s2 = rs_offset s1" "rs_world s2 = w1" "rs_connected s2 = rs_connected s1"
      and s': "s' = s3\<lparr>rs_world := env_free env (rs_world s3)\<rparr>"
      using r w n NextResponse
      by (auto simp: receive_pass_def Let_def split: prod.splits sum.splits option.splits)
    have "pos w1 = pos (rs_world s1)"
      using honest_laws(2) [OF h] n NextResponse decode_response_Inr [OF h d] by fastforce
    then show ?thesis
      using decode_response_Inr [OF h d] s2 s' f1 inv
      by (simp add: stream_inv_def honest_frame_simps [OF h])
  next
    case (NextStatus status)
    then show ?thesis using r w n f1 inv
      by (auto simp: receive_pass_def Let_def stream_inv_def dest!: retry_pass_frame)
  next
    case NextEnd
    then show ?thesis using r w n by (auto simp: receive_pass_def Let_def)
  next
    case NextTimedOut
    then show ?thesis using r w n f1 inv
      by (auto simp: receive_pass_def Let_def stream_inv_def split: if_splits dest!: retry_pass_frame)
  qed
qed

lemma receive_pass_batch:
  assumes h: "honest_server env pos rows carried f" and inv: "stream_inv pos s" "rs_connected s"
    and r: "receive_pass env s = Inr (Inr (Some batch), s')"
  shows "stream_inv pos s' \<and> rs_offset s' = rs_offset s + int (length batch) \<and>
    batch = map f (take (length batch) (drop (nat (rs_offset s)) rows))"
proof -
  obtain t lim s1 where w: "wait_timeout env s = (Inr (t, lim), s1)"
    using r by (auto simp: receive_pass_def split: prod.splits sum.splits)
  note f1 = wait_timeout_frame [OF h w]
  obtain out w1 where n: "env_next env t (rs_world s1) = (out, w1)" by fastforce
  obtain response where resp: "out = NextResponse response"
    using r w n retry_pass_not_batch [of env] by (cases out) (auto simp: receive_pass_def Let_def split: if_splits)
  obtain s2 where d: "decode_response env response s2 = (Inr (Some batch), s')"
    and s2: "rs_offset s2 = rs_offset s1" "rs_world s2 = w1" "rs_connected s2 = rs_connected s1"
    using r w n resp by (auto simp: receive_pass_def Let_def split: prod.splits sum.splits option.splits)
  have c: "carried response = take (length (carried response)) (drop (pos (rs_world s1)) rows)"
    and p: "pos w1 = pos (rs_world s1) + length (carried response)"
    using honest_laws(2) [OF h] n resp by auto
  have b: "batch = map f (carried response)" and off: "rs_offset s' = rs_offset s + int (length batch)"
    using decode_response_Inr [OF h d] s2 f1 by auto
  have "pos (rs_world s1) = nat (rs_offset s)" using f1 inv by (simp add: stream_inv_def)
  then have "batch = map f (take (length batch) (drop (nat (rs_offset s)) rows))"
    using c b by (metis length_map)
  moreover have "stream_inv pos s'"
    using decode_response_Inr [OF h d] s2 f1 inv p b
    by (simp add: stream_inv_def nat_add_distrib)
  ultimately show ?thesis using off by blast
qed

lemma open_stream_opened:
  assumes h: "honest_server env pos rows carried f" and inv: "stream_inv pos s"
    and o: "open_stream env s = (Inr u, s')"
  shows "stream_inv pos (s'\<lparr>rs_connected := True\<rparr>) \<and> rs_offset s' = rs_offset s"
proof -
  obtain t lim s1 where w: "wait_timeout env s = (Inr (t, lim), s1)"
    using o by (auto simp: open_stream_def split: prod.splits sum.splits)
  note f1 = wait_timeout_frame [OF h w]
  obtain w1 where n: "env_open env (rs_ordinal s1) (rs_offset s1) (rs_attempt s1) t (rs_world s1) = (Opened, w1)"
      and s': "rs_offset s' = rs_offset s1" "rs_world s' = w1"
    using o w by (auto simp: open_stream_def Let_def split: prod.splits open_outcome.splits)
  show ?thesis using honest_laws(1) [OF h n] s' f1 inv by (simp add: stream_inv_def)
qed

lemma open_stream_failed:
  assumes h: "honest_server env pos rows carried f" and o: "open_stream env s = (Inl e, s')"
  shows "rs_offset s' = rs_offset s"
  using o wait_timeout_frame(1) [OF h]
  by (auto simp: open_stream_def Let_def split: prod.splits sum.splits open_outcome.splits)

lemma next_pass_continue:
  assumes h: "honest_server env pos rows carried f" and inv: "stream_inv pos s"
    and n: "next_pass env s = Inl s'"
  shows "stream_inv pos s' \<and> rs_offset s' = rs_offset s"
proof (cases "rs_connected s")
  case True
  then show ?thesis using n receive_pass_continue [OF h inv] by (simp add: next_pass_def)
next
  case False
  obtain v s1 where o: "open_stream env s = (v, s1)" by fastforce
  show ?thesis
  proof (cases v)
    case (Inl e)
    then have r: "retry_pass env e s1 = Inl s'" using n False o by (simp add: next_pass_def)
    have "rs_offset s1 = rs_offset s" using open_stream_failed [OF h] o Inl by blast
    then show ?thesis using retry_pass_frame [OF r] inv by (auto simp: stream_inv_def)
  next
    case (Inr u)
    have i: "stream_inv pos (s1\<lparr>rs_connected := True\<rparr>)" "rs_offset s1 = rs_offset s"
      using open_stream_opened [OF h inv] o Inr by auto
    have "receive_pass env (s1\<lparr>rs_connected := True\<rparr>) = Inl s'"
      using n False o Inr by (simp add: next_pass_def)
    then show ?thesis using receive_pass_continue [OF h i(1)] i(2) by auto
  qed
qed

lemma next_pass_batch:
  assumes h: "honest_server env pos rows carried f" and inv: "stream_inv pos s"
    and n: "next_pass env s = Inr (Inr (Some batch), s')"
  shows "stream_inv pos s' \<and> rs_offset s' = rs_offset s + int (length batch) \<and>
    batch = map f (take (length batch) (drop (nat (rs_offset s)) rows))"
proof (cases "rs_connected s")
  case True
  then show ?thesis using n receive_pass_batch [OF h inv] by (simp add: next_pass_def)
next
  case False
  obtain v s1 where o: "open_stream env s = (v, s1)" by fastforce
  show ?thesis
  proof (cases v)
    case (Inl e)
    then show ?thesis using n False o retry_pass_not_batch [of env] by (auto simp: next_pass_def)
  next
    case (Inr u)
    have i: "stream_inv pos (s1\<lparr>rs_connected := True\<rparr>)" "rs_offset s1 = rs_offset s"
      using open_stream_opened [OF h inv] o Inr by auto
    have "receive_pass env (s1\<lparr>rs_connected := True\<rparr>) = Inr (Inr (Some batch), s')"
      using n False o Inr by (simp add: next_pass_def)
    then show ?thesis using receive_pass_batch [OF h i(1)] i(2) by simp
  qed
qed

lemma next_batch_delivers:
  assumes h: "honest_server env pos rows carried f"
  shows "stream_inv pos s \<Longrightarrow> next_batch env fuel s = Some (Inr (Some batch), s') \<Longrightarrow>
    stream_inv pos s' \<and> rs_offset s' = rs_offset s + int (length batch) \<and>
    batch = map f (take (length batch) (drop (nat (rs_offset s)) rows))"
proof (induction fuel arbitrary: s)
  case (Suc fuel)
  show ?case
  proof (cases "next_pass env s")
    case (Inl s1)
    then show ?thesis
      using Suc.IH [of s1] Suc.prems next_pass_continue [OF h Suc.prems(1) Inl] by simp
  next
    case (Inr r)
    then show ?thesis using Suc.prems next_pass_batch [OF h Suc.prems(1)] by simp
  qed
qed simp

lemma take_drop_append:
  "take a (drop k xs) @ take b (drop (k + a) xs) = take (a + b) (drop k xs)"
  by (simp add: take_add drop_drop add.commute)

lemma poll_stream_delivers:
  assumes h: "honest_server env pos rows carried f"
  shows "stream_inv pos s \<Longrightarrow> poll_stream env fuel polls s = (batches, fin, s') \<Longrightarrow>
    concat batches = map f (take (length (concat batches)) (drop (nat (rs_offset s)) rows))"
proof (induction polls arbitrary: s batches fin s')
  case (Suc polls)
  let ?s0 = "s\<lparr>rs_world := env_free env (rs_world s)\<rparr>"
  have i0: "stream_inv pos ?s0" using Suc.prems(1) by (simp add: stream_inv_def honest_frame_simps [OF h])
  show ?case
  proof (cases "\<exists>batch s1. next_batch env fuel ?s0 = Some (Inr (Some batch), s1)")
    case False
    then have "batches = []" using Suc.prems(2) by (auto split: option.splits prod.splits sum.splits)
    then show ?thesis by simp
  next
    case True
    then obtain batch s1 where b: "next_batch env fuel ?s0 = Some (Inr (Some batch), s1)" by blast
    obtain bs fin1 s2 where p: "poll_stream env fuel polls s1 = (bs, fin1, s2)" by (metis prod_cases3)
    have bs: "batches = batch # bs" using Suc.prems(2) b p by simp
    note d = next_batch_delivers [OF h i0 b]
    have rest: "concat bs = map f (take (length (concat bs)) (drop (nat (rs_offset s1)) rows))"
      using Suc.IH [OF _ p] d by blast
    have "nat (rs_offset s1) = nat (rs_offset s) + length batch"
      using d Suc.prems(1) by (simp add: stream_inv_def nat_add_distrib)
    then show ?thesis
      using d rest bs take_drop_append [of "length batch" "nat (rs_offset s)" rows "length (concat bs)"]
      by simp (metis map_append)
  qed
qed simp

section \<open>The end of the stream\<close>

lemma receive_pass_done:
  assumes h: "honest_server env pos rows carried f" and e: "ends_at_last_row env pos rows"
    and inv: "stream_inv pos s" "rs_connected s"
    and r: "receive_pass env s = Inr (Inr None, s')"
  shows "rs_offset s' = rs_offset s \<and> nat (rs_offset s) = length rows"
proof -
  obtain t lim s1 where w: "wait_timeout env s = (Inr (t, lim), s1)"
    using r by (auto simp: receive_pass_def split: prod.splits sum.splits)
  note f1 = wait_timeout_frame [OF h w]
  obtain out w1 where n: "env_next env t (rs_world s1) = (out, w1)" by fastforce
  have "out = NextEnd \<and> s' = s1\<lparr>rs_world := w1\<rparr>"
    using r w n retry_pass_not_batch [of env]
    by (cases out) (auto simp: receive_pass_def Let_def split: if_splits prod.splits sum.splits option.splits)
  moreover have "pos (rs_world s1) = length rows"
    using e n calculation by (auto simp: ends_at_last_row_def)
  ultimately show ?thesis using f1 inv by (simp add: stream_inv_def)
qed

lemma next_pass_done:
  assumes h: "honest_server env pos rows carried f" and e: "ends_at_last_row env pos rows"
    and inv: "stream_inv pos s" and n: "next_pass env s = Inr (Inr None, s')"
  shows "rs_offset s' = rs_offset s \<and> nat (rs_offset s) = length rows"
proof (cases "rs_connected s")
  case True
  then show ?thesis using n receive_pass_done [OF h e inv] by (simp add: next_pass_def)
next
  case False
  obtain v s1 where o: "open_stream env s = (v, s1)" by fastforce
  show ?thesis
  proof (cases v)
    case (Inl fl)
    then show ?thesis using n False o retry_pass_not_batch [of env] by (auto simp: next_pass_def)
  next
    case (Inr u)
    have i: "stream_inv pos (s1\<lparr>rs_connected := True\<rparr>)" "rs_offset s1 = rs_offset s"
      using open_stream_opened [OF h inv] o Inr by auto
    have "receive_pass env (s1\<lparr>rs_connected := True\<rparr>) = Inr (Inr None, s')"
      using n False o Inr by (simp add: next_pass_def)
    then show ?thesis using receive_pass_done [OF h e i(1)] i(2) by simp
  qed
qed

lemma next_batch_done:
  assumes h: "honest_server env pos rows carried f" and e: "ends_at_last_row env pos rows"
  shows "stream_inv pos s \<Longrightarrow> next_batch env fuel s = Some (Inr None, s') \<Longrightarrow>
    nat (rs_offset s) = length rows"
proof (induction fuel arbitrary: s)
  case (Suc fuel)
  show ?case
  proof (cases "next_pass env s")
    case (Inl s1)
    then show ?thesis
      using Suc.IH [of s1] Suc.prems next_pass_continue [OF h Suc.prems(1) Inl] by simp
  next
    case (Inr r)
    then show ?thesis using Suc.prems next_pass_done [OF h e Suc.prems(1)] by simp
  qed
qed simp

lemma poll_stream_complete:
  assumes h: "honest_server env pos rows carried f" and e: "ends_at_last_row env pos rows"
  shows "stream_inv pos s \<Longrightarrow> poll_stream env fuel polls s = (batches, Some StreamDone, s') \<Longrightarrow>
    length (concat batches) = length rows - nat (rs_offset s)"
proof (induction polls arbitrary: s batches s')
  case (Suc polls)
  let ?s0 = "s\<lparr>rs_world := env_free env (rs_world s)\<rparr>"
  have i0: "stream_inv pos ?s0" using Suc.prems(1) by (simp add: stream_inv_def honest_frame_simps [OF h])
  show ?case
  proof (cases "\<exists>batch s1. next_batch env fuel ?s0 = Some (Inr (Some batch), s1)")
    case False
    then have "batches = [] \<and> (\<exists>s1. next_batch env fuel ?s0 = Some (Inr None, s1))"
      using Suc.prems(2) by (auto split: option.splits prod.splits sum.splits)
    then show ?thesis using next_batch_done [OF h e i0] by auto
  next
    case True
    then obtain batch s1 where b: "next_batch env fuel ?s0 = Some (Inr (Some batch), s1)" by blast
    obtain bs fin1 s2 where p: "poll_stream env fuel polls s1 = (bs, fin1, s2)" by (metis prod_cases3)
    have bs: "batches = batch # bs" "fin1 = Some StreamDone" using Suc.prems(2) b p by simp_all
    note d = next_batch_delivers [OF h i0 b]
    have "length (concat bs) = length rows - nat (rs_offset s1)"
      using Suc.IH [of s1 bs s2] p bs d by simp
    moreover have "nat (rs_offset s1) = nat (rs_offset s) + length batch"
      using d Suc.prems(1) by (simp add: stream_inv_def nat_add_distrib)
    moreover have "length batch \<le> length rows - nat (rs_offset s)"
    proof -
      from d have "batch = map f (take (length batch) (drop (nat (rs_offset s)) rows))" by simp
      then have "length batch = length (map f (take (length batch) (drop (nat (rs_offset s)) rows)))"
        by (rule arg_cong)
      then show ?thesis by simp
    qed
    ultimately show ?thesis using bs by simp arith
  qed
qed simp

lemma read_rows_start_inv:
  "read_rows_start env ordinal b0 b1 window lease w = (Inr (), s) \<Longrightarrow>
   stream_inv pos s \<and> rs_offset s = 0 \<and> rs_attempt s = 1 \<and> budget_ok (rs_budget s) \<and>
   session_deadline (rs_budget s) = Some (lease - session_expiry_safety_margin) \<and>
   session_expiry_safety_margin \<le> lease"
  by (auto simp: read_rows_start_def Let_def stream_inv_def read_rows_budget_def
      split: sum.splits prod.splits dest: budget_new_Inr)

section \<open>What a reconnection promises\<close>

lemma retry_or_fail_Inr:
  assumes r: "retry_or_fail env failure s = (Inr u, s')" and ok: "budget_ok (rs_budget s)"
  shows "is_retry (failure_decision (env_decoders env) failure) \<and>
    rs_attempt s' = Suc (rs_attempt s) \<and> rs_attempt s' \<le> max_attempts (rs_budget s) \<and>
    \<not> rs_connected s' \<and> rs_offset s' = rs_offset s \<and> rs_budget s' = rs_budget s \<and>
    (\<exists>now d. now = fst (env_clock env (rs_world s)) \<and> rs_previous s' = now \<and>
      rs_retry_delay_time s' = rs_retry_delay_time s + d \<and>
      now + d + attempt_timeout (rs_budget s) \<le> effective_deadline (rs_budget s))"
proof -
  obtain now w where now: "env_clock env (rs_world s) = (now, w)" by fastforce
  define s1 where "s1 = s\<lparr>rs_world := w\<rparr>"
  obtain scope reason sd where dec: "failure_decision (env_decoders env) failure = Retry scope reason sd"
    using r now by (cases "failure_decision (env_decoders env) failure")
      (auto simp: retry_or_fail_def Let_def split: if_splits)
  obtain s2 where s2: "streak_after_progress s1 now = (Inr (), s2)"
    using r now dec
    by (cases "streak_after_progress s1 now"; cases "fst (streak_after_progress s1 now)")
       (auto simp: retry_or_fail_def Let_def s1_def split: if_splits)
  note f = streak_after_progress_frame [OF s2]
  obtain streak where st: "checked_add (umax 32) (rs_streak s2) 1 = Some streak"
    using r now dec s2
    by (cases "checked_add (umax 32) (rs_streak s2) 1")
       (auto simp: retry_or_fail_def Let_def s1_def split: if_splits)
  obtain sample w2 where j: "env_jitter env (rs_world s2) = (sample, w2)" by fastforce
  obtain b where b: "full_jitter (rs_backoff s2) streak sample = Inr b"
    using r now dec s2 st j
    by (cases "full_jitter (rs_backoff s2) streak sample")
       (auto simp: retry_or_fail_def Let_def s1_def split: if_splits)
  obtain delay where d: "decision_delay (Retry scope reason sd) b = Some delay"
    by (cases sd) auto
  obtain plan where p: "plan_retry (rs_budget s) (rs_previous s) now (rs_attempt s) delay = Inr plan"
    using r now dec s2 st j b d f
    by (cases "plan_retry (rs_budget s) (rs_previous s) now (rs_attempt s) delay")
       (auto simp: retry_or_fail_def Let_def s1_def split: if_splits)
  have s': "rs_previous s' = now" "rs_attempt s' = plan_attempt plan" "\<not> rs_connected s'"
    "rs_budget s' = rs_budget s" "rs_retry_delay_time s' = rs_retry_delay_time s2 + plan_delay plan"
    using r now dec s2 st j b d f p
    by (auto simp: retry_or_fail_def Let_def s1_def split: if_splits)
  have "rs_retry_delay_time s2 = rs_retry_delay_time s"
    using s2 by (auto simp: streak_after_progress_def s1_def Let_def split: option.splits if_splits)
  moreover have "plan_attempt plan = Suc (rs_attempt s)" "Suc (rs_attempt s) \<le> max_attempts (rs_budget s)"
    "now + plan_delay plan + attempt_timeout (rs_budget s) \<le> effective_deadline (rs_budget s)"
    using p plan_retry_Inr_iff [OF ok] by (auto dest!: spec_delay_le)
  ultimately show ?thesis
    using s' dec now retry_or_fail_frame(1) [OF r] by auto
qed

section \<open>A concrete server\<close>

text \<open>
  A world for witnesses: three rows, the position of the open call, the number of connection
  losses still to come (each one an \<open>Unavailable\<close> status after the first row), and a clock
  that stands still. Responses carry one row of one byte.
\<close>

definition demo_decoders :: detail_decoders where
  "demo_decoders = \<lparr>decode_rpc_status = (\<lambda>_. None), decode_retry_info = (\<lambda>_. None),
                    decode_storage_error = (\<lambda>_. None)\<rparr>"

definition demo_next :: "nat \<times> nat \<Rightarrow> next_outcome \<times> (nat \<times> nat)" where
  "demo_next w =
     (if fst w = 1 \<and> 0 < snd w
      then (NextStatus \<lparr>status_code = Unavailable, status_details = [], status_sources = []\<rparr>,
            (0, snd w - 1))
      else if fst w < 3
      then (NextResponse \<lparr>response_rows = Some (ArrowRecordBatch [''abc'' ! fst w])\<rparr>,
            (fst w + 1, snd w))
      else if fst w = 3 then (NextEnd, w) else (NextTimedOut, w))"

definition demo_carried :: "read_rows_response \<Rightarrow> char list" where
  "demo_carried r = (case response_rows r of Some (ArrowRecordBatch b) \<Rightarrow> b | _ \<Rightarrow> [])"

definition demo_env :: "(nat \<times> nat, char, char list, char) read_env" where
  "demo_env =
     \<lparr>env_clock = (\<lambda>w. (0, w)), env_jitter = (\<lambda>w. (0, w)), env_sleep = (\<lambda>_ w. w),
      env_open = (\<lambda>_ off _ _ w. (Opened, (nat off, snd w))),
      env_next = (\<lambda>_ w. demo_next w),
      env_reserve = (\<lambda>_ w. (True, w)), env_free = (\<lambda>w. w),
      env_acquire_permit = (\<lambda>w. (True, w)), env_release_permit = (\<lambda>w. w),
      env_prepare = (\<lambda>r. case response_rows r of
         Some (ArrowRecordBatch b) \<Rightarrow> Inr (Some (b, length b)) | Some (AvroRows b) \<Rightarrow> Inl ()
         | None \<Rightarrow> Inr None),
      env_decode = (\<lambda>b. Inr b), env_project = (\<lambda>rows. Some rows),
      env_decoders = demo_decoders, env_idle_timeout = from_secs 60\<rparr>"

lemma demo_honest: "honest_server demo_env fst ''abc'' demo_carried (\<lambda>c. c)"
proof -
  have step: "carried = take (length carried) (drop k ''abc'')"
    if "carried = [''abc'' ! k]" "k < 3" for k and carried :: string
  proof -
    have "k = 0 \<or> k = 1 \<or> k = 2" using that(2) by auto
    then show ?thesis using that(1) by (auto simp: numeral_2_eq_2)
  qed
  show ?thesis
    unfolding honest_server_def
    using step [OF refl]
    by (auto simp: demo_env_def demo_next_def demo_carried_def
        split: if_splits option.splits response_rows.splits)
qed

lemma demo_ends: "ends_at_last_row demo_env fst ''abc''"
  by (auto simp: ends_at_last_row_def demo_env_def demo_next_def split: if_splits)

definition demo_state :: "(nat \<times> nat) read_state" where
  "demo_state = snd (read_rows_start demo_env 0 (from_millis 100) (from_secs 60) (from_secs 86400)
     (from_secs 21600) (0, 1))"

lemma demo_start:
  "read_rows_start demo_env 0 (from_millis 100) (from_secs 60) (from_secs 86400) (from_secs 21600) (0, 1)
     = (Inr (), demo_state)"
  by (simp add: demo_state_def read_rows_start_def read_rows_policy_def policy_new_def
      read_rows_budget_def budget_new_def demo_env_def duration_defs checked_add_def checked_sub_def
      session_expiry_safety_margin_def effective_deadline_def Let_def)

lemmas demo_eval =
  demo_state_def read_rows_start_def read_rows_policy_def policy_new_def
  read_rows_budget_def budget_new_def demo_env_def duration_defs checked_add_def checked_sub_def
  session_expiry_safety_margin_def effective_deadline_def Let_def demo_next_def demo_decoders_def

lemmas read_stream_steps =
  next_pass_def open_stream_def wait_timeout_def receive_pass_def decode_response_def accept_batch_def
  checked_advance_def i64_max_def serialized_payload_len_def retry_pass_def retry_or_fail_def
  classify_read_rows_status_def status_details_parse_def streak_after_progress_def
  is_session_limited_def full_jitter_def delay_cap_def duration_from_nanos_def plan_retry_def
  saturating_add_def failure_streak_after_progress_def checked_mul_def stream_error_def

lemma next_batch_numeral:
  "next_batch env (numeral k) s =
     (case next_pass env s of Inl s \<Rightarrow> next_batch env (pred_numeral k) s | Inr r \<Rightarrow> Some r)"
  by (simp add: numeral_eq_Suc)

lemma poll_stream_numeral:
  "poll_stream env fuel (numeral k) s =
     (case next_batch env fuel (s\<lparr>rs_world := env_free env (rs_world s)\<rparr>) of
        None \<Rightarrow> ([], Some StreamStuck, s)
      | Some (Inl e, s) \<Rightarrow> ([], Some (StreamFailed e), s)
      | Some (Inr None, s) \<Rightarrow> ([], Some StreamDone, s)
      | Some (Inr (Some batch), s) \<Rightarrow>
          (let (batches, fin, s) = poll_stream env fuel (pred_numeral k) s in (batch # batches, fin, s)))"
  by (simp add: numeral_eq_Suc)

lemma demo_run:
  "\<exists>s'. poll_stream demo_env 5 10 demo_state = ([''a'', ''b'', ''c''], Some StreamDone, s')"
  by (simp add: demo_eval next_batch_numeral poll_stream_numeral read_stream_steps)

section \<open>Properties\<close>

text \<open>
  C1: Exactly-once delivery across reconnections. Against a server that honours offsets, whatever
  faults, time-outs and reconnections happen, the batches handed out so far are, in order and
  without gap or repetition, a prefix of the projected rows of the stream; and when the stream ends
  without an error and the server only ends after its last row, they are all of them.
\<close>

theorem read_stream_exactly_once:
  assumes "honest_server env pos rows carried f"
    and "read_rows_start env ordinal b0 b1 window lease w = (Inr (), s0)"
    and "poll_stream env fuel polls s0 = (batches, fin, s')"
  shows "concat batches = map f (take (length (concat batches)) rows) \<and>
    (fin = Some StreamDone \<longrightarrow> ends_at_last_row env pos rows \<longrightarrow> concat batches = map f rows)"
proof -
  have i: "stream_inv pos s0" and z: "rs_offset s0 = 0"
    using read_rows_start_inv [OF assms(2)] by auto
  have d: "concat batches = map f (take (length (concat batches)) rows)"
    using poll_stream_delivers [OF assms(1) i assms(3)] z by simp
  moreover have "concat batches = map f rows" if "fin = Some StreamDone" "ends_at_last_row env pos rows"
  proof -
    have "length (concat batches) = length rows"
      using poll_stream_complete [OF assms(1) that(2) i] assms(3) that(1) z by simp
    then show ?thesis using d by simp
  qed
  ultimately show ?thesis by blast
qed

theorem read_stream_exactly_once_witness:
  "\<exists>batches s'. poll_stream demo_env 5 10 demo_state = (batches, Some StreamDone, s') \<and>
     concat batches = ''abc''"
proof -
  obtain s' where r: "poll_stream demo_env 5 10 demo_state = ([''a'', ''b'', ''c''], Some StreamDone, s')"
    using demo_run by blast
  from read_stream_exactly_once [OF demo_honest demo_start r] demo_ends show ?thesis using r by auto
qed



end
