(* ===== verification/Object_Upload.thy ===== *)
theory Object_Upload
  imports Silk_Prelude
begin

text \<open>
  The one-object upload of \<open>crates/silk-chiffon-storage/src/upload.rs\<close> and the producer
  task of \<open>upload/task.rs\<close>: small objects go out as a single put, larger ones as a
  multipart upload whose parts are started in order and bounded in number.

  The object store, the join set, the part permits and the cancellation token live outside the
  model: they are the fields of \<open>upload_env\<close>, each taking and returning an opaque world.
  The sequence of calls made on the store is part of the state, so that the theorems speak about
  what the store was asked to do.
\<close>

section \<open>Settings, errors and the environment\<close>

type_synonym bytes = string

definition default_part_size :: nat where
  "default_part_size = 10 * 1024 * 1024"

definition default_max_in_flight_parts :: nat where
  "default_max_in_flight_parts = 8"

record upload_settings =
  part_size :: nat
  max_in_flight_parts :: nat

definition default_upload_settings :: upload_settings where
  "default_upload_settings =
     \<lparr>part_size = default_part_size, max_in_flight_parts = default_max_in_flight_parts\<rparr>"

text \<open>
  \<open>parse_part_size\<close>: the \<open>bytesize\<close> parser is a parameter yielding a 64-bit number;
  \<open>usize\<close> is 64 bits wide. The message of the parser is passed through.
\<close>

definition parse_part_size :: "(string \<Rightarrow> (string, nat) result) \<Rightarrow> string \<Rightarrow> (string, nat) result" where
  "parse_part_size parse_bytesize input =
     (case parse_bytesize input of
        Inl message \<Rightarrow> Inl message
      | Inr count \<Rightarrow>
          if count > umax 64 then Inl (''upload part size is too large: '' @ input)
          else if count = 0 then Inl ''upload part size must be at least 1 byte''
          else Inr count)"

text \<open>
  The causes an upload error carries (\<open>anyhow::Error\<close>): a store failure, a panicked part
  task, the closed part limiter, or a primary error with a failed cleanup. \<open>Panicked\<close> stands
  for the \<open>expect\<close> of \<open>join_one\<close> and for the subtraction of the part loop on a
  full buffer; \<open>multipart_write_ok\<close> and \<open>start_part_ok\<close> show both unreachable.
\<close>

datatype upload_cause =
    StoreFailure string
  | PartTaskFailed
  | PartLimiterClosed
  | Panicked
  | PrimaryWithCleanup upload_cause upload_cause

fun primary_with_cleanup :: "upload_cause \<Rightarrow> upload_cause option \<Rightarrow> upload_cause" where
  "primary_with_cleanup primary (Some cleanup) = PrimaryWithCleanup primary cleanup"
| "primary_with_cleanup primary None = primary"

datatype object_upload_error =
    UploadWrite string upload_cause
  | UploadComplete string upload_cause
  | UploadAbort string upload_cause
  | UploadTask string
  | WriterAlreadyTaken string
  | StoppedBeforeCompletion string
  | AbortedInsteadOfCompleted string
  | StoppedBeforeAbort string

datatype write_progress = Written | Cancelled

datatype terminal_action = DoComplete | DoAbort

datatype store_call =
    CallPut bytes
  | CallPutMultipart
  | CallPutPart bytes
  | CallComplete
  | CallAbort

text \<open>What joining one part task yields; \<open>part_result\<close> is the \<open>??\<close> of \<open>join_one\<close>.\<close>

datatype part_outcome = PartDone | PartStoreError string | PartJoinError

fun part_result :: "part_outcome \<Rightarrow> (upload_cause, unit) result" where
  "part_result PartDone = Inr ()"
| "part_result (PartStoreError e) = Inl (StoreFailure e)"
| "part_result PartJoinError = Inl PartTaskFailed"

record 'w upload_env =
  ue_call :: "store_call \<Rightarrow> 'w \<Rightarrow> (string, unit) result \<times> 'w"
  ue_put_part :: "bytes \<Rightarrow> 'w \<Rightarrow> 'w"
  ue_cancelled :: "'w \<Rightarrow> bool \<times> 'w"
  ue_join :: "'w \<Rightarrow> part_outcome \<times> 'w"
  ue_select_join :: "'w \<Rightarrow> part_outcome option \<times> 'w"
  ue_permit :: "'w \<Rightarrow> bool \<times> 'w"
  ue_select_permit :: "'w \<Rightarrow> bool option \<times> 'w"
  ue_shutdown :: "'w \<Rightarrow> 'w"

record 'w upload_io =
  io_calls :: "store_call list"
  io_world :: 'w

definition store_call :: "'w upload_env \<Rightarrow> store_call \<Rightarrow> 'w upload_io \<Rightarrow> (string, unit) result \<times> 'w upload_io" where
  "store_call env c io =
     (let (r, w) = ue_call env c (io_world io) in (r, \<lparr>io_calls = io_calls io @ [c], io_world = w\<rparr>))"

definition observe :: "('w \<Rightarrow> 'a \<times> 'w) \<Rightarrow> 'w upload_io \<Rightarrow> 'a \<times> 'w upload_io" where
  "observe f io = (let (a, w) = f (io_world io) in (a, io\<lparr>io_world := w\<rparr>))"

section \<open>Multipart state\<close>

record multipart_state =
  mp_settings :: upload_settings
  mp_buffer :: bytes
  mp_tasks :: nat

definition multipart_new :: "upload_settings \<Rightarrow> multipart_state" where
  "multipart_new settings = \<lparr>mp_settings = settings, mp_buffer = [], mp_tasks = 0\<rparr>"

type_synonym ('w, 'a) multipart_step =
  "(upload_cause, 'a) result \<times> multipart_state \<times> 'w upload_io"

text \<open>The part is created by \<open>put_part\<close> at once; its result is joined later.\<close>

definition spawn_part ::
  "'w upload_env \<Rightarrow> bytes \<Rightarrow> multipart_state \<Rightarrow> 'w upload_io \<Rightarrow> multipart_state \<times> 'w upload_io" where
  "spawn_part env bytes m io =
     (m\<lparr>mp_tasks := mp_tasks m + 1\<rparr>,
      \<lparr>io_calls = io_calls io @ [CallPutPart bytes], io_world = ue_put_part env bytes (io_world io)\<rparr>)"

definition join_one ::
  "'w upload_env \<Rightarrow> multipart_state \<Rightarrow> 'w upload_io \<Rightarrow> ('w, unit) multipart_step" where
  "join_one env m io =
     (case mp_tasks m of
        0 \<Rightarrow> (Inl Panicked, m, io)
      | Suc n \<Rightarrow> (let (r, io) = observe (ue_join env) io in (part_result r, m\<lparr>mp_tasks := n\<rparr>, io)))"

text \<open>
  \<open>while tasks.len() >= limit\<close>: the number of running tasks is the recursion argument,
  since every joined task leaves the set.
\<close>

fun join_below ::
  "'w upload_env \<Rightarrow> nat \<Rightarrow> nat \<Rightarrow> multipart_state \<Rightarrow> 'w upload_io \<Rightarrow> ('w, unit) multipart_step" where
  "join_below env limit tasks m io =
     (if tasks < limit then (Inr (), m, io)
      else (case join_one env (m\<lparr>mp_tasks := tasks\<rparr>) io of
              (Inl e, m, io) \<Rightarrow> (Inl e, m, io)
            | (Inr _, m, io) \<Rightarrow>
                (case tasks of 0 \<Rightarrow> (Inl Panicked, m, io) | Suc n \<Rightarrow> join_below env limit n m io)))"

fun select_below ::
  "'w upload_env \<Rightarrow> nat \<Rightarrow> nat \<Rightarrow> multipart_state \<Rightarrow> 'w upload_io \<Rightarrow>
   ('w, write_progress) multipart_step" where
  "select_below env limit tasks m io =
     (if tasks < limit then (Inr Written, m, io)
      else (case tasks of
              0 \<Rightarrow> (Inl Panicked, m, io)
            | Suc n \<Rightarrow>
                (case observe (ue_select_join env) io of
                   (None, io) \<Rightarrow> (Inr Cancelled, m, io)
                 | (Some outcome, io) \<Rightarrow>
                     (case part_result outcome of
                        Inl e \<Rightarrow> (Inl e, m\<lparr>mp_tasks := n\<rparr>, io)
                      | Inr _ \<Rightarrow> select_below env limit n (m\<lparr>mp_tasks := n\<rparr>) io))))"

declare join_below.simps [simp del] select_below.simps [simp del]

definition start_part ::
  "'w upload_env \<Rightarrow> bytes \<Rightarrow> multipart_state \<Rightarrow> 'w upload_io \<Rightarrow> ('w, unit) multipart_step" where
  "start_part env bytes m io =
     (case join_below env (max_in_flight_parts (mp_settings m)) (mp_tasks m) m io of
        (Inl e, m, io) \<Rightarrow> (Inl e, m, io)
      | (Inr _, m, io) \<Rightarrow>
          (let (permit, io) = observe (ue_permit env) io in
           if \<not> permit then (Inl PartLimiterClosed, m, io)
           else (let (m, io) = spawn_part env bytes m io in (Inr (), m, io))))"

definition start_part_or_cancel ::
  "'w upload_env \<Rightarrow> bytes \<Rightarrow> multipart_state \<Rightarrow> 'w upload_io \<Rightarrow> ('w, write_progress) multipart_step" where
  "start_part_or_cancel env bytes m io =
     (case select_below env (max_in_flight_parts (mp_settings m)) (mp_tasks m) m io of
        (Inl e, m, io) \<Rightarrow> (Inl e, m, io)
      | (Inr Cancelled, m, io) \<Rightarrow> (Inr Cancelled, m, io)
      | (Inr Written, m, io) \<Rightarrow>
          (let (stop, io) = observe (ue_cancelled env) io in
           if stop then (Inr Cancelled, m, io)
           else (case observe (ue_select_permit env) io of
                   (None, io) \<Rightarrow> (Inr Cancelled, m, io)
                 | (Some False, io) \<Rightarrow> (Inl PartLimiterClosed, m, io)
                 | (Some True, io) \<Rightarrow>
                     (let (stop, io) = observe (ue_cancelled env) io in
                      if stop then (Inr Cancelled, m, io)
                      else (let (m, io) = spawn_part env bytes m io in (Inr Written, m, io))))))"

text \<open>
  \<open>MultipartState::write\<close>: the loop fills the buffer up to one part and starts the part.
  Each pass consumes at least one byte because the buffer is shorter than a part.
\<close>

function multipart_write ::
  "'w upload_env \<Rightarrow> bytes \<Rightarrow> multipart_state \<Rightarrow> 'w upload_io \<Rightarrow> ('w, write_progress) multipart_step" where
  "multipart_write env bytes m io =
     (if bytes = [] then (Inr Written, m, io)
      else (let (stop, io) = observe (ue_cancelled env) io in
        if stop then (Inr Cancelled, m, io)
        else if part_size (mp_settings m) \<le> length (mp_buffer m) then (Inl Panicked, m, io)
        else (let remaining = part_size (mp_settings m) - length (mp_buffer m);
                  len = min (length bytes) remaining;
                  m = m\<lparr>mp_buffer := mp_buffer m @ take len bytes\<rparr>
              in if length (mp_buffer m) = part_size (mp_settings m)
                 then (case start_part_or_cancel env (mp_buffer m) (m\<lparr>mp_buffer := []\<rparr>) io of
                         (Inl e, m, io) \<Rightarrow> (Inl e, m, io)
                       | (Inr Cancelled, m, io) \<Rightarrow> (Inr Cancelled, m, io)
                       | (Inr Written, m, io) \<Rightarrow> multipart_write env (drop len bytes) m io)
                 else multipart_write env (drop len bytes) m io)))"
  by pat_completeness auto
termination by (relation "measure (\<lambda>(env, bytes, m, io). length bytes)") auto

declare multipart_write.simps [simp del]

definition multipart_complete ::
  "'w upload_env \<Rightarrow> multipart_state \<Rightarrow> 'w upload_io \<Rightarrow> ('w, unit) multipart_step" where
  "multipart_complete env m io =
     (case (if mp_buffer m \<noteq> [] then start_part env (mp_buffer m) (m\<lparr>mp_buffer := []\<rparr>) io
            else (Inr (), m, io)) of
        (Inl e, m, io) \<Rightarrow> (Inl e, m, io)
      | (Inr _, m, io) \<Rightarrow>
          (case join_below env 1 (mp_tasks m) m io of
             (Inl e, m, io) \<Rightarrow> (Inl e, m, io)
           | (Inr _, m, io) \<Rightarrow>
               (case store_call env CallComplete io of
                  (Inl e, io) \<Rightarrow> (Inl (StoreFailure e), m, io)
                | (Inr _, io) \<Rightarrow> (Inr (), m, io))))"

definition multipart_abort ::
  "'w upload_env \<Rightarrow> multipart_state \<Rightarrow> 'w upload_io \<Rightarrow> (upload_cause, unit) result \<times> 'w upload_io" where
  "multipart_abort env m io =
     (let io = io\<lparr>io_world := ue_shutdown env (io_world io)\<rparr> in
      case store_call env CallAbort io of
        (Inl e, io) \<Rightarrow> (Inl (StoreFailure e), io)
      | (Inr _, io) \<Rightarrow> (Inr (), io))"

section \<open>The upload worker\<close>

record 'w upload_worker =
  uw_target :: string
  uw_settings :: upload_settings
  uw_buffer :: bytes
  uw_multipart :: "multipart_state option"
  uw_io :: "'w upload_io"

type_synonym ('w, 'a) upload_step = "(object_upload_error, 'a) result \<times> 'w upload_worker"

definition worker_new :: "string \<Rightarrow> upload_settings \<Rightarrow> 'w \<Rightarrow> 'w upload_worker" where
  "worker_new target settings w =
     \<lparr>uw_target = target, uw_settings = settings, uw_buffer = [], uw_multipart = None,
      uw_io = \<lparr>io_calls = [], io_world = w\<rparr>\<rparr>"

definition abort_multipart ::
  "'w upload_env \<Rightarrow> 'w upload_worker \<Rightarrow> (upload_cause, unit) result \<times> 'w upload_worker" where
  "abort_multipart env u =
     (case uw_multipart u of
        None \<Rightarrow> (Inr (), u)
      | Some m \<Rightarrow>
          (let (r, io) = multipart_abort env m (uw_io u) in
           (r, u\<lparr>uw_multipart := None, uw_io := io\<rparr>)))"

fun error_of :: "('e, 'a) result \<Rightarrow> 'e option" where
  "error_of (Inl e) = Some e"
| "error_of (Inr _) = None"

definition write_multipart ::
  "'w upload_env \<Rightarrow> bytes \<Rightarrow> 'w upload_worker \<Rightarrow> ('w, write_progress) upload_step" where
  "write_multipart env bytes u =
     (case uw_multipart u of
        None \<Rightarrow> (Inl (UploadWrite (uw_target u) Panicked), u)
      | Some m \<Rightarrow>
          (case multipart_write env bytes m (uw_io u) of
             (Inr progress, m, io) \<Rightarrow> (Inr progress, u\<lparr>uw_multipart := Some m, uw_io := io\<rparr>)
           | (Inl primary, m, io) \<Rightarrow>
               (let (r, u) = abort_multipart env (u\<lparr>uw_multipart := Some m, uw_io := io\<rparr>) in
                (Inl (UploadWrite (uw_target u) (primary_with_cleanup primary (error_of r))), u))))"

definition worker_write ::
  "'w upload_env \<Rightarrow> bytes \<Rightarrow> 'w upload_worker \<Rightarrow> ('w, write_progress) upload_step" where
  "worker_write env bytes u =
     (let (stop, io) = observe (ue_cancelled env) (uw_io u); u = u\<lparr>uw_io := io\<rparr> in
      if stop then (Inr Cancelled, u)
      else if uw_multipart u = None \<and>
        saturating_add (umax 64) (length (uw_buffer u)) (length bytes) < part_size (uw_settings u)
      then (Inr Written, u\<lparr>uw_buffer := uw_buffer u @ bytes\<rparr>)
      else if uw_multipart u = None then
        (case store_call env CallPutMultipart (uw_io u) of
           (Inl e, io) \<Rightarrow> (Inl (UploadWrite (uw_target u) (StoreFailure e)), u\<lparr>uw_io := io\<rparr>)
         | (Inr _, io) \<Rightarrow>
             (let (stop, io) = observe (ue_cancelled env) io;
                  u = u\<lparr>uw_multipart := Some (multipart_new (uw_settings u)), uw_io := io\<rparr> in
              if stop then (Inr Cancelled, u)
              else (case write_multipart env (uw_buffer u) (u\<lparr>uw_buffer := []\<rparr>) of
                      (Inl e, u) \<Rightarrow> (Inl e, u)
                    | (Inr Cancelled, u) \<Rightarrow> (Inr Cancelled, u)
                    | (Inr Written, u) \<Rightarrow> write_multipart env bytes u)))
      else write_multipart env bytes u)"

definition worker_complete :: "'w upload_env \<Rightarrow> 'w upload_worker \<Rightarrow> ('w, string) upload_step" where
  "worker_complete env u =
     (case uw_multipart u of
        None \<Rightarrow>
          (case store_call env (CallPut (uw_buffer u)) (uw_io u) of
             (Inl e, io) \<Rightarrow> (Inl (UploadComplete (uw_target u) (StoreFailure e)), u\<lparr>uw_io := io\<rparr>)
           | (Inr _, io) \<Rightarrow> (Inr (uw_target u), u\<lparr>uw_io := io\<rparr>))
      | Some m \<Rightarrow>
          (case multipart_complete env m (uw_io u) of
             (Inr _, m, io) \<Rightarrow> (Inr (uw_target u), u\<lparr>uw_multipart := Some m, uw_io := io\<rparr>)
           | (Inl primary, m, io) \<Rightarrow>
               (let (r, u) = abort_multipart env (u\<lparr>uw_multipart := Some m, uw_io := io\<rparr>) in
                (Inl (UploadComplete (uw_target u) (primary_with_cleanup primary (error_of r))), u))))"

definition worker_abort :: "'w upload_env \<Rightarrow> 'w upload_worker \<Rightarrow> ('w, unit) upload_step" where
  "worker_abort env u =
     (case abort_multipart env u of
        (Inl e, u) \<Rightarrow> (Inl (UploadAbort (uw_target u) e), u)
      | (Inr _, u) \<Rightarrow> (Inr (), u))"

section \<open>Driving the worker\<close>

text \<open>
  What the upload task observes, in order: \<open>biased\<close> selection takes the terminal action
  first when it is there. \<open>NextChunk\<close> is a chunk received while no terminal action is
  pending, \<open>ChannelClosed a\<close> the end of the byte channel with the action awaited after it,
  \<open>TerminalFirst a chunks\<close> a terminal action that arrived with \<open>chunks\<close> still queued.
  \<open>None\<close> is a dropped terminal sender.
\<close>

datatype upload_script =
    NextChunk bytes upload_script
  | ChannelClosed "terminal_action option"
  | TerminalFirst "terminal_action option" "bytes list"

fun action_or_abort :: "terminal_action option \<Rightarrow> terminal_action" where
  "action_or_abort None = DoAbort"
| "action_or_abort (Some a) = a"

definition abort_to_none :: "'w upload_env \<Rightarrow> 'w upload_worker \<Rightarrow> ('w, string option) upload_step" where
  "abort_to_none env u =
     (case worker_abort env u of (Inl e, u) \<Rightarrow> (Inl e, u) | (Inr _, u) \<Rightarrow> (Inr None, u))"

definition complete_to_some :: "'w upload_env \<Rightarrow> 'w upload_worker \<Rightarrow> ('w, string option) upload_step" where
  "complete_to_some env u =
     (case worker_complete env u of (Inl e, u) \<Rightarrow> (Inl e, u) | (Inr url, u) \<Rightarrow> (Inr (Some url), u))"

fun drain_chunks :: "'w upload_env \<Rightarrow> bytes list \<Rightarrow> 'w upload_worker \<Rightarrow> ('w, string option) upload_step" where
  "drain_chunks env [] u = complete_to_some env u"
| "drain_chunks env (chunk # chunks) u =
     (case worker_write env chunk u of
        (Inl e, u) \<Rightarrow> (Inl e, u)
      | (Inr Cancelled, u) \<Rightarrow> abort_to_none env u
      | (Inr Written, u) \<Rightarrow> drain_chunks env chunks u)"

fun run_upload :: "'w upload_env \<Rightarrow> upload_script \<Rightarrow> 'w upload_worker \<Rightarrow> ('w, string option) upload_step" where
  "run_upload env (TerminalFirst action chunks) u =
     (case action_or_abort action of
        DoAbort \<Rightarrow> abort_to_none env u
      | DoComplete \<Rightarrow> drain_chunks env chunks u)"
| "run_upload env (NextChunk chunk rest) u =
     (case worker_write env chunk u of
        (Inl e, u) \<Rightarrow> (Inl e, u)
      | (Inr Cancelled, u) \<Rightarrow> abort_to_none env u
      | (Inr Written, u) \<Rightarrow> run_upload env rest u)"
| "run_upload env (ChannelClosed action) u =
     (case action_or_abort action of
        DoAbort \<Rightarrow> abort_to_none env u
      | DoComplete \<Rightarrow> complete_to_some env u)"

fun script_bytes :: "upload_script \<Rightarrow> bytes" where
  "script_bytes (TerminalFirst action chunks) = concat chunks"
| "script_bytes (NextChunk chunk rest) = chunk @ script_bytes rest"
| "script_bytes (ChannelClosed action) = []"

section \<open>The front end\<close>

text \<open>
  \<open>ObjectUpload::write\<close> and \<open>BlockingObjectUploadWriter::write\<close> cut what they are
  given into chunks of at most one part; \<open>send\<close> is the bounded channel, which fails once
  the task has stopped.
\<close>

function split_chunks :: "nat \<Rightarrow> bytes \<Rightarrow> bytes list" where
  "split_chunks n bytes =
     (if bytes = [] \<or> n = 0 then [] else take n bytes # split_chunks n (drop n bytes))"
  by pat_completeness auto
termination by (relation "measure (\<lambda>(n, bytes). length bytes)") auto

declare split_chunks.simps [simp del]

fun send_chunks :: "(bytes \<Rightarrow> 'w \<Rightarrow> bool \<times> 'w) \<Rightarrow> bytes list \<Rightarrow> 'w \<Rightarrow> bool \<times> 'w" where
  "send_chunks send [] w = (True, w)"
| "send_chunks send (chunk # chunks) w =
     (case send chunk w of
        (False, w) \<Rightarrow> (False, w)
      | (True, w) \<Rightarrow> send_chunks send chunks w)"

text \<open>
  Which part of \<open>ObjectUpload\<close> owns the worker: \<open>uf_worker\<close> until the first writer,
  \<open>uf_active\<close> afterwards, \<open>uf_direct\<close> when \<open>write\<close> itself holds the sender.
\<close>

record upload_front =
  uf_target :: string
  uf_settings :: upload_settings
  uf_worker :: bool
  uf_active :: bool
  uf_direct :: bool

definition upload_front_new :: "string \<Rightarrow> upload_settings \<Rightarrow> upload_front" where
  "upload_front_new target settings =
     \<lparr>uf_target = target, uf_settings = settings, uf_worker = True, uf_active = False, uf_direct = False\<rparr>"

definition start_worker :: "upload_front \<Rightarrow> upload_front" where
  "start_worker f = f\<lparr>uf_worker := False, uf_active := True\<rparr>"

definition front_write ::
  "(bytes \<Rightarrow> 'w \<Rightarrow> bool \<times> 'w) \<Rightarrow> bytes \<Rightarrow> upload_front \<Rightarrow> 'w \<Rightarrow>
   (object_upload_error, unit) result \<times> upload_front \<times> 'w" where
  "front_write send bytes f w =
     (if \<not> uf_direct f \<and> uf_active f then (Inl (WriterAlreadyTaken (uf_target f)), f, w)
      else (let f = (if uf_direct f then f else (start_worker f)\<lparr>uf_direct := True\<rparr>);
                (sent, w) = send_chunks send (split_chunks (part_size (uf_settings f)) bytes) w
            in if sent then (Inr (), f, w)
               else (Inl (UploadWrite (uf_target f) (StoreFailure ''send failed'')), f, w)))"

definition blocking_writer :: "upload_front \<Rightarrow> (object_upload_error, nat) result \<times> upload_front" where
  "blocking_writer f =
     (if uf_active f then (Inl (WriterAlreadyTaken (uf_target f)), f)
      else (Inr (part_size (uf_settings f)), start_worker f))"

definition sink_writer :: "upload_front \<Rightarrow> (object_upload_error, unit) result \<times> upload_front" where
  "sink_writer f =
     (if uf_active f then (Inl (WriterAlreadyTaken (uf_target f)), f)
      else (Inr (), start_worker f))"

definition blocking_write ::
  "(bytes \<Rightarrow> 'w \<Rightarrow> bool \<times> 'w) \<Rightarrow> nat \<Rightarrow> bytes \<Rightarrow> 'w \<Rightarrow> (unit, nat) result \<times> 'w" where
  "blocking_write send part buffer w =
     (let (sent, w) = send_chunks send (split_chunks part buffer) w in
      (if sent then Inr (length buffer) else Inl (), w))"

text \<open>
  \<open>ActiveUpload::complete\<close> and \<open>abort\<close>: whether the terminal action could be sent, and
  the joined task (\<open>None\<close>: the task itself failed to join).
\<close>

definition join_task ::
  "string \<Rightarrow> (object_upload_error, 'a) result option \<Rightarrow> (object_upload_error, 'a) result" where
  "join_task target joined =
     (case joined of None \<Rightarrow> Inl (UploadTask target) | Some r \<Rightarrow> r)"

definition active_complete ::
  "string \<Rightarrow> bool \<Rightarrow> (object_upload_error, string option) result option \<Rightarrow>
   (object_upload_error, string) result" where
  "active_complete target terminal_sent joined =
     res_bind (join_task target joined) (\<lambda>r.
       if \<not> terminal_sent then Inl (StoppedBeforeCompletion target)
       else ok_or (AbortedInsteadOfCompleted target) r)"

definition active_abort ::
  "string \<Rightarrow> bool \<Rightarrow> (object_upload_error, string option) result option \<Rightarrow>
   (object_upload_error, unit) result" where
  "active_abort target terminal_sent joined =
     res_bind (join_task target joined) (\<lambda>_.
       if \<not> terminal_sent then Inl (StoppedBeforeAbort target) else Inr ())"

text \<open>
  \<open>ObjectUpload::complete\<close> and \<open>abort\<close>: without a writer the idle worker settles the
  object itself, otherwise the running task does.
\<close>

definition front_complete ::
  "'w upload_env \<Rightarrow> upload_front \<Rightarrow> 'w upload_worker \<Rightarrow> bool \<Rightarrow>
   (object_upload_error, string option) result option \<Rightarrow> (object_upload_error, string) result" where
  "front_complete env f u terminal_sent joined =
     (if uf_worker f then fst (worker_complete env u)
      else active_complete (uf_target f) terminal_sent joined)"

definition front_abort ::
  "'w upload_env \<Rightarrow> upload_front \<Rightarrow> 'w upload_worker \<Rightarrow> bool \<Rightarrow>
   (object_upload_error, string option) result option \<Rightarrow> (object_upload_error, unit) result" where
  "front_abort env f u terminal_sent joined =
     (if uf_worker f then fst (worker_abort env u)
      else active_abort (uf_target f) terminal_sent joined)"

section \<open>The producer task\<close>

text \<open>
  \<open>ObjectUploadTask\<close>: the producer's join result is a value, an error of its own, a panic
  or a cancellation; \<open>'e\<close> is the type of errors.
\<close>

datatype ('e, 'a) task_outcome = TaskOk 'a | TaskErr 'e | TaskPanicked 'e | TaskCancelled 'e

datatype 'e task_error = Primary 'e | WithCleanup 'e 'e

fun with_cleanup_error :: "'e \<Rightarrow> 'e option \<Rightarrow> 'e task_error" where
  "with_cleanup_error primary (Some cleanup) = WithCleanup primary cleanup"
| "with_cleanup_error primary None = Primary primary"

fun task_error_after_cancel :: "bool \<Rightarrow> ('e, 'a) task_outcome \<Rightarrow> 'e option" where
  "task_error_after_cancel was_finished (TaskCancelled e) = None"
| "task_error_after_cancel was_finished (TaskPanicked e) = Some e"
| "task_error_after_cancel was_finished (TaskErr e) = (if was_finished then Some e else None)"
| "task_error_after_cancel was_finished (TaskOk a) = None"

text \<open>The second component is the terminal operation applied to the upload, if any.\<close>

fun task_finish ::
  "('e, 'a) task_outcome \<Rightarrow> ('e, unit) result \<Rightarrow> ('e, string) result \<Rightarrow>
   ('e task_error, 'a \<times> string) result \<times> terminal_action" where
  "task_finish (TaskOk value) aborted completed =
     (case completed of
        Inl e \<Rightarrow> (Inl (Primary e), DoComplete)
      | Inr url \<Rightarrow> (Inr (value, url), DoComplete))"
| "task_finish (TaskErr e) aborted completed = (Inl (with_cleanup_error e (error_of aborted)), DoAbort)"
| "task_finish (TaskPanicked e) aborted completed = (Inl (with_cleanup_error e (error_of aborted)), DoAbort)"
| "task_finish (TaskCancelled e) aborted completed = (Inl (with_cleanup_error e (error_of aborted)), DoAbort)"

definition task_abort ::
  "bool \<Rightarrow> ('e, 'a) task_outcome \<Rightarrow> ('e, unit) result \<Rightarrow> ('e task_error, unit) result \<times> terminal_action" where
  "task_abort was_finished outcome aborted =
     (case task_error_after_cancel was_finished outcome of
        Some primary \<Rightarrow> (Inl (with_cleanup_error primary (error_of aborted)), DoAbort)
      | None \<Rightarrow> ((case aborted of Inl e \<Rightarrow> Inl (Primary e) | Inr _ \<Rightarrow> Inr ()), DoAbort))"

section \<open>Parts and calls\<close>

lemma observe_eq: "observe f io = (fst (f (io_world io)), io\<lparr>io_world := snd (f (io_world io))\<rparr>)"
  by (simp add: observe_def split: prod.splits)

lemma store_call_eq: "store_call env c io =
    (fst (ue_call env c (io_world io)),
     \<lparr>io_calls = io_calls io @ [c], io_world = snd (ue_call env c (io_world io))\<rparr>)"
  by (simp add: store_call_def split: prod.splits)

lemmas upload_io = observe_eq store_call_eq Let_def

lemma observe_calls: "observe f io = (a, io') \<Longrightarrow> io_calls io' = io_calls io"
  by (auto simp: observe_eq)

lemma part_result_not_panicked: "part_result r \<noteq> Inl Panicked"
  by (cases r) auto

lemma join_below_frame:
  assumes "join_below env limit tasks m io = (r, m', io')" and "mp_tasks m = tasks"
  shows "io_calls io' = io_calls io \<and> mp_buffer m' = mp_buffer m \<and> mp_settings m' = mp_settings m \<and>
    mp_tasks m' \<le> tasks \<and> (r = Inr () \<longrightarrow> mp_tasks m' < limit) \<and> (0 < limit \<longrightarrow> r \<noteq> Inl Panicked)"
  using assms
proof (induction tasks arbitrary: m io)
  case 0
  then show ?case by (auto simp: join_below.simps [of _ _ 0] join_one_def split: if_splits)
next
  case (Suc n)
  show ?case
  proof (cases "Suc n < limit")
    case True
    then show ?thesis using Suc.prems by (auto simp: join_below.simps [of _ _ "Suc n"])
  next
    case False
    obtain q io1 where o: "observe (ue_join env) io = (q, io1)" by (cases "observe (ue_join env) io")
    show ?thesis
      using Suc False o observe_calls [OF o] part_result_not_panicked [of q]
      by (cases "part_result q") (fastforce simp: join_below.simps [of _ _ "Suc n"] join_one_def)+
  qed
qed

lemma select_below_frame:
  assumes "select_below env limit tasks m io = (r, m', io')" and "mp_tasks m = tasks"
  shows "io_calls io' = io_calls io \<and> mp_buffer m' = mp_buffer m \<and> mp_settings m' = mp_settings m \<and>
    mp_tasks m' \<le> tasks \<and> (r = Inr Written \<longrightarrow> mp_tasks m' < limit) \<and> (0 < limit \<longrightarrow> r \<noteq> Inl Panicked)"
  using assms
proof (induction tasks arbitrary: m io)
  case 0
  then show ?case by (auto simp: select_below.simps [of _ _ 0] split: if_splits)
next
  case (Suc n)
  show ?case
  proof (cases "Suc n < limit")
    case True
    then show ?thesis using Suc.prems by (auto simp: select_below.simps [of _ _ "Suc n"])
  next
    case False
    obtain q io1 where o: "observe (ue_select_join env) io = (q, io1)"
      by (cases "observe (ue_select_join env) io")
    show ?thesis
    proof (cases q)
      case None
      then show ?thesis
        using Suc.prems False o observe_calls [OF o] by (auto simp: select_below.simps [of _ _ "Suc n"])
    next
      case (Some p)
      then show ?thesis
        using Suc False o observe_calls [OF o] part_result_not_panicked [of p]
        by (cases "part_result p") (fastforce simp: select_below.simps [of _ _ "Suc n"])+
    qed
  qed
qed

lemma start_part_frame:
  assumes "start_part env bytes m io = (r, m', io')"
  shows "mp_buffer m' = mp_buffer m" "mp_settings m' = mp_settings m"
    "io_calls io' = io_calls io @ (if r = Inr () then [CallPutPart bytes] else [])"
    "mp_tasks m \<le> max_in_flight_parts (mp_settings m) \<Longrightarrow> mp_tasks m' \<le> max_in_flight_parts (mp_settings m)"
    "0 < max_in_flight_parts (mp_settings m) \<Longrightarrow> r \<noteq> Inl Panicked"
  using assms join_below_frame [of env "max_in_flight_parts (mp_settings m)" "mp_tasks m" m io]
  by (auto simp: start_part_def spawn_part_def upload_io split: prod.splits sum.splits if_splits)

lemma start_part_or_cancel_frame:
  assumes "start_part_or_cancel env bytes m io = (r, m', io')"
  shows "mp_buffer m' = mp_buffer m" "mp_settings m' = mp_settings m"
    "io_calls io' = io_calls io @ (if r = Inr Written then [CallPutPart bytes] else [])"
    "mp_tasks m \<le> max_in_flight_parts (mp_settings m) \<Longrightarrow> mp_tasks m' \<le> max_in_flight_parts (mp_settings m)"
    "0 < max_in_flight_parts (mp_settings m) \<Longrightarrow> r \<noteq> Inl Panicked"
  using assms select_below_frame [of env "max_in_flight_parts (mp_settings m)" "mp_tasks m" m io]
  by (auto simp: start_part_or_cancel_def spawn_part_def upload_io
      split: prod.splits sum.splits if_splits write_progress.splits option.splits bool.splits)

section \<open>The worker invariant\<close>

definition multipart_ok :: "multipart_state \<Rightarrow> bool" where
  "multipart_ok m \<longleftrightarrow>
     0 < part_size (mp_settings m) \<and> 0 < max_in_flight_parts (mp_settings m) \<and>
     mp_tasks m \<le> max_in_flight_parts (mp_settings m) \<and>
     length (mp_buffer m) < part_size (mp_settings m)"

definition full_parts :: "nat \<Rightarrow> bytes list \<Rightarrow> bool" where
  "full_parts n parts \<longleftrightarrow> (\<forall>p\<in>set parts. length p = n)"

lemma full_parts_simps [simp]:
  "full_parts n []" "full_parts n (p # ps) \<longleftrightarrow> length p = n \<and> full_parts n ps"
  "full_parts n (ps @ qs) \<longleftrightarrow> full_parts n ps \<and> full_parts n qs"
  by (auto simp: full_parts_def)

lemma multipart_write_stop:
  assumes "bytes = [] \<or> fst (observe (ue_cancelled env) io)"
    and "multipart_write env bytes m io = (r, m', io')"
  shows "r = (if bytes = [] then Inr Written else Inr Cancelled)" "m' = m" "io_calls io' = io_calls io"
  using assms by (auto simp: multipart_write.simps [of env bytes m io] observe_eq split: if_splits)

lemma multipart_write_short:
  assumes "bytes \<noteq> []" and "observe (ue_cancelled env) io = (False, io1)"
    and "length (mp_buffer m) + length bytes < part_size (mp_settings m)"
  shows "multipart_write env bytes m io = (Inr Written, m\<lparr>mp_buffer := mp_buffer m @ bytes\<rparr>, io1)"
proof -
  have "min (length bytes) (part_size (mp_settings m) - length (mp_buffer m)) = length bytes" using assms(3) by simp
  then show ?thesis using assms
    by (simp add: multipart_write.simps [of env bytes m io] multipart_write.simps [of env "[]"] Let_def)
qed

lemma multipart_write_full:
  assumes "bytes \<noteq> []" and "observe (ue_cancelled env) io = (False, io1)"
    and "part_size (mp_settings m) = length (mp_buffer m) + k" and "0 < k" and "k \<le> length bytes"
  shows "multipart_write env bytes m io =
    (case start_part_or_cancel env (mp_buffer m @ take k bytes) (m\<lparr>mp_buffer := []\<rparr>) io1 of
       (Inl e, m, io) \<Rightarrow> (Inl e, m, io)
     | (Inr Cancelled, m, io) \<Rightarrow> (Inr Cancelled, m, io)
     | (Inr Written, m, io) \<Rightarrow> multipart_write env (drop k bytes) m io)"
proof -
  have "min (length bytes) k = k" using assms by simp
  then show ?thesis using assms
    by (auto simp: multipart_write.simps [of env bytes m io] Let_def
        split: prod.split sum.split write_progress.split)
qed

lemma multipart_write_ok:
  assumes "multipart_write env bytes m io = (r, m', io')" and "multipart_ok m"
  shows "\<exists>parts. io_calls io' = io_calls io @ map CallPutPart parts \<and> full_parts (part_size (mp_settings m)) parts \<and>
    mp_settings m' = mp_settings m \<and> mp_tasks m' \<le> max_in_flight_parts (mp_settings m) \<and>
    r \<noteq> Inl Panicked \<and>
    (r = Inr Written \<longrightarrow> concat parts @ mp_buffer m' = mp_buffer m @ bytes \<and> multipart_ok m')"
  using assms
proof (induction bytes arbitrary: m io rule: length_induct)
  case (1 bytes)
  note ok = "1.prems"(2) and run = "1.prems"(1)
  define k where "k = part_size (mp_settings m) - length (mp_buffer m)"
  have lt: "length (mp_buffer m) < part_size (mp_settings m)" using ok by (simp add: multipart_ok_def)
  obtain stop io1 where s: "observe (ue_cancelled env) io = (stop, io1)"
    by (cases "observe (ue_cancelled env) io")
  have c1: "io_calls io1 = io_calls io" by (rule observe_calls [OF s])
  consider (stopped) "bytes = [] \<or> stop"
    | (short) "bytes \<noteq> []" "\<not> stop" "length (mp_buffer m) + length bytes < part_size (mp_settings m)"
    | (full) "bytes \<noteq> []" "\<not> stop" "k \<le> length bytes" unfolding k_def by linarith
  then show ?case
  proof cases
    case stopped
    then show ?thesis using multipart_write_stop [OF _ run] ok s
      by (intro exI [of _ "[]"]) (auto simp: multipart_ok_def)
  next
    case short
    then show ?thesis using multipart_write_short [of bytes env io io1 m] run s ok c1
      by (intro exI [of _ "[]"]) (auto simp: multipart_ok_def)
  next
    case full
    let ?part = "mp_buffer m @ take k bytes"
    have k: "part_size (mp_settings m) = length (mp_buffer m) + k" using lt by (simp add: k_def)
    have stop: "stop = False" using full(2) by simp
    have part: "length ?part = part_size (mp_settings m)" "k > 0" using full lt by (auto simp: k_def)
    obtain q m1 io2 where st: "start_part_or_cancel env ?part (m\<lparr>mp_buffer := []\<rparr>) io1 = (q, m1, io2)"
      by (cases "start_part_or_cancel env ?part (m\<lparr>mp_buffer := []\<rparr>) io1")
    note f = start_part_or_cancel_frame [OF st]
    have m1: "mp_buffer m1 = []" "mp_settings m1 = mp_settings m"
      "mp_tasks m1 \<le> max_in_flight_parts (mp_settings m)" "q \<noteq> Inl Panicked" "multipart_ok m1"
      using f ok by (auto simp: multipart_ok_def)
    have run': "(case q of Inl e \<Rightarrow> (Inl e, m1, io2) | Inr Cancelled \<Rightarrow> (Inr Cancelled, m1, io2)
        | Inr Written \<Rightarrow> multipart_write env (drop k bytes) m1 io2) = (r, m', io')"
      using run multipart_write_full [OF full(1) s [unfolded stop] k _ full(3)] part(2) st
      by (auto split: sum.split write_progress.split)
    show ?thesis
    proof (cases "q = Inr Written")
      case False
      then have "r = q" "m' = m1" "io' = io2" using run' by (auto split: sum.splits write_progress.splits)
      then show ?thesis using False f(3) m1 c1 by (intro exI [of _ "[]"]) auto
    next
      case True
      then have "multipart_write env (drop k bytes) m1 io2 = (r, m', io')" using run' by simp
      moreover have "length (drop k bytes) < length bytes" using part full by simp
      ultimately obtain parts where p: "io_calls io' = io_calls io2 @ map CallPutPart parts"
        "full_parts (part_size (mp_settings m)) parts" "mp_settings m' = mp_settings m"
        "mp_tasks m' \<le> max_in_flight_parts (mp_settings m)" "r \<noteq> Inl Panicked"
        "r = Inr Written \<longrightarrow> concat parts @ mp_buffer m' = drop k bytes \<and> multipart_ok m'"
        using "1.IH" m1 by (metis append_Nil)
      show ?thesis
        using p True f(3) c1 part by (intro exI [of _ "?part # parts"]) auto
    qed
  qed
qed

definition settings_ok :: "upload_settings \<Rightarrow> bool" where
  "settings_ok s \<longleftrightarrow> 0 < part_size s \<and> part_size s \<le> umax 64 \<and> 0 < max_in_flight_parts s"

text \<open>The worker has accepted exactly \<open>data\<close>.\<close>

definition worker_inv :: "bytes \<Rightarrow> 'w upload_worker \<Rightarrow> bool" where
  "worker_inv data u \<longleftrightarrow> settings_ok (uw_settings u) \<and>
     (case uw_multipart u of
        None \<Rightarrow> io_calls (uw_io u) = [] \<and> uw_buffer u = data \<and> length data < part_size (uw_settings u)
      | Some m \<Rightarrow> mp_settings m = uw_settings u \<and> multipart_ok m \<and> part_size (uw_settings u) \<le> length data \<and>
          (\<exists>parts. io_calls (uw_io u) = CallPutMultipart # map CallPutPart parts \<and>
             full_parts (part_size (uw_settings u)) parts \<and> concat parts @ mp_buffer m = data))"

text \<open>Nothing is settled yet: a multipart upload is open exactly when the worker holds it.\<close>

definition worker_open :: "'w upload_worker \<Rightarrow> bool" where
  "worker_open u \<longleftrightarrow>
     (case uw_multipart u of
        None \<Rightarrow> io_calls (uw_io u) = []
      | Some _ \<Rightarrow> (\<exists>parts. io_calls (uw_io u) = CallPutMultipart # map CallPutPart parts))"

text \<open>
  How a store may be left without an object: untouched, refused at the first call, or with the
  multipart upload aborted once and last.
\<close>

definition calls_cleaned :: "store_call list \<Rightarrow> bool" where
  "calls_cleaned calls \<longleftrightarrow> calls = [] \<or> calls = [CallPutMultipart] \<or> (\<exists>b. calls = [CallPut b]) \<or>
     (\<exists>parts completed. calls = CallPutMultipart # map CallPutPart parts @ completed @ [CallAbort] \<and>
        completed \<in> {[], [CallComplete]})"

lemma calls_cleaned_abort [intro]:
  "calls = CallPutMultipart # map CallPutPart parts \<Longrightarrow> calls_cleaned (calls @ [CallAbort])"
  "calls = CallPutMultipart # map CallPutPart parts \<Longrightarrow> calls_cleaned (calls @ [CallComplete, CallAbort])"
  by (auto simp: calls_cleaned_def)

lemma worker_inv_open: "worker_inv data u \<Longrightarrow> worker_open u"
  by (auto simp: worker_inv_def worker_open_def split: option.splits)

lemma multipart_abort_calls:
  "multipart_abort env m io = (r, io') \<Longrightarrow> io_calls io' = io_calls io @ [CallAbort]"
  by (auto simp: multipart_abort_def store_call_eq Let_def split: sum.splits)

lemma abort_multipart_frame:
  assumes "abort_multipart env u = (r, u')"
  shows "uw_multipart u' = None" "uw_target u' = uw_target u" "uw_settings u' = uw_settings u"
    "io_calls (uw_io u') = io_calls (uw_io u) @ (if uw_multipart u = None then [] else [CallAbort])"
  using assms by (auto simp: abort_multipart_def dest: multipart_abort_calls split: option.splits prod.splits)

lemma write_multipart_ok:
  assumes run: "write_multipart env bytes u = (r, u')" and m: "uw_multipart u = Some m"
    and ok: "multipart_ok m" "mp_settings m = uw_settings u"
    and calls: "io_calls (uw_io u) = CallPutMultipart # map CallPutPart parts" "full_parts (part_size (uw_settings u)) parts"
  shows "uw_target u' = uw_target u \<and> uw_settings u' = uw_settings u \<and> uw_buffer u' = uw_buffer u \<and>
    (case r of
       Inl e \<Rightarrow> calls_cleaned (io_calls (uw_io u'))
     | Inr Cancelled \<Rightarrow> worker_open u'
     | Inr Written \<Rightarrow> (\<exists>m' parts'. uw_multipart u' = Some m' \<and> multipart_ok m' \<and> mp_settings m' = uw_settings u \<and>
         io_calls (uw_io u') = CallPutMultipart # map CallPutPart parts' \<and>
         full_parts (part_size (uw_settings u)) parts' \<and>
         concat parts' @ mp_buffer m' = concat parts @ mp_buffer m @ bytes))"
proof -
  obtain q m1 io1 where w: "multipart_write env bytes m (uw_io u) = (q, m1, io1)"
    by (cases "multipart_write env bytes m (uw_io u)")
  obtain new where new: "io_calls io1 = CallPutMultipart # map CallPutPart (parts @ new)"
    "full_parts (part_size (uw_settings u)) new" "mp_settings m1 = uw_settings u"
    "q = Inr Written \<longrightarrow> concat new @ mp_buffer m1 = mp_buffer m @ bytes \<and> multipart_ok m1"
    using multipart_write_ok [OF w ok(1)] ok(2) calls(1) by auto
  show ?thesis
  proof (cases q)
    case (Inl e)
    obtain a u1 where a: "abort_multipart env (u\<lparr>uw_multipart := Some m1, uw_io := io1\<rparr>) = (a, u1)"
      by (cases "abort_multipart env (u\<lparr>uw_multipart := Some m1, uw_io := io1\<rparr>)")
    have "uw_buffer u1 = uw_buffer u"
      using a by (auto simp: abort_multipart_def split: prod.splits)
    then show ?thesis
      using run m w Inl a abort_multipart_frame [OF a] calls_cleaned_abort(1) [OF new(1)]
      by (auto simp: write_multipart_def)
  next
    case (Inr p)
    then have "r = Inr p" "u' = u\<lparr>uw_multipart := Some m1, uw_io := io1\<rparr>"
      using run m w by (auto simp: write_multipart_def)
    then show ?thesis using Inr new calls(2)
      by (cases p) (auto simp: worker_open_def intro!: exI [of _ "parts @ new"])
  qed
qed

lemma worker_write_ok:
  assumes run: "worker_write env bytes u = (r, u')" and inv: "worker_inv data u"
  shows "uw_target u' = uw_target u \<and> uw_settings u' = uw_settings u \<and>
    (case r of
       Inl e \<Rightarrow> calls_cleaned (io_calls (uw_io u'))
     | Inr Cancelled \<Rightarrow> worker_open u'
     | Inr Written \<Rightarrow> worker_inv (data @ bytes) u')"
proof -
  let ?n = "part_size (uw_settings u)"
  obtain stop io1 where s: "observe (ue_cancelled env) (uw_io u) = (stop, io1)"
    by (cases "observe (ue_cancelled env) (uw_io u)")
  have c1: "io_calls io1 = io_calls (uw_io u)" by (rule observe_calls [OF s])
  have ok: "settings_ok (uw_settings u)" using inv by (simp add: worker_inv_def)
  show ?thesis
  proof (cases stop)
    case True
    then show ?thesis using run s c1 worker_inv_open [OF inv]
      by (auto simp: worker_write_def worker_open_def split: option.splits)
  next
    case False
    show ?thesis
    proof (cases "uw_multipart u")
      case (Some m)
      then have m: "multipart_ok m" "mp_settings m = uw_settings u" "?n \<le> length data"
        using inv by (auto simp: worker_inv_def)
      obtain parts where parts: "io_calls (uw_io u) = CallPutMultipart # map CallPutPart parts"
        "full_parts ?n parts" "concat parts @ mp_buffer m = data"
        using inv Some by (auto simp: worker_inv_def)
      have "write_multipart env bytes (u\<lparr>uw_io := io1\<rparr>) = (r, u')"
        using run s False Some by (simp add: worker_write_def)
      from write_multipart_ok [OF this, of m parts] m parts Some c1 ok show ?thesis
        by (fastforce simp: worker_inv_def split: sum.splits write_progress.splits)
    next
      case None
      then have n: "io_calls (uw_io u) = []" "uw_buffer u = data" "length data < ?n"
        using inv by (auto simp: worker_inv_def)
      have sat: "saturating_add (umax 64) (length data) (length bytes) < ?n \<longleftrightarrow> length (data @ bytes) < ?n"
        using ok by (auto simp: settings_ok_def saturating_add_def)
      show ?thesis
      proof (cases "length (data @ bytes) < ?n")
        case True
        then show ?thesis using run s False None n c1 sat ok
          by (auto simp: worker_write_def worker_inv_def)
      next
        case large: False
        obtain q io2 where q: "store_call env CallPutMultipart io1 = (q, io2)"
          by (cases "store_call env CallPutMultipart io1")
        have c2: "io_calls io2 = [CallPutMultipart]" using q c1 n by (auto simp: store_call_eq)
        obtain stop2 io3 where s2: "observe (ue_cancelled env) io2 = (stop2, io3)"
          by (cases "observe (ue_cancelled env) io2")
        have c3: "io_calls io3 = [CallPutMultipart]" using observe_calls [OF s2] c2 by simp
        let ?u = "u\<lparr>uw_multipart := Some (multipart_new (uw_settings u)), uw_io := io3, uw_buffer := []\<rparr>"
        have new: "multipart_ok (multipart_new (uw_settings u))" "mp_settings (multipart_new (uw_settings u)) = uw_settings u"
          "mp_buffer (multipart_new (uw_settings u)) = []"
          using ok by (auto simp: multipart_ok_def multipart_new_def settings_ok_def)
        show ?thesis
        proof (cases "q = Inr () \<and> \<not> stop2")
          case False
          then show ?thesis using run s \<open>\<not> stop\<close> None n sat large q s2 c2 c3
            by (cases q) (auto simp: worker_write_def calls_cleaned_def worker_open_def intro: exI [of _ "[]"])
        next
          case True
          obtain q3 u3 where w: "write_multipart env data ?u = (q3, u3)" by (cases "write_multipart env data ?u")
          note f = write_multipart_ok [OF w, of "multipart_new (uw_settings u)" "[]"]
          have run': "(case q3 of Inl e \<Rightarrow> (Inl e, u3) | Inr Cancelled \<Rightarrow> (Inr Cancelled, u3)
              | Inr Written \<Rightarrow> write_multipart env bytes u3) = (r, u')"
            using run s \<open>\<not> stop\<close> None n sat large q s2 True w
            by (auto simp: worker_write_def split: sum.split write_progress.split)
          show ?thesis
          proof (cases "q3 = Inr Written")
            case False
            then show ?thesis using run' f new c3
              by (auto split: sum.splits write_progress.splits)
          next
            case q3: True
            then obtain m3 parts where m3: "uw_multipart u3 = Some m3" "multipart_ok m3" "mp_settings m3 = uw_settings u3"
              "io_calls (uw_io u3) = CallPutMultipart # map CallPutPart parts" "full_parts ?n parts"
              "concat parts @ mp_buffer m3 = data" "uw_settings u3 = uw_settings u" "uw_target u3 = uw_target u"
              using f new c3 by auto
            have "write_multipart env bytes u3 = (r, u')" using run' q3 by simp
            from write_multipart_ok [OF this m3(1,2,3,4)] m3 ok large show ?thesis
              by (fastforce simp: worker_inv_def split: sum.splits write_progress.splits)
          qed
        qed
      qed
    qed
  qed
qed

section \<open>Settling the upload\<close>

lemma split_chunks_simps [simp]:
  "split_chunks n [] = []"
  "0 < n \<Longrightarrow> bytes \<noteq> [] \<Longrightarrow> split_chunks n bytes = take n bytes # split_chunks n (drop n bytes)"
  by (simp_all add: split_chunks.simps [of n "[]"] split_chunks.simps [of n bytes])

lemma concat_split_chunks: "0 < n \<Longrightarrow> concat (split_chunks n bytes) = bytes"
  by (induction n bytes rule: split_chunks.induct) (auto simp: split_chunks.simps)

lemma split_chunks_size:
  "c \<in> set (split_chunks n bytes) \<Longrightarrow> 0 < length c \<and> length c \<le> n"
proof (induction n bytes rule: split_chunks.induct)
  case (1 n bytes)
  then show ?case by (cases "bytes = [] \<or> n = 0") (auto simp: split_chunks.simps [of n bytes])
qed

lemma split_chunks_full_parts:
  assumes "full_parts n parts" and "length rest < n"
  shows "split_chunks n (concat parts @ rest) = parts @ (if rest = [] then [] else [rest])"
  using assms(1)
proof (induction parts)
  case Nil
  then show ?case using assms(2) by (cases "rest = []") auto
next
  case (Cons p parts)
  then show ?case using assms(2) by (cases "p = []") auto
qed

text \<open>What the store was asked to do for an object with the contents \<open>data\<close>.\<close>

definition stored_as :: "nat \<Rightarrow> bytes \<Rightarrow> store_call list \<Rightarrow> bool" where
  "stored_as n data calls \<longleftrightarrow>
     calls = (if length data < n then [CallPut data]
              else CallPutMultipart # map CallPutPart (split_chunks n data) @ [CallComplete])"

lemma multipart_complete_calls:
  assumes "multipart_complete env m io = (r, m', io')"
  shows "r = Inr () \<Longrightarrow> io_calls io' =
      io_calls io @ map CallPutPart (if mp_buffer m = [] then [] else [mp_buffer m]) @ [CallComplete]"
    and "r = Inl e \<Longrightarrow> \<exists>parts completed. completed \<in> {[], [CallComplete]} \<and>
      io_calls io' = io_calls io @ map CallPutPart parts @ completed"
proof -
  obtain q m1 io1 where s: "(if mp_buffer m \<noteq> [] then start_part env (mp_buffer m) (m\<lparr>mp_buffer := []\<rparr>) io
      else (Inr (), m, io)) = (q, m1, io1)"
    by (cases "if mp_buffer m \<noteq> [] then start_part env (mp_buffer m) (m\<lparr>mp_buffer := []\<rparr>) io
      else (Inr (), m, io)")
  have c1: "io_calls io1 = io_calls io @ map CallPutPart (if q = Inr () \<and> mp_buffer m \<noteq> [] then [mp_buffer m] else [])"
    using s start_part_frame(3) [of env "mp_buffer m" "m\<lparr>mp_buffer := []\<rparr>" io q m1 io1]
    by (auto split: if_splits)
  obtain q2 m2 io2 where j: "join_below env 1 (mp_tasks m1) m1 io1 = (q2, m2, io2)"
    by (cases "join_below env 1 (mp_tasks m1) m1 io1")
  have c2: "io_calls io2 = io_calls io1" using join_below_frame [OF j refl] by simp
  have run: "(case q of Inl e \<Rightarrow> (Inl e, m1, io1) | Inr _ \<Rightarrow> (case q2 of Inl e \<Rightarrow> (Inl e, m2, io2)
      | Inr _ \<Rightarrow> (case store_call env CallComplete io2 of (Inl e, io) \<Rightarrow> (Inl (StoreFailure e), m2, io)
                   | (Inr _, io) \<Rightarrow> (Inr (), m2, io)))) = (r, m', io')"
    using assms s j by (auto simp: multipart_complete_def split: sum.split)
  show "r = Inr () \<Longrightarrow> io_calls io' =
      io_calls io @ map CallPutPart (if mp_buffer m = [] then [] else [mp_buffer m]) @ [CallComplete]"
    using run c1 c2 by (auto simp: store_call_eq split: sum.splits)
  show "r = Inl e \<Longrightarrow> \<exists>parts completed. completed \<in> {[], [CallComplete]} \<and>
      io_calls io' = io_calls io @ map CallPutPart parts @ completed"
  proof -
    assume r: "r = Inl e"
    let ?parts = "if q = Inr () \<and> mp_buffer m \<noteq> [] then [mp_buffer m] else []"
    have "\<exists>completed. completed \<in> {[], [CallComplete]} \<and> io_calls io' = io_calls io @ map CallPutPart ?parts @ completed"
      using run c1 c2 r by (auto simp: store_call_eq split: sum.splits)
    then show ?thesis by blast
  qed
qed

lemma worker_complete_ok:
  assumes run: "worker_complete env u = (r, u')" and inv: "worker_inv data u"
  shows "case r of
      Inl e \<Rightarrow> calls_cleaned (io_calls (uw_io u'))
    | Inr url \<Rightarrow> url = uw_target u \<and> stored_as (part_size (uw_settings u)) data (io_calls (uw_io u'))"
proof (cases "uw_multipart u")
  case None
  then show ?thesis using run inv
    by (auto simp: worker_complete_def worker_inv_def store_call_eq calls_cleaned_def stored_as_def split: sum.splits)
next
  case (Some m)
  obtain parts where m: "multipart_ok m" "mp_settings m = uw_settings u" "part_size (uw_settings u) \<le> length data"
    "io_calls (uw_io u) = CallPutMultipart # map CallPutPart parts" "full_parts (part_size (uw_settings u)) parts"
    "concat parts @ mp_buffer m = data"
    using inv Some by (auto simp: worker_inv_def)
  obtain q m1 io1 where c: "multipart_complete env m (uw_io u) = (q, m1, io1)"
    by (cases "multipart_complete env m (uw_io u)")
  show ?thesis
  proof (cases q)
    case (Inr x)
    have "r = Inr (uw_target u)" "u' = u\<lparr>uw_multipart := Some m1, uw_io := io1\<rparr>"
      using run Some c Inr by (auto simp: worker_complete_def)
    then show ?thesis
      using multipart_complete_calls(1) [OF c] Inr m
        split_chunks_full_parts [OF m(5), of "mp_buffer m"]
      by (auto simp: stored_as_def multipart_ok_def)
  next
    case (Inl e)
    obtain a u1 where a: "abort_multipart env (u\<lparr>uw_multipart := Some m1, uw_io := io1\<rparr>) = (a, u1)"
      by (cases "abort_multipart env (u\<lparr>uw_multipart := Some m1, uw_io := io1\<rparr>)")
    obtain new completed where new: "completed \<in> {[], [CallComplete]}"
      "io_calls io1 = CallPutMultipart # map CallPutPart (parts @ new) @ completed"
      using multipart_complete_calls(2) [OF c Inl] m(4) by auto
    have "io_calls (uw_io u1) = CallPutMultipart # map CallPutPart (parts @ new) @ completed @ [CallAbort]"
      using abort_multipart_frame(4) [OF a] new(2) by simp
    then have "calls_cleaned (io_calls (uw_io u1))" unfolding calls_cleaned_def using new(1) by blast
    then show ?thesis using run Some c Inl a by (auto simp: worker_complete_def)
  qed
qed

lemma worker_abort_ok:
  assumes "worker_abort env u = (r, u')" and "worker_open u"
  shows "calls_cleaned (io_calls (uw_io u'))"
proof -
  obtain a u1 where a: "abort_multipart env u = (a, u1)" by (cases "abort_multipart env u")
  then have "u' = u1" using assms(1) by (auto simp: worker_abort_def split: sum.splits)
  then show ?thesis using abort_multipart_frame(4) [OF a] assms(2) calls_cleaned_abort(1)
    by (fastforce simp: worker_open_def calls_cleaned_def [of "[]"] split: option.splits)
qed

definition settled_ok :: "bytes \<Rightarrow> 'w upload_worker \<Rightarrow> (object_upload_error, string option) result \<Rightarrow> 'w upload_worker \<Rightarrow> bool" where
  "settled_ok data u r u' \<longleftrightarrow>
     (case r of
        Inr (Some url) \<Rightarrow> url = uw_target u \<and> stored_as (part_size (uw_settings u)) data (io_calls (uw_io u'))
      | _ \<Rightarrow> calls_cleaned (io_calls (uw_io u')))"

lemma abort_to_none_ok: "abort_to_none env u = (r, u') \<Longrightarrow> worker_open u \<Longrightarrow> settled_ok data v r u'"
  by (auto simp: abort_to_none_def settled_ok_def split: prod.splits sum.splits dest!: worker_abort_ok)

lemma complete_to_some_ok: "complete_to_some env u = (r, u') \<Longrightarrow> worker_inv data u \<Longrightarrow> settled_ok data u r u'"
  by (auto simp: complete_to_some_def settled_ok_def split: prod.splits sum.splits dest!: worker_complete_ok)

lemma settled_ok_worker:
  "uw_target v = uw_target u \<Longrightarrow> uw_settings v = uw_settings u \<Longrightarrow> settled_ok data v r u' = settled_ok data u r u'"
  by (auto simp: settled_ok_def split: sum.splits option.splits)

lemma drain_chunks_ok:
  "drain_chunks env chunks u = (r, u') \<Longrightarrow> worker_inv data u \<Longrightarrow> settled_ok (data @ concat chunks) u r u'"
proof (induction chunks arbitrary: u data)
  case Nil
  then show ?case by (simp add: complete_to_some_ok)
next
  case (Cons chunk chunks)
  obtain q u1 where w: "worker_write env chunk u = (q, u1)" by (cases "worker_write env chunk u")
  note f = worker_write_ok [OF w Cons.prems(2)]
  consider e where "q = Inl e" | "q = Inr Cancelled" | "q = Inr Written"
    by (cases q; cases "projr q") auto
  then show ?case
  proof cases
    case 1
    then show ?thesis using Cons.prems w f by (auto simp: settled_ok_def)
  next
    case 2
    then show ?thesis using Cons.prems w f by (auto intro: abort_to_none_ok)
  next
    case 3
    then show ?thesis using Cons.prems w f Cons.IH [of u1 "data @ chunk"] settled_ok_worker [of u1 u] by auto
  qed
qed

lemma run_upload_ok:
  "run_upload env script u = (r, u') \<Longrightarrow> worker_inv data u \<Longrightarrow> settled_ok (data @ script_bytes script) u r u'"
proof (induction script arbitrary: u data)
  case (NextChunk chunk script)
  obtain q u1 where w: "worker_write env chunk u = (q, u1)" by (cases "worker_write env chunk u")
  note f = worker_write_ok [OF w NextChunk.prems(2)]
  consider e where "q = Inl e" | "q = Inr Cancelled" | "q = Inr Written"
    by (cases q; cases "projr q") auto
  then show ?case
  proof cases
    case 1
    then show ?thesis using NextChunk.prems w f by (auto simp: settled_ok_def)
  next
    case 2
    then show ?thesis using NextChunk.prems w f by (auto intro: abort_to_none_ok)
  next
    case 3
    then show ?thesis using NextChunk.prems w f NextChunk.IH [of u1 "data @ chunk"] settled_ok_worker [of u1 u] by auto
  qed
next
  case (ChannelClosed action)
  then show ?case
    by (auto split: terminal_action.splits intro: abort_to_none_ok complete_to_some_ok worker_inv_open)
next
  case (TerminalFirst action chunks)
  then show ?case
    by (auto split: terminal_action.splits intro: abort_to_none_ok drain_chunks_ok worker_inv_open)
qed

lemma worker_new_inv: "settings_ok settings \<Longrightarrow> worker_inv [] (worker_new target settings w)"
  by (simp add: worker_inv_def worker_new_def settings_ok_def)

section \<open>Chunked writing\<close>

text \<open>
  A byte sink takes chunks one at a time and accumulates them: what it holds after a sequence of
  accepted chunks is their concatenation, so the way a producer cuts its bytes does not matter.
\<close>

locale byte_sink =
  fixes accept :: "'b list \<Rightarrow> 's \<Rightarrow> 's option"
    and holds :: "'b list \<Rightarrow> 's \<Rightarrow> bool"
  assumes accept_holds: "holds data s \<Longrightarrow> accept chunk s = Some s' \<Longrightarrow> holds (data @ chunk) s'"
begin

fun accept_all :: "'b list list \<Rightarrow> 's \<Rightarrow> 's option" where
  "accept_all [] s = Some s"
| "accept_all (chunk # chunks) s =
     (case accept chunk s of None \<Rightarrow> None | Some s \<Rightarrow> accept_all chunks s)"

lemma accept_all_holds: "holds data s \<Longrightarrow> accept_all chunks s = Some s' \<Longrightarrow> holds (data @ concat chunks) s'"
proof (induction chunks arbitrary: data s)
  case (Cons chunk chunks)
  then obtain s1 where "accept chunk s = Some s1" "accept_all chunks s1 = Some s'"
    by (auto split: option.splits)
  then show ?case using Cons.IH [of "data @ chunk" s1] accept_holds [OF Cons.prems(1)] by simp
qed simp

lemma cut_does_not_matter:
  assumes "holds data s" and "concat cs = concat ds"
    and "accept_all cs s = Some s1" and "accept_all ds s = Some s2"
  shows "holds (data @ concat cs) s1 \<and> holds (data @ concat cs) s2"
  using accept_all_holds [OF assms(1)] assms(2-) by metis

end

definition worker_accept :: "'w upload_env \<Rightarrow> bytes \<Rightarrow> 'w upload_worker \<Rightarrow> 'w upload_worker option" where
  "worker_accept env chunk u =
     (case worker_write env chunk u of (Inr Written, u) \<Rightarrow> Some u | _ \<Rightarrow> None)"

interpretation upload_sink: byte_sink "worker_accept env" worker_inv for env :: "'w upload_env"
proof unfold_locales
  fix data chunk :: bytes and u u' :: "'w upload_worker"
  assume "worker_inv data u" and "worker_accept env chunk u = Some u'"
  then show "worker_inv (data @ chunk) u'"
    using worker_write_ok [of env chunk u "Inr Written" u' data]
    by (auto simp: worker_accept_def split: prod.splits sum.splits write_progress.splits)
qed

section \<open>Properties\<close>

text \<open>A store that accepts everything at once and a token that is never cancelled.\<close>

definition calm_env :: "unit upload_env" where
  "calm_env = \<lparr>ue_call = (\<lambda>_ w. (Inr (), w)), ue_put_part = (\<lambda>_ w. w), ue_cancelled = (\<lambda>w. (False, w)),
     ue_join = (\<lambda>w. (PartDone, w)), ue_select_join = (\<lambda>w. (Some PartDone, w)),
     ue_permit = (\<lambda>w. (True, w)), ue_select_permit = (\<lambda>w. (Some True, w)), ue_shutdown = (\<lambda>w. w)\<rparr>"

text \<open>The same store, but part tasks fail.\<close>

definition failing_env :: "unit upload_env" where
  "failing_env = calm_env\<lparr>ue_join := (\<lambda>w. (PartStoreError ''reset'', w)),
     ue_select_join := (\<lambda>w. (Some (PartStoreError ''reset''), w))\<rparr>"

lemmas upload_eval = calm_env_def failing_env_def worker_new_def worker_write_def write_multipart_def
  multipart_new_def multipart_write.simps start_part_or_cancel_def start_part_def spawn_part_def
  select_below.simps join_below.simps join_one_def worker_complete_def multipart_complete_def
  abort_multipart_def multipart_abort_def complete_to_some_def saturating_add_def umax_def Let_def
  observe_eq store_call_eq

text \<open>
  C2: An upload that reports success has handed the store exactly the bytes it was given, in order
  and once: a single put when they are fewer than one part, otherwise a multipart upload whose parts
  are the consecutive part-sized pieces of the contents, completed last.
\<close>

theorem upload_stores_what_was_written:
  assumes "settings_ok settings"
    and "run_upload env script (worker_new target settings w) = (Inr (Some url), u')"
  shows "url = target \<and> stored_as (part_size settings) (script_bytes script) (io_calls (uw_io u'))"
  using run_upload_ok [OF assms(2) worker_new_inv [OF assms(1)]]
  by (simp add: settled_ok_def worker_new_def)

theorem upload_stores_what_was_written_witness:
  "\<exists>u'. run_upload calm_env (NextChunk ''abc'' (NextChunk ''de'' (ChannelClosed (Some DoComplete))))
       (worker_new ''o'' \<lparr>part_size = 2, max_in_flight_parts = 1\<rparr> ()) = (Inr (Some ''o''), u') \<and>
     io_calls (uw_io u') =
       [CallPutMultipart, CallPutPart ''ab'', CallPutPart ''cd'', CallPutPart ''e'', CallComplete]"
proof -
  let ?s = "\<lparr>part_size = 2, max_in_flight_parts = 1\<rparr>"
  let ?script = "NextChunk ''abc'' (NextChunk ''de'' (ChannelClosed (Some DoComplete)))"
  have ok: "settings_ok ?s" by (simp add: settings_ok_def umax_def)
  obtain u' where r: "run_upload calm_env ?script (worker_new ''o'' ?s ()) = (Inr (Some ''o''), u')"
    by (simp add: upload_eval)
  from upload_stores_what_was_written [OF ok r] r show ?thesis by (auto simp: stored_as_def)
qed



text \<open>
  Multipart writing is bounded and total: from a state with fewer buffered bytes than a part,
  every part started is full, at most the configured number of parts is in flight afterwards, the
  subtraction of the loop never underflows, and unless the write failed or was cancelled no byte is
  lost between the parts and the buffer.
\<close>

theorem multipart_write_bounded:
  assumes "multipart_ok m" and "multipart_write env bytes m io = (r, m', io')"
  shows "\<exists>parts. io_calls io' = io_calls io @ map CallPutPart parts \<and>
    full_parts (part_size (mp_settings m)) parts \<and>
    mp_tasks m' \<le> max_in_flight_parts (mp_settings m) \<and> r \<noteq> Inl Panicked \<and>
    (r = Inr Written \<longrightarrow> concat parts @ mp_buffer m' = mp_buffer m @ bytes \<and>
       length (mp_buffer m') < part_size (mp_settings m))"
  using multipart_write_ok [OF assms(2,1)] by (fastforce simp: multipart_ok_def)

theorem multipart_write_bounded_witness:
  "\<exists>parts m' io'. multipart_write calm_env ''bcdef'' \<lparr>mp_settings = \<lparr>part_size = 2, max_in_flight_parts = 1\<rparr>,
       mp_buffer = ''a'', mp_tasks = 0\<rparr> \<lparr>io_calls = [], io_world = ()\<rparr> = (Inr Written, m', io') \<and>
     io_calls io' = map CallPutPart parts \<and> concat parts @ mp_buffer m' = ''abcdef''"
proof -
  let ?m = "\<lparr>mp_settings = \<lparr>part_size = 2, max_in_flight_parts = 1\<rparr>, mp_buffer = ''a'', mp_tasks = 0\<rparr>"
  have ok: "multipart_ok ?m" by (simp add: multipart_ok_def)
  obtain m' io' where r: "multipart_write calm_env ''bcdef'' ?m \<lparr>io_calls = [], io_world = ()\<rparr> = (Inr Written, m', io')"
    by (simp add: upload_eval)
  from multipart_write_bounded [OF ok r] r show ?thesis by auto
qed

text \<open>
  The front end loses nothing on the way to the worker: cutting a buffer into chunks of at most
  one part and having the worker accept them all leaves the worker holding the earlier bytes
  followed by the whole buffer, whatever the buffer's length.
\<close>

theorem chunked_write_reaches_worker:
  assumes "worker_inv data u" and "0 < part_size (uw_settings u)"
    and "upload_sink.accept_all env (split_chunks (part_size (uw_settings u)) bytes) u = Some u'"
  shows "worker_inv (data @ bytes) u' \<and>
    (\<forall>c\<in>set (split_chunks (part_size (uw_settings u)) bytes). 0 < length c \<and> length c \<le> part_size (uw_settings u))"
  using upload_sink.accept_all_holds [OF assms(1,3)] concat_split_chunks [OF assms(2)] split_chunks_size
  by metis

theorem chunked_write_reaches_worker_witness:
  "\<exists>u'. upload_sink.accept_all calm_env (split_chunks 3 ''abcdefg'')
       (worker_new ''o'' \<lparr>part_size = 3, max_in_flight_parts = 2\<rparr> ()) = Some u' \<and> worker_inv ''abcdefg'' u'"
proof -
  let ?u = "worker_new ''o'' \<lparr>part_size = 3, max_in_flight_parts = 2\<rparr> ()"
  have inv: "worker_inv [] ?u" by (rule worker_new_inv) (simp add: settings_ok_def umax_def)
  have n: "part_size (uw_settings ?u) = 3" by (simp add: worker_new_def)
  obtain u' where r: "upload_sink.accept_all calm_env (split_chunks 3 ''abcdefg'') ?u = Some u'"
    by (simp add: worker_accept_def upload_eval)
  from chunked_write_reaches_worker [OF inv, of calm_env "''abcdefg''" u'] n r show ?thesis by simp
qed

text \<open>
  The producer task settles its upload exactly once and by the right action: it completes the
  upload only after the producer returned a value, aborts it in every other case, reports the
  object's URL only for a completed upload, and never hides the producer's own error behind a
  cleanup error.
\<close>

theorem producer_task_settles_upload:
  "(snd (task_finish outcome aborted completed) = DoComplete \<longleftrightarrow> outcome \<in> range TaskOk) \<and>
   (fst (task_finish outcome aborted completed) = Inr (v, url) \<longleftrightarrow> outcome = TaskOk v \<and> completed = Inr url) \<and>
   snd (task_abort was_finished outcome aborted) = DoAbort \<and>
   (fst (task_abort was_finished outcome aborted) = Inr () \<longleftrightarrow>
      aborted = Inr () \<and> task_error_after_cancel was_finished outcome = None) \<and>
   fst (task_finish (TaskErr e) aborted completed) \<in> insert (Inl (Primary e)) (range (\<lambda>c. Inl (WithCleanup e c)))"
  by (cases outcome; cases aborted; cases completed) (auto simp: task_abort_def)

end
