(* ===== verification/Partition_Runs.thy ===== *)
theory Partition_Runs
  imports Silk_Prelude "HOL-Library.AList" "HOL-Library.Multiset"
begin

text \<open>
  Partitioning a stream of record batches (\<open>src/commands/transform/file_output/partition_runs.rs\<close>),
  the partition values of an output report (\<open>report.rs\<close>) and the column projection
  (\<open>projection.rs\<close> and the helpers of \<open>file_output/mod.rs\<close>).

  Arrow is not part of the repository: its batches and arrays are type variables \<open>'b\<close> and
  \<open>'a\<close>, and the operations the code calls are the fields of \<open>arrow_ops\<close>. What the code
  relies on is the hypothesis \<open>arrow_laws\<close>.
\<close>

section \<open>Arrow\<close>

datatype data_type =
    NullType | BooleanType
  | Int8Type | Int16Type | Int32Type | Int64Type
  | UInt8Type | UInt16Type | UInt32Type | UInt64Type
  | Float16Type | Float32Type | Float64Type
  | Utf8Type | LargeUtf8Type | Utf8ViewType
  | Date32Type | Date64Type
  | Time32Type string | Time64Type string | TimestampType string "string option" | DurationType string
  | Decimal128Type nat int | Decimal256Type nat int
  | OtherType string

text \<open>
  \<open>ao_float\<close> yields the IEEE bits of the value as a 64-bit float (a 32-bit one is widened);
  \<open>ao_display\<close> is \<open>ArrayFormatter\<close> on row 0, which may refuse a type.
\<close>

record ('b, 'a) arrow_ops =
  ao_column :: "'b \<Rightarrow> string \<Rightarrow> 'a option"
  ao_slice :: "'b \<Rightarrow> nat \<Rightarrow> nat \<Rightarrow> 'b"
  ao_project :: "'b \<Rightarrow> nat list \<Rightarrow> 'b option"
  ao_array_slice :: "'a \<Rightarrow> nat \<Rightarrow> nat \<Rightarrow> 'a"
  ao_partition :: "'a list \<Rightarrow> (nat \<times> nat) list option"
  ao_is_empty :: "'a \<Rightarrow> bool"
  ao_is_null :: "'a \<Rightarrow> nat \<Rightarrow> bool"
  ao_type :: "'a \<Rightarrow> data_type"
  ao_display :: "'a \<Rightarrow> string option"
  ao_bool :: "'a \<Rightarrow> bool"
  ao_int :: "'a \<Rightarrow> int"
  ao_float :: "'a \<Rightarrow> nat"
  ao_string :: "'a \<Rightarrow> string"
  ao_type_name :: "data_type \<Rightarrow> string"

type_synonym schema = "(string \<times> data_type) list"

section \<open>Partition values\<close>

text \<open>A \<open>HashMap\<close> as an association list with distinct keys.\<close>

type_synonym 'a partition_values = "(string \<times> 'a) list"

definition partition_values_equal :: "'a partition_values \<Rightarrow> 'a partition_values \<Rightarrow> bool" where
  "partition_values_equal a b =
     (length a = length b \<and>
      list_all (\<lambda>(key, a_array). case map_of b key of Some b_array \<Rightarrow> a_array = b_array | None \<Rightarrow> False) a)"

definition format_scalar_value :: "('b, 'a) arrow_ops \<Rightarrow> 'a option \<Rightarrow> string" where
  "format_scalar_value ops arr =
     (case arr of
        Some arr \<Rightarrow>
          if \<not> ao_is_empty ops arr \<and> \<not> ao_is_null ops arr 0
          then (case ao_display ops arr of Some text \<Rightarrow> text | None \<Rightarrow> ''null'')
          else ''null''
      | None \<Rightarrow> ''null'')"

definition key_component :: "('b, 'a) arrow_ops \<Rightarrow> 'a option \<Rightarrow> string" where
  "key_component ops arr =
     (case arr of
        Some a \<Rightarrow>
          if ao_is_null ops a 0 then ''!''
          else (let v = format_scalar_value ops arr in show_nat (length v) @ '':'' @ v)
      | None \<Rightarrow> (let v = format_scalar_value ops arr in show_nat (length v) @ '':'' @ v))"

definition partition_key :: "('b, 'a) arrow_ops \<Rightarrow> 'a partition_values \<Rightarrow> string list \<Rightarrow> string" where
  "partition_key ops values column_order =
     join_with '','' (map (\<lambda>col. key_component ops (map_of values col)) column_order)"

fun is_primitive_type :: "data_type \<Rightarrow> bool" where
  "is_primitive_type BooleanType = True"
| "is_primitive_type Int8Type = True"
| "is_primitive_type Int16Type = True"
| "is_primitive_type Int32Type = True"
| "is_primitive_type Int64Type = True"
| "is_primitive_type UInt8Type = True"
| "is_primitive_type UInt16Type = True"
| "is_primitive_type UInt32Type = True"
| "is_primitive_type UInt64Type = True"
| "is_primitive_type Float16Type = True"
| "is_primitive_type Float32Type = True"
| "is_primitive_type Float64Type = True"
| "is_primitive_type Utf8Type = True"
| "is_primitive_type LargeUtf8Type = True"
| "is_primitive_type Utf8ViewType = True"
| "is_primitive_type Date32Type = True"
| "is_primitive_type Date64Type = True"
| "is_primitive_type (Time32Type u) = True"
| "is_primitive_type (Time64Type u) = True"
| "is_primitive_type (TimestampType u z) = True"
| "is_primitive_type (DurationType u) = True"
| "is_primitive_type (Decimal128Type p s) = True"
| "is_primitive_type (Decimal256Type p s) = True"
| "is_primitive_type NullType = False"
| "is_primitive_type (OtherType n) = False"

datatype output_error =
    ColumnNotFound string
  | PartitionColumnNotFound string
  | PartitionColumnNotPrimitive string data_type
  | ColumnsMissingInBatch
  | ColumnMissingInBatch string
  | OutputFailure string
  | OutputWithCleanup output_error output_error

fun validate_partition_columns_primitive :: "schema \<Rightarrow> string list \<Rightarrow> (output_error, unit) result" where
  "validate_partition_columns_primitive schema [] = Inr ()"
| "validate_partition_columns_primitive schema (col # cols) =
     (case map_of schema col of
        None \<Rightarrow> Inl (PartitionColumnNotFound col)
      | Some type \<Rightarrow>
          if is_primitive_type type then validate_partition_columns_primitive schema cols
          else Inl (PartitionColumnNotPrimitive col type))"

section \<open>Runs\<close>

record ('b, 'a) partition_run =
  run_values :: "'a partition_values"
  run_batch :: 'b

text \<open>\<open>collect\<close> into a \<open>HashMap\<close>: the first missing column is the error.\<close>

fun extract_partition_values ::
  "('b, 'a) arrow_ops \<Rightarrow> 'b \<Rightarrow> nat \<Rightarrow> string list \<Rightarrow> 'a partition_values \<Rightarrow>
   (output_error, 'a partition_values) result" where
  "extract_partition_values ops batch row [] values = Inr values"
| "extract_partition_values ops batch row (name # names) values =
     (case ao_column ops batch name of
        None \<Rightarrow> Inl (ColumnMissingInBatch name)
      | Some array \<Rightarrow>
          extract_partition_values ops batch row names
            (AList.update name (ao_array_slice ops array row 1) values))"

record 'b run_stream =
  rst_inner :: "(output_error, 'b) result list"
  rst_columns :: "string list"
  rst_batch :: "'b option"
  rst_ranges :: "(nat \<times> nat) list option"
  rst_idx :: nat

definition run_stream_new :: "(output_error, 'b) result list \<Rightarrow> string list \<Rightarrow> 'b run_stream" where
  "run_stream_new inner columns =
     \<lparr>rst_inner = inner, rst_columns = columns, rst_batch = None, rst_ranges = None, rst_idx = 0\<rparr>"

text \<open>The part of \<open>poll_next\<close> that polls the inner stream: an error, the end, or a batch to go on with.\<close>

definition poll_inner ::
  "('b, 'a) arrow_ops \<Rightarrow> 'b run_stream \<Rightarrow>
   ((output_error, ('b, 'a) partition_run) result option, unit) result \<times> 'b run_stream" where
  "poll_inner ops s =
     (case rst_inner s of
        [] \<Rightarrow> (Inl None, s)
      | Inl e # rest \<Rightarrow> (Inl (Some (Inl e)), s\<lparr>rst_inner := rest\<rparr>)
      | Inr batch # rest \<Rightarrow>
          (let s = s\<lparr>rst_inner := rest\<rparr>;
               columns = List.map_filter (ao_column ops batch) (rst_columns s) in
           if length columns \<noteq> length (rst_columns s)
           then (Inl (Some (Inl ColumnsMissingInBatch)), s)
           else (case ao_partition ops columns of
                   None \<Rightarrow> (Inl (Some (Inl (OutputFailure ''partition''))), s)
                 | Some ranges \<Rightarrow>
                     (Inr (), s\<lparr>rst_batch := Some batch, rst_ranges := Some ranges, rst_idx := 0\<rparr>))))"

lemma poll_inner_go: "poll_inner ops s = (Inr u, s') \<Longrightarrow> length (rst_inner s') < length (rst_inner s)"
  by (auto simp: poll_inner_def Let_def split: list.splits sum.splits option.splits if_splits)

definition run_of_range ::
  "('b, 'a) arrow_ops \<Rightarrow> string list \<Rightarrow> 'b \<Rightarrow> nat \<times> nat \<Rightarrow> (output_error, ('b, 'a) partition_run) result" where
  "run_of_range ops columns batch bounds =
     (let (start, finish) = bounds; sliced = ao_slice ops batch start (finish - start) in
      case extract_partition_values ops sliced 0 columns [] of
        Inl e \<Rightarrow> Inl e
      | Inr values \<Rightarrow> Inr \<lparr>run_values = values, run_batch = sliced\<rparr>)"

function poll_next ::
  "('b, 'a) arrow_ops \<Rightarrow> 'b run_stream \<Rightarrow>
   (output_error, ('b, 'a) partition_run) result option \<times> 'b run_stream" where
  "poll_next ops s =
     (case (rst_batch s, rst_ranges s) of
        (Some batch, Some ranges) \<Rightarrow>
          if rst_idx s < length ranges
          then (Some (run_of_range ops (rst_columns s) batch (ranges ! rst_idx s)),
                s\<lparr>rst_idx := rst_idx s + 1\<rparr>)
          else (case poll_inner ops (s\<lparr>rst_batch := None, rst_ranges := None, rst_idx := 0\<rparr>) of
                  (Inl item, s) \<Rightarrow> (item, s)
                | (Inr _, s) \<Rightarrow> poll_next ops s)
      | _ \<Rightarrow>
          (case poll_inner ops s of
             (Inl item, s) \<Rightarrow> (item, s)
           | (Inr _, s) \<Rightarrow> poll_next ops s))"
  by pat_completeness auto
termination
  by (relation "measure (\<lambda>(ops, s). length (rst_inner s))") (auto dest!: poll_inner_go [OF sym])

declare poll_next.simps [simp del]

text \<open>The items a polled batch contributes, and all items left to poll.\<close>

fun batch_items ::
  "('b, 'a) arrow_ops \<Rightarrow> string list \<Rightarrow> (output_error, 'b) result \<Rightarrow>
   (output_error, ('b, 'a) partition_run) result list" where
  "batch_items ops columns (Inl e) = [Inl e]"
| "batch_items ops columns (Inr batch) =
     (let arrays = List.map_filter (ao_column ops batch) columns in
      if length arrays \<noteq> length columns then [Inl ColumnsMissingInBatch]
      else (case ao_partition ops arrays of
              None \<Rightarrow> [Inl (OutputFailure ''partition'')]
            | Some ranges \<Rightarrow> map (run_of_range ops columns batch) ranges))"

definition remaining_items ::
  "('b, 'a) arrow_ops \<Rightarrow> 'b run_stream \<Rightarrow> (output_error, ('b, 'a) partition_run) result list" where
  "remaining_items ops s =
     (case (rst_batch s, rst_ranges s) of
        (Some batch, Some ranges) \<Rightarrow>
          map (run_of_range ops (rst_columns s) batch) (drop (rst_idx s) ranges)
      | _ \<Rightarrow> []) @ concat (map (batch_items ops (rst_columns s)) (rst_inner s))"

lemma poll_inner_items:
  assumes "poll_inner ops s = (r, s')"
  shows "case r of
      Inl None \<Rightarrow> rst_inner s = [] \<and> s' = s
    | Inl (Some item) \<Rightarrow> s' = s\<lparr>rst_inner := tl (rst_inner s)\<rparr> \<and>
        concat (map (batch_items ops (rst_columns s)) (rst_inner s)) =
        item # concat (map (batch_items ops (rst_columns s)) (rst_inner s'))
    | Inr _ \<Rightarrow> rst_columns s' = rst_columns s \<and> remaining_items ops s' =
        concat (map (batch_items ops (rst_columns s)) (rst_inner s))"
  using assms
  by (auto simp: poll_inner_def Let_def remaining_items_def split: list.splits sum.splits option.splits if_splits)

lemma poll_next_items:
  assumes "poll_next ops s = (r, s')"
  shows "case remaining_items ops s of
      [] \<Rightarrow> r = None
    | item # rest \<Rightarrow> r = Some item \<and> remaining_items ops s' = rest"
  using assms
proof (induction "length (rst_inner s)" arbitrary: s rule: less_induct)
  case less
  have go: "case concat (map (batch_items ops (rst_columns t)) (rst_inner t)) of
      [] \<Rightarrow> r = None
    | item # rest \<Rightarrow> r = Some item \<and> remaining_items ops s' = rest"
    if run: "(case poll_inner ops t of (Inl item, s) \<Rightarrow> (item, s) | (Inr _, s) \<Rightarrow> poll_next ops s) = (r, s')"
      and t: "rst_inner t = rst_inner s" "rst_batch t = None \<or> rst_ranges t = None" for t
  proof -
    obtain q s1 where q: "poll_inner ops t = (q, s1)" by (cases "poll_inner ops t")
    note items = poll_inner_items [OF q]
    show ?thesis
    proof (cases q)
      case (Inl i)
      then have "r = i" "s' = s1" using run q by auto
      then show ?thesis using items Inl t(2)
        by (cases i) (auto simp: remaining_items_def split: option.splits)
    next
      case (Inr u)
      then have "poll_next ops s1 = (r, s')" using run q by simp
      then show ?thesis using less.hyps [of s1] poll_inner_go q Inr t(1) items by fastforce
    qed
  qed
  consider (range) batch ranges where "rst_batch s = Some batch" "rst_ranges s = Some ranges" "rst_idx s < length ranges"
    | (spent) batch ranges where "rst_batch s = Some batch" "rst_ranges s = Some ranges" "\<not> rst_idx s < length ranges"
    | (none) "rst_batch s = None \<or> rst_ranges s = None"
    by (cases "rst_batch s"; cases "rst_ranges s") auto
  then show ?case
  proof cases
    case range
    then show ?thesis using less.prems
      by (auto simp: poll_next.simps [of ops s] remaining_items_def Cons_nth_drop_Suc [symmetric])
  next
    case spent
    then show ?thesis using less.prems go [of "s\<lparr>rst_batch := None, rst_ranges := None, rst_idx := 0\<rparr>"]
      by (simp add: poll_next.simps [of ops s] remaining_items_def)
  next
    case none
    then show ?thesis using less.prems go [of s]
      by (cases "rst_batch s") (simp_all add: poll_next.simps [of ops s] remaining_items_def)
  qed
qed

text \<open>The consumers' \<open>while let Some(item) = partitioned.next().await\<close>: all items, in order.\<close>

function drain_runs ::
  "('b, 'a) arrow_ops \<Rightarrow> 'b run_stream \<Rightarrow> (output_error, ('b, 'a) partition_run) result list" where
  "drain_runs ops s =
     (case poll_next ops s of (None, _) \<Rightarrow> [] | (Some item, s) \<Rightarrow> item # drain_runs ops s)"
  by pat_completeness auto
termination
proof (relation "measure (\<lambda>(ops, s). length (remaining_items ops s))", goal_cases)
  case (2 ops s r s' item)
  then show ?case using poll_next_items [of ops s "Some item" s'] by (auto split: list.splits)
qed simp

declare drain_runs.simps [simp del]

lemma drain_runs_remaining: "drain_runs ops s = remaining_items ops s"
proof (induction "length (remaining_items ops s)" arbitrary: s rule: less_induct)
  case less
  obtain r s' where p: "poll_next ops s = (r, s')" by (cases "poll_next ops s")
  show ?case
  proof (cases "remaining_items ops s")
    case Nil
    then show ?thesis using poll_next_items [OF p] p by (simp add: drain_runs.simps [of ops s])
  next
    case (Cons item rest)
    then show ?thesis using poll_next_items [OF p] p less [of s'] by (simp add: drain_runs.simps [of ops s])
  qed
qed

lemma drain_new_runs:
  "drain_runs ops (run_stream_new inner columns) = concat (map (batch_items ops columns) inner)"
  by (simp add: drain_runs_remaining remaining_items_def run_stream_new_def)

section \<open>Column projection\<close>

fun validate_excluded_columns :: "schema \<Rightarrow> string list \<Rightarrow> (output_error, unit) result" where
  "validate_excluded_columns schema [] = Inr ()"
| "validate_excluded_columns schema (column # columns) =
     (case map_of schema column of
        None \<Rightarrow> Inl (ColumnNotFound column)
      | Some _ \<Rightarrow> validate_excluded_columns schema columns)"

definition projection_indices_excluding :: "schema \<Rightarrow> string list \<Rightarrow> nat list option" where
  "projection_indices_excluding schema exclude =
     (if exclude = [] then None
      else Some (filter (\<lambda>i. fst (schema ! i) \<notin> set exclude) [0..<length schema]))"

definition schema_project :: "schema \<Rightarrow> nat list \<Rightarrow> schema option" where
  "schema_project schema indices =
     (if list_all (\<lambda>i. i < length schema) indices then Some (map (\<lambda>i. schema ! i) indices) else None)"

record partition_projection =
  field_order :: "string list"
  projected_indices :: "nat list option"
  projected_schema :: schema

definition partition_projection_new ::
  "schema \<Rightarrow> string list \<Rightarrow> string list \<Rightarrow> (output_error, partition_projection) result" where
  "partition_projection_new schema cols exclude =
     res_bind (validate_partition_columns_primitive schema cols) (\<lambda>_.
     res_bind (validate_excluded_columns schema exclude) (\<lambda>_.
       case projection_indices_excluding schema exclude of
         None \<Rightarrow> Inr \<lparr>field_order = cols, projected_indices = None, projected_schema = schema\<rparr>
       | Some indices \<Rightarrow>
           (case schema_project schema indices of
              None \<Rightarrow> Inl (OutputFailure ''project schema'')
            | Some projected \<Rightarrow>
                Inr \<lparr>field_order = cols, projected_indices = Some indices, projected_schema = projected\<rparr>)))"

definition project_batch ::
  "('b, 'a) arrow_ops \<Rightarrow> partition_projection \<Rightarrow> 'b \<Rightarrow> (output_error, 'b) result" where
  "project_batch ops p batch =
     (case projected_indices p of
        Some indices \<Rightarrow> ok_or (OutputFailure ''project batch'') (ao_project ops batch indices)
      | None \<Rightarrow> Inr batch)"

text \<open>\<open>project_stream\<close>: every index is checked once, then each batch is projected.\<close>

definition project_stream ::
  "('b, 'a) arrow_ops \<Rightarrow> schema \<Rightarrow> (output_error, 'b) result list \<Rightarrow> nat list \<Rightarrow>
   (output_error, schema \<times> (output_error, 'b) result list) result" where
  "project_stream ops schema batches indices =
     (if list_ex (\<lambda>i. i \<ge> length schema) indices then Inl (OutputFailure ''column index out of bounds'')
      else Inr (map (\<lambda>i. schema ! i) indices,
        map (\<lambda>item. res_bind item (\<lambda>batch. ok_or (OutputFailure ''project batch'') (ao_project ops batch indices)))
          batches))"

section \<open>Reports\<close>

datatype json = JNull | JBool bool | JInt int | JFloat nat | JString string

text \<open>\<open>Number::from_f64\<close> refuses infinities and NaN: all exponent bits set.\<close>

definition json_of_float_bits :: "nat \<Rightarrow> json" where
  "json_of_float_bits bits = (if (bits div 2 ^ 52) mod 2048 = 2047 then JNull else JFloat bits)"

definition array_to_json_value :: "('b, 'a) arrow_ops \<Rightarrow> 'a \<Rightarrow> json" where
  "array_to_json_value ops arr =
     (if ao_is_empty ops arr then JNull
      else if ao_is_null ops arr 0 then JNull
      else (case ao_type ops arr of
          NullType \<Rightarrow> JNull
        | BooleanType \<Rightarrow> JBool (ao_bool ops arr)
        | Int8Type \<Rightarrow> JInt (ao_int ops arr)
        | Int16Type \<Rightarrow> JInt (ao_int ops arr)
        | Int32Type \<Rightarrow> JInt (ao_int ops arr)
        | Int64Type \<Rightarrow> JInt (ao_int ops arr)
        | UInt8Type \<Rightarrow> JInt (ao_int ops arr)
        | UInt16Type \<Rightarrow> JInt (ao_int ops arr)
        | UInt32Type \<Rightarrow> JInt (ao_int ops arr)
        | UInt64Type \<Rightarrow> JInt (ao_int ops arr)
        | Float32Type \<Rightarrow> json_of_float_bits (ao_float ops arr)
        | Float64Type \<Rightarrow> json_of_float_bits (ao_float ops arr)
        | Utf8Type \<Rightarrow> JString (ao_string ops arr)
        | LargeUtf8Type \<Rightarrow> JString (ao_string ops arr)
        | Date32Type \<Rightarrow> JInt (ao_int ops arr)
        | Date64Type \<Rightarrow> JInt (ao_int ops arr)
        | type \<Rightarrow>
            (case ao_display ops arr of
               Some text \<Rightarrow> JString text
             | None \<Rightarrow> JString (''<'' @ ao_type_name ops type @ ''>''))))"

definition partition_field_values ::
  "('b, 'a) arrow_ops \<Rightarrow> 'a partition_values \<Rightarrow> string list \<Rightarrow> (string \<times> json) list" where
  "partition_field_values ops values column_order =
     List.map_filter (\<lambda>col. map_option (\<lambda>arr. (col, array_to_json_value ops arr)) (map_of values col)) column_order"

record sink_completion =
  sc_durable_locations :: "string list"
  sc_rows_written :: nat

definition sink_completion_new :: "string \<Rightarrow> string list \<Rightarrow> nat \<Rightarrow> sink_completion" where
  "sink_completion_new first additional rows =
     \<lparr>sc_durable_locations = first # additional, sc_rows_written = rows\<rparr>"

record completed_output =
  durable_locations :: "string list"
  rows_written :: nat
  partition_fields :: "(string \<times> json) list"

definition completed_output :: "sink_completion \<Rightarrow> (string \<times> json) list \<Rightarrow> completed_output" where
  "completed_output completion values =
     \<lparr>durable_locations = sc_durable_locations completion, rows_written = sc_rows_written completion,
      partition_fields = values\<rparr>"

text \<open>
  \<open>FileOutputReport::new\<close>: the first location of each output is the sort key; a completion
  always has one (\<open>sink_completion_new\<close>).
\<close>

definition file_output_report_new :: "completed_output list \<Rightarrow> completed_output list" where
  "file_output_report_new outputs =
     sort_key (\<lambda>out. hd (durable_locations out))
       (map (\<lambda>out. out\<lparr>durable_locations := sort (durable_locations out)\<rparr>) outputs)"

section \<open>Prefix codes\<close>

text \<open>
  A code whose words can be told apart from the front: a sequence of words joined by a separator
  determines its words.
\<close>

locale prefix_code =
  fixes enc :: "'x \<Rightarrow> 'b list"
  assumes prefix_free: "enc x @ s = enc y @ t \<Longrightarrow> x = y"
begin

lemma enc_inject: "enc x = enc y \<Longrightarrow> x = y"
  using prefix_free [of x "[]" y "[]"] by simp

lemma join_inject:
  "length xs = length ys \<Longrightarrow> join_with sep (map enc xs) = join_with sep (map enc ys) \<Longrightarrow> xs = ys"
proof (induction xs ys rule: list_induct2)
  case (Cons x xs y ys)
  show ?case
  proof (cases "xs = []")
    case True
    then show ?thesis using Cons enc_inject by simp
  next
    case False
    then have ne: "map enc xs \<noteq> []" "map enc ys \<noteq> []" using Cons.hyps by auto
    have eq: "enc x @ (sep @ join_with sep (map enc xs)) = enc y @ (sep @ join_with sep (map enc ys))"
      using Cons.prems ne by (simp add: join_with_Cons)
    then have "x = y" by (rule prefix_free)
    then show ?thesis using eq Cons.IH by simp
  qed
qed simp

end

text \<open>The text of one key component: \<open>None\<close> is a null value, \<open>Some v\<close> a formatted one.\<close>

fun component_text :: "string option \<Rightarrow> string" where
  "component_text None = ''!''"
| "component_text (Some v) = show_nat (length v) @ '':'' @ v"

definition component_of :: "('b, 'a) arrow_ops \<Rightarrow> 'a option \<Rightarrow> string option" where
  "component_of ops arr =
     (case arr of
        Some a \<Rightarrow> if ao_is_null ops a 0 then None else Some (format_scalar_value ops arr)
      | None \<Rightarrow> Some (format_scalar_value ops arr))"

lemma key_component_text: "key_component ops arr = component_text (component_of ops arr)"
  by (auto simp: key_component_def component_of_def Let_def split: option.splits)

lemma digits_no_mark:
  "CHR '':'' \<notin> set (show_nat n)" "CHR ''!'' \<notin> set (show_nat n)"
  using show_nat_digits [of "CHR '':''" n] show_nat_digits [of "CHR ''!''" n] by (auto simp: ascii_defs)

lemma length_prefix_free:
  assumes "show_nat (length v) @ '':'' @ v @ s = show_nat (length w) @ '':'' @ w @ t"
  shows "v = w"
proof -
  have "split_once_on CHR '':'' (show_nat (length v) @ CHR '':'' # (v @ s)) =
      split_once_on CHR '':'' (show_nat (length w) @ CHR '':'' # (w @ t))"
    using assms by simp
  then have "show_nat (length v) = show_nat (length w) \<and> v @ s = w @ t"
    by (simp add: split_once_on_append digits_no_mark)
  then show ?thesis by (auto simp: show_nat_inject)
qed

interpretation key_code: prefix_code component_text
proof
  fix x y :: "string option" and s t :: string
  assume eq: "component_text x @ s = component_text y @ t"
  have bang: "show_nat n @ r \<noteq> CHR ''!'' # q" for n and r q :: string
    using digits_no_mark(2) [of n] by (cases "show_nat n") auto
  show "x = y"
  proof (cases x)
    case None
    then show ?thesis using eq bang [of _ _ s] by (cases y) (auto dest: sym)
  next
    case (Some v)
    then show ?thesis using eq bang [of "length v"] length_prefix_free [of v s _ t] by (cases y) auto
  qed
qed

lemma partition_key_components:
  "partition_key ops values cols = join_with '','' (map component_text (map (\<lambda>c. component_of ops (map_of values c)) cols))"
  by (simp add: partition_key_def key_component_text comp_def)

section \<open>What the code relies on from Arrow\<close>

fun covers :: "nat \<Rightarrow> nat \<Rightarrow> (nat \<times> nat) list \<Rightarrow> bool" where
  "covers a n [] \<longleftrightarrow> a = n"
| "covers a n ((start, finish) # ranges) \<longleftrightarrow> start = a \<and> a < finish \<and> finish \<le> n \<and> covers finish n ranges"

text \<open>
  \<open>rows b\<close> are the rows of a batch, \<open>cell r name\<close> the one-row array a row holds in a column. Slicing
  a batch slices its rows and keeps its columns; a column's array at a row is that row's cell; the
  \<open>partition\<close> kernel splits the rows into consecutive ranges whose rows agree on its columns.
\<close>

definition arrow_laws :: "('b, 'a) arrow_ops \<Rightarrow> ('b \<Rightarrow> 'r list) \<Rightarrow> ('r \<Rightarrow> string \<Rightarrow> 'a option) \<Rightarrow> bool" where
  "arrow_laws ops rows cell \<longleftrightarrow>
     (\<forall>b s n. rows (ao_slice ops b s n) = take n (drop s (rows b))) \<and>
     (\<forall>b name a i. ao_column ops b name = Some a \<longrightarrow> i < length (rows b) \<longrightarrow>
        cell (rows b ! i) name = Some (ao_array_slice ops a i 1)) \<and>
     (\<forall>b names arrays ranges. map (ao_column ops b) names = map Some arrays \<longrightarrow>
        ao_partition ops arrays = Some ranges \<longrightarrow>
        covers 0 (length (rows b)) ranges \<and>
        (\<forall>(s, e)\<in>set ranges. \<forall>i. s \<le> i \<longrightarrow> i < e \<longrightarrow>
           (\<forall>name\<in>set names. cell (rows b ! i) name = cell (rows b ! s) name)))"

lemma arrow_lawsD:
  assumes "arrow_laws ops rows cell"
  shows "rows (ao_slice ops b s n) = take n (drop s (rows b))"
    and "ao_column ops b name = Some a \<Longrightarrow> i < length (rows b) \<Longrightarrow>
      cell (rows b ! i) name = Some (ao_array_slice ops a i 1)"
    and "map (ao_column ops b) names = map Some arrays \<Longrightarrow> ao_partition ops arrays = Some ranges \<Longrightarrow>
      covers 0 (length (rows b)) ranges"
    and "map (ao_column ops b) names = map Some arrays \<Longrightarrow> ao_partition ops arrays = Some ranges \<Longrightarrow>
      (s, e) \<in> set ranges \<Longrightarrow> s \<le> i \<Longrightarrow> i < e \<Longrightarrow> name \<in> set names \<Longrightarrow>
      cell (rows b ! i) name = cell (rows b ! s) name"
  using assms unfolding arrow_laws_def by (blast, blast, blast, fast)

lemma covers_bounds: "covers a n ranges \<Longrightarrow> (s, e) \<in> set ranges \<Longrightarrow> a \<le> s \<and> s < e \<and> e \<le> n"
  by (induction a n ranges rule: covers.induct) fastforce+

lemma covers_concat:
  "covers a n ranges \<Longrightarrow> n = length xs \<Longrightarrow>
   concat (map (\<lambda>(s, e). take (e - s) (drop s xs)) ranges) = drop a xs"
proof (induction a n ranges rule: covers.induct)
  case (2 a n start finish ranges)
  then have "concat (map (\<lambda>(s, e). take (e - s) (drop s xs)) ranges) = drop (finish - a) (drop a xs)"
    by simp
  then show ?case using "2.prems" append_take_drop_id [of "finish - a" "drop a xs"] by simp
qed simp

lemma map_filter_full:
  "length (List.map_filter f xs) = length xs \<Longrightarrow> map f xs = map Some (List.map_filter f xs)"
proof (induction xs)
  case (Cons x xs)
  have "length (List.map_filter f xs) \<le> length xs"
    by (induction xs) (auto simp: List.map_filter_simps split: option.splits)
  then show ?case using Cons by (auto simp: List.map_filter_simps split: option.splits)
qed simp

lemma extract_values:
  assumes "extract_partition_values ops batch row names values = Inr result"
  shows "map_of result name =
    (if name \<in> set names then map_option (\<lambda>a. ao_array_slice ops a row 1) (ao_column ops batch name)
     else map_of values name)"
    and "name \<in> set names \<Longrightarrow> ao_column ops batch name \<noteq> None"
  using assms
  by (induction names arbitrary: "values")
    (auto simp: update_Some_unfold AList.update_conv' split: option.splits)

text \<open>A run agrees with each of its rows on the partition columns.\<close>

definition run_agrees :: "('b \<Rightarrow> 'r list) \<Rightarrow> ('r \<Rightarrow> string \<Rightarrow> 'a option) \<Rightarrow> string list \<Rightarrow> ('b, 'a) partition_run \<Rightarrow> bool" where
  "run_agrees rows cell columns run \<longleftrightarrow> rows (run_batch run) \<noteq> [] \<and>
     (\<forall>r\<in>set (rows (run_batch run)). \<forall>name\<in>set columns. cell r name = map_of (run_values run) name)"

lemma batch_items_agree:
  assumes laws: "arrow_laws ops rows cell" and items: "batch_items ops columns (Inr b) = map Inr runs"
  shows "concat (map (\<lambda>run. rows (run_batch run)) runs) = rows b" "\<forall>run\<in>set runs. run_agrees rows cell columns run"
proof -
  let ?arrays = "List.map_filter (ao_column ops b) columns"
  have full: "length ?arrays = length columns"
    using items by (auto simp: Let_def map_eq_Cons_conv Cons_eq_map_conv split: if_splits)
  have cols: "map (ao_column ops b) columns = map Some ?arrays" using map_filter_full [OF full] .
  obtain ranges where ranges: "ao_partition ops ?arrays = Some ranges"
    "map (run_of_range ops columns b) ranges = map Inr runs"
    using items full by (auto simp: Let_def Cons_eq_map_conv split: option.splits)
  have cover: "covers 0 (length (rows b)) ranges" using arrow_lawsD(3) [OF laws cols ranges(1)] .
  have batches: "run_batch run = ao_slice ops b s (e - s)"
    if "run_of_range ops columns b (s, e) = Inr run" for s e run
    using that by (auto simp: run_of_range_def Let_def split: sum.splits)
  have "map (\<lambda>run. rows (run_batch run)) runs = map (\<lambda>(s, e). take (e - s) (drop s (rows b))) ranges"
    using ranges(2)
  proof (induction ranges arbitrary: runs)
    case (Cons se ranges)
    obtain s e run rest where "se = (s, e)" "runs = run # rest" "run_of_range ops columns b (s, e) = Inr run"
      "map (run_of_range ops columns b) ranges = map Inr rest"
      using Cons.prems by (cases se; cases runs) auto
    then show ?case using Cons.IH batches arrow_lawsD(1) [OF laws] by simp
  qed simp
  then show "concat (map (\<lambda>run. rows (run_batch run)) runs) = rows b"
    using covers_concat [OF cover refl] by simp
  show "\<forall>run\<in>set runs. run_agrees rows cell columns run"
  proof
    fix run assume "run \<in> set runs"
    then have "Inr run \<in> set (map (run_of_range ops columns b) ranges)" using ranges(2) by simp
    then obtain s e where se: "(s, e) \<in> set ranges" "run_of_range ops columns b (s, e) = Inr run" by auto
    have bounds: "s < e" "e \<le> length (rows b)" using covers_bounds [OF cover se(1)] by auto
    have rb: "rows (run_batch run) = take (e - s) (drop s (rows b))"
      using batches [OF se(2)] arrow_lawsD(1) [OF laws] by simp
    have ne: "rows (run_batch run) \<noteq> []" using rb bounds by simp
    have first: "rows (run_batch run) ! 0 = rows b ! s" using rb bounds by simp
    have ex: "extract_partition_values ops (run_batch run) 0 columns [] = Inr (run_values run)"
      using se(2) by (auto simp: run_of_range_def Let_def split: sum.splits)
    have vals: "map_of (run_values run) name = cell (rows b ! s) name" if name: "name \<in> set columns" for name
    proof -
      obtain a where a: "ao_column ops (run_batch run) name = Some a"
        using extract_values(2) [OF ex name] by auto
      have "cell (rows (run_batch run) ! 0) name = Some (ao_array_slice ops a 0 1)"
        using arrow_lawsD(2) [OF laws a, of 0] ne by simp
      then show ?thesis using extract_values(1) [OF ex, of name] a name first by simp
    qed
    have "cell r name = map_of (run_values run) name"
      if r: "r \<in> set (rows (run_batch run))" and name: "name \<in> set columns" for r name
    proof -
      obtain i where i: "i < e - s" "r = rows b ! (s + i)" using r rb bounds by (auto simp: in_set_conv_nth)
      then show ?thesis
        using arrow_lawsD(4) [OF laws cols ranges(1) se(1), of "s + i" name] vals name by simp
    qed
    then show "run_agrees rows cell columns run" using ne by (simp add: run_agrees_def)
  qed
qed

section \<open>Properties\<close>

definition group_ok where
  "group_ok rows cell columns item runs \<longleftrightarrow>
     (case item of Inl _ \<Rightarrow> False | Inr b \<Rightarrow>
        concat (map (\<lambda>run. rows (run_batch run)) runs) = rows b \<and>
        (\<forall>run\<in>set runs. run_agrees rows cell columns run))"

lemma items_all_ok:
  assumes "concat (map (batch_items ops columns) inner) = map Inr runs" and "arrow_laws ops rows cell"
  shows "\<exists>groups. runs = concat groups \<and>
    list_all2 (group_ok rows cell columns)
      inner groups"
  using assms(1)
proof (induction inner arbitrary: runs)
  case Nil
  then show ?case by (intro exI [of _ "[]"]) simp
next
  case (Cons item inner)
  let ?head = "batch_items ops columns item"
  obtain grp rest where split: "?head = map Inr grp" "runs = grp @ rest"
    "concat (map (batch_items ops columns) inner) = map Inr rest"
    using Cons.prems by (auto simp: append_eq_map_conv map_eq_append_conv dest: sym)
  obtain b where b: "item = Inr b" using split(1) by (cases item) (auto simp: Cons_eq_map_conv)
  obtain groups where g: "rest = concat groups" "list_all2 (group_ok rows cell columns)
      inner groups"
    using Cons.IH [OF split(3)] by blast
  have "group_ok rows cell columns item grp"
    using b batch_items_agree [OF assms(2) split(1) [unfolded b]] by (simp add: group_ok_def)
  then show ?case using g split(2) by (intro exI [of _ "grp # groups"]) simp
qed

text \<open>
  C7: Partitioning a stream into runs loses, repeats and reorders no row: the rows of the runs, in
  order, are the rows of the batches, no run is empty, and every row of a run has exactly the run's
  values in the partition columns.
\<close>

theorem runs_partition_the_rows:
  assumes "arrow_laws ops rows cell"
    and "drain_runs ops (run_stream_new inner columns) = map Inr runs"
  shows "\<exists>batches. inner = map Inr batches \<and>
    concat (map (\<lambda>run. rows (run_batch run)) runs) = concat (map rows batches) \<and>
    (\<forall>run\<in>set runs. run_agrees rows cell columns run)"
proof -
  obtain groups where g: "runs = concat groups" "list_all2 (group_ok rows cell columns)
      inner groups"
    using items_all_ok [OF assms(2) [unfolded drain_new_runs] assms(1)] by blast
  have "\<exists>batches. inner = map Inr batches \<and>
      concat (map (\<lambda>run. rows (run_batch run)) (concat groups)) = concat (map rows batches) \<and>
      (\<forall>run\<in>set (concat groups). run_agrees rows cell columns run)"
    using g(2)
  proof (induction rule: list_all2_induct)
    case Nil
    then show ?case by simp
  next
    case (Cons item inner grp groups)
    obtain b where "item = Inr b" using Cons.hyps(1) by (cases item) (auto simp: group_ok_def)
    moreover obtain batches where "inner = map Inr batches"
      "concat (map (\<lambda>run. rows (run_batch run)) (concat groups)) = concat (map rows batches)"
      "\<forall>run\<in>set (concat groups). run_agrees rows cell columns run"
      using Cons.IH by blast
    ultimately show ?case using Cons.hyps(1) by (intro exI [of _ "b # batches"]) (auto simp: group_ok_def)
  qed
  then show ?thesis using g(1) by simp
qed

text \<open>A small Arrow: one column \<open>k\<close> of optional numbers; a batch is its list of values.\<close>

function same_ranges :: "nat \<Rightarrow> nat option list \<Rightarrow> (nat \<times> nat) list" where
  "same_ranges start [] = []"
| "same_ranges start (x # xs) =
     (start, Suc start + length (takeWhile ((=) x) xs)) #
     same_ranges (Suc start + length (takeWhile ((=) x) xs)) (dropWhile ((=) x) xs)"
  by pat_completeness auto
termination
  by (relation "measure (\<lambda>(start, xs). length xs)") (auto simp: length_dropWhile_le le_imp_less_Suc)

definition tiny_arrow :: "(nat option list, nat option list) arrow_ops" where
  "tiny_arrow = \<lparr>ao_column = (\<lambda>b name. if name = ''k'' then Some b else None),
     ao_slice = (\<lambda>b s n. take n (drop s b)), ao_project = (\<lambda>b is. Some b),
     ao_array_slice = (\<lambda>a s n. take n (drop s a)),
     ao_partition = (\<lambda>arrays. case arrays of [a] \<Rightarrow> Some (same_ranges 0 a) | _ \<Rightarrow> None),
     ao_is_empty = (\<lambda>a. a = []), ao_is_null = (\<lambda>a i. a ! i = None), ao_type = (\<lambda>a. UInt64Type),
     ao_display = (\<lambda>a. case a of Some n # _ \<Rightarrow> Some (show_nat n) | _ \<Rightarrow> None), ao_bool = (\<lambda>a. False),
     ao_int = (\<lambda>a. case a of Some n # _ \<Rightarrow> int n | _ \<Rightarrow> 0), ao_float = (\<lambda>a. 0), ao_string = (\<lambda>a. []),
     ao_type_name = (\<lambda>t. ''UInt64'')\<rparr>"

definition tiny_cell :: "nat option \<Rightarrow> string \<Rightarrow> nat option list option" where
  "tiny_cell r name = (if name = ''k'' then Some [r] else None)"

lemma same_ranges_covers: "covers start (start + length xs) (same_ranges start xs)"
proof (induction start xs rule: same_ranges.induct)
  case (2 start x xs)
  have "length (takeWhile ((=) x) xs) + length (dropWhile ((=) x) xs) = length xs"
    by (metis length_append takeWhile_dropWhile_id)
  then show ?case using 2 by (simp add: add.assoc)
qed simp

lemma same_ranges_agree:
  "(s, e) \<in> set (same_ranges start xs) \<Longrightarrow> s \<le> i \<Longrightarrow> i < e \<Longrightarrow> xs ! (i - start) = xs ! (s - start)"
proof (induction start xs rule: same_ranges.induct)
  case (2 start x xs)
  let ?n = "length (takeWhile ((=) x) xs)"
  consider "s = start" "e = Suc start + ?n"
    | "(s, e) \<in> set (same_ranges (Suc start + ?n) (dropWhile ((=) x) xs))" using "2.prems"(1) by auto
  then show ?case
  proof cases
    case 1
    show ?thesis
    proof (cases "i = start")
      case False
      then have "i - Suc start < ?n" using 1 "2.prems" by simp
      then have "takeWhile ((=) x) xs ! (i - Suc start) = xs ! (i - Suc start)"
          "takeWhile ((=) x) xs ! (i - Suc start) \<in> set (takeWhile ((=) x) xs)"
        by (rule takeWhile_nth, rule nth_mem)
      then have "xs ! (i - Suc start) = x" by (metis set_takeWhileD)
      then show ?thesis using 1 False "2.prems" by (simp add: nth_Cons')
    qed (use 1 in simp)
  next
    case 2
    have cov: "covers (Suc start + ?n) (Suc start + ?n + length (dropWhile ((=) x) xs))
        (same_ranges (Suc start + ?n) (dropWhile ((=) x) xs))" by (rule same_ranges_covers)
    have s: "Suc start + ?n \<le> s" using covers_bounds [OF cov 2] by simp
    have shift: "(x # xs) ! (j - start) = dropWhile ((=) x) xs ! (j - (Suc start + ?n))"
      if "Suc start + ?n \<le> j" for j
    proof -
      have "xs ! (?n + (j - (Suc start + ?n))) = dropWhile ((=) x) xs ! (j - (Suc start + ?n))"
        by (metis nth_append_length_plus takeWhile_dropWhile_id)
      then show ?thesis using that by (simp add: nth_Cons')
    qed
    show ?thesis using "2.IH" [OF 2 "2.prems"(2,3)] shift [of i] shift [of s] s "2.prems"(2) by simp
  qed
qed simp

lemma tiny_laws: "arrow_laws tiny_arrow (\<lambda>b. b) tiny_cell"
proof -
  have part: "covers 0 (length b) ranges \<and> (\<forall>(s, e)\<in>set ranges. \<forall>i. s \<le> i \<longrightarrow> i < e \<longrightarrow>
      (\<forall>name\<in>set names. tiny_cell (b ! i) name = tiny_cell (b ! s) name))"
    if "map (ao_column tiny_arrow b) names = map Some arrays" "ao_partition tiny_arrow arrays = Some ranges"
    for b :: "nat option list" and names arrays ranges
  proof -
    have one: "\<exists>a. arrays = [a] \<and> ranges = same_ranges 0 a"
      using that(2) by (auto simp: tiny_arrow_def split: list.splits)
    then have "arrays = [b]" "ranges = same_ranges 0 b"
      using that(1) by (auto simp: tiny_arrow_def map_eq_Cons_conv split: if_splits)
    then show ?thesis
      using same_ranges_covers [of 0 b] same_ranges_agree [of _ _ 0 b] by (auto simp: tiny_cell_def)
  qed
  have col: "tiny_cell (b ! i) name = Some (ao_array_slice tiny_arrow a i 1)"
    if "ao_column tiny_arrow b name = Some a" "i < length b" for b name a i
    using that by (auto simp: tiny_arrow_def tiny_cell_def take_Suc_conv_app_nth hd_drop_conv_nth take_Suc
        split: if_splits)
  show ?thesis
    unfolding arrow_laws_def using part col by (auto simp: tiny_arrow_def)
qed

theorem runs_partition_the_rows_witness:
  "\<exists>runs. drain_runs tiny_arrow (run_stream_new [Inr [Some 1, Some 1, None], Inr [None, Some 2]] [''k'']) = map Inr runs \<and>
     concat (map run_batch runs) = [Some 1, Some 1, None, None, Some 2] \<and> length runs = 4"
proof -
  let ?runs = "[\<lparr>run_values = [(''k'', [Some 1])], run_batch = [Some 1, Some 1]\<rparr>,
    \<lparr>run_values = [(''k'', [None])], run_batch = [None]\<rparr>, \<lparr>run_values = [(''k'', [None])], run_batch = [None]\<rparr>,
    \<lparr>run_values = [(''k'', [Some 2])], run_batch = [Some (2::nat)]\<rparr>]"
  have d: "drain_runs tiny_arrow (run_stream_new [Inr [Some 1, Some 1, None], Inr [None, Some 2]] [''k'']) = map Inr ?runs"
    by (simp add: drain_new_runs tiny_arrow_def run_of_range_def List.map_filter_simps)
  show ?thesis
    using runs_partition_the_rows [OF tiny_laws d] d by (intro exI [of _ ?runs]) auto
qed

text \<open>
  C8: Partition keys never collide: two sets of partition values have the same key exactly when they
  agree, column by column in \<open>--by\<close> order, on being null and on their formatted text, whatever
  delimiters, digits or marks the texts contain.
\<close>

theorem partition_key_injective:
  "partition_key ops a columns = partition_key ops b columns \<longleftrightarrow>
     map (\<lambda>c. component_of ops (map_of a c)) columns = map (\<lambda>c. component_of ops (map_of b c)) columns"
proof
  show "partition_key ops a columns = partition_key ops b columns \<Longrightarrow>
      map (\<lambda>c. component_of ops (map_of a c)) columns = map (\<lambda>c. component_of ops (map_of b c)) columns"
    unfolding partition_key_components by (rule key_code.join_inject) simp_all
qed (simp only: partition_key_components)

text \<open>
  A report is a deterministic inventory: it lists every completed output once, with its
  locations sorted, and the outputs in the order of their first location.
\<close>

theorem report_is_sorted_inventory:
  "sorted (map (\<lambda>out. hd (durable_locations out)) (file_output_report_new outputs)) \<and>
   mset (file_output_report_new outputs) =
     mset (map (\<lambda>out. out\<lparr>durable_locations := sort (durable_locations out)\<rparr>) outputs) \<and>
   list_all (\<lambda>out. sorted (durable_locations out)) (file_output_report_new outputs)"
  by (auto simp: file_output_report_new_def list_all_iff)

end
