(* ===== verification/Partitioned_Output.thy ===== *)
theory Partitioned_Output
  imports Partition_Runs
begin

text \<open>
  File output (\<open>src/commands/transform/file_output/mod.rs\<close>): binding a request, writing one exact
  file, and the three partition strategies, which differ in how many sinks they keep open and when
  they close them.

  Rendering a target, preparing it in the storage session and the sinks themselves are the fields
  of \<open>output_env\<close>. A sink is an owned box, so the model numbers sinks in the order they are
  opened; what happens to them is recorded in \<open>si_events\<close>.
\<close>

section \<open>Sinks and their events\<close>

record ('w, 'l, 'b, 'a) output_env =
  oe_render :: "'a partition_values \<Rightarrow> nat option \<Rightarrow> (output_error, 'l) result"
  oe_prepare :: "'l \<Rightarrow> 'w \<Rightarrow> (output_error, string) result \<times> 'w"
  oe_open :: "string \<Rightarrow> schema \<Rightarrow> nat \<Rightarrow> 'w \<Rightarrow> (output_error, unit) result \<times> 'w"
  oe_write :: "nat \<Rightarrow> 'b \<Rightarrow> 'w \<Rightarrow> (output_error, unit) result \<times> 'w"
  oe_write_stream :: "nat \<Rightarrow> (output_error, 'b) result list \<Rightarrow> 'w \<Rightarrow> (output_error, unit) result \<times> 'w"
  oe_finish :: "nat \<Rightarrow> 'w \<Rightarrow> (output_error, sink_completion) result \<times> 'w"
  oe_abort :: "nat \<Rightarrow> 'w \<Rightarrow> (output_error, unit) result \<times> 'w"

datatype ('b, 'a) sink_event =
    Opened nat "'a partition_values" "nat option"
  | Wrote nat 'b
  | Finished nat
  | Aborted nat

record ('w, 'b, 'a) sink_io =
  si_world :: 'w
  si_next :: nat
  si_events :: "('b, 'a) sink_event list"

record 'a open_file =
  of_target :: string
  of_sink :: nat
  of_values :: "'a partition_values"

definition open_partition ::
  "('w, 'l, 'b, 'a) output_env \<Rightarrow> schema \<Rightarrow> 'a partition_values \<Rightarrow> nat option \<Rightarrow>
   ('w, 'b, 'a) sink_io \<Rightarrow> (output_error, 'a open_file) result \<times> ('w, 'b, 'a) sink_io" where
  "open_partition env schema vals number io =
     (case oe_render env vals number of
        Inl e \<Rightarrow> (Inl e, io)
      | Inr location \<Rightarrow>
          (case oe_prepare env location (si_world io) of
             (Inl e, w) \<Rightarrow> (Inl e, io\<lparr>si_world := w\<rparr>)
           | (Inr target, w) \<Rightarrow>
               (case oe_open env target schema (si_next io) w of
                  (Inl e, w) \<Rightarrow> (Inl e, io\<lparr>si_world := w\<rparr>)
                | (Inr _, w) \<Rightarrow>
                    (Inr \<lparr>of_target = target, of_sink = si_next io, of_values = vals\<rparr>,
                     \<lparr>si_world = w, si_next = si_next io + 1,
                      si_events = si_events io @ [Opened (si_next io) vals number]\<rparr>))))"

definition write_file ::
  "('w, 'l, 'b, 'a) output_env \<Rightarrow> 'a open_file \<Rightarrow> 'b \<Rightarrow> ('w, 'b, 'a) sink_io \<Rightarrow>
   (output_error, unit) result \<times> ('w, 'b, 'a) sink_io" where
  "write_file env f batch io =
     (let (r, w) = oe_write env (of_sink f) batch (si_world io) in
      (r, io\<lparr>si_world := w, si_events := si_events io @ [Wrote (of_sink f) batch]\<rparr>))"

definition finish_file ::
  "('w, 'l, 'b, 'a) output_env \<Rightarrow> ('b, 'a) arrow_ops \<Rightarrow> string list \<Rightarrow> 'a open_file \<Rightarrow> ('w, 'b, 'a) sink_io \<Rightarrow>
   (output_error, completed_output) result \<times> ('w, 'b, 'a) sink_io" where
  "finish_file env ops partition_by f io =
     (let values_json = partition_field_values ops (of_values f) partition_by;
          (r, w) = oe_finish env (of_sink f) (si_world io);
          io = io\<lparr>si_world := w, si_events := si_events io @ [Finished (of_sink f)]\<rparr> in
      case r of Inl e \<Rightarrow> (Inl e, io) | Inr completion \<Rightarrow> (Inr (completed_output completion values_json), io))"

fun abort_each ::
  "('w, 'l, 'b, 'a) output_env \<Rightarrow> 'a open_file list \<Rightarrow> ('w, 'b, 'a) sink_io \<Rightarrow>
   output_error list \<times> ('w, 'b, 'a) sink_io" where
  "abort_each env [] io = ([], io)"
| "abort_each env (f # fs) io =
     (let (r, w) = oe_abort env (of_sink f) (si_world io);
          (errors, io) = abort_each env fs
             (io\<lparr>si_world := w, si_events := si_events io @ [Aborted (of_sink f)]\<rparr>) in
      (case r of Inl e \<Rightarrow> (e # errors, io) | Inr _ \<Rightarrow> (errors, io)))"

definition abort_all ::
  "('w, 'l, 'b, 'a) output_env \<Rightarrow> 'a open_file list \<Rightarrow> ('w, 'b, 'a) sink_io \<Rightarrow>
   output_error list \<times> ('w, 'b, 'a) sink_io" where
  "abort_all env files io = abort_each env (sort_key of_target files) io"

record output_failure =
  failure_primary :: output_error
  failure_report :: "completed_output list"

definition output_failure_new ::
  "output_error \<Rightarrow> completed_output list \<Rightarrow> output_error list \<Rightarrow> output_failure" where
  "output_failure_new primary outputs cleanup_errors =
     \<lparr>failure_primary = foldl OutputWithCleanup primary cleanup_errors,
      failure_report = file_output_report_new outputs\<rparr>"

type_synonym ('w, 'b, 'a) write_result =
  "(output_failure, completed_output list) result \<times> ('w, 'b, 'a) sink_io"

text \<open>The error exit every loop shares: abort what is open, then report the primary error.\<close>

definition abort_failure ::
  "('w, 'l, 'b, 'a) output_env \<Rightarrow> 'a open_file list \<Rightarrow> output_error \<Rightarrow> completed_output list \<Rightarrow>
   ('w, 'b, 'a) sink_io \<Rightarrow> output_failure \<times> ('w, 'b, 'a) sink_io" where
  "abort_failure env files primary outputs io =
     (let (cleanup, io) = abort_all env files io in (output_failure_new primary outputs cleanup, io))"

definition fail_all ::
  "('w, 'l, 'b, 'a) output_env \<Rightarrow> 'a open_file list \<Rightarrow> output_error \<Rightarrow> completed_output list \<Rightarrow>
   ('w, 'b, 'a) sink_io \<Rightarrow> (output_failure, 'x) result \<times> ('w, 'b, 'a) sink_io" where
  "fail_all env files primary outputs io =
     (let (failure, io) = abort_failure env files primary outputs io in (Inl failure, io))"

section \<open>One exact file\<close>

definition write_exact ::
  "('w, 'l, 'b, 'a) output_env \<Rightarrow> ('b, 'a) arrow_ops \<Rightarrow> string \<Rightarrow> schema \<Rightarrow> (output_error, 'b) result list \<Rightarrow>
   string list \<Rightarrow> ('w, 'b, 'a) sink_io \<Rightarrow> ('w, 'b, 'a) write_result" where
  "write_exact env ops target schema items exclude io =
     (case (case projection_indices_excluding schema exclude of
              Some indices \<Rightarrow> project_stream ops schema items indices
            | None \<Rightarrow> Inr (schema, items)) of
        Inl e \<Rightarrow> (Inl (output_failure_new e [] []), io)
      | Inr (schema, items) \<Rightarrow>
          (case oe_open env target schema (si_next io) (si_world io) of
             (Inl e, w) \<Rightarrow> (Inl (output_failure_new e [] []), io\<lparr>si_world := w\<rparr>)
           | (Inr _, w) \<Rightarrow>
               (let f = \<lparr>of_target = target, of_sink = si_next io, of_values = []\<rparr>;
                    io = \<lparr>si_world = w, si_next = si_next io + 1,
                          si_events = si_events io @ [Opened (si_next io) [] None]\<rparr>;
                    (r, w) = oe_write_stream env (of_sink f) items (si_world io);
                    io = io\<lparr>si_world := w\<rparr> in
                case r of
                  Inl primary \<Rightarrow> fail_all env [f] primary [] io
                | Inr _ \<Rightarrow>
                    (case finish_file env ops [] f io of
                       (Inl e, io) \<Rightarrow> (Inl (output_failure_new e [] []), io)
                     | (Inr completed, io) \<Rightarrow> (Inr (file_output_report_new [completed]), io)))))"

section \<open>Sort-single\<close>

text \<open>
  The part of the loop that closes the current sink when the partition changes and opens the next
  one.
\<close>

definition sort_single_switch ::
  "('w, 'l, 'b, 'a) output_env \<Rightarrow> ('b, 'a) arrow_ops \<Rightarrow> partition_projection \<Rightarrow> 'a partition_values \<Rightarrow>
   'a open_file option \<Rightarrow> completed_output list \<Rightarrow> ('w, 'b, 'a) sink_io \<Rightarrow>
   (output_failure, 'a open_file \<times> completed_output list) result \<times> ('w, 'b, 'a) sink_io" where
  "sort_single_switch env ops ctx vals current outputs io =
     (let opened = (\<lambda>outputs io.
        (case open_partition env (projected_schema ctx) vals None io of
           (Inl e, io) \<Rightarrow> (Inl (output_failure_new e outputs []), io)
         | (Inr f, io) \<Rightarrow> (Inr (f, outputs), io))) in
      case current of
        None \<Rightarrow> opened outputs io
      | Some f \<Rightarrow>
          if partition_values_equal (of_values f) vals then (Inr (f, outputs), io)
          else (case finish_file env ops (field_order ctx) f io of
                  (Inl e, io) \<Rightarrow> (Inl (output_failure_new e outputs []), io)
                | (Inr out, io) \<Rightarrow> opened (outputs @ [out]) io))"

fun sort_single_loop ::
  "('w, 'l, 'b, 'a) output_env \<Rightarrow> ('b, 'a) arrow_ops \<Rightarrow> partition_projection \<Rightarrow>
   (output_error, ('b, 'a) partition_run) result list \<Rightarrow> 'a open_file option \<Rightarrow> completed_output list \<Rightarrow>
   ('w, 'b, 'a) sink_io \<Rightarrow> ('w, 'b, 'a) write_result" where
  "sort_single_loop env ops ctx [] current outputs io =
     (case current of
        None \<Rightarrow> (Inr (file_output_report_new outputs), io)
      | Some f \<Rightarrow>
          (case finish_file env ops (field_order ctx) f io of
             (Inl e, io) \<Rightarrow> (Inl (output_failure_new e outputs []), io)
           | (Inr out, io) \<Rightarrow> (Inr (file_output_report_new (outputs @ [out])), io)))"
| "sort_single_loop env ops ctx (Inl primary # items) current outputs io =
     fail_all env (case current of None \<Rightarrow> [] | Some f \<Rightarrow> [f]) primary outputs io"
| "sort_single_loop env ops ctx (Inr run # items) current outputs io =
     (case sort_single_switch env ops ctx (run_values run) current outputs io of
        (Inl failure, io) \<Rightarrow> (Inl failure, io)
      | (Inr (f, outputs), io) \<Rightarrow>
          (case project_batch ops ctx (run_batch run) of
             Inl primary \<Rightarrow> fail_all env [f] primary outputs io
           | Inr batch \<Rightarrow>
               (case write_file env f batch io of
                  (Inl primary, io) \<Rightarrow> fail_all env [f] primary outputs io
                | (Inr _, io) \<Rightarrow> sort_single_loop env ops ctx items (Some f) outputs io)))"

text \<open>
  Every strategy starts with \<open>PartitionProjection::new\<close> and the run stream over the input.
\<close>

definition write_sort_single ::
  "('w, 'l, 'b, 'a) output_env \<Rightarrow> ('b, 'a) arrow_ops \<Rightarrow> schema \<Rightarrow> string list \<Rightarrow> string list \<Rightarrow>
   (output_error, 'b) result list \<Rightarrow> ('w, 'b, 'a) sink_io \<Rightarrow> ('w, 'b, 'a) write_result" where
  "write_sort_single env ops schema partition_by exclude inner io =
     (case partition_projection_new schema partition_by exclude of
        Inl e \<Rightarrow> (Inl (output_failure_new e [] []), io)
      | Inr ctx \<Rightarrow>
          sort_single_loop env ops ctx (drain_runs ops (run_stream_new inner partition_by)) None [] io)"

section \<open>Closing what is left\<close>

fun finish_remaining ::
  "('w, 'l, 'b, 'a) output_env \<Rightarrow> ('b, 'a) arrow_ops \<Rightarrow> partition_projection \<Rightarrow> 'a open_file list \<Rightarrow>
   completed_output list \<Rightarrow> ('w, 'b, 'a) sink_io \<Rightarrow> ('w, 'b, 'a) write_result" where
  "finish_remaining env ops ctx [] outputs io = (Inr (file_output_report_new outputs), io)"
| "finish_remaining env ops ctx (f # remaining) outputs io =
     (case finish_file env ops (field_order ctx) f io of
        (Inl primary, io) \<Rightarrow> fail_all env remaining primary outputs io
      | (Inr out, io) \<Rightarrow> finish_remaining env ops ctx remaining (outputs @ [out]) io)"

section \<open>Nosort-multi\<close>

text \<open>
  The \<open>HashMap\<close> of open sinks is an association list in insertion order. Its iteration order
  is only observable through \<open>abort_all\<close> and \<open>finish_remaining\<close>, which sort by target.
\<close>

fun nosort_multi_loop ::
  "('w, 'l, 'b, 'a) output_env \<Rightarrow> ('b, 'a) arrow_ops \<Rightarrow> partition_projection \<Rightarrow>
   (output_error, ('b, 'a) partition_run) result list \<Rightarrow> (string \<times> 'a open_file) list \<Rightarrow>
   ('w, 'b, 'a) sink_io \<Rightarrow> ('w, 'b, 'a) write_result" where
  "nosort_multi_loop env ops ctx [] opens io =
     finish_remaining env ops ctx (sort_key of_target (map snd opens)) [] io"
| "nosort_multi_loop env ops ctx (Inl primary # items) opens io = fail_all env (map snd opens) primary [] io"
| "nosort_multi_loop env ops ctx (Inr run # items) opens io =
     (let key = partition_key ops (run_values run) (field_order ctx) in
      case (case map_of opens key of
              Some f \<Rightarrow> (Inr (f, opens), io)
            | None \<Rightarrow>
                (case open_partition env (projected_schema ctx) (run_values run) None io of
                   (Inl primary, io) \<Rightarrow> (Inl primary, io)
                 | (Inr f, io) \<Rightarrow> (Inr (f, opens @ [(key, f)]), io))) of
        (Inl primary, io) \<Rightarrow> fail_all env (map snd opens) primary [] io
      | (Inr (f, opens), io) \<Rightarrow>
          (case project_batch ops ctx (run_batch run) of
             Inl primary \<Rightarrow> fail_all env (map snd opens) primary [] io
           | Inr batch \<Rightarrow>
               (case write_file env f batch io of
                  (Inl primary, io) \<Rightarrow> fail_all env (map snd opens) primary [] io
                | (Inr _, io) \<Rightarrow> nosort_multi_loop env ops ctx items opens io)))"

definition write_nosort_multi ::
  "('w, 'l, 'b, 'a) output_env \<Rightarrow> ('b, 'a) arrow_ops \<Rightarrow> schema \<Rightarrow> string list \<Rightarrow> string list \<Rightarrow>
   (output_error, 'b) result list \<Rightarrow> ('w, 'b, 'a) sink_io \<Rightarrow> ('w, 'b, 'a) write_result" where
  "write_nosort_multi env ops schema partition_by exclude inner io =
     (case partition_projection_new schema partition_by exclude of
        Inl e \<Rightarrow> (Inl (output_failure_new e [] []), io)
      | Inr ctx \<Rightarrow>
          nosort_multi_loop env ops ctx (drain_runs ops (run_stream_new inner partition_by)) [] io)"

section \<open>Nosort-evict\<close>

text \<open>The \<open>lru\<close> crate's cache is a parameter; \<open>lru_entries\<close> is its iteration.\<close>

record ('c, 'v) lru_ops =
  lru_new :: "nat \<Rightarrow> 'c"
  lru_contains :: "'c \<Rightarrow> string \<Rightarrow> bool"
  lru_len :: "'c \<Rightarrow> nat"
  lru_pop :: "'c \<Rightarrow> ((string \<times> 'v) \<times> 'c) option"
  lru_put :: "'c \<Rightarrow> string \<Rightarrow> 'v \<Rightarrow> 'c"
  lru_get :: "'c \<Rightarrow> string \<Rightarrow> 'v option \<times> 'c"
  lru_entries :: "'c \<Rightarrow> (string \<times> 'v) list"

text \<open>
  Making room and opening a file for a key that is not in the cache. \<open>None\<close> is the
  \<open>expect\<close> on a full cache without a victim.
\<close>

definition evict_open ::
  "('w, 'l, 'b, 'a) output_env \<Rightarrow> ('b, 'a) arrow_ops \<Rightarrow> ('c, 'a open_file) lru_ops \<Rightarrow> partition_projection \<Rightarrow> nat \<Rightarrow>
   ('b, 'a) partition_run \<Rightarrow> string \<Rightarrow> 'c \<Rightarrow> (string \<Rightarrow> nat option) \<Rightarrow> completed_output list \<Rightarrow> ('w, 'b, 'a) sink_io \<Rightarrow>
   ((output_failure, 'c \<times> (string \<Rightarrow> nat option) \<times> completed_output list) result \<times> ('w, 'b, 'a) sink_io) option" where
  "evict_open env ops lru ctx max_open run key cache numbers outputs io =
     (let proceed = (\<lambda>cache outputs io.
        (let number = (case numbers key of Some n \<Rightarrow> n | None \<Rightarrow> 0) in
         case open_partition env (projected_schema ctx) (run_values run) (Some number) io of
           (Inl primary, io) \<Rightarrow>
             Some (fail_all env (map snd (lru_entries lru cache)) primary outputs io)
         | (Inr f, io) \<Rightarrow>
             Some (Inr (lru_put lru cache key f, numbers(key \<mapsto> number + 1), outputs), io))) in
      if lru_len lru cache = max_open then
        (case lru_pop lru cache of
           None \<Rightarrow> None
         | Some ((_, evicted), cache) \<Rightarrow>
             (case finish_file env ops (field_order ctx) evicted io of
                (Inl primary, io) \<Rightarrow>
                  Some (fail_all env (map snd (lru_entries lru cache)) primary outputs io)
              | (Inr out, io) \<Rightarrow> proceed cache (outputs @ [out]) io))
      else proceed cache outputs io)"

fun nosort_evict_loop ::
  "('w, 'l, 'b, 'a) output_env \<Rightarrow> ('b, 'a) arrow_ops \<Rightarrow> ('c, 'a open_file) lru_ops \<Rightarrow> partition_projection \<Rightarrow> nat \<Rightarrow>
   (output_error, ('b, 'a) partition_run) result list \<Rightarrow> 'c \<Rightarrow> (string \<Rightarrow> nat option) \<Rightarrow> completed_output list \<Rightarrow>
   ('w, 'b, 'a) sink_io \<Rightarrow> ('w, 'b, 'a) write_result option" where
  "nosort_evict_loop env ops lru ctx max_open [] cache numbers outputs io =
     Some (finish_remaining env ops ctx (sort_key of_target (map snd (lru_entries lru cache))) outputs io)"
| "nosort_evict_loop env ops lru ctx max_open (Inl primary # items) cache numbers outputs io =
     Some (fail_all env (map snd (lru_entries lru cache)) primary outputs io)"
| "nosort_evict_loop env ops lru ctx max_open (Inr run # items) cache numbers outputs io =
     (let key = partition_key ops (run_values run) (field_order ctx) in
      case (if lru_contains lru cache key then Some (Inr (cache, numbers, outputs), io)
            else evict_open env ops lru ctx max_open run key cache numbers outputs io) of
        None \<Rightarrow> None
      | Some (Inl failure, io) \<Rightarrow> Some (Inl failure, io)
      | Some (Inr (cache, numbers, outputs), io) \<Rightarrow>
          (case project_batch ops ctx (run_batch run) of
             Inl primary \<Rightarrow> Some (fail_all env (map snd (lru_entries lru cache)) primary outputs io)
           | Inr batch \<Rightarrow>
               (case lru_get lru cache key of
                  (None, cache) \<Rightarrow> None
                | (Some f, cache) \<Rightarrow>
                    (case write_file env f batch io of
                       (Inl primary, io) \<Rightarrow>
                         Some (fail_all env (map snd (lru_entries lru cache)) primary outputs io)
                     | (Inr _, io) \<Rightarrow>
                         nosort_evict_loop env ops lru ctx max_open items cache numbers outputs io))))"

definition write_nosort_evict ::
  "('w, 'l, 'b, 'a) output_env \<Rightarrow> ('b, 'a) arrow_ops \<Rightarrow> ('c, 'a open_file) lru_ops \<Rightarrow> schema \<Rightarrow> string list \<Rightarrow>
   string list \<Rightarrow> nat \<Rightarrow> (output_error, 'b) result list \<Rightarrow> ('w, 'b, 'a) sink_io \<Rightarrow>
   ('w, 'b, 'a) write_result option" where
  "write_nosort_evict env ops lru schema partition_by exclude max_open inner io =
     (case partition_projection_new schema partition_by exclude of
        Inl e \<Rightarrow> Some (Inl (output_failure_new e [] []), io)
      | Inr ctx \<Rightarrow>
          nosort_evict_loop env ops lru ctx max_open (drain_runs ops (run_stream_new inner partition_by))
            (lru_new lru max_open) Map.empty [] io)"

section \<open>The life of a sink\<close>

text \<open>
  The protocol of sinks as a step relation on the number of sinks opened so far and the set of open
  ones: a sink is opened under a fresh number, written only while open, and closed by \<open>finish\<close>
  or \<open>abort\<close>, after which it is gone.
\<close>

inductive sink_step :: "nat \<times> nat set \<Rightarrow> ('b, 'a) sink_event \<Rightarrow> nat \<times> nat set \<Rightarrow> bool" where
  step_open: "sink_step (n, L) (Opened n vals number) (Suc n, insert n L)"
| step_write: "i \<in> L \<Longrightarrow> sink_step (n, L) (Wrote i b) (n, L)"
| step_finish: "i \<in> L \<Longrightarrow> sink_step (n, L) (Finished i) (n, L - {i})"
| step_abort: "i \<in> L \<Longrightarrow> sink_step (n, L) (Aborted i) (n, L - {i})"

inductive sink_trace :: "nat \<times> nat set \<Rightarrow> ('b, 'a) sink_event list \<Rightarrow> nat \<times> nat set \<Rightarrow> bool" where
  trace_nil: "sink_trace s [] s"
| trace_snoc: "sink_trace s evs t \<Longrightarrow> sink_step t e u \<Longrightarrow> sink_trace s (evs @ [e]) u"

inductive_cases sink_step_cases: "sink_step s e t"

lemma sink_trace_bound:
  "sink_trace s evs t \<Longrightarrow> snd s \<subseteq> {..<fst s} \<Longrightarrow> snd t \<subseteq> {..<fst t} \<and> fst s \<le> fst t"
  by (induction rule: sink_trace.induct) (fastforce elim: sink_step_cases)+

text \<open>\<open>tracks io L\<close>: the events of \<open>io\<close> are a run of the protocol that leaves the sinks \<open>L\<close> open.\<close>

definition tracks :: "('w, 'b, 'a) sink_io \<Rightarrow> nat set \<Rightarrow> bool" where
  "tracks io L \<longleftrightarrow> sink_trace (0, {}) (si_events io) (si_next io, L)"

lemma tracks_bound: "tracks io L \<Longrightarrow> i \<in> L \<Longrightarrow> i < si_next io"
  using sink_trace_bound [of "(0, {})" "si_events io" "(si_next io, L)"] by (auto simp: tracks_def)

lemma tracks_world [simp]: "tracks (io\<lparr>si_world := w\<rparr>) L = tracks io L"
  by (simp add: tracks_def)

lemma tracks_event:
  assumes "tracks io L" and "sink_step (si_next io, L) e (n, L')"
  shows "tracks \<lparr>si_world = w, si_next = n, si_events = si_events io @ [e]\<rparr> L'"
  using assms trace_snoc by (fastforce simp: tracks_def)

definition sinks_of :: "'a open_file list \<Rightarrow> nat set" where
  "sinks_of files = of_sink ` set files"

lemma sinks_of_simps [simp]:
  "sinks_of [] = {}" "sinks_of (f # fs) = insert (of_sink f) (sinks_of fs)"
  "sinks_of (fs @ gs) = sinks_of fs \<union> sinks_of gs" "sinks_of (sort_key k fs) = sinks_of fs"
  by (auto simp: sinks_of_def)

text \<open>The open sinks are exactly those of \<open>files\<close>, each once.\<close>

definition holds_open :: "('w, 'b, 'a) sink_io \<Rightarrow> 'a open_file list \<Rightarrow> bool" where
  "holds_open io files \<longleftrightarrow> distinct (map of_sink files) \<and> tracks io (sinks_of files)"

lemma holds_open_world [simp]: "holds_open (io\<lparr>si_world := w\<rparr>) files = holds_open io files"
  by (simp add: holds_open_def)

lemma holds_open_mset: "holds_open io files \<Longrightarrow> mset files = mset files' \<Longrightarrow> holds_open io files'"
  by (metis holds_open_def mset_eq_imp_distinct_iff mset_map set_mset_mset sinks_of_def)

lemma open_partition_holds:
  assumes "open_partition env schema vals number io = (r, io')" and "holds_open io files"
  shows "case r of Inl e \<Rightarrow> holds_open io' files \<and> si_events io' = si_events io
    | Inr f \<Rightarrow> holds_open io' (f # files) \<and> of_values f = vals \<and>
        si_events io' = si_events io @ [Opened (of_sink f) vals number]"
proof -
  have fresh: "si_next io \<notin> sinks_of files" using assms(2) tracks_bound by (auto simp: holds_open_def)
  then have "si_next io \<notin> of_sink ` set files" by (simp add: sinks_of_def)
  then show ?thesis
    using assms tracks_event [OF _ step_open, of io "sinks_of files"]
    by (auto simp: open_partition_def holds_open_def split: sum.splits prod.splits)
qed

lemma write_file_holds:
  assumes "write_file env f batch io = (r, io')" and "holds_open io files" and "f \<in> set files"
  shows "holds_open io' files \<and> si_events io' = si_events io @ [Wrote (of_sink f) batch]"
proof -
  have "of_sink f \<in> sinks_of files" using assms(3) by (auto simp: sinks_of_def)
  then show ?thesis
    using assms tracks_event [OF _ step_write, of io "sinks_of files" "of_sink f"]
    by (auto simp: write_file_def holds_open_def Let_def tracks_def split: prod.splits)
qed

lemma finish_file_holds:
  assumes "finish_file env ops cols f io = (r, io')" and "holds_open io (f # files)"
  shows "holds_open io' files \<and> si_events io' = si_events io @ [Finished (of_sink f)]"
proof -
  have L: "sinks_of (f # files) - {of_sink f} = sinks_of files"
    using assms(2) by (auto simp: holds_open_def sinks_of_def)
  show ?thesis
    using assms tracks_event [OF _ step_finish, of io "sinks_of (f # files)" "of_sink f"] L
    by (auto simp: finish_file_def holds_open_def Let_def tracks_def split: prod.splits sum.splits)
qed

definition aborts_of :: "'a open_file list \<Rightarrow> ('b, 'a) sink_event list" where
  "aborts_of files = map (\<lambda>f. Aborted (of_sink f)) files"

lemma abort_each_holds:
  "abort_each env files io = (errors, io') \<Longrightarrow> holds_open io files \<Longrightarrow>
   holds_open io' [] \<and> si_events io' = si_events io @ aborts_of files"
proof (induction files arbitrary: io errors)
  case (Cons f files)
  obtain q w where q: "oe_abort env (of_sink f) (si_world io) = (q, w)"
    by (cases "oe_abort env (of_sink f) (si_world io)")
  let ?io = "io\<lparr>si_world := w, si_events := si_events io @ [Aborted (of_sink f)]\<rparr>"
  obtain es io1 where rest: "abort_each env files ?io = (es, io1)" by (cases "abort_each env files ?io")
  have "io1 = io'" using Cons.prems(1) q rest by (auto split: sum.splits)
  have L: "sinks_of (f # files) - {of_sink f} = sinks_of files"
    using Cons.prems(2) by (auto simp: holds_open_def sinks_of_def)
  have "holds_open ?io files"
    using Cons.prems(2) tracks_event [OF _ step_abort, of io "sinks_of (f # files)" "of_sink f" w] L
    by (auto simp: holds_open_def tracks_def)
  then show ?case using Cons.IH [OF rest [unfolded \<open>io1 = io'\<close>]] by (simp add: aborts_of_def)
qed (simp add: aborts_of_def)

lemma fail_all_holds:
  assumes "fail_all env files primary outputs io = (r, io')" and "holds_open io files"
  shows "(\<exists>failure. r = Inl failure) \<and> holds_open io' [] \<and>
    si_events io' = si_events io @ aborts_of (sort_key of_target files)"
proof -
  have "holds_open io (sort_key of_target files)" by (rule holds_open_mset [OF assms(2)]) simp
  then show ?thesis
    using assms(1) abort_each_holds [of env "sort_key of_target files" io]
    by (auto simp: fail_all_def abort_failure_def abort_all_def Let_def split: prod.splits)
qed

section \<open>Where the rows go\<close>

fun file_writes :: "('b, 'a) sink_event list \<Rightarrow> (nat \<times> 'b) list" where
  "file_writes [] = []"
| "file_writes (Wrote i b # evs) = (i, b) # file_writes evs"
| "file_writes (_ # evs) = file_writes evs"

fun file_opens :: "('b, 'a) sink_event list \<Rightarrow> (nat \<times> 'a partition_values \<times> nat option) list" where
  "file_opens [] = []"
| "file_opens (Opened i vals number # evs) = (i, vals, number) # file_opens evs"
| "file_opens (_ # evs) = file_opens evs"

lemma file_writes_append [simp]: "file_writes (evs @ evs') = file_writes evs @ file_writes evs'"
  by (induction evs rule: file_writes.induct) auto

lemma file_opens_append [simp]: "file_opens (evs @ evs') = file_opens evs @ file_opens evs'"
  by (induction evs rule: file_opens.induct) auto

lemma aborts_frame [simp]: "file_writes (aborts_of fs) = []" "file_opens (aborts_of fs) = []"
  by (induction fs) (auto simp: aborts_of_def)

text \<open>Open sinks now and at most so far.\<close>

fun stat_step :: "nat \<times> nat \<Rightarrow> ('b, 'a) sink_event \<Rightarrow> nat \<times> nat" where
  "stat_step (c, m) (Opened i vals number) = (c + 1, max m (c + 1))"
| "stat_step (c, m) (Wrote i b) = (c, m)"
| "stat_step (c, m) (Finished i) = (c - 1, m)"
| "stat_step (c, m) (Aborted i) = (c - 1, m)"

definition open_peak :: "('b, 'a) sink_event list \<Rightarrow> nat" where
  "open_peak evs = snd (foldl stat_step (0, 0) evs)"

text \<open>
  The run sequence \<open>runs\<close> has been written so far: the i-th write is the projected i-th run and
  goes to a sink opened for values that are \<open>same\<close> as the run's.
\<close>

definition routed ::
  "('a partition_values \<Rightarrow> 'a partition_values \<Rightarrow> bool) \<Rightarrow> ('b, 'a) arrow_ops \<Rightarrow> partition_projection \<Rightarrow>
   ('b, 'a) sink_event list \<Rightarrow> ('b, 'a) partition_run list \<Rightarrow> bool" where
  "routed same ops ctx evs runs \<longleftrightarrow>
     list_all2 (\<lambda>(i, b) run. project_batch ops ctx (run_batch run) = Inr b \<and>
        (\<exists>vals number. (i, vals, number) \<in> set (file_opens evs) \<and> same vals (run_values run)))
       (file_writes evs) runs"

definition out_inv where
  "out_inv same ops ctx io files runs \<longleftrightarrow>
     holds_open io files \<and> routed same ops ctx (si_events io) runs \<and>
     (\<forall>f\<in>set files. \<exists>number. (of_sink f, of_values f, number) \<in> set (file_opens (si_events io))) \<and>
     (\<forall>i. Aborted i \<notin> set (si_events io)) \<and>
     fst (foldl stat_step (0, 0) (si_events io)) = length files"

lemma routed_mono:
  "routed same ops ctx evs runs \<Longrightarrow> file_writes evs' = [] \<Longrightarrow> routed same ops ctx (evs @ evs') runs"
  unfolding routed_def by (auto elim!: list_all2_mono)

lemma out_inv_open:
  assumes "open_partition env schema vals number io = (r, io')" and "out_inv same ops ctx io files runs"
  shows "case r of Inl e \<Rightarrow> out_inv same ops ctx io' files runs \<and> si_events io' = si_events io
    | Inr f \<Rightarrow> out_inv same ops ctx io' (f # files) runs \<and> of_values f = vals \<and>
        si_events io' = si_events io @ [Opened (of_sink f) vals number]"
  using assms(2) open_partition_holds [OF assms(1)] routed_mono [of same ops ctx "si_events io" runs]
  by (cases r; cases "foldl stat_step (0, 0) (si_events io)") (fastforce simp: out_inv_def)+

lemma out_inv_write:
  assumes "write_file env f batch io = (r, io')" and "out_inv same ops ctx io files runs" and "f \<in> set files"
    and "project_batch ops ctx (run_batch run) = Inr batch" and "same (of_values f) (run_values run)"
  shows "out_inv same ops ctx io' files (runs @ [run]) \<and> si_events io' = si_events io @ [Wrote (of_sink f) batch]"
proof -
  note h = write_file_holds [OF assms(1) _ assms(3)]
  obtain number where "(of_sink f, of_values f, number) \<in> set (file_opens (si_events io))"
    using assms(2,3) by (auto simp: out_inv_def)
  moreover have "list_all2 (\<lambda>(i, b) run. project_batch ops ctx (run_batch run) = Inr b \<and>
      (\<exists>vals number. (i, vals, number) \<in> set (file_opens (si_events io)) \<and> same vals (run_values run)))
      (file_writes (si_events io)) runs"
    using assms(2) by (simp add: out_inv_def routed_def)
  ultimately show ?thesis
    using h assms(2,4,5)
    by (cases "foldl stat_step (0, 0) (si_events io)")
      (auto simp: out_inv_def routed_def list_all2_append intro!: list_all2_appendI)
qed

lemma out_inv_finish:
  assumes "finish_file env aops cols f io = (r, io')" and "out_inv same ops ctx io (f # files) runs"
  shows "out_inv same ops ctx io' files runs \<and> si_events io' = si_events io @ [Finished (of_sink f)]"
  using assms(2) finish_file_holds [OF assms(1)] routed_mono [of same ops ctx "si_events io" runs]
  by (cases "foldl stat_step (0, 0) (si_events io)") (fastforce simp: out_inv_def)

lemma out_inv_mset: "out_inv same ops ctx io files runs \<Longrightarrow> mset files = mset files' \<Longrightarrow>
    out_inv same ops ctx io files' runs"
  using holds_open_mset [of io files files']
  by (simp add: out_inv_def) (metis mset_eq_setD mset_eq_length)

lemma out_inv_holds: "out_inv same ops ctx io files runs \<Longrightarrow> holds_open io files"
  by (simp add: out_inv_def)

lemma finish_remaining_inv:
  assumes "finish_remaining env aops actx files outputs io = (r, io')" and "out_inv same ops ctx io files runs"
  shows "holds_open io' [] \<and> file_opens (si_events io') = file_opens (si_events io) \<and>
    (is_ok r \<longrightarrow> out_inv same ops ctx io' [] runs)"
  using assms
proof (induction files arbitrary: outputs io)
  case Nil
  then show ?case by (auto simp: out_inv_def)
next
  case (Cons f files)
  obtain q io1 where q: "finish_file env aops (field_order actx) f io = (q, io1)"
    by (cases "finish_file env aops (field_order actx) f io")
  note inv = out_inv_finish [OF q Cons.prems(2)]
  show ?case
  proof (cases q)
    case (Inl e)
    then have "fail_all env files e outputs io1 = (r, io')" using Cons.prems(1) q by simp
    from fail_all_holds [OF this] inv show ?thesis by (auto dest!: out_inv_holds)
  next
    case (Inr out)
    then show ?thesis using Cons.prems(1) q Cons.IH inv by fastforce
  qed
qed

section \<open>Sort-single\<close>

lemma extract_distinct:
  "extract_partition_values ops batch row names vals = Inr result \<Longrightarrow> distinct (map fst vals) \<Longrightarrow>
   distinct (map fst result)"
proof (induction names arbitrary: vals)
  case (Cons name names)
  obtain a where "ao_column ops batch name = Some a"
    "extract_partition_values ops batch row names (AList.update name (ao_array_slice ops a row 1) vals) = Inr result"
    using Cons.prems(1) by (auto split: option.splits)
  then show ?case using Cons.IH distinct_update [OF Cons.prems(2)] by blast
qed simp

lemma batch_items_distinct:
  "Inr run \<in> set (batch_items ops columns item) \<Longrightarrow> distinct (map fst (run_values run))"
  by (cases item) (auto simp: Let_def run_of_range_def dest!: extract_distinct [where vals = "[]", simplified]
      split: if_splits option.splits sum.splits prod.splits)

lemma drained_runs_distinct:
  "Inr run \<in> set (drain_runs ops (run_stream_new inner columns)) \<Longrightarrow> distinct (map fst (run_values run))"
  by (auto simp: drain_new_runs dest: batch_items_distinct)

lemma partition_values_equal_refl: "distinct (map fst vals) \<Longrightarrow> partition_values_equal vals vals"
  by (auto simp: partition_values_equal_def list_all_iff)

lemma sort_single_switch_inv:
  assumes "sort_single_switch env aops actx vals current outputs io = (r, io')"
    and "out_inv partition_values_equal ops ctx io (case current of None \<Rightarrow> [] | Some f \<Rightarrow> [f]) runs"
    and "distinct (map fst vals)"
  shows "case r of Inl e \<Rightarrow> holds_open io' []
    | Inr (f, outputs') \<Rightarrow> out_inv partition_values_equal ops ctx io' [f] runs \<and> partition_values_equal (of_values f) vals"
proof -
  have opened: "case r' of Inl e \<Rightarrow> holds_open io' []
      | Inr (f, outputs') \<Rightarrow> out_inv partition_values_equal ops ctx io' [f] runs \<and> partition_values_equal (of_values f) vals"
    if "(case open_partition env (projected_schema actx) vals None io1 of
           (Inl e, io) \<Rightarrow> (Inl (output_failure_new e outs []), io)
         | (Inr f, io) \<Rightarrow> (Inr (f, outs), io)) = (r', io')"
      and "out_inv partition_values_equal ops ctx io1 [] runs" for r' io1 and outs :: "completed_output list"
  proof -
    obtain q io2 where q: "open_partition env (projected_schema actx) vals None io1 = (q, io2)"
      by (cases "open_partition env (projected_schema actx) vals None io1")
    show ?thesis using that(1) q out_inv_open [OF q that(2)] partition_values_equal_refl [OF assms(3)]
      by (cases q) (auto dest: out_inv_holds)
  qed
  show ?thesis
  proof (cases current)
    case None
    then show ?thesis using assms(1,2) opened [of outputs io r] by (simp add: sort_single_switch_def Let_def)
  next
    case (Some f)
    obtain q io1 where q: "finish_file env aops (field_order actx) f io = (q, io1)"
      by (cases "finish_file env aops (field_order actx) f io")
    have inv: "out_inv partition_values_equal ops ctx io1 [] runs"
      using out_inv_finish [OF q] assms(2) Some by auto
    show ?thesis
    proof (cases "partition_values_equal (of_values f) vals")
      case True
      then show ?thesis using assms(1,2) Some by (auto simp: sort_single_switch_def Let_def)
    next
      case changed: False
      show ?thesis
      proof (cases q)
        case (Inl e)
        then show ?thesis using assms(1) Some q inv changed
          by (auto simp: sort_single_switch_def Let_def dest: out_inv_holds)
      next
        case (Inr out)
        then show ?thesis using assms(1) Some q inv changed opened [of "outputs @ [out]" io1 r]
          by (simp add: sort_single_switch_def Let_def)
      qed
    qed
  qed
qed

lemma sort_single_loop_inv:
  assumes "sort_single_loop env ops ctx items current outputs io = (r, io')"
    and "out_inv partition_values_equal ops ctx io (case current of None \<Rightarrow> [] | Some f \<Rightarrow> [f]) runs"
    and "\<forall>run. Inr run \<in> set items \<longrightarrow> distinct (map fst (run_values run))"
  shows "holds_open io' [] \<and>
    (is_ok r \<longrightarrow> (\<exists>new. items = map Inr new \<and> out_inv partition_values_equal ops ctx io' [] (runs @ new)))"
  using assms
proof (induction items arbitrary: current outputs io runs)
  case Nil
  show ?case
  proof (cases current)
    case None
    then show ?thesis using Nil by (auto simp: out_inv_def)
  next
    case (Some f)
    obtain q io1 where q: "finish_file env ops (field_order ctx) f io = (q, io1)"
      by (cases "finish_file env ops (field_order ctx) f io")
    have inv: "out_inv partition_values_equal ops ctx io1 [] runs"
      using out_inv_finish [OF q] Nil.prems(2) Some by simp
    then show ?thesis using Nil.prems Some q by (cases q) (auto dest: out_inv_holds)
  qed
next
  case (Cons item items)
  show ?case
  proof (cases item)
    case (Inl e)
    then have "fail_all env (case current of None \<Rightarrow> [] | Some f \<Rightarrow> [f]) e outputs io = (r, io')"
      using Cons.prems(1) by simp
    from fail_all_holds [OF this out_inv_holds [OF Cons.prems(2)]] show ?thesis by auto
  next
    case (Inr run)
    have d: "distinct (map fst (run_values run))" using Cons.prems(3) Inr by auto
    obtain q io1 where q: "sort_single_switch env ops ctx (run_values run) current outputs io = (q, io1)"
      by (cases "sort_single_switch env ops ctx (run_values run) current outputs io")
    note sw = sort_single_switch_inv [OF q Cons.prems(2) d]
    show ?thesis
    proof (cases q)
      case Inl': (Inl failure)
      then show ?thesis using Cons.prems(1) Inr q sw by auto
    next
      case Inr': (Inr fo)
      obtain f outs where fo: "fo = (f, outs)" by (cases fo)
      have inv: "out_inv partition_values_equal ops ctx io1 [f] runs" and eq: "partition_values_equal (of_values f) (run_values run)"
        using sw Inr' fo by (auto )
      show ?thesis
      proof (cases "project_batch ops ctx (run_batch run)")
        case P: (Inl primary)
        then have "fail_all env [f] primary outs io1 = (r, io')" using Cons.prems(1) Inr q Inr' fo by simp
        from fail_all_holds [OF this out_inv_holds [OF inv]] show ?thesis by auto
      next
        case P: (Inr batch)
        obtain w io2 where w: "write_file env f batch io1 = (w, io2)" by (cases "write_file env f batch io1")
        have inv2: "out_inv partition_values_equal ops ctx io2 [f] (runs @ [run])"
          using out_inv_write [OF w inv _ P eq] by simp
        show ?thesis
        proof (cases w)
          case W: (Inl primary)
          then have "fail_all env [f] primary outs io2 = (r, io')" using Cons.prems(1) Inr q Inr' fo P w by simp
          from fail_all_holds [OF this out_inv_holds [OF inv2]] show ?thesis by auto
        next
          case W: (Inr u)
          then have run': "sort_single_loop env ops ctx items (Some f) outs io2 = (r, io')"
            using Cons.prems(1) Inr q Inr' fo P w by simp
          have ih: "holds_open io' [] \<and> (is_ok r \<longrightarrow> (\<exists>new. items = map Inr new \<and>
              out_inv partition_values_equal ops ctx io' [] ((runs @ [run]) @ new)))"
            by (rule Cons.IH [OF run']) (use inv2 Cons.prems(3) in auto)
          show ?thesis
          proof (intro conjI impI)
            assume "is_ok r"
            then obtain new where "items = map Inr new" "out_inv partition_values_equal ops ctx io' [] ((runs @ [run]) @ new)"
              using ih by blast
            then show "\<exists>new. item # items = map Inr new \<and> out_inv partition_values_equal ops ctx io' [] (runs @ new)"
              using Inr by (intro exI [of _ "run # new"]) simp
          qed (use ih in simp)
        qed
      qed
    qed
  qed
qed

section \<open>Nosort-multi\<close>

definition same_key :: "('b, 'a) arrow_ops \<Rightarrow> string list \<Rightarrow> 'a partition_values \<Rightarrow> 'a partition_values \<Rightarrow> bool" where
  "same_key ops order a b \<longleftrightarrow> partition_key ops a order = partition_key ops b order"

definition opened_keys :: "('b, 'a) arrow_ops \<Rightarrow> string list \<Rightarrow> ('b, 'a) sink_event list \<Rightarrow> string list" where
  "opened_keys ops order evs = map (\<lambda>(i, vals, number). partition_key ops vals order) (file_opens evs)"

lemma opened_keys_simps [simp]:
  "opened_keys ops order [] = []"
  "opened_keys ops order (evs @ [Opened i vals number]) = opened_keys ops order evs @ [partition_key ops vals order]"
  "opened_keys ops order (evs @ [Wrote i b]) = opened_keys ops order evs"
  "opened_keys ops order (evs @ [Finished i]) = opened_keys ops order evs"
  by (simp_all add: opened_keys_def)

text \<open>The map of open sinks: every sink is filed under the key of its values, and no key was opened twice.\<close>

definition multi_inv where
  "multi_inv ops ctx io opens runs \<longleftrightarrow>
     out_inv (same_key ops (field_order ctx)) ops ctx io (map snd opens) runs \<and>
     (\<forall>(k, f)\<in>set opens. partition_key ops (of_values f) (field_order ctx) = k) \<and>
     opened_keys ops (field_order ctx) (si_events io) = map fst opens \<and> distinct (map fst opens)"

lemma multi_inv_holds: "multi_inv ops ctx io opens runs \<Longrightarrow> holds_open io (map snd opens)"
  by (simp add: multi_inv_def out_inv_def)

lemma nosort_multi_loop_inv:
  assumes "nosort_multi_loop env ops ctx items opens io = (r, io')" and "multi_inv ops ctx io opens runs"
  shows "holds_open io' [] \<and>
    (is_ok r \<longrightarrow> (\<exists>new. items = map Inr new \<and> distinct (opened_keys ops (field_order ctx) (si_events io')) \<and>
       out_inv (same_key ops (field_order ctx)) ops ctx io' [] (runs @ new)))"
  using assms
proof (induction items arbitrary: opens io runs)
  case Nil
  have inv: "out_inv (same_key ops (field_order ctx)) ops ctx io (sort_key of_target (map snd opens)) runs"
    by (rule out_inv_mset [of _ _ _ _ "map snd opens"]) (use Nil.prems(2) in \<open>auto simp: multi_inv_def\<close>)
  have "finish_remaining env ops ctx (sort_key of_target (map snd opens)) [] io = (r, io')"
    using Nil.prems(1) by simp
  from finish_remaining_inv [OF this inv] show ?case
    using Nil.prems(2) by (auto simp: multi_inv_def opened_keys_def)
next
  case (Cons item items)
  show ?case
  proof (cases item)
    case (Inl e)
    then have "fail_all env (map snd opens) e [] io = (r, io')" using Cons.prems(1) by simp
    from fail_all_holds [OF this multi_inv_holds [OF Cons.prems(2)]] show ?thesis by auto
  next
    case (Inr run)
    let ?key = "partition_key ops (run_values run) (field_order ctx)"
    define step where "step = (case map_of opens ?key of
        Some f \<Rightarrow> (Inr (f, opens), io)
      | None \<Rightarrow> (case open_partition env (projected_schema ctx) (run_values run) None io of
           (Inl primary, io) \<Rightarrow> (Inl primary, io)
         | (Inr f, io) \<Rightarrow> (Inr (f, opens @ [(?key, f)]), io)))"
    obtain q io1 where q: "step = (q, io1)" by (cases step)
    have step: "case q of Inl primary \<Rightarrow> holds_open io1 (map snd opens)
      | Inr (f, opens') \<Rightarrow> multi_inv ops ctx io1 opens' runs \<and> (?key, f) \<in> set opens'"
    proof (cases "map_of opens ?key")
      case (Some f)
      then show ?thesis using q Cons.prems(2) by (auto simp: step_def dest: map_of_SomeD)
    next
      case None
      obtain p io2 where p: "open_partition env (projected_schema ctx) (run_values run) None io = (p, io2)"
        by (cases "open_partition env (projected_schema ctx) (run_values run) None io")
      have inv: "out_inv (same_key ops (field_order ctx)) ops ctx io (map snd opens) runs"
        using Cons.prems(2) by (simp add: multi_inv_def)
      note o = out_inv_open [OF p inv]
      show ?thesis
      proof (cases p)
        case (Inl e)
        then show ?thesis using q p None o by (auto simp: step_def dest: out_inv_holds)
      next
        case (Inr f)
        have "q = Inr (f, opens @ [(?key, f)])" "io1 = io2" using q p None Inr by (auto simp: step_def)
        moreover have "out_inv (same_key ops (field_order ctx)) ops ctx io2 (map snd (opens @ [(?key, f)])) runs"
          by (rule out_inv_mset [of _ _ _ _ "f # map snd opens"]) (use o Inr in auto)
        moreover have "opened_keys ops (field_order ctx) (si_events io2) = map fst (opens @ [(?key, f)])"
          using o Inr Cons.prems(2) by (simp add: multi_inv_def)
        moreover have "\<forall>(k, g)\<in>set (opens @ [(?key, f)]). partition_key ops (of_values g) (field_order ctx) = k"
          using o Inr Cons.prems(2) by (auto simp: multi_inv_def)
        moreover have "distinct (map fst (opens @ [(?key, f)]))"
          using Cons.prems(2) None unfolding multi_inv_def by (simp add: map_of_eq_None_iff)
        ultimately have "multi_inv ops ctx io2 (opens @ [(?key, f)]) runs" unfolding multi_inv_def by blast
        then show ?thesis using \<open>q = _\<close> \<open>io1 = io2\<close> by simp
      qed
    qed
    show ?thesis
    proof (cases q)
      case Q: (Inl primary)
      then have "fail_all env (map snd opens) primary [] io1 = (r, io')"
        using Cons.prems(1) Inr q by (simp add: step_def Let_def)
      from fail_all_holds [OF this] step Q show ?thesis by auto
    next
      case Q: (Inr fo)
      obtain f opens' where fo: "fo = (f, opens')" by (cases fo)
      have inv: "multi_inv ops ctx io1 opens' runs" and f: "(?key, f) \<in> set opens'" using step Q fo by auto
      have key: "partition_key ops (of_values f) (field_order ctx) = ?key"
        using inv f by (auto simp: multi_inv_def)
      have out: "out_inv (same_key ops (field_order ctx)) ops ctx io1 (map snd opens') runs"
        using inv by (simp add: multi_inv_def)
      show ?thesis
      proof (cases "project_batch ops ctx (run_batch run)")
        case P: (Inl primary)
        then have "fail_all env (map snd opens') primary [] io1 = (r, io')"
          using Cons.prems(1) Inr q Q fo by (simp add: step_def Let_def)
        from fail_all_holds [OF this out_inv_holds [OF out]] show ?thesis by auto
      next
        case P: (Inr batch)
        obtain w io2 where w: "write_file env f batch io1 = (w, io2)" by (cases "write_file env f batch io1")
        have mem: "f \<in> set (map snd opens')" using f by force
        have out2: "out_inv (same_key ops (field_order ctx)) ops ctx io2 (map snd opens') (runs @ [run]) \<and>
            si_events io2 = si_events io1 @ [Wrote (of_sink f) batch]"
          by (rule out_inv_write [OF w out mem P]) (simp add: same_key_def key)
        then have inv2: "multi_inv ops ctx io2 opens' (runs @ [run])"
          using inv by (auto simp: multi_inv_def)
        show ?thesis
        proof (cases w)
          case W: (Inl primary)
          then have "fail_all env (map snd opens') primary [] io2 = (r, io')"
            using Cons.prems(1) Inr q Q fo P w by (simp add: step_def Let_def)
          from fail_all_holds [OF this multi_inv_holds [OF inv2]] show ?thesis by auto
        next
          case W: (Inr u)
          then have run': "nosort_multi_loop env ops ctx items opens' io2 = (r, io')"
            using Cons.prems(1) Inr q Q fo P w by (simp add: step_def Let_def)
          note ih = Cons.IH [OF run' inv2]
          show ?thesis
          proof (intro conjI impI)
            assume "is_ok r"
            then obtain new where new: "items = map Inr new" "distinct (opened_keys ops (field_order ctx) (si_events io'))"
              "out_inv (same_key ops (field_order ctx)) ops ctx io' [] ((runs @ [run]) @ new)" using ih by blast
            then show "\<exists>new. item # items = map Inr new \<and> distinct (opened_keys ops (field_order ctx) (si_events io')) \<and>
                out_inv (same_key ops (field_order ctx)) ops ctx io' [] (runs @ new)"
              using Inr by (intro exI [of _ "run # new"]) simp
          qed (use ih in simp)
        qed
      qed
    qed
  qed
qed

section \<open>Nosort-evict\<close>

text \<open>
  The documented behaviour of the cache, for the capacity the writer creates it with: entries have
  distinct keys, \<open>pop\<close> removes one entry, \<open>put\<close> of a new key below the capacity adds one,
  \<open>get\<close> only reorders.
\<close>

definition lru_laws :: "('c, 'v) lru_ops \<Rightarrow> ('c \<Rightarrow> bool) \<Rightarrow> nat \<Rightarrow> bool" where
  "lru_laws lru valid cap \<longleftrightarrow>
     valid (lru_new lru cap) \<and> lru_entries lru (lru_new lru cap) = [] \<and>
     (\<forall>c. valid c \<longrightarrow> distinct (map fst (lru_entries lru c)) \<and> lru_len lru c = length (lru_entries lru c)) \<and>
     (\<forall>c k. valid c \<longrightarrow> lru_contains lru c k = (k \<in> fst ` set (lru_entries lru c))) \<and>
     (\<forall>c. valid c \<longrightarrow> lru_entries lru c \<noteq> [] \<longrightarrow>
        (\<exists>k v c'. lru_pop lru c = Some ((k, v), c') \<and> valid c' \<and>
           mset (lru_entries lru c) = add_mset (k, v) (mset (lru_entries lru c')))) \<and>
     (\<forall>c k v. valid c \<longrightarrow> k \<notin> fst ` set (lru_entries lru c) \<longrightarrow> length (lru_entries lru c) < cap \<longrightarrow>
        valid (lru_put lru c k v) \<and>
        mset (lru_entries lru (lru_put lru c k v)) = add_mset (k, v) (mset (lru_entries lru c))) \<and>
     (\<forall>c k v. valid c \<longrightarrow> (k, v) \<in> set (lru_entries lru c) \<longrightarrow>
        (\<exists>c'. lru_get lru c k = (Some v, c') \<and> valid c' \<and> mset (lru_entries lru c') = mset (lru_entries lru c)))"

lemma lru_lawsD:
  assumes "lru_laws lru valid cap"
  shows "valid (lru_new lru cap)" "lru_entries lru (lru_new lru cap) = []"
    and "valid c \<Longrightarrow> lru_len lru c = length (lru_entries lru c)"
    and "valid c \<Longrightarrow> lru_contains lru c k = (k \<in> fst ` set (lru_entries lru c))"
    and "valid c \<Longrightarrow> lru_entries lru c \<noteq> [] \<Longrightarrow> \<exists>k v c'. lru_pop lru c = Some ((k, v), c') \<and> valid c' \<and>
      mset (lru_entries lru c) = add_mset (k, v) (mset (lru_entries lru c'))"
    and "valid c \<Longrightarrow> k \<notin> fst ` set (lru_entries lru c) \<Longrightarrow> length (lru_entries lru c) < cap \<Longrightarrow>
      valid (lru_put lru c k v) \<and>
      mset (lru_entries lru (lru_put lru c k v)) = add_mset (k, v) (mset (lru_entries lru c))"
    and "valid c \<Longrightarrow> (k, v) \<in> set (lru_entries lru c) \<Longrightarrow>
      \<exists>c'. lru_get lru c k = (Some v, c') \<and> valid c' \<and> mset (lru_entries lru c') = mset (lru_entries lru c)"
    and "valid c \<Longrightarrow> distinct (map fst (lru_entries lru c))"
  using assms unfolding lru_laws_def by (fast, fast, fast, fast, fast, fast, fast, fast)

definition closing :: "('b, 'a) sink_event list \<Rightarrow> bool" where
  "closing evs \<longleftrightarrow> list_all (\<lambda>e. case e of Finished i \<Rightarrow> True | Aborted i \<Rightarrow> True | _ \<Rightarrow> False) evs"

lemma closing_simps [simp]:
  "closing []" "closing (evs @ evs') \<longleftrightarrow> closing evs \<and> closing evs'" "closing [Finished i]" "closing (aborts_of fs)"
  by (auto simp: closing_def aborts_of_def list_all_iff)

lemma closing_frame:
  assumes "closing tail"
  shows "open_peak (evs @ tail) = open_peak evs" "file_opens (evs @ tail) = file_opens evs"
    "file_writes (evs @ tail) = file_writes evs"
proof -
  have "snd (foldl stat_step s tail) = snd s" for s
    using assms by (induction tail arbitrary: s)
      (auto simp: closing_def split: sink_event.splits prod.splits)
  then show "open_peak (evs @ tail) = open_peak evs" by (simp add: open_peak_def)
  have "file_opens tail = [] \<and> file_writes tail = []"
    using assms by (induction tail) (auto simp: closing_def split: sink_event.splits)
  then show "file_opens (evs @ tail) = file_opens evs" "file_writes (evs @ tail) = file_writes evs" by simp_all
qed

lemma finish_remaining_closing:
  assumes "finish_remaining env aops actx files outputs io = (r, io')" and "holds_open io files"
  shows "\<exists>tail. closing tail \<and> si_events io' = si_events io @ tail"
  using assms
proof (induction files arbitrary: outputs io)
  case (Cons f files)
  obtain q io1 where q: "finish_file env aops (field_order actx) f io = (q, io1)"
    by (cases "finish_file env aops (field_order actx) f io")
  note inv = finish_file_holds [OF q Cons.prems(2)]
  show ?case
  proof (cases q)
    case (Inl e)
    then have "fail_all env files e outputs io1 = (r, io')" using Cons.prems(1) q by simp
    from fail_all_holds [OF this conjunct1 [OF inv]] show ?thesis using inv
      by (intro exI [of _ "Finished (of_sink f) # aborts_of (sort_key of_target files)"])
        (auto simp: closing_def aborts_of_def list_all_iff)
  next
    case (Inr out)
    then obtain tail where "closing tail" "si_events io' = si_events io1 @ tail"
      using Cons.prems(1) q Cons.IH inv by fastforce
    then show ?thesis using inv by (intro exI [of _ "Finished (of_sink f) # tail"]) (auto simp: closing_def)
  qed
qed auto

text \<open>The file numbers used so far for a key, in order.\<close>

definition numbers_used :: "('b, 'a) arrow_ops \<Rightarrow> string list \<Rightarrow> string \<Rightarrow> ('b, 'a) sink_event list \<Rightarrow> nat option list" where
  "numbers_used ops order key evs =
     map (\<lambda>(i, vals, number). number)
       (filter (\<lambda>(i, vals, number). partition_key ops vals order = key) (file_opens evs))"

lemma numbers_used_simps [simp]:
  "numbers_used ops order key [] = []"
  "numbers_used ops order key (evs @ [Opened i vals number]) =
     numbers_used ops order key evs @ (if partition_key ops vals order = key then [number] else [])"
  "numbers_used ops order key (evs @ [Wrote i b]) = numbers_used ops order key evs"
  by (simp_all add: numbers_used_def)

lemma numbers_used_closing: "closing tail \<Longrightarrow> numbers_used ops order key (evs @ tail) = numbers_used ops order key evs"
  by (simp only: numbers_used_def closing_frame(2))

lemma closed_snoc [simp]:
  "open_peak (evs @ [Finished i]) = open_peak evs"
  "open_peak (evs @ [Wrote i b]) = open_peak evs"
  "numbers_used ops order key (evs @ [Finished i]) = numbers_used ops order key evs"
  by (cases "foldl stat_step (0, 0) evs", simp add: open_peak_def)+ (simp add: numbers_used_def)

definition counted where
  "counted ops order evs numbers \<longleftrightarrow>
     (\<forall>key. numbers_used ops order key evs = map Some [0..<(case numbers key of Some n \<Rightarrow> n | None \<Rightarrow> 0)])"

definition consecutive where
  "consecutive ops order evs \<longleftrightarrow> (\<forall>key. \<exists>n. numbers_used ops order key evs = map Some [0..<n])"

definition evict_inv where
  "evict_inv ops lru valid ctx max_open io cache numbers runs \<longleftrightarrow>
     valid cache \<and> length (lru_entries lru cache) \<le> max_open \<and>
     out_inv (same_key ops (field_order ctx)) ops ctx io (map snd (lru_entries lru cache)) runs \<and>
     (\<forall>(k, f)\<in>set (lru_entries lru cache). partition_key ops (of_values f) (field_order ctx) = k) \<and>
     counted ops (field_order ctx) (si_events io) numbers \<and> open_peak (si_events io) \<le> max_open"

text \<open>What holds when a writer has returned.\<close>

definition evict_done where
  "evict_done ops ctx max_open io \<longleftrightarrow>
     holds_open io [] \<and> open_peak (si_events io) \<le> max_open \<and> consecutive ops (field_order ctx) (si_events io)"

lemma counted_consecutive: "counted ops order evs numbers \<Longrightarrow> consecutive ops order evs"
  by (auto simp: counted_def consecutive_def)

lemma evict_done_closing:
  assumes "holds_open io' []" and "si_events io' = si_events io @ tail" and "closing tail"
    and "open_peak (si_events io) \<le> max_open" and "counted ops (field_order ctx) (si_events io) numbers"
  shows "evict_done ops ctx max_open io'"
  using assms counted_consecutive [OF assms(5)]
  by (simp add: evict_done_def closing_frame consecutive_def numbers_used_closing)

lemma fail_all_done:
  assumes "fail_all env files primary outputs io = (r, io')" and "holds_open io files"
    and "open_peak (si_events io) \<le> max_open" and "counted ops (field_order ctx) (si_events io) numbers"
  shows "evict_done ops ctx max_open io' \<and> \<not> is_ok r"
  using fail_all_holds [OF assms(1,2)] evict_done_closing [OF _ _ closing_simps(4) assms(3,4)] by auto

lemma evict_invD:
  assumes "evict_inv ops lru valid ctx max_open io cache numbers runs"
  shows "valid cache" "length (lru_entries lru cache) \<le> max_open"
    "out_inv (same_key ops (field_order ctx)) ops ctx io (map snd (lru_entries lru cache)) runs"
    "(k, f) \<in> set (lru_entries lru cache) \<Longrightarrow> partition_key ops (of_values f) (field_order ctx) = k"
    "counted ops (field_order ctx) (si_events io) numbers" "open_peak (si_events io) \<le> max_open"
    "holds_open io (map snd (lru_entries lru cache))"
  using assms by (auto simp: evict_inv_def out_inv_def)

lemma evict_open_inv:
  fixes lru :: "('c, 'a open_file) lru_ops"
  assumes laws: "lru_laws lru valid max_open" and cap: "0 < max_open"
    and inv: "evict_inv ops lru valid ctx max_open io cache numbers runs"
    and new: "\<not> lru_contains lru cache key" and key: "key = partition_key ops (run_values run) (field_order ctx)"
  shows "\<exists>r io'. evict_open env ops lru ctx max_open run key cache numbers outputs io = Some (r, io') \<and>
    (case r of Inl failure \<Rightarrow> evict_done ops ctx max_open io'
     | Inr (cache', numbers', outputs') \<Rightarrow> evict_inv ops lru valid ctx max_open io' cache' numbers' runs \<and>
         key \<in> fst ` set (lru_entries lru cache'))"
proof -
  note I = evict_invD [OF inv] and D = lru_lawsD [OF laws]
  let ?same = "same_key ops (field_order ctx)"
  let ?number = "case numbers key of Some n \<Rightarrow> n | None \<Rightarrow> 0"
  define proceed where "proceed = (\<lambda>cache (outputs :: completed_output list) io.
    (case open_partition env (projected_schema ctx) (run_values run) (Some ?number) io of
       (Inl primary, io) \<Rightarrow> Some (fail_all env (map snd (lru_entries lru cache)) primary outputs io)
     | (Inr f, io) \<Rightarrow> Some (Inr (lru_put lru cache key f, numbers(key \<mapsto> ?number + 1), outputs), io)))"
  have go: "\<exists>r io'. proceed c outs io1 = Some (r, io') \<and>
      (case r of Inl failure \<Rightarrow> evict_done ops ctx max_open io'
       | Inr (cache', numbers', outputs') \<Rightarrow> evict_inv ops lru valid ctx max_open io' cache' numbers' runs \<and>
           key \<in> fst ` set (lru_entries lru cache'))"
    if c: "evict_inv ops lru valid ctx max_open io1 c numbers runs" "length (lru_entries lru c) < max_open"
      "key \<notin> fst ` set (lru_entries lru c)" for c io1 and outs
  proof -
    note J = evict_invD [OF c(1)]
    obtain q io2 where q: "open_partition env (projected_schema ctx) (run_values run) (Some ?number) io1 = (q, io2)"
      by (cases "open_partition env (projected_schema ctx) (run_values run) (Some ?number) io1")
    note o = out_inv_open [OF q J(3)]
    show ?thesis
    proof (cases q)
      case (Inl primary)
      obtain r io3 where f: "fail_all env (map snd (lru_entries lru c)) primary outs io2 =
          (r :: (output_failure, 'c \<times> (string \<Rightarrow> nat option) \<times> completed_output list) result, io3)"
        by (metis surj_pair)
      have "evict_done ops ctx max_open io3 \<and> \<not> is_ok r"
        by (rule fail_all_done [OF f]) (use o Inl J in \<open>auto dest: out_inv_holds\<close>)
      then show ?thesis using q Inl f by - (intro exI [of _ r] exI [of _ io3], cases r; simp add: proceed_def)
    next
      case (Inr f)
      have put: "valid (lru_put lru c key f)"
        "mset (lru_entries lru (lru_put lru c key f)) = add_mset (key, f) (mset (lru_entries lru c))"
        using D(6) [OF J(1) c(3,2)] by auto
      have "set (lru_entries lru (lru_put lru c key f)) = insert (key, f) (set (lru_entries lru c))"
        using arg_cong [OF put(2), of set_mset] by simp
      moreover have "mset (map snd (lru_entries lru (lru_put lru c key f))) = mset (f # map snd (lru_entries lru c))"
        using put(2) by simp
      moreover have "length (lru_entries lru (lru_put lru c key f)) = Suc (length (lru_entries lru c))"
        using arg_cong [OF put(2), of size] by simp
      moreover have "out_inv ?same ops ctx io2 (f # map snd (lru_entries lru c)) runs" using o Inr by simp
      moreover have "counted ops (field_order ctx) (si_events io2) (numbers(key \<mapsto> ?number + 1))"
        using J(5) o Inr key by (auto simp: counted_def split: option.splits)
      moreover have "open_peak (si_events io2) \<le> max_open"
        using J(6,3) o Inr c(2) by (cases "foldl stat_step (0, 0) (si_events io1)")
          (auto simp: open_peak_def out_inv_def)
      ultimately have "evict_inv ops lru valid ctx max_open io2 (lru_put lru c key f) (numbers(key \<mapsto> ?number + 1)) runs"
        using put(1) J(4) o Inr key c(2) out_inv_mset [of ?same ops ctx io2 "f # map snd (lru_entries lru c)" runs
            "map snd (lru_entries lru (lru_put lru c key f))"]
        by (auto simp: evict_inv_def)
      then show ?thesis using q Inr \<open>set _ = _\<close> by (auto simp: proceed_def image_iff)
    qed
  qed
  have absent: "key \<notin> fst ` set (lru_entries lru cache)" using new D(4) [OF I(1)] by simp
  show ?thesis
  proof (cases "lru_len lru cache = max_open")
    case False
    then have "length (lru_entries lru cache) < max_open" using I(2) D(3) [OF I(1)] by simp
    then show ?thesis using go [OF inv _ absent] False by (simp add: evict_open_def proceed_def Let_def)
  next
    case True
    then have "lru_entries lru cache \<noteq> []" using cap D(3) [OF I(1)] by auto
    then obtain k evicted c where p: "lru_pop lru cache = Some ((k, evicted), c)" "valid c"
      "mset (lru_entries lru cache) = add_mset (k, evicted) (mset (lru_entries lru c))"
      using D(5) [OF I(1)] by blast
    have sub: "set (lru_entries lru c) \<subseteq> set (lru_entries lru cache)"
      using arg_cong [OF p(3), of set_mset] by auto
    have len: "length (lru_entries lru cache) = Suc (length (lru_entries lru c))"
      using arg_cong [OF p(3), of size] by simp
    have out: "out_inv ?same ops ctx io (evicted # map snd (lru_entries lru c)) runs"
      by (rule out_inv_mset [OF I(3)]) (use p(3) in simp)
    obtain q io1 where q: "finish_file env ops (field_order ctx) evicted io = (q, io1)"
      by (cases "finish_file env ops (field_order ctx) evicted io")
    note fin = out_inv_finish [OF q out]
    have peak: "open_peak (si_events io1) \<le> max_open" "counted ops (field_order ctx) (si_events io1) numbers"
      using fin I(5,6) by (simp_all add: counted_def)
    have inv1: "evict_inv ops lru valid ctx max_open io1 c numbers runs"
      using p(2) len I(2,4) fin peak sub by (auto simp: evict_inv_def)
    show ?thesis
    proof (cases q)
      case (Inl primary)
      obtain r io3 where f: "fail_all env (map snd (lru_entries lru c)) primary outputs io1 =
          (r :: (output_failure, 'c \<times> (string \<Rightarrow> nat option) \<times> completed_output list) result, io3)"
        by (metis surj_pair)
      have "evict_done ops ctx max_open io3 \<and> \<not> is_ok r"
        by (rule fail_all_done [OF f evict_invD(7) [OF inv1] peak])
      then show ?thesis using True p q Inl f by - (intro exI [of _ r] exI [of _ io3], cases r; simp add: evict_open_def Let_def)
    next
      case (Inr out)
      have "length (lru_entries lru c) < max_open" using len I(2) by simp
      then show ?thesis using go [OF inv1, of "outputs @ [out]"] sub absent True p q Inr
        by (fastforce simp: evict_open_def proceed_def Let_def)
    qed
  qed
qed

lemma nosort_evict_loop_inv:
  fixes lru :: "('c, 'a open_file) lru_ops"
  assumes laws: "lru_laws lru valid max_open" and cap: "0 < max_open"
    and "evict_inv ops lru valid ctx max_open io cache numbers runs"
  shows "\<exists>r io'. nosort_evict_loop env ops lru ctx max_open items cache numbers outputs io = Some (r, io') \<and>
    evict_done ops ctx max_open io' \<and>
    (is_ok r \<longrightarrow> (\<exists>new. items = map Inr new \<and> out_inv (same_key ops (field_order ctx)) ops ctx io' [] (runs @ new)))"
  using assms(3)
proof (induction items arbitrary: cache numbers outputs io runs)
  case Nil
  note I = evict_invD [OF Nil.prems]
  let ?files = "sort_key of_target (map snd (lru_entries lru cache))"
  obtain r io' where f: "finish_remaining env ops ctx ?files outputs io = (r, io')" by (metis surj_pair)
  have inv: "out_inv (same_key ops (field_order ctx)) ops ctx io ?files runs"
    by (rule out_inv_mset [OF I(3)]) simp
  obtain tail where "closing tail" "si_events io' = si_events io @ tail"
    using finish_remaining_closing [OF f out_inv_holds [OF inv]] by blast
  then show ?case using finish_remaining_inv [OF f inv] f evict_done_closing [OF _ _ _ I(6,5)] by auto
next
  case (Cons item items)
  note I = evict_invD [OF Cons.prems] and D = lru_lawsD [OF laws]
  have fail: "\<exists>r io'. Some (fail_all env (map snd (lru_entries lru c)) e outs io1) = Some (r, io') \<and>
      evict_done ops ctx max_open io' \<and> (is_ok (r :: (output_failure, completed_output list) result) \<longrightarrow> P r io')"
    if "evict_inv ops lru valid ctx max_open io1 c nums rs" for c e outs io1 nums rs P
  proof -
    obtain r io2 where f: "fail_all env (map snd (lru_entries lru c)) e outs io1 =
        (r :: (output_failure, completed_output list) result, io2)" by (metis surj_pair)
    show ?thesis using fail_all_done [OF f evict_invD(7,6,5) [OF that]] f by auto
  qed
  show ?case
  proof (cases item)
    case (Inl e)
    then show ?thesis using fail [OF Cons.prems] by simp
  next
    case (Inr run)
    let ?key = "partition_key ops (run_values run) (field_order ctx)"
    obtain q io1 where q: "(if lru_contains lru cache ?key then Some (Inr (cache, numbers, outputs), io)
        else evict_open env ops lru ctx max_open run ?key cache numbers outputs io) = Some (q, io1)"
      and qi: "case q of Inl failure \<Rightarrow> evict_done ops ctx max_open io1
       | Inr (cache', numbers', outputs') \<Rightarrow> evict_inv ops lru valid ctx max_open io1 cache' numbers' runs \<and>
           ?key \<in> fst ` set (lru_entries lru cache')"
    proof (cases "lru_contains lru cache ?key")
      case True
      then show ?thesis using that [of "Inr (cache, numbers, outputs)" io] Cons.prems D(4) [OF I(1)] by auto
    next
      case False
      obtain q io1 where "evict_open env ops lru ctx max_open run ?key cache numbers outputs io = Some (q, io1)"
        "case q of Inl failure \<Rightarrow> evict_done ops ctx max_open io1
         | Inr (cache', numbers', outputs') \<Rightarrow> evict_inv ops lru valid ctx max_open io1 cache' numbers' runs \<and>
             ?key \<in> fst ` set (lru_entries lru cache')"
        using evict_open_inv [OF laws cap Cons.prems False refl] by blast
      then show ?thesis using that False by simp
    qed
    show ?thesis
    proof (cases q)
      case Q: (Inl failure)
      then show ?thesis using q qi Inr by (simp add: Let_def)
    next
      case Q: (Inr t)
      obtain cache' numbers' outputs' where t: "t = (cache', numbers', outputs')" by (cases t)
      have inv: "evict_inv ops lru valid ctx max_open io1 cache' numbers' runs" and mem: "?key \<in> fst ` set (lru_entries lru cache')"
        using qi Q t by auto
      note J = evict_invD [OF inv]
      show ?thesis
      proof (cases "project_batch ops ctx (run_batch run)")
        case P: (Inl primary)
        then show ?thesis using q Inr Q t fail [OF inv] by (simp add: Let_def)
      next
        case P: (Inr batch)
        obtain f where f: "(?key, f) \<in> set (lru_entries lru cache')" using mem by force
        obtain c where g: "lru_get lru cache' ?key = (Some f, c)" "valid c"
          "mset (lru_entries lru c) = mset (lru_entries lru cache')"
          using D(7) [OF J(1) f] by blast
        have same: "set (lru_entries lru c) = set (lru_entries lru cache')" using g(3) by (rule mset_eq_setD)
        obtain w io2 where w: "write_file env f batch io1 = (w, io2)" by (cases "write_file env f batch io1")
        have out: "out_inv (same_key ops (field_order ctx)) ops ctx io1 (map snd (lru_entries lru c)) runs"
          by (rule out_inv_mset [OF J(3)]) (simp add: g(3))
        have fin: "f \<in> set (map snd (lru_entries lru c))" using f same by force
        have out2: "out_inv (same_key ops (field_order ctx)) ops ctx io2 (map snd (lru_entries lru c)) (runs @ [run]) \<and>
            si_events io2 = si_events io1 @ [Wrote (of_sink f) batch]"
          by (rule out_inv_write [OF w out fin P]) (simp add: same_key_def J(4) [OF f])
        have inv2: "evict_inv ops lru valid ctx max_open io2 c numbers' (runs @ [run])"
          using out2 J(2,4,5,6) g(2) same mset_eq_length [OF g(3)] by (auto simp: evict_inv_def counted_def)
        show ?thesis
        proof (cases w)
          case W: (Inl primary)
          then show ?thesis using q Inr Q t P g w fail [OF inv2] by (simp add: Let_def)
        next
          case W: (Inr u)
          obtain r io' where ih: "nosort_evict_loop env ops lru ctx max_open items c numbers' outputs' io2 = Some (r, io')"
            "evict_done ops ctx max_open io'"
            "is_ok r \<longrightarrow> (\<exists>new. items = map Inr new \<and> out_inv (same_key ops (field_order ctx)) ops ctx io' [] ((runs @ [run]) @ new))"
            using Cons.IH [OF inv2] by blast
          have "is_ok r \<longrightarrow> (\<exists>new. item # items = map Inr new \<and> out_inv (same_key ops (field_order ctx)) ops ctx io' [] (runs @ new))"
          proof
            assume "is_ok r"
            then obtain new where "items = map Inr new" "out_inv (same_key ops (field_order ctx)) ops ctx io' [] ((runs @ [run]) @ new)"
              using ih(3) by blast
            then show "\<exists>new. item # items = map Inr new \<and> out_inv (same_key ops (field_order ctx)) ops ctx io' [] (runs @ new)"
              using Inr by (intro exI [of _ "run # new"]) simp
          qed
          then show ?thesis using q Inr Q t P g w W ih(1,2) by (simp add: Let_def)
        qed
      qed
    qed
  qed
qed

section \<open>The writers\<close>

definition sink_io_new :: "'w \<Rightarrow> ('w, 'b, 'a) sink_io" where
  "sink_io_new w = \<lparr>si_world = w, si_next = 0, si_events = []\<rparr>"

lemma out_inv_start: "out_inv same ops ctx (sink_io_new w) [] []"
  by (simp add: out_inv_def sink_io_new_def holds_open_def tracks_def routed_def trace_nil)

lemma holds_open_start: "holds_open (sink_io_new w) []"
  by (simp add: sink_io_new_def holds_open_def tracks_def trace_nil)

text \<open>Every sink that was opened has been closed exactly once and not touched afterwards.\<close>

definition all_settled :: "('w, 'b, 'a) sink_io \<Rightarrow> bool" where
  "all_settled io \<longleftrightarrow> sink_trace (0, {}) (si_events io) (si_next io, {})"

lemma holds_open_nil: "holds_open io [] \<longleftrightarrow> all_settled io"
  by (simp add: holds_open_def tracks_def all_settled_def)

text \<open>
  The whole input was written: run by run, in order, each to a sink of its partition, and every
  sink was finished.
\<close>

definition all_routed where
  "all_routed same ops schema columns exclude inner io \<longleftrightarrow>
     (\<exists>ctx runs. partition_projection_new schema columns exclude = Inr ctx \<and>
        drain_runs ops (run_stream_new inner columns) = map Inr runs \<and>
        routed same ops ctx (si_events io) runs \<and> (\<forall>i. Aborted i \<notin> set (si_events io)))"

lemma projection_order:
  "partition_projection_new schema columns exclude = Inr ctx \<Longrightarrow> field_order ctx = columns"
  by (auto simp: partition_projection_new_def res_bind_Inr_conv split: option.splits)

text \<open>A world in which every sink operation succeeds.\<close>

definition tiny_output :: "(unit, string, nat option list, nat option list) output_env" where
  "tiny_output = \<lparr>oe_render = (\<lambda>vals number. Inr ''t''), oe_prepare = (\<lambda>l w. (Inr l, w)),
     oe_open = (\<lambda>t s i w. (Inr (), w)), oe_write = (\<lambda>i b w. (Inr (), w)),
     oe_write_stream = (\<lambda>i bs w. (Inr (), w)), oe_finish = (\<lambda>i w. (Inr (sink_completion_new ''t'' [] 0), w)),
     oe_abort = (\<lambda>i w. (Inr (), w))\<rparr>"

definition tiny_input :: "(output_error, nat option list) result list" where
  "tiny_input = [Inr [Some 7, None], Inr [Some 7]]"

lemma tiny_runs: "drain_runs tiny_arrow (run_stream_new tiny_input [''k'']) = map Inr
    [\<lparr>run_values = [(''k'', [Some 7])], run_batch = [Some 7]\<rparr>,
     \<lparr>run_values = [(''k'', [None])], run_batch = [None]\<rparr>,
     \<lparr>run_values = [(''k'', [Some 7])], run_batch = [Some 7]\<rparr>]"
  by (simp add: drain_new_runs tiny_arrow_def tiny_input_def run_of_range_def List.map_filter_simps)

definition tiny_schema :: schema where
  "tiny_schema = [(''k'', UInt64Type)]"

lemma tiny_projection: "partition_projection_new tiny_schema [''k''] [] =
    Inr \<lparr>field_order = [''k''], projected_indices = None, projected_schema = tiny_schema\<rparr>"
  by (simp add: partition_projection_new_def tiny_schema_def projection_indices_excluding_def)

lemma tiny_keys:
  "partition_key tiny_arrow [(''k'', [Some 7])] [''k''] = ''1:7''"
  "partition_key tiny_arrow [(''k'', [None])] [''k''] = ''!''"
  by code_simp+


lemmas output_eval = open_partition_def write_file_def finish_file_def project_batch_def tiny_output_def
  sink_io_new_def Let_def




text \<open>
  C5: The nosort-evict writer always returns; it never holds more sinks open than
  \<open>--max-open-partitions\<close>, settles every sink exactly once on every path, numbers the files of a
  partition key consecutively from 0 in the order they are opened, and on success has written every
  run, in order, to a sink of its partition key with no sink aborted.
\<close>

theorem nosort_evict_correct:
  assumes "lru_laws lru valid max_open" and "0 < max_open"
  shows "\<exists>r io'. write_nosort_evict env ops lru schema columns exclude max_open inner (sink_io_new w) = Some (r, io') \<and>
    all_settled io' \<and> open_peak (si_events io') \<le> max_open \<and> consecutive ops columns (si_events io') \<and>
    (r \<in> range Inr \<longrightarrow> all_routed (same_key ops columns) ops schema columns exclude inner io')"
proof (cases "partition_projection_new schema columns exclude")
  case (Inl e)
  then show ?thesis using holds_open_start [of w]
    by (auto simp: write_nosort_evict_def holds_open_nil sink_io_new_def open_peak_def consecutive_def intro: exI [of _ 0])
next
  case (Inr ctx)
  have "evict_inv ops lru valid ctx max_open (sink_io_new w) (lru_new lru max_open) Map.empty []"
    using lru_lawsD(1,2) [OF assms(1)]
    by (simp add: evict_inv_def out_inv_start counted_def) (simp add: sink_io_new_def open_peak_def)
  from nosort_evict_loop_inv [OF assms this, of env "drain_runs ops (run_stream_new inner columns)" "[]"]
  show ?thesis using Inr projection_order [OF Inr]
    by (fastforce simp: write_nosort_evict_def evict_done_def holds_open_nil all_routed_def out_inv_def)
qed

text \<open>A cache of one list, most recently used first.\<close>

definition list_lru :: "((string \<times> 'v) list, 'v) lru_ops" where
  "list_lru = \<lparr>lru_new = (\<lambda>n. []), lru_contains = (\<lambda>c k. map_of c k \<noteq> None), lru_len = length,
     lru_pop = (\<lambda>c. if c = [] then None else Some (last c, butlast c)), lru_put = (\<lambda>c k v. (k, v) # c),
     lru_get = (\<lambda>c k. case map_of c k of None \<Rightarrow> (None, c) | Some v \<Rightarrow> (Some v, (k, v) # remove1 (k, v) c)),
     lru_entries = (\<lambda>c. c)\<rparr>"

lemma list_lru_laws: "lru_laws list_lru (\<lambda>c. distinct (map fst c)) cap"
proof -
  have pop: "\<exists>k v c'. lru_pop list_lru c = Some ((k, v), c') \<and> distinct (map fst c') \<and> mset c = add_mset (k, v) (mset c')"
    if "distinct (map fst c)" "c \<noteq> []" for c :: "(string \<times> 'a) list"
  proof -
    have c: "c = butlast c @ [last c]" using that(2) by simp
    have "distinct (map fst (butlast c))" "mset c = add_mset (last c) (mset (butlast c))"
      using that(1) by (subst (asm) c, simp, subst c, simp)+
    then show ?thesis using that(2) by (cases "last c") (simp add: list_lru_def)
  qed
  have get: "\<exists>c'. lru_get list_lru c k = (Some v, c') \<and> distinct (map fst c') \<and> mset c' = mset c"
    if "distinct (map fst c)" "(k, v) \<in> set c" for c k and v :: 'a
  proof -
    have m: "mset ((k, v) # remove1 (k, v) c) = mset c" using that(2) by simp
    then have "distinct (map fst ((k, v) # remove1 (k, v) c))"
      using that(1) by (metis mset_eq_imp_distinct_iff mset_map)
    then show ?thesis using m map_of_is_SomeI [OF that] by (simp add: list_lru_def)
  qed
  show ?thesis
    unfolding lru_laws_def using pop get
    by (auto simp: list_lru_def map_of_eq_None_iff weak_map_of_SomeI split: option.splits)
qed

theorem nosort_evict_correct_witness:
  "\<exists>r io'. write_nosort_evict tiny_output tiny_arrow list_lru tiny_schema [''k''] [] 1 tiny_input (sink_io_new ()) = Some (r, io') \<and>
     r \<in> range Inr \<and> all_settled io' \<and> open_peak (si_events io') \<le> 1 \<and>
     numbers_used tiny_arrow [''k''] ''1:7'' (si_events io') = [Some 0, Some 1] \<and>
     all_routed (same_key tiny_arrow [''k'']) tiny_arrow tiny_schema [''k''] [] tiny_input io'"
proof -
  have one: "(0::nat) < 1" by simp
  obtain r io' where r: "write_nosort_evict tiny_output tiny_arrow list_lru tiny_schema [''k''] [] 1 tiny_input (sink_io_new ()) = Some (r, io')"
    "all_settled io'" "open_peak (si_events io') \<le> 1"
    "r \<in> range Inr \<longrightarrow> all_routed (same_key tiny_arrow [''k'']) tiny_arrow tiny_schema [''k''] [] tiny_input io'"
    using nosort_evict_correct [OF list_lru_laws one, of tiny_output tiny_arrow tiny_schema "[''k'']" "[]" tiny_input "()"] by blast
  have "r \<in> range Inr" "numbers_used tiny_arrow [''k''] ''1:7'' (si_events io') = [Some 0, Some 1]"
    using r(1) by (auto simp: write_nosort_evict_def tiny_projection tiny_runs tiny_keys evict_open_def list_lru_def
        numbers_used_def output_eval)
  then show ?thesis using r by blast
qed

end
