(* ===== verification/Location.thy ===== *)
theory Location
  imports Silk_Prelude
begin

text \<open>
  Storage locations (\<open>crates/silk-chiffon-storage/src/location.rs\<close>) and the errors of the
  storage crate (\<open>error.rs\<close>).

  Rust strings are lists of bytes and the \<open>url\<close> crate is a parameter: \<open>'u\<close> is a parsed URL. An
  error keeps the texts it names; URLs in errors are kept as their text, the errors of backend
  callbacks as theirs, and the errors of libraries inside an error are left out (a glob error keeps its position and message).
\<close>

section \<open>Errors\<close>

datatype storage_direction = DirectionInput | DirectionOutput

datatype storage_error =
    EmptyLocation
  | AmbiguousLocation string
  | UnsupportedBareLocation string
  | UnsupportedBarePattern string
  | UrlSchemeRequired string
  | UnsupportedScheme string
  | NonCanonicalStorageUrl string string
  | BareLocationSchemeMismatch string string
  | BarePatternSchemeMismatch string string
  | DirectionUnsupported string storage_direction
  | BareLocationMapping string string string
  | BarePatternMapping string string string
  | LocationValidation string string string
  | InvalidObjectPath string string
  | ObjectStoreCreation string string string
  | NonCanonicalFileUrl string
  | InvalidUrl string
  | FragmentNotSupported string
  | UserInfoNotSupported string
  | InvalidPercentEncoding string
  | InvalidLocationPattern string "nat \<times> string"
  | PatternOutsideUrlPath string
  | NonCanonicalUrlPath string
  | InvalidFilePath string
  | ObjectStoreFailed string
  | PatternMetadata string string
  | PatternListing string string
  | OutputTargetAlreadyExists string
  | OutputTargetAlreadyClaimed string
  | OutputTargetPreparation string string string

section \<open>The URL library\<close>

text \<open>
  The methods of \<open>Url\<close> the storage crate calls: \<open>url_text\<close> is \<open>as_str\<close>,
  \<open>url_before_path\<close> the text up to the path, \<open>url_set_segments\<close> clears the path segments and
  extends them.
\<close>

record 'u url_ops =
  url_parse :: "string \<Rightarrow> 'u option"
  url_text :: "'u \<Rightarrow> string"
  url_scheme :: "'u \<Rightarrow> string"
  url_path :: "'u \<Rightarrow> string"
  url_username :: "'u \<Rightarrow> string"
  url_has_password :: "'u \<Rightarrow> bool"
  url_to_file_path :: "'u \<Rightarrow> string option"
  url_from_file_path :: "string \<Rightarrow> 'u option"
  url_host :: "'u \<Rightarrow> string option"
  url_port :: "'u \<Rightarrow> nat option"
  url_query :: "'u \<Rightarrow> string option"
  url_fragment :: "'u \<Rightarrow> string option"
  url_before_path :: "'u \<Rightarrow> string"
  url_set_path :: "'u \<Rightarrow> string \<Rightarrow> 'u"
  url_set_query :: "'u \<Rightarrow> string option \<Rightarrow> 'u"
  url_set_fragment :: "'u \<Rightarrow> string option \<Rightarrow> 'u"
  url_set_segments :: "'u \<Rightarrow> string list \<Rightarrow> 'u"

datatype 'u location_input = UrlInput 'u | BareInput string

section \<open>Classification\<close>

fun has_valid_percent_encoding :: "string \<Rightarrow> bool" where
  "has_valid_percent_encoding [] = True"
| "has_valid_percent_encoding (c # cs) =
     (if c \<noteq> CHR ''%'' then has_valid_percent_encoding cs
      else (case cs of
              a # b # rest \<Rightarrow> is_ascii_hexdigit a \<and> is_ascii_hexdigit b \<and> has_valid_percent_encoding rest
            | _ \<Rightarrow> False))"

definition is_scheme_text :: "string \<Rightarrow> bool" where
  "is_scheme_text scheme =
     (case scheme of
        [] \<Rightarrow> False
      | c # cs \<Rightarrow> is_ascii_alphabetic c \<and>
          list_all (\<lambda>c. is_ascii_alphanumeric c \<or> c \<in> {CHR ''+'', CHR ''-'', CHR ''.''}) cs)"

definition scheme_like_prefix :: "string \<Rightarrow> (storage_error, string option) result" where
  "scheme_like_prefix input =
     (case find_index (\<lambda>c. c = CHR '':'') input of
        None \<Rightarrow> Inr None
      | Some colon \<Rightarrow>
          if (case find_index (\<lambda>c. c = CHR ''/'' \<or> c = CHR 0x5C) input of
                Some separator \<Rightarrow> colon > separator | None \<Rightarrow> False)
          then Inr None
          else if \<not> is_scheme_text (take colon input) then Inl (AmbiguousLocation input)
          else Inr (Some (take colon input)))"

definition eq_ignore_ascii_case :: "string \<Rightarrow> string \<Rightarrow> bool" where
  "eq_ignore_ascii_case a b = (map to_ascii_lower a = map to_ascii_lower b)"

section \<open>Parsing URLs\<close>

definition validate_canonical_url_path ::
  "'u url_ops \<Rightarrow> string \<Rightarrow> string \<Rightarrow> 'u \<Rightarrow> (storage_error, unit) result" where
  "validate_canonical_url_path ops input raw_path url =
     (if (case strip_prefix ''/'' (url_path ops url) of Some p \<Rightarrow> p | None \<Rightarrow> url_path ops url) \<noteq> raw_path
      then Inl (NonCanonicalUrlPath input) else Inr ())"

definition before_query :: "string \<Rightarrow> string" where
  "before_query s = (case split_once_on CHR ''?'' s of Some (before, _) \<Rightarrow> before | None \<Rightarrow> s)"

definition parse_storage_url :: "'u url_ops \<Rightarrow> string \<Rightarrow> string \<Rightarrow> (storage_error, 'u) result" where
  "parse_storage_url ops input scheme =
     (let normalized_scheme = map to_ascii_lower scheme in
      if scheme \<noteq> normalized_scheme \<or> \<not> starts_with input (scheme @ ''://'')
      then Inl (NonCanonicalStorageUrl normalized_scheme input)
      else if \<not> has_valid_percent_encoding input then Inl (InvalidPercentEncoding input)
      else if CHR ''#'' \<in> set input then Inl (FragmentNotSupported input)
      else
        let authority_and_path = before_query (drop (length scheme + 3) input);
            authority = (case split_once_on CHR ''/'' authority_and_path of
                           Some (authority, _) \<Rightarrow> authority | None \<Rightarrow> authority_and_path) in
        if CHR ''@'' \<in> set authority then Inl (UserInfoNotSupported input)
        else
          let raw_path = (case split_once_on CHR ''/'' authority_and_path of
                            Some (_, raw_path) \<Rightarrow> raw_path | None \<Rightarrow> []) in
          (case url_parse ops input of
             None \<Rightarrow> Inl (InvalidUrl input)
           | Some url \<Rightarrow>
               if url_username ops url \<noteq> [] \<or> url_has_password ops url
               then Inl (UserInfoNotSupported input)
               else res_bind (validate_canonical_url_path ops input raw_path url) (\<lambda>_.
                 if url_text ops url \<noteq> input
                 then Inl (NonCanonicalStorageUrl normalized_scheme input)
                 else Inr url)))"

definition parse_file_url :: "'u url_ops \<Rightarrow> string \<Rightarrow> string \<Rightarrow> (storage_error, 'u) result" where
  "parse_file_url ops input raw_path =
     (if \<not> has_valid_percent_encoding input then Inl (InvalidPercentEncoding input)
      else if CHR ''#'' \<in> set raw_path then Inl (FragmentNotSupported input)
      else
        (case url_parse ops input of
           None \<Rightarrow> Inl (InvalidUrl input)
         | Some url \<Rightarrow>
             res_bind (validate_canonical_url_path ops input (before_query raw_path) url) (\<lambda>_.
               if url_text ops url \<noteq> input then Inl (NonCanonicalFileUrl input)
               else if url_to_file_path ops url = None then Inl (InvalidFilePath input)
               else Inr url)))"

definition location_parse_url :: "'u url_ops \<Rightarrow> string \<Rightarrow> (storage_error, 'u) result" where
  "location_parse_url ops input =
     (if input = [] then Inl EmptyLocation
      else (case strip_prefix ''file:///'' input of
              Some raw_path \<Rightarrow>
                if starts_with raw_path ''/'' then Inl (NonCanonicalFileUrl input)
                else parse_file_url ops input raw_path
            | None \<Rightarrow>
                res_bind (scheme_like_prefix input) (\<lambda>s.
                  case s of
                    Some scheme \<Rightarrow>
                      if eq_ignore_ascii_case scheme ''file'' then Inl (NonCanonicalFileUrl input)
                      else parse_storage_url ops input scheme
                  | None \<Rightarrow> Inl (UrlSchemeRequired input))))"

definition location_from_file_path :: "'u url_ops \<Rightarrow> string \<Rightarrow> (storage_error, 'u) result" where
  "location_from_file_path ops path = ok_or (InvalidFilePath path) (url_from_file_path ops path)"

definition location_input_parse :: "'u url_ops \<Rightarrow> string \<Rightarrow> (storage_error, 'u location_input) result" where
  "location_input_parse ops input =
     (if input = [] then Inl EmptyLocation
      else res_bind (scheme_like_prefix input) (\<lambda>s.
        case s of
          Some _ \<Rightarrow> res_bind (location_parse_url ops input) (\<lambda>url. Inr (UrlInput url))
        | None \<Rightarrow> Inr (BareInput input)))"

section \<open>Lemmas\<close>

lemma percent_valid_nth:
  "has_valid_percent_encoding s \<longleftrightarrow>
     (\<forall>i < length s. s ! i = CHR ''%'' \<longrightarrow>
        i + 2 < length s \<and> is_ascii_hexdigit (s ! (i + 1)) \<and> is_ascii_hexdigit (s ! (i + 2)))"
proof (induction s rule: has_valid_percent_encoding.induct)
  case (2 c cs)
  have pct: "\<not> is_ascii_hexdigit CHR ''%''" by (simp add: ascii_defs)
  show ?case
  proof (cases "c = CHR ''%''")
    case False
    then have "has_valid_percent_encoding (c # cs) \<longleftrightarrow> has_valid_percent_encoding cs" by simp
    also have "\<dots> \<longleftrightarrow> (\<forall>i < length (c # cs). (c # cs) ! i = CHR ''%'' \<longrightarrow> i + 2 < length (c # cs) \<and>
        is_ascii_hexdigit ((c # cs) ! (i + 1)) \<and> is_ascii_hexdigit ((c # cs) ! (i + 2)))"
      using "2.IH"(1) [OF False] False by (auto simp: All_less_Suc2)
    finally show ?thesis .
  next
    case True
    show ?thesis
    proof (cases "\<exists>a b rest. cs = a # b # rest")
      case False
      then have "\<not> has_valid_percent_encoding (c # cs)" "length cs < 2"
        using True by (cases cs; cases "tl cs"; auto)+
      then show ?thesis using True by auto
    next
      case three: True
      then obtain a b rest where cs: "cs = a # b # rest" by blast
      show ?thesis
        using "2.IH"(2) [of a _ b rest] True cs pct by (auto simp: All_less_Suc2)
    qed
  qed
qed simp

lemma parse_storage_url_Inr:
  assumes "parse_storage_url ops input scheme = Inr url"
  shows "url_text ops url = input" "CHR ''#'' \<notin> set input" "has_valid_percent_encoding input"
    "map to_ascii_lower scheme = scheme" "starts_with input (scheme @ ''://'')"
    "url_username ops url = []" "\<not> url_has_password ops url"
  using assms by (auto simp: parse_storage_url_def Let_def res_bind_Inr_conv split: if_splits option.splits)

lemma parse_file_url_Inr:
  assumes "parse_file_url ops input raw = Inr url"
  shows "url_text ops url = input" "CHR ''#'' \<notin> set raw" "has_valid_percent_encoding input" "url_to_file_path ops url \<noteq> None"
  using assms by (auto simp: parse_file_url_def res_bind_Inr_conv split: if_splits option.splits)

lemma routed_Inr:
  assumes "res_bind r (\<lambda>s. case s of Some x \<Rightarrow> if P x then Inl e else f x | None \<Rightarrow> Inl e') = Inr url"
  shows "\<exists>x. f x = Inr url"
  using assms by (cases r) (auto split: option.splits if_splits)

lemma location_parse_url_route:
  assumes "location_parse_url ops input = Inr url"
  shows "input \<noteq> [] \<and>
    ((\<exists>raw. input = ''file:///'' @ raw \<and> parse_file_url ops input raw = Inr url) \<or>
     (\<exists>scheme. parse_storage_url ops input scheme = Inr url))"
proof -
  have "location_parse_url ops [] = Inl EmptyLocation" by (simp add: location_parse_url_def)
  with assms have ne: "input \<noteq> []" by auto
  note u = assms [unfolded location_parse_url_def if_not_P [OF ne]]
  show ?thesis
  proof (cases "strip_prefix ''file:///'' input")
    case (Some raw)
    have "parse_file_url ops input raw = Inr url"
      using u unfolding Some option.case by (cases "starts_with raw ''/''") (simp_all only: if_True if_False sum.distinct)
    moreover have "input = ''file:///'' @ raw" using Some unfolding strip_prefix_Some .
    ultimately show ?thesis using ne by blast
  next
    case None
    have "\<exists>scheme. parse_storage_url ops input scheme = Inr url"
      using u unfolding None option.case by (rule routed_Inr)
    then show ?thesis using ne by blast
  qed
qed

lemma location_parse_url_Inr:
  assumes "location_parse_url ops input = Inr url"
  shows "input \<noteq> [] \<and> url_text ops url = input \<and> CHR ''#'' \<notin> set input \<and> has_valid_percent_encoding input"
  using location_parse_url_route [OF assms]
proof (elim conjE disjE exE)
  fix raw assume "input = ''file:///'' @ raw" "parse_file_url ops input raw = Inr url" "input \<noteq> []"
  then show ?thesis using parse_file_url_Inr [of ops input raw url] by auto
next
  fix scheme assume ne: "input \<noteq> []" and p: "parse_storage_url ops input scheme = Inr url"
  show ?thesis by (intro conjI ne parse_storage_url_Inr [OF p])
qed

lemma scheme_text_char:
  assumes "is_scheme_text scheme" "c \<in> set scheme"
  shows "is_ascii_alphanumeric c \<or> c \<in> {CHR ''+'', CHR ''-'', CHR ''.''}"
  using assms by (cases scheme) (auto simp: is_scheme_text_def is_ascii_alphanumeric_def list_all_iff)

lemma scheme_like_prefix_Some:
  assumes "scheme_like_prefix input = Inr (Some scheme)"
  shows "is_scheme_text scheme \<and> (\<exists>rest. input = scheme @ CHR '':'' # rest) \<and> CHR '':'' \<notin> set scheme
    \<and> CHR ''/'' \<notin> set scheme \<and> CHR 0x5C \<notin> set scheme"
proof -
  obtain colon where c: "find_index (\<lambda>c. c = CHR '':'') input = Some colon"
    and s: "scheme = take colon input" and t: "is_scheme_text (take colon input)"
    using assms by (auto simp: scheme_like_prefix_def split: option.splits if_splits)
  have l: "colon < length input" "input ! colon = CHR '':''" "\<forall>j < colon. input ! j \<noteq> CHR '':''"
    using find_index_Some [OF c] by auto
  have "input = scheme @ CHR '':'' # drop (Suc colon) input"
    using l s id_take_nth_drop [of colon input] by simp
  moreover have "CHR '':'' \<notin> set scheme"
    using l s by (auto simp: in_set_conv_nth)
  moreover have "CHR ''/'' \<notin> set scheme \<and> CHR 0x5C \<notin> set scheme"
  proof -
    have "\<not> is_ascii_alphanumeric CHR ''/''" "\<not> is_ascii_alphanumeric CHR 0x5C" by (simp_all add: ascii_defs)
    then show ?thesis
      using scheme_text_char [OF t [folded s], of "CHR ''/''"] scheme_text_char [OF t [folded s], of "CHR 0x5C"] by auto
  qed
  ultimately show ?thesis using t s by blast
qed

lemma location_input_parse_Url:
  assumes "location_input_parse ops input = Inr (UrlInput url)"
  shows "location_parse_url ops input = Inr url"
  using assms
  by (auto simp: location_input_parse_def res_bind_Inr_conv split: if_splits option.splits)

lemma location_input_parse_Bare:
  assumes "location_input_parse ops input = Inr (BareInput bare)"
  shows "bare = input \<and> input \<noteq> [] \<and> scheme_like_prefix input = Inr None"
  using assms
  by (auto simp: location_input_parse_def res_bind_Inr_conv split: if_splits option.splits)

lemma location_input_parse_empty: "location_input_parse ops [] = Inl EmptyLocation"
  by (simp add: location_input_parse_def)

section \<open>Properties\<close>

text \<open>
  Classification loses nothing. Input classified as bare is non-empty, has no scheme and is kept
  byte for byte; input classified as a URL is spelt exactly as its canonical form (so two accepted
  spellings of one URL are equal), has no fragment, every percent sign in it starts an escape of two
  hexadecimal digits, and the storage schemes are spelt in lower case and followed by \<open>://\<close>.
\<close>

theorem location_input_canonical:
  assumes "location_input_parse ops input = Inr parsed"
  shows "(case parsed of
            BareInput bare \<Rightarrow> bare = input \<and> input \<noteq> [] \<and> scheme_like_prefix input = Inr None
          | UrlInput url \<Rightarrow> url_text ops url = input \<and> CHR ''#'' \<notin> set input \<and>
              (\<forall>i < length input. input ! i = CHR ''%'' \<longrightarrow>
                 i + 2 < length input \<and> is_ascii_hexdigit (input ! (i + 1)) \<and> is_ascii_hexdigit (input ! (i + 2))) \<and>
              (\<exists>scheme rest. input = scheme @ ''://'' @ rest \<and> map to_ascii_lower scheme = scheme))"
proof (cases parsed)
  case (BareInput bare)
  then show ?thesis using location_input_parse_Bare [of ops input bare] assms by simp
next
  case (UrlInput url)
  then have u: "location_parse_url ops input = Inr url"
    using location_input_parse_Url [of ops input url] assms by simp
  have "\<exists>scheme rest. input = scheme @ ''://'' @ rest \<and> map to_ascii_lower scheme = scheme"
    using location_parse_url_route [OF u]
  proof (elim conjE disjE exE)
    fix raw assume "input = ''file:///'' @ raw"
    then show ?thesis
      by (intro exI [of _ "''file''"] exI [of _ "CHR ''/'' # raw"]) (simp add: to_ascii_lower_def ascii_defs)
  next
    fix scheme assume p: "parse_storage_url ops input scheme = Inr url"
    show ?thesis
      using parse_storage_url_Inr(4,5) [OF p] unfolding starts_with_conv append_assoc by blast
  qed
  then show ?thesis
    using location_parse_url_Inr [OF u] percent_valid_nth [of input] UrlInput by simp
qed

text \<open>A URL library that accepts every text and keeps its scheme and path, to evaluate the model on.\<close>

definition plain_url_scheme :: "string \<Rightarrow> string" where
  "plain_url_scheme s = (case split_once_on CHR '':'' s of Some (a, _) \<Rightarrow> a | None \<Rightarrow> [])"

definition plain_url_path :: "string \<Rightarrow> string" where
  "plain_url_path s = (case split_once_on CHR ''/'' (drop (length (plain_url_scheme s) + 3) (before_query s)) of
     Some (_, p) \<Rightarrow> CHR ''/'' # p | None \<Rightarrow> [])"

definition plain_url_root :: "string \<Rightarrow> string" where
  "plain_url_root s = take (length (before_query s) - length (plain_url_path s)) s"

definition plain_url_query :: "string \<Rightarrow> string option" where
  "plain_url_query s = (case split_once_on CHR ''?'' s of Some (_, q) \<Rightarrow> Some q | None \<Rightarrow> None)"

definition plain_with_query :: "string \<Rightarrow> string option \<Rightarrow> string" where
  "plain_with_query s q = s @ (case q of Some q \<Rightarrow> CHR ''?'' # q | None \<Rightarrow> [])"

definition plain_urls :: "string url_ops" where
  "plain_urls = \<lparr>url_parse = Some, url_text = id, url_scheme = plain_url_scheme, url_path = plain_url_path,
     url_username = (\<lambda>_. []), url_has_password = (\<lambda>_. False),
     url_to_file_path = (\<lambda>s. strip_prefix ''file://'' (before_query s)),
     url_from_file_path = (\<lambda>p. Some (''file://'' @ p)),
     url_host = (\<lambda>s. Some (drop (length (plain_url_scheme s) + 3) (plain_url_root s))),
     url_port = (\<lambda>_. None), url_query = plain_url_query, url_fragment = (\<lambda>_. None),
     url_before_path = plain_url_root,
     url_set_path = (\<lambda>s p. plain_with_query (plain_url_root s @ p) (plain_url_query s)),
     url_set_query = (\<lambda>s. plain_with_query (before_query s)),
     url_set_fragment = (\<lambda>s _. s),
     url_set_segments = (\<lambda>s ps.
       plain_with_query (plain_url_root s @ concat (map (\<lambda>p. CHR ''/'' # p) ps)) (plain_url_query s))\<rparr>"

lemmas plain_url_eval = plain_urls_def plain_url_scheme_def plain_url_path_def plain_url_root_def
  plain_url_query_def plain_with_query_def before_query_def
  location_input_parse_def location_parse_url_def scheme_like_prefix_def is_scheme_text_def
  parse_storage_url_def parse_file_url_def validate_canonical_url_path_def eq_ignore_ascii_case_def
  strip_prefix_def starts_with_def to_ascii_lower_def ascii_defs

lemma plain_url_parsed: "location_input_parse plain_urls ''s3://b/a%20c'' = Inr (UrlInput ''s3://b/a%20c'')"
  by code_simp

theorem location_input_canonical_witness:
  "(case UrlInput ''s3://b/a%20c'' of
      BareInput bare \<Rightarrow> bare = ''s3://b/a%20c'' \<and> ''s3://b/a%20c'' \<noteq> [] \<and> scheme_like_prefix ''s3://b/a%20c'' = Inr None
    | UrlInput url \<Rightarrow> url_text plain_urls url = ''s3://b/a%20c'' \<and> CHR ''#'' \<notin> set ''s3://b/a%20c'' \<and>
        (\<forall>i < length ''s3://b/a%20c''. ''s3://b/a%20c'' ! i = CHR ''%'' \<longrightarrow>
           i + 2 < length ''s3://b/a%20c'' \<and> is_ascii_hexdigit (''s3://b/a%20c'' ! (i + 1)) \<and>
           is_ascii_hexdigit (''s3://b/a%20c'' ! (i + 2))) \<and>
        (\<exists>scheme rest. ''s3://b/a%20c'' = scheme @ ''://'' @ rest \<and> map to_ascii_lower scheme = scheme))"
  by (rule location_input_canonical [OF plain_url_parsed])

end
