(* ===== verification/Location_Pattern.thy ===== *)
theory Location_Pattern
  imports Location
begin

text \<open>
  Location patterns (\<open>crates/silk-chiffon-storage/src/pattern.rs\<close>) and the mapping of bare
  patterns to the working directory (\<open>local.rs\<close>). The \<open>glob\<close> crate and the object paths of
  \<open>object_store\<close> are parameters: \<open>'g\<close> is a compiled glob, an object path its text. The parts of
  \<open>std::path\<close> and of UTF-8 decoding the code uses are defined here.
\<close>

section \<open>Libraries\<close>

text \<open>
  \<open>glob_matches\<close> is \<open>matches_with\<close> under the one set of options the session uses: case-sensitive, with
  literal separators, leading dots not special.
\<close>

record 'g glob_ops =
  glob_new :: "string \<Rightarrow> (nat \<times> string, 'g) result"
  glob_escape :: "string \<Rightarrow> string"
  glob_matches :: "'g \<Rightarrow> string \<Rightarrow> bool"

record path_ops =
  op_from_url_path :: "string \<Rightarrow> string option"
  op_parse :: "string \<Rightarrow> string option"
  op_parts :: "string \<Rightarrow> string list"

subsection \<open>UTF-8\<close>

text \<open>\<open>std::str::from_utf8\<close> accepts the well-formed sequences of the Unicode standard.\<close>

definition continuation_byte :: "char \<Rightarrow> bool" where
  "continuation_byte c \<longleftrightarrow> 0x80 \<le> byte_nat c \<and> byte_nat c \<le> 0xBF"

definition byte_between :: "nat \<Rightarrow> nat \<Rightarrow> char \<Rightarrow> bool" where
  "byte_between lo hi c \<longleftrightarrow> lo \<le> byte_nat c \<and> byte_nat c \<le> hi"

definition three_byte_lead :: "char \<Rightarrow> char \<Rightarrow> bool" where
  "three_byte_lead a b \<longleftrightarrow>
     (byte_nat a = 0xE0 \<and> byte_between 0xA0 0xBF b) \<or>
     ((byte_between 0xE1 0xEC a \<or> byte_between 0xEE 0xEF a) \<and> continuation_byte b) \<or>
     (byte_nat a = 0xED \<and> byte_between 0x80 0x9F b)"

definition four_byte_lead :: "char \<Rightarrow> char \<Rightarrow> bool" where
  "four_byte_lead a b \<longleftrightarrow>
     (byte_nat a = 0xF0 \<and> byte_between 0x90 0xBF b) \<or>
     (byte_between 0xF1 0xF3 a \<and> continuation_byte b) \<or>
     (byte_nat a = 0xF4 \<and> byte_between 0x80 0x8F b)"

fun utf8_valid :: "string \<Rightarrow> bool" where
  "utf8_valid [] = True"
| "utf8_valid (a # rest) =
     (if is_ascii a then utf8_valid rest
      else (case rest of
              [] \<Rightarrow> False
            | b # rest1 \<Rightarrow>
                if byte_between 0xC2 0xDF a then continuation_byte b \<and> utf8_valid rest1
                else (case rest1 of
                        [] \<Rightarrow> False
                      | c # rest2 \<Rightarrow>
                          if three_byte_lead a b then continuation_byte c \<and> utf8_valid rest2
                          else (case rest2 of
                                  [] \<Rightarrow> False
                                | d # rest3 \<Rightarrow>
                                    four_byte_lead a b \<and> continuation_byte c \<and> continuation_byte d \<and>
                                    utf8_valid rest3))))"

text \<open>The character a byte becomes under \<open>char::from\<close>, pushed on a string as UTF-8.\<close>

definition push_latin1 :: "char \<Rightarrow> string" where
  "push_latin1 c =
     (if is_ascii c then [c]
      else [char_of (0xC0 + byte_nat c div 64), char_of (0x80 + byte_nat c mod 64)])"

subsection \<open>Paths\<close>

datatype path_component = RootDir | CurDir | ParentDir | NormalSegment string

definition path_components :: "string \<Rightarrow> path_component list" where
  "path_components p =
     (if starts_with p ''/'' then [RootDir] else if hd (split_on CHR ''/'' p) = ''.'' then [CurDir] else []) @
     map (\<lambda>s. if s = ''..'' then ParentDir else NormalSegment s)
       (filter (\<lambda>s. s \<noteq> [] \<and> s \<noteq> ''.'') (split_on CHR ''/'' p))"

definition path_push :: "string \<Rightarrow> string \<Rightarrow> string" where
  "path_push buf p =
     (if starts_with p ''/'' then p
      else if buf \<noteq> [] \<and> last buf \<noteq> CHR ''/'' then buf @ ''/'' @ p
      else buf @ p)"

definition trim_segments :: "string list \<Rightarrow> string list" where
  "trim_segments segs =
     (let junk = (\<lambda>s. s = [] \<or> s = ''.'') in
      rev (dropWhile junk (rev (dropWhile junk segs))))"

section \<open>Patterns\<close>

datatype ('u, 'g) pattern_input =
    ExactPattern "'u location_input"
  | BarePattern string
  | UrlPattern string 'u 'g string

definition has_active_glob :: "string \<Rightarrow> bool" where
  "has_active_glob input = list_ex (\<lambda>c. c \<in> {CHR ''*'', CHR ''?'', CHR ''[''}) input"

definition glob_before_url_separator :: "string \<Rightarrow> bool" where
  "glob_before_url_separator input =
     (case find_sub ''://'' input of
        Some separator \<Rightarrow> has_active_glob (take separator input)
      | None \<Rightarrow> False)"

definition validate_recursive_globs :: "string \<Rightarrow> string \<Rightarrow> (storage_error, unit) result" where
  "validate_recursive_globs path input =
     (if list_ex (\<lambda>segment. find_sub ''**'' segment \<noteq> None \<and> segment \<noteq> ''**'') (split_on CHR ''/'' path)
      then Inl (InvalidLocationPattern input
             ((case find_sub ''**'' path of Some pos \<Rightarrow> pos | None \<Rightarrow> 0),
              ''recursive ** must occupy a complete path segment''))
      else Inr ())"

definition encode_glob_byte :: "char \<Rightarrow> string" where
  "encode_glob_byte c =
     (if c = CHR ''*'' then ''%2A'' else if c = CHR ''?'' then ''%3F'' else if c = CHR ''['' then ''%5B''
      else if c = CHR '']'' then ''%5D'' else push_latin1 c)"

definition canonical_pattern_url :: "string \<Rightarrow> nat \<Rightarrow> string option \<Rightarrow> string" where
  "canonical_pattern_url before path_start query =
     take path_start before @ concat (map encode_glob_byte (drop path_start before)) @
     (case query of Some q \<Rightarrow> CHR ''?'' # q | None \<Rightarrow> [])"

definition hex_value :: "char \<Rightarrow> nat" where
  "hex_value c =
     (if is_ascii_digit c then byte_nat c - 48
      else if 97 \<le> byte_nat c then byte_nat c - 97 + 10
      else byte_nat c - 65 + 10)"

text \<open>The inner loop of \<open>decoded_matcher\<close>: a maximal run of escapes, decoded.\<close>

fun take_escapes :: "string \<Rightarrow> string \<times> string" where
  "take_escapes (p # a # b # rest) =
     (if p = CHR ''%'' \<and> is_ascii_hexdigit a \<and> is_ascii_hexdigit b
      then (let (ds, rest) = take_escapes rest in (char_of (hex_value a * 16 + hex_value b) # ds, rest))
      else ([], p # a # b # rest))"
| "take_escapes rest = ([], rest)"

lemma take_escapes_length: "take_escapes s = (ds, rest) \<Longrightarrow> length s = 3 * length ds + length rest"
  by (induction s arbitrary: ds rule: take_escapes.induct) (auto split: if_splits prod.splits)

function decoded_matcher :: "'g glob_ops \<Rightarrow> string \<Rightarrow> string \<Rightarrow> (storage_error, string) result" where
  "decoded_matcher g [] input = Inr []"
| "decoded_matcher g (c # cs) input =
     (if c = CHR ''%'' then
        (case take_escapes (c # cs) of (decoded, rest) \<Rightarrow>
           if decoded = [] then Inl (InvalidPercentEncoding input)
           else if \<not> utf8_valid decoded then Inl (InvalidPercentEncoding input)
           else res_bind (decoded_matcher g rest input) (\<lambda>m. Inr (glob_escape g decoded @ m)))
      else res_bind (decoded_matcher g cs input) (\<lambda>m. Inr (push_latin1 c @ m)))"
  by pat_completeness auto
termination
proof (relation "measure (\<lambda>(g, s, input). length s)", goal_cases)
  case (2 g c cs input decoded rest)
  then show ?case using take_escapes_length [of "c # cs" decoded rest] by (cases decoded) auto
qed auto

fun unescape_matcher_literals :: "string \<Rightarrow> string" where
  "unescape_matcher_literals (a # b # c # rest) =
     (if a = CHR ''['' \<and> c = CHR '']'' \<and> b \<in> {CHR ''*'', CHR ''?'', CHR ''['', CHR '']''}
      then b # unescape_matcher_literals rest
      else a # unescape_matcher_literals (b # c # rest))"
| "unescape_matcher_literals rest = rest"

definition decoded_literal_prefix :: "'g glob_ops \<Rightarrow> string \<Rightarrow> string \<Rightarrow> (storage_error, string) result" where
  "decoded_literal_prefix g raw_path input =
     res_bind (decoded_matcher g
         (join_with ''/'' (takeWhile (\<lambda>segment. \<not> has_active_glob segment) (split_on CHR ''/'' raw_path))) input)
       (\<lambda>m. Inr (unescape_matcher_literals m))"

text \<open>The first half of \<open>parse_url\<close>: the text before the query, the query, the start of the path.\<close>

definition pattern_url_parts ::
  "'u url_ops \<Rightarrow> string \<Rightarrow> (storage_error, string \<times> string option \<times> nat) result" where
  "pattern_url_parts ops input =
     res_bind (scheme_like_prefix input) (\<lambda>s.
     res_bind (ok_or (UrlSchemeRequired input) s) (\<lambda>scheme.
     res_bind (ok_or (NonCanonicalStorageUrl (map to_ascii_lower scheme) input)
         (strip_prefix (scheme @ ''://'') input)) (\<lambda>after_scheme.
       let path_start = find_index (\<lambda>c. c = CHR ''/'') after_scheme;
           authority = (case path_start of Some index \<Rightarrow> take index after_scheme | None \<Rightarrow> after_scheme) in
       if list_ex (\<lambda>c. c \<in> {CHR ''*'', CHR ''?''}) authority
         \<or> ((CHR ''['' \<in> set authority \<or> CHR '']'' \<in> set authority)
             \<and> url_parse ops (scheme @ ''://'' @ authority @ ''/'') = None)
       then Inl (PatternOutsideUrlPath input)
       else
         let (before, query) = (case find_sub ''??'' input of
                Some i \<Rightarrow> (take i input, Some (drop (i + 2) input))
              | None \<Rightarrow> (input, None)) in
         Inr (before, query,
           length scheme + 3 + (case path_start of Some i \<Rightarrow> i | None \<Rightarrow> length after_scheme)))))"

definition pattern_raw_path :: "string \<Rightarrow> nat \<Rightarrow> string" where
  "pattern_raw_path before path_start =
     (case strip_prefix ''/'' (drop path_start before) of Some p \<Rightarrow> p | None \<Rightarrow> [])"

definition location_pattern_parse_url ::
  "'u url_ops \<Rightarrow> 'g glob_ops \<Rightarrow> string \<Rightarrow> (storage_error, ('u, 'g) pattern_input) result" where
  "location_pattern_parse_url ops g input =
     (if input = [] then Inl EmptyLocation
      else if glob_before_url_separator input then Inl (PatternOutsideUrlPath input)
      else res_bind (pattern_url_parts ops input) (\<lambda>(before, query, path_start).
        let raw_path = pattern_raw_path before path_start in
        if CHR ''#'' \<in> set raw_path \<or> (case query of Some q \<Rightarrow> CHR ''#'' \<in> set q | None \<Rightarrow> False)
        then Inl (FragmentNotSupported input)
        else res_bind (validate_recursive_globs raw_path input) (\<lambda>_.
             res_bind (location_parse_url ops (canonical_pattern_url before path_start query)) (\<lambda>location.
               if \<not> has_active_glob raw_path then Inr (ExactPattern (UrlInput location))
               else
                 res_bind (decoded_matcher g raw_path input) (\<lambda>matcher_source.
                 res_bind (decoded_literal_prefix g raw_path input) (\<lambda>literal_prefix.
                   (case glob_new g matcher_source of
                      Inl e \<Rightarrow> Inl (InvalidLocationPattern input e)
                    | Inr matcher \<Rightarrow> Inr (UrlPattern input location matcher literal_prefix))))))))"

definition location_pattern_parse ::
  "'u url_ops \<Rightarrow> 'g glob_ops \<Rightarrow> string \<Rightarrow> (storage_error, ('u, 'g) pattern_input) result" where
  "location_pattern_parse ops g input =
     (if input = [] then Inl EmptyLocation
      else if glob_before_url_separator input then Inl (PatternOutsideUrlPath input)
      else res_bind (scheme_like_prefix input) (\<lambda>s.
        case s of
          Some _ \<Rightarrow> location_pattern_parse_url ops g input
        | None \<Rightarrow>
            if has_active_glob input then
              res_bind (validate_recursive_globs input input) (\<lambda>_.
                (case glob_new g input of
                   Inl e \<Rightarrow> Inl (InvalidLocationPattern input e)
                 | Inr _ \<Rightarrow> Inr (BarePattern input)))
            else res_bind (location_input_parse ops input) (\<lambda>l. Inr (ExactPattern l))))"

section \<open>Bare patterns of the local backend\<close>

text \<open>
  A \<open>PathBuf\<close> that holds the root and normal segments is kept as its list of segments.
\<close>

definition normalize_step :: "string list \<Rightarrow> path_component \<Rightarrow> string list" where
  "normalize_step segs component =
     (case component of
        RootDir \<Rightarrow> []
      | CurDir \<Rightarrow> segs
      | ParentDir \<Rightarrow> butlast segs
      | NormalSegment s \<Rightarrow> segs @ [s])"

definition lexically_normalize_absolute_path :: "string \<Rightarrow> string" where
  "lexically_normalize_absolute_path path =
     ''/'' @ join_with ''/'' (foldl normalize_step [] (path_components path))"

definition from_file_path_pattern ::
  "'u url_ops \<Rightarrow> 'g glob_ops \<Rightarrow> path_ops \<Rightarrow> string \<Rightarrow> string \<Rightarrow> string \<Rightarrow>
   (storage_error, ('u, 'g) pattern_input) result" where
  "from_file_path_pattern ops g paths literal_base pattern source =
     (if \<not> utf8_valid pattern then Inl (InvalidFilePath pattern)
      else res_bind (validate_recursive_globs pattern source) (\<lambda>_.
        let segments = split_on CHR ''/'' pattern;
            literal_path = lexically_normalize_absolute_path
              (foldl path_push literal_base (takeWhile (\<lambda>s. \<not> has_active_glob s) segments));
            active_pattern = join_with ''/'' (dropWhile (\<lambda>s. \<not> has_active_glob s) segments);
            absolute_pattern = path_push literal_path active_pattern in
        res_bind (ok_or (InvalidFilePath absolute_pattern) (url_from_file_path ops absolute_pattern)) (\<lambda>url.
        res_bind (location_parse_url ops (url_text ops url)) (\<lambda>location.
        res_bind (ok_or (InvalidFilePath literal_path) (url_from_file_path ops literal_path)) (\<lambda>literal_url.
        res_bind (location_parse_url ops (url_text ops literal_url)) (\<lambda>literal_location.
        res_bind (ok_or (InvalidObjectPath (url_text ops literal_location) [])
            (op_from_url_path paths (url_path ops literal_location))) (\<lambda>literal_prefix.
          let escaped = glob_escape g literal_prefix;
              matcher_source =
                escaped @ (if escaped \<noteq> [] \<and> active_pattern \<noteq> [] then ''/'' else []) @ active_pattern in
          (case glob_new g matcher_source of
             Inl e \<Rightarrow> Inl (InvalidLocationPattern source e)
           | Inr matcher \<Rightarrow> Inr (UrlPattern source location matcher literal_prefix)))))))))"

definition map_bare_pattern_from ::
  "'u url_ops \<Rightarrow> 'g glob_ops \<Rightarrow> path_ops \<Rightarrow> string \<Rightarrow> string \<Rightarrow>
   (storage_error, ('u, 'g) pattern_input) result" where
  "map_bare_pattern_from ops g paths input working_directory =
     (if starts_with input ''/''
      then from_file_path_pattern ops g paths ''/'' (join_with ''/'' (trim_segments (split_on CHR ''/'' input))) input
      else from_file_path_pattern ops g paths working_directory input input)"

definition map_bare_location ::
  "'u url_ops \<Rightarrow> string \<Rightarrow> string \<Rightarrow> (storage_error, 'u) result" where
  "map_bare_location ops input working_directory =
     location_from_file_path ops
       (if starts_with input ''/'' then input else path_push working_directory input)"

section \<open>Reference definitions\<close>

text \<open>Percent decoding of a whole text, one escape at a time.\<close>

fun percent_decode :: "string \<Rightarrow> string" where
  "percent_decode (p # a # b # rest) =
     (if p = CHR ''%'' \<and> is_ascii_hexdigit a \<and> is_ascii_hexdigit b
      then char_of (hex_value a * 16 + hex_value b) # percent_decode rest
      else p # percent_decode (a # b # rest))"
| "percent_decode rest = rest"

text \<open>The matcher a path denotes: an escape stands for one literal byte, any other byte for itself.\<close>

fun matcher_reference :: "string \<Rightarrow> string" where
  "matcher_reference (p # a # b # rest) =
     (if p = CHR ''%'' \<and> is_ascii_hexdigit a \<and> is_ascii_hexdigit b
      then (let d = char_of (hex_value a * 16 + hex_value b) in
            (if d \<in> {CHR ''?'', CHR ''*'', CHR ''['', CHR '']''} then [CHR ''['', d, CHR '']''] else [d])) @
           matcher_reference rest
      else push_latin1 p @ matcher_reference (a # b # rest))"
| "matcher_reference rest = concat (map push_latin1 rest)"

definition escape_byte :: "char \<Rightarrow> string" where
  "escape_byte d = (if d \<in> {CHR ''?'', CHR ''*'', CHR ''['', CHR '']''} then [CHR ''['', d, CHR '']''] else [d])"

text \<open>\<open>Pattern::escape\<close> surrounds each metacharacter with brackets and keeps the rest.\<close>

definition glob_laws :: "'g glob_ops \<Rightarrow> bool" where
  "glob_laws g \<longleftrightarrow> (\<forall>s. glob_escape g s = concat (map escape_byte s))"

text \<open>A serialised URL is ASCII.\<close>

definition url_laws :: "'u url_ops \<Rightarrow> bool" where
  "url_laws ops \<longleftrightarrow> (\<forall>u. list_all is_ascii (url_text ops u))"

lemma glob_escapeD: "glob_laws g \<Longrightarrow> glob_escape g s = concat (map escape_byte s)"
  by (simp add: glob_laws_def)

lemma push_latin1_ascii [simp]: "is_ascii c \<Longrightarrow> push_latin1 c = [c]"
  by (simp add: push_latin1_def)

lemma push_latin1_ascii_iff: "list_all is_ascii (push_latin1 c) \<longleftrightarrow> is_ascii c"
proof (cases "is_ascii c")
  case False
  have "byte_nat c < 256" by (simp add: byte_nat_def)
  then have "192 + byte_nat c div 64 < 256" by simp
  then have "of_char (char_of (192 + byte_nat c div 64) :: char) = 192 + byte_nat c div 64"
    by (simp only: of_char_of) simp
  then have "\<not> is_ascii (char_of (192 + byte_nat c div 64))" by (simp add: is_ascii_def byte_nat_def)
  then show ?thesis using False by (simp add: push_latin1_def)
qed simp

lemma encode_glob_byte_ascii_iff: "list_all is_ascii (encode_glob_byte c) \<longleftrightarrow> is_ascii c"
  by (auto simp: encode_glob_byte_def push_latin1_ascii_iff ascii_defs)

lemma concat_encode_ascii:
  "list_all is_ascii (concat (map encode_glob_byte s)) \<longleftrightarrow> list_all is_ascii s"
  by (induction s) (auto simp: encode_glob_byte_ascii_iff)

subsection \<open>Decoding a path into a matcher\<close>

lemma take_escapes_reference:
  assumes "take_escapes s = (ds, rest)"
  shows "matcher_reference s = concat (map escape_byte ds) @ matcher_reference rest
    \<and> percent_decode s = ds @ percent_decode rest"
  using assms
proof (induction s arbitrary: ds rule: take_escapes.induct)
  case (1 p a b r)
  show ?case
  proof (cases "p = CHR ''%'' \<and> is_ascii_hexdigit a \<and> is_ascii_hexdigit b")
    case True
    obtain ds' where "take_escapes r = (ds', rest)" "ds = char_of (hex_value a * 16 + hex_value b) # ds'"
      using 1(2) True by (auto split: prod.splits)
    then show ?thesis using "1.IH" [of ds'] True by (simp add: Let_def escape_byte_def)
  next
    case False
    then have "ds = [] \<and> rest = p # a # b # r" using 1(2) by (simp only: take_escapes.simps(1) if_False) simp
    then show ?thesis by simp
  qed
qed (simp_all)

lemma matcher_reference_plain:
  "c \<noteq> CHR ''%'' \<Longrightarrow> matcher_reference (c # cs) = push_latin1 c @ matcher_reference cs"
  by (cases cs; cases "tl cs") auto

lemma percent_decode_plain: "c \<noteq> CHR ''%'' \<Longrightarrow> percent_decode (c # cs) = c # percent_decode cs"
  by (cases cs; cases "tl cs") auto

lemma decoded_matcher_reference:
  assumes "glob_laws g" and "decoded_matcher g raw input = Inr m"
  shows "m = matcher_reference raw"
  using assms
proof (induction g raw input arbitrary: m rule: decoded_matcher.induct)
  case (2 g c cs input)
  show ?case
  proof (cases "c = CHR ''%''")
    case True
    obtain ds rest where t: "take_escapes (c # cs) = (ds, rest)" by fastforce
    with 2(4) True obtain m' where m: "ds \<noteq> []" "utf8_valid ds" "decoded_matcher g rest input = Inr m'"
      "m = glob_escape g ds @ m'"
      by (auto simp: res_bind_Inr_conv split: if_splits)
    have "m' = matcher_reference rest" using "2.IH"(1) [OF True t [symmetric]] m 2(3) by simp
    then show ?thesis using take_escapes_reference [OF t] m 2(3) by (simp add: glob_escapeD)
  next
    case False
    then show ?thesis using 2 by (auto simp: res_bind_Inr_conv matcher_reference_plain)
  qed
qed simp


subsection \<open>The literal prefix\<close>

lemma unescape_byte:
  "unescape_matcher_literals (escape_byte d @ rest) = d # unescape_matcher_literals rest"
proof (cases "d \<in> {CHR ''?'', CHR ''*'', CHR ''['', CHR '']''}")
  case True
  then show ?thesis by (auto simp: escape_byte_def)
next
  case False
  then have "d \<noteq> CHR ''[''" by simp
  then have "unescape_matcher_literals (d # rest) = d # unescape_matcher_literals rest"
    by (cases rest; cases "tl rest") auto
  then show ?thesis using False by (simp add: escape_byte_def)
qed

lemma unescape_bytes:
  "unescape_matcher_literals (concat (map escape_byte ds) @ rest) = ds @ unescape_matcher_literals rest"
  by (induction ds) (simp_all add: unescape_byte)

lemma unescape_plain:
  "c \<noteq> CHR ''['' \<Longrightarrow> unescape_matcher_literals (c # rest) = c # unescape_matcher_literals rest"
  using unescape_byte [of c rest] by (cases rest; cases "tl rest") auto

text \<open>Un-escaping the matcher of a path without active globs gives the decoded path.\<close>

lemma unescape_reference:
  "list_all is_ascii p \<Longrightarrow> CHR ''['' \<notin> set p \<Longrightarrow>
    unescape_matcher_literals (matcher_reference p) = percent_decode p"
proof (induction p rule: matcher_reference.induct)
  case (1 p a b r)
  show ?case
  proof (cases "p = CHR ''%'' \<and> is_ascii_hexdigit a \<and> is_ascii_hexdigit b")
    case True
    let ?d = "char_of (hex_value a * 16 + hex_value b) :: char"
    have "matcher_reference (p # a # b # r) = escape_byte ?d @ matcher_reference r"
      using True by (simp add: escape_byte_def Let_def)
    moreover have "percent_decode (p # a # b # r) = ?d # percent_decode r" using True by simp
    ultimately show ?thesis using "1.IH"(1) [OF True] 1(3,4) by (simp add: unescape_byte)
  next
    case False
    have m: "matcher_reference (p # a # b # r) = p # matcher_reference (a # b # r)"
      using False 1(3) by (simp only: matcher_reference.simps if_False list.pred_inject) simp
    have d: "percent_decode (p # a # b # r) = p # percent_decode (a # b # r)"
      using False by (simp only: percent_decode.simps if_False)
    have p: "p \<noteq> CHR ''[''" using 1(4) by auto
    have "unescape_matcher_literals (matcher_reference (a # b # r)) = percent_decode (a # b # r)"
      using "1.IH"(2) [OF False] 1(3,4) by simp
    then show ?thesis unfolding m d unescape_plain [OF p] by (rule arg_cong)
  qed
qed (auto simp: unescape_plain)

lemma join_with_set: "set (join_with sep xss) \<subseteq> \<Union> (set ` set xss) \<union> set sep"
  by (induction xss rule: join_with.induct) auto

lemma literal_segments_plain:
  "CHR ''['' \<notin> set (join_with ''/'' (takeWhile (\<lambda>s. \<not> has_active_glob s) segs))"
proof
  assume "CHR ''['' \<in> set (join_with ''/'' (takeWhile (\<lambda>s. \<not> has_active_glob s) segs))"
  then have "CHR ''['' \<in> \<Union> (set ` set (takeWhile (\<lambda>s. \<not> has_active_glob s) segs)) \<union> {CHR ''/''}"
    using join_with_set [of "''/''"] by fastforce
  then obtain s where s: "s \<in> set (takeWhile (\<lambda>s. \<not> has_active_glob s) segs)" "CHR ''['' \<in> set s"
    by auto
  from set_takeWhileD [OF s(1)] s(2) show False by (auto simp: has_active_glob_def list_ex_iff)
qed

lemma decoded_literal_prefix_Inr:
  assumes "glob_laws g" "list_all is_ascii raw" "decoded_literal_prefix g raw input = Inr lit"
  shows "lit = percent_decode (join_with ''/'' (takeWhile (\<lambda>s. \<not> has_active_glob s) (split_on CHR ''/'' raw)))"
proof -
  let ?p = "join_with ''/'' (takeWhile (\<lambda>s. \<not> has_active_glob s) (split_on CHR ''/'' raw))"
  have "set ?p \<subseteq> set raw \<union> {CHR ''/''}"
    using join_with_set [of "''/''" "takeWhile (\<lambda>s. \<not> has_active_glob s) (split_on CHR ''/'' raw)"]
      set_split_on [of "CHR ''/''" raw] by (fastforce dest: set_takeWhileD)
  then have "list_all is_ascii ?p"
    using assms(2) by (auto simp: list_all_iff) (auto simp: ascii_defs)
  moreover obtain m where m: "decoded_matcher g ?p input = Inr m" and l: "lit = unescape_matcher_literals m"
    using assms(3) by (auto simp: decoded_literal_prefix_def res_bind_Inr_conv)
  ultimately show ?thesis
    unfolding l decoded_matcher_reference [OF assms(1) m]
    by (intro unescape_reference literal_segments_plain)
qed


subsection \<open>Splitting the pattern\<close>

lemma pattern_url_parts_Inr:
  assumes "pattern_url_parts ops input = Inr (before, query, path_start)"
  shows "path_start \<le> length before \<and>
    input = before @ (case query of Some q \<Rightarrow> ''??'' @ q | None \<Rightarrow> []) \<and>
    (drop path_start before = [] \<or> (\<exists>raw. drop path_start before = CHR ''/'' # raw))"
proof -
  obtain scheme after_scheme where
    sc: "scheme_like_prefix input = Inr (Some scheme)" and
    st: "strip_prefix (scheme @ ''://'') input = Some after_scheme" and
    rest: "(let path_start = find_index (\<lambda>c. c = CHR ''/'') after_scheme;
        authority = (case path_start of Some index \<Rightarrow> take index after_scheme | None \<Rightarrow> after_scheme) in
      if list_ex (\<lambda>c. c \<in> {CHR ''*'', CHR ''?''}) authority
        \<or> ((CHR ''['' \<in> set authority \<or> CHR '']'' \<in> set authority)
            \<and> url_parse ops (scheme @ ''://'' @ authority @ ''/'') = None)
      then Inl (PatternOutsideUrlPath input)
      else
        let (before, query) = (case find_sub ''??'' input of
               Some i \<Rightarrow> (take i input, Some (drop (i + 2) input))
             | None \<Rightarrow> (input, None)) in
        Inr (before, query,
          length scheme + 3 + (case path_start of Some i \<Rightarrow> i | None \<Rightarrow> length after_scheme))) =
      Inr (before, query, path_start)"
    using assms unfolding pattern_url_parts_def res_bind_Inr_conv ok_or_Inr_conv by blast
  define n where "n = (case find_index (\<lambda>c. c = CHR ''/'') after_scheme of Some i \<Rightarrow> i | None \<Rightarrow> length after_scheme)"
  define front where "front = scheme @ ''://'' @ take n after_scheme"
  have auth: "(case find_index (\<lambda>c. c = CHR ''/'') after_scheme of Some index \<Rightarrow> take index after_scheme
      | None \<Rightarrow> after_scheme) = take n after_scheme"
    by (simp add: n_def split: option.splits)
  have noq: "\<not> list_ex (\<lambda>c. c \<in> {CHR ''*'', CHR ''?''}) (take n after_scheme)"
    and bq: "(before, query) = (case find_sub ''??'' input of
       Some i \<Rightarrow> (take i input, Some (drop (i + 2) input)) | None \<Rightarrow> (input, None))"
    and ps: "path_start = length scheme + 3 + n"
    using rest unfolding auth Let_def n_def [symmetric] by (auto split: if_splits prod.splits option.splits)
  have input: "input = front @ drop n after_scheme"
    using st unfolding strip_prefix_Some front_def by simp
  have n: "n \<le> length after_scheme"
    using find_index_Some [of "\<lambda>c. c = CHR ''/''" after_scheme] by (auto simp: n_def less_imp_le split: option.splits)
  have len: "length front = path_start" using n ps by (simp add: front_def)
  have next_byte: "drop n after_scheme = [] \<or> (\<exists>raw. drop n after_scheme = CHR ''/'' # raw)"
    using find_index_Some [of "\<lambda>c. c = CHR ''/''" after_scheme] Cons_nth_drop_Suc [of n after_scheme]
    by (auto simp: n_def split: option.splits) metis
  have "CHR ''?'' \<notin> set scheme"
    using scheme_text_char [of scheme "CHR ''?''"] scheme_like_prefix_Some [OF sc] by (auto simp: ascii_defs)
  then have front: "CHR ''?'' \<notin> set front" using noq by (auto simp: front_def list_ex_iff)
  show ?thesis
  proof (cases "find_sub ''??'' input")
    case None
    then have "before = input" "query = None" using bq by simp_all
    then show ?thesis using len input next_byte by simp
  next
    case (Some i)
    have i: "i + 2 \<le> length input" "take 2 (drop i input) = ''??''"
      using find_sub_Some [OF Some] by (simp_all add: numeral_2_eq_2)
    have q: "before = take i input" "query = Some (drop (i + 2) input)" using bq Some by simp_all
    have "take 1 (drop i input) = take 1 (take 2 (drop i input))" by (simp add: min_def)
    then have "input ! i = CHR ''?''" using i by (simp add: take_Suc hd_drop_conv_nth)
    then have "path_start \<le> i"
      using front input len by (metis linorder_not_less nth_append nth_mem)
    moreover have "drop path_start input = drop n after_scheme"
      using input len by (metis append_eq_conv_conj)
    then have "drop path_start before = take (i - path_start) (drop n after_scheme)"
      unfolding q(1) drop_take by simp
    moreover have "input = take i input @ ''??'' @ drop (i + 2) input"
      using i(2) append_take_drop_id [of i input] append_take_drop_id [of 2 "drop i input"] by simp
    ultimately show ?thesis using next_byte q i
      by (cases "i - path_start") auto
  qed
qed


subsection \<open>The encoded path\<close>

lemma percent_valid_suffix: "has_valid_percent_encoding (x @ y) \<Longrightarrow> has_valid_percent_encoding y"
  unfolding percent_valid_nth
proof (intro allI impI)
  fix i
  assume v: "\<forall>i < length (x @ y). (x @ y) ! i = CHR ''%'' \<longrightarrow> i + 2 < length (x @ y) \<and>
      is_ascii_hexdigit ((x @ y) ! (i + 1)) \<and> is_ascii_hexdigit ((x @ y) ! (i + 2))"
    and i: "i < length y" "y ! i = CHR ''%''"
  have "length x + i < length (x @ y)" "(x @ y) ! (length x + i) = CHR ''%''"
    using i by (simp_all add: nth_append)
  from v [rule_format, OF this]
  show "i + 2 < length y \<and> is_ascii_hexdigit (y ! (i + 1)) \<and> is_ascii_hexdigit (y ! (i + 2))"
    by (simp add: nth_append)
qed

lemma percent_valid_before_query:
  assumes "has_valid_percent_encoding (x @ q)" "q = [] \<or> hd q = CHR ''?''"
  shows "has_valid_percent_encoding x"
  unfolding percent_valid_nth
proof (intro allI impI)
  fix i assume i: "i < length x" "x ! i = CHR ''%''"
  have v: "i + 2 < length (x @ q)" "is_ascii_hexdigit ((x @ q) ! (i + 1))" "is_ascii_hexdigit ((x @ q) ! (i + 2))"
    using assms(1) i unfolding percent_valid_nth by (auto simp: nth_append)
  have q: "\<not> is_ascii_hexdigit ((x @ q) ! length x)" if "length x < length (x @ q)"
    using assms(2) that by (cases q) (auto simp: ascii_defs)
  have "length x \<noteq> i + 1" using v q by (metis add.commute add_lessD1 nat_add_left_cancel_less one_less_numeral_iff
    less_trans semiring_norm(76))
  moreover have "length x \<noteq> i + 2" using v q by metis
  ultimately  show "i + 2 < length x \<and> is_ascii_hexdigit (x ! (i + 1)) \<and> is_ascii_hexdigit (x ! (i + 2))"
    using v i by (auto simp: nth_append)
qed

lemma encode_plain_hex: "is_ascii_hexdigit a \<Longrightarrow> encode_glob_byte a = [a]"
  by (auto simp: encode_glob_byte_def push_latin1_def ascii_defs)

lemma encode_percent: "encode_glob_byte CHR ''%'' = ''%''"
  by (simp add: encode_glob_byte_def push_latin1_def ascii_defs)

lemma encode_hd_hex:
  "is_ascii c \<Longrightarrow> \<exists>d ds. encode_glob_byte c = d # ds \<and> (is_ascii_hexdigit d \<longrightarrow> is_ascii_hexdigit c)"
  by (auto simp: encode_glob_byte_def ascii_defs)

lemma encode_escape_valid:
  assumes "list_all is_ascii raw" "has_valid_percent_encoding (concat (map encode_glob_byte raw))"
  shows "has_valid_percent_encoding raw"
  using assms
proof (induction raw rule: has_valid_percent_encoding.induct)
  case (2 c cs)
  have suffix: "has_valid_percent_encoding (concat (map encode_glob_byte cs))"
    using 2(4) percent_valid_suffix [of "encode_glob_byte c"] by simp
  show ?case
  proof (cases "c = CHR ''%''")
    case False
    then show ?thesis using 2 suffix by simp
  next
    case True
    let ?e = "concat (map encode_glob_byte cs)"
    have e: "has_valid_percent_encoding (CHR ''%'' # ?e)"
      using 2(4) True by (simp add: encode_percent)
    then obtain x y z where xyz: "?e = x # y # z" "is_ascii_hexdigit x" "is_ascii_hexdigit y"
      by (auto split: list.splits)
    then obtain a cs' where cs: "cs = a # cs'" by (cases cs) auto
    have "is_ascii a" using 2(3) cs by simp
    from encode_hd_hex [OF this] have a: "is_ascii_hexdigit a" using xyz cs by auto
    then have e': "concat (map encode_glob_byte cs') = y # z" using xyz cs encode_plain_hex by simp
    then obtain b rest where b: "cs' = b # rest" by (cases cs') auto
    have "is_ascii b" using 2(3) cs b by simp
    from encode_hd_hex [OF this] have bh: "is_ascii_hexdigit b" using xyz e' b by auto
    have "has_valid_percent_encoding (concat (map encode_glob_byte rest))"
      using e xyz e' b bh encode_plain_hex by simp
    then have "has_valid_percent_encoding rest" using "2.IH"(2) [of a cs' b rest] True cs b 2(3) by simp
    then show ?thesis using True cs b a bh by simp
  qed
qed simp

lemma meta_char_codes:
  "char_of (hex_value CHR ''2'' * 16 + hex_value CHR ''A'') = CHR ''*''"
  "char_of (hex_value CHR ''3'' * 16 + hex_value CHR ''F'') = CHR ''?''"
  "char_of (hex_value CHR ''5'' * 16 + hex_value CHR ''B'') = CHR ''[''"
  "char_of (hex_value CHR ''5'' * 16 + hex_value CHR ''D'') = CHR '']''"
  by code_simp+

lemma hex_char_eval:
  "percent_decode (CHR ''%'' # CHR ''2'' # CHR ''A'' # r) = CHR ''*'' # percent_decode r"
  "percent_decode (CHR ''%'' # CHR ''3'' # CHR ''F'' # r) = CHR ''?'' # percent_decode r"
  "percent_decode (CHR ''%'' # CHR ''5'' # CHR ''B'' # r) = CHR ''['' # percent_decode r"
  "percent_decode (CHR ''%'' # CHR ''5'' # CHR ''D'' # r) = CHR '']'' # percent_decode r"
  by (simp_all only: percent_decode.simps meta_char_codes) (simp_all add: ascii_defs)

lemma percent_decode_encoded_byte:
  assumes "c \<noteq> CHR ''%''" "is_ascii c"
  shows "percent_decode (encode_glob_byte c @ r) = c # percent_decode r"
proof (cases "c \<in> {CHR ''*'', CHR ''?'', CHR ''['', CHR '']''}")
  case True
  then consider "c = CHR ''*''" | "c = CHR ''?''" | "c = CHR ''[''" | "c = CHR '']''" by blast
  then show ?thesis
    by cases (simp_all only: encode_glob_byte_def if_True if_False char.inject simp_thms append.simps hex_char_eval)
next
  case meta: False
  then have "encode_glob_byte c = [c]" using assms(2) by (simp add: encode_glob_byte_def)
  then show ?thesis using percent_decode_plain [OF assms(1)] by simp
qed

text \<open>Encoding the metacharacters of a path does not change what it decodes to.\<close>

lemma percent_decode_encode:
  assumes "list_all is_ascii raw" "has_valid_percent_encoding raw"
  shows "percent_decode (concat (map encode_glob_byte raw)) = percent_decode raw"
  using assms
proof (induction raw rule: has_valid_percent_encoding.induct)
  case (2 c cs)
  show ?case
  proof (cases "c = CHR ''%''")
    case False
    have "is_ascii c" using 2(3) by simp
    note decode = percent_decode_encoded_byte [OF False this]
    have "percent_decode (concat (map encode_glob_byte cs)) = percent_decode cs"
      using "2.IH"(1) [OF False] 2(3,4) False by simp
    then show ?thesis by (simp only: list.map concat.simps decode percent_decode_plain [OF False])
  next
    case True
    then obtain a b rest where cs: "cs = a # b # rest" "is_ascii_hexdigit a" "is_ascii_hexdigit b"
      "has_valid_percent_encoding rest"
      using 2(4) by (auto split: list.splits)
    then have "percent_decode (concat (map encode_glob_byte rest)) = percent_decode rest"
      using "2.IH"(2) [of a "b # rest" b rest] True 2(3) by simp
    then show ?thesis using cs True by (simp add: encode_plain_hex encode_percent)
  qed
qed simp

lemma encode_no_meta:
  "list_all is_ascii s \<Longrightarrow>
    set (concat (map encode_glob_byte s)) \<inter> {CHR ''*'', CHR ''?'', CHR ''['', CHR '']''} = {}"
  by (induction s) (auto simp: encode_glob_byte_def)


subsection \<open>Normalised paths\<close>

definition plain_segment :: "string \<Rightarrow> bool" where
  "plain_segment s \<longleftrightarrow> s \<noteq> [] \<and> s \<noteq> ''.'' \<and> s \<noteq> ''..'' \<and> CHR ''/'' \<notin> set s"

lemma normalize_step_plain:
  assumes "list_all plain_segment segs" "component \<in> set (path_components path)"
  shows "list_all plain_segment (normalize_step segs component)"
  using assms split_on_no_sep [of _ "CHR ''/''" path]
  by (auto simp: normalize_step_def path_components_def plain_segment_def list_all_iff
      split: path_component.splits if_splits dest: in_set_butlastD)

lemma normalize_plain:
  "set cs \<subseteq> set (path_components path) \<Longrightarrow> list_all plain_segment segs \<Longrightarrow>
    list_all plain_segment (foldl normalize_step segs cs)"
proof (induction cs arbitrary: segs)
  case (Cons c cs)
  then show ?case using normalize_step_plain [of segs c path] by simp
qed simp

lemma components_of_plain:
  assumes "list_all plain_segment segs"
  shows "path_components (''/'' @ join_with ''/'' segs) = RootDir # map NormalSegment segs"
proof -
  have "split_on CHR ''/'' (join_with ''/'' segs) = (if segs = [] then [[]] else segs)"
    using assms split_on_join [of segs "CHR ''/''"] by (auto simp: plain_segment_def list_all_iff)
  moreover have "filter (\<lambda>s. s \<noteq> [] \<and> s \<noteq> ''.'') segs = segs"
    using assms by (auto simp: plain_segment_def list_all_iff intro!: filter_True)
  moreover have "map (\<lambda>s. if s = ''..'' then ParentDir else NormalSegment s) segs = map NormalSegment segs"
    using assms by (auto simp: plain_segment_def list_all_iff)
  ultimately show ?thesis
    by (simp add: path_components_def starts_with_def)
qed

lemma foldl_normal: "foldl normalize_step acc (map NormalSegment segs) = acc @ segs"
  by (induction segs arbitrary: acc) (simp_all add: normalize_step_def)

lemma location_pattern_parse_url_Inr:
  assumes "location_pattern_parse_url ops g input = Inr p"
  shows "\<exists>before query path_start u. pattern_url_parts ops input = Inr (before, query, path_start) \<and>
    location_parse_url ops (canonical_pattern_url before path_start query) = Inr u \<and>
    (if \<not> has_active_glob (pattern_raw_path before path_start) then Inr (ExactPattern (UrlInput u))
       else res_bind (decoded_matcher g (pattern_raw_path before path_start) input) (\<lambda>matcher_source.
            res_bind (decoded_literal_prefix g (pattern_raw_path before path_start) input) (\<lambda>literal_prefix.
              (case glob_new g matcher_source of
                 Inl e \<Rightarrow> Inl (InvalidLocationPattern input e)
               | Inr matcher \<Rightarrow> Inr (UrlPattern input u matcher literal_prefix))))) = Inr p"
proof -
  obtain before query path_start where parts: "pattern_url_parts ops input = Inr (before, query, path_start)"
    using assms by (cases "pattern_url_parts ops input")
      (auto simp: location_pattern_parse_url_def split: if_splits)
  have "input \<noteq> [] \<and> \<not> glob_before_url_separator input"
    using assms by (auto simp: location_pattern_parse_url_def split: if_splits)
  then have "(let raw_path = pattern_raw_path before path_start in
      if CHR ''#'' \<in> set raw_path \<or> (case query of Some q \<Rightarrow> CHR ''#'' \<in> set q | None \<Rightarrow> False)
      then Inl (FragmentNotSupported input)
      else res_bind (validate_recursive_globs raw_path input) (\<lambda>_.
           res_bind (location_parse_url ops (canonical_pattern_url before path_start query)) (\<lambda>location.
             if \<not> has_active_glob raw_path then Inr (ExactPattern (UrlInput location))
             else
               res_bind (decoded_matcher g raw_path input) (\<lambda>matcher_source.
               res_bind (decoded_literal_prefix g raw_path input) (\<lambda>literal_prefix.
                 (case glob_new g matcher_source of
                    Inl e \<Rightarrow> Inl (InvalidLocationPattern input e)
                  | Inr matcher \<Rightarrow> Inr (UrlPattern input location matcher literal_prefix))))))) = Inr p"
    using assms parts by (simp add: location_pattern_parse_url_def)
  then obtain u where "location_parse_url ops (canonical_pattern_url before path_start query) = Inr u"
    by (cases "location_parse_url ops (canonical_pattern_url before path_start query)";
        cases "validate_recursive_globs (pattern_raw_path before path_start) input")
      (auto simp only: Let_def res_bind_simps split: if_splits)
  then show ?thesis
    using parts \<open>(let raw_path = _ in _) = Inr p\<close>
    by (cases "validate_recursive_globs (pattern_raw_path before path_start) input")
      (auto simp only: Let_def res_bind_simps split: if_splits)
qed

section \<open>Properties\<close>

text \<open>
  C27: A URL pattern denotes exactly its path. Splitting it stays inside the text: the path starts
  within the part before the query, so neither slice can be out of range, and the pattern is that
  part followed by the query. The location the pattern is routed by is the pattern with every
  metacharacter of its path escaped, so it holds none and decodes to the same path. Without an active
  glob the pattern is that exact location. With one, the compiled glob reads every percent escape as
  its literal byte and every other byte as itself, and the literal prefix is the decoded text of the
  leading segments without active globs.
\<close>

theorem url_pattern_denotes_its_path:
  assumes "url_laws ops" and "glob_laws g" and "location_pattern_parse_url ops g input = Inr p"
  shows "\<exists>before query path_start u. pattern_url_parts ops input = Inr (before, query, path_start) \<and>
    path_start \<le> length before \<and>
    input = before @ (case query of Some q \<Rightarrow> ''??'' @ q | None \<Rightarrow> []) \<and>
    url_text ops u = canonical_pattern_url before path_start query \<and>
    set (concat (map encode_glob_byte (drop path_start before))) \<inter> {CHR ''*'', CHR ''?'', CHR ''['', CHR '']''} = {} \<and>
    percent_decode (concat (map encode_glob_byte (drop path_start before))) = percent_decode (drop path_start before) \<and>
    (if has_active_glob (pattern_raw_path before path_start)
     then \<exists>m. glob_new g (matcher_reference (pattern_raw_path before path_start)) = Inr m \<and>
       p = UrlPattern input u m (percent_decode (join_with ''/''
         (takeWhile (\<lambda>s. \<not> has_active_glob s) (split_on CHR ''/'' (pattern_raw_path before path_start)))))
     else p = ExactPattern (UrlInput u))"
proof -
  obtain before query path_start u where
    parts: "pattern_url_parts ops input = Inr (before, query, path_start)" and
    u: "location_parse_url ops (canonical_pattern_url before path_start query) = Inr u" and
    res: "(if \<not> has_active_glob (pattern_raw_path before path_start) then Inr (ExactPattern (UrlInput u))
       else res_bind (decoded_matcher g (pattern_raw_path before path_start) input) (\<lambda>matcher_source.
            res_bind (decoded_literal_prefix g (pattern_raw_path before path_start) input) (\<lambda>literal_prefix.
              (case glob_new g matcher_source of
                 Inl e \<Rightarrow> Inl (InvalidLocationPattern input e)
               | Inr matcher \<Rightarrow> Inr (UrlPattern input u matcher literal_prefix))))) = Inr p"
    using location_pattern_parse_url_Inr [OF assms(3)] by blast
  note split = pattern_url_parts_Inr [OF parts]
  let ?path = "drop path_start before" and ?raw = "pattern_raw_path before path_start"
  let ?query = "case query of Some q \<Rightarrow> CHR ''?'' # q | None \<Rightarrow> []"
  have ut: "url_text ops u = canonical_pattern_url before path_start query"
    and valid: "has_valid_percent_encoding (canonical_pattern_url before path_start query)"
    using location_parse_url_Inr [OF u] by simp_all
  have "list_all is_ascii (canonical_pattern_url before path_start query)"
    using assms(1) ut unfolding url_laws_def by metis
  then have ascii: "list_all is_ascii ?path"
    by (simp add: canonical_pattern_url_def concat_encode_ascii)
  have "has_valid_percent_encoding (concat (map encode_glob_byte ?path))"
    by (rule percent_valid_before_query [OF percent_valid_suffix [OF valid [unfolded canonical_pattern_url_def]]])
      (simp split: option.splits)
  then have decode: "percent_decode (concat (map encode_glob_byte ?path)) = percent_decode ?path"
    by (rule percent_decode_encode [OF ascii encode_escape_valid [OF ascii]])
  have raw: "list_all is_ascii ?raw"
  proof (cases "strip_prefix ''/'' ?path")
    case (Some r)
    then have "?path = ''/'' @ r" unfolding strip_prefix_Some .
    then have "list_all is_ascii r" using ascii by simp
    then show ?thesis using Some by (simp add: pattern_raw_path_def)
  qed (simp add: pattern_raw_path_def)
  show ?thesis
  proof (intro exI conjI)
    show "if has_active_glob ?raw
      then \<exists>m. glob_new g (matcher_reference ?raw) = Inr m \<and>
        p = UrlPattern input u m (percent_decode (join_with ''/''
          (takeWhile (\<lambda>s. \<not> has_active_glob s) (split_on CHR ''/'' ?raw))))
      else p = ExactPattern (UrlInput u)"
    proof (cases "has_active_glob ?raw")
      case True
      then obtain ms lit where d: "decoded_matcher g ?raw input = Inr ms" "decoded_literal_prefix g ?raw input = Inr lit"
        and c: "(case glob_new g ms of Inl e \<Rightarrow> Inl (InvalidLocationPattern input e)
          | Inr matcher \<Rightarrow> Inr (UrlPattern input u matcher lit)) = Inr p"
        using res by (auto simp only: res_bind_Inr_conv not_True_eq_False if_False)
      from c obtain m where "glob_new g ms = Inr m" "p = UrlPattern input u m lit" by (cases "glob_new g ms") auto
      then show ?thesis
        using True decoded_literal_prefix_Inr [OF assms(2) raw d(2)] decoded_matcher_reference [OF assms(2) d(1)] by simp
    qed (use res in simp)
  qed (use parts split ut encode_no_meta [OF ascii] decode in simp_all)
qed

text \<open>A glob library that compiles every text to itself, to evaluate the model on.\<close>

definition plain_globs :: "string glob_ops" where
  "plain_globs = \<lparr>glob_new = Inr, glob_escape = (\<lambda>s. concat (map escape_byte s)), glob_matches = (\<lambda>g s. g = s)\<rparr>"

lemma plain_globs_laws: "glob_laws plain_globs"
  by (simp add: glob_laws_def plain_globs_def)

definition ascii_urls :: "string url_ops" where
  "ascii_urls = plain_urls\<lparr>url_parse := (\<lambda>s. if list_all is_ascii s then Some s else None),
     url_text := filter is_ascii\<rparr>"

lemma ascii_urls_laws: "url_laws ascii_urls"
  by (simp add: url_laws_def ascii_urls_def list_all_iff)

lemma url_pattern_parsed:
  "location_pattern_parse_url ascii_urls plain_globs ''s3://b/x%2Ay/*.a??v=1'' =
     Inr (UrlPattern ''s3://b/x%2Ay/*.a??v=1'' ''s3://b/x%2Ay/%2A.a?v=1'' ''x[*]y/*.a'' ''x*y'')"
  by code_simp


theorem url_pattern_denotes_its_path_witness:
  "\<exists>before query path_start u.
    pattern_url_parts ascii_urls ''s3://b/x%2Ay/*.a??v=1'' = Inr (before, query, path_start) \<and>
    path_start \<le> length before \<and>
    ''s3://b/x%2Ay/*.a??v=1'' = before @ (case query of Some q \<Rightarrow> ''??'' @ q | None \<Rightarrow> []) \<and>
    url_text ascii_urls u = canonical_pattern_url before path_start query \<and>
    set (concat (map encode_glob_byte (drop path_start before))) \<inter> {CHR ''*'', CHR ''?'', CHR ''['', CHR '']''} = {} \<and>
    percent_decode (concat (map encode_glob_byte (drop path_start before))) = percent_decode (drop path_start before) \<and>
    (if has_active_glob (pattern_raw_path before path_start)
     then \<exists>m. glob_new plain_globs (matcher_reference (pattern_raw_path before path_start)) = Inr m \<and>
       UrlPattern ''s3://b/x%2Ay/*.a??v=1'' ''s3://b/x%2Ay/%2A.a?v=1'' ''x[*]y/*.a'' ''x*y'' =
       UrlPattern ''s3://b/x%2Ay/*.a??v=1'' u m (percent_decode (join_with ''/''
         (takeWhile (\<lambda>s. \<not> has_active_glob s) (split_on CHR ''/'' (pattern_raw_path before path_start)))))
     else UrlPattern ''s3://b/x%2Ay/*.a??v=1'' ''s3://b/x%2Ay/%2A.a?v=1'' ''x[*]y/*.a'' ''x*y'' = ExactPattern (UrlInput u))"
  by (rule url_pattern_denotes_its_path [OF ascii_urls_laws plain_globs_laws url_pattern_parsed])

text \<open>
  Lexical normalisation of a path always ends in an absolute path of plain segments (none empty,
  none a dot or a double dot, none with a separator), never climbs above the root, and is idempotent.
\<close>

theorem normalized_path_is_plain:
  "lexically_normalize_absolute_path (lexically_normalize_absolute_path path) = lexically_normalize_absolute_path path \<and>
   (\<exists>segs. list_all plain_segment segs \<and> lexically_normalize_absolute_path path = ''/'' @ join_with ''/'' segs)"
proof -
  let ?segs = "foldl normalize_step [] (path_components path)"
  have plain: "list_all plain_segment ?segs" by (rule normalize_plain [OF order_refl]) simp
  have "foldl normalize_step [] (path_components (''/'' @ join_with ''/'' ?segs)) = ?segs"
    unfolding components_of_plain [OF plain] by (simp add: normalize_step_def foldl_normal)
  then show ?thesis unfolding lexically_normalize_absolute_path_def using plain by (simp only:) blast
qed

end
