(* ===== verification/Storage_Handle.thy ===== *)
theory Storage_Handle
  imports Location_Pattern
begin

text \<open>
  Storage handles (\<open>crates/silk-chiffon-storage/src/handle.rs\<close>, \<open>input.rs\<close>, \<open>output.rs\<close>): the
  shared handle, the directional handles over it and the read-only view of an object store.

  The object stores of \<open>object_store\<close> are a parameter: \<open>'s\<close> is a client and
  \<open>'s \<Rightarrow> store_request \<Rightarrow> 'w \<Rightarrow> _\<close> performs one call of the \<open>ObjectStore\<close> trait in the outside world
  \<open>'w\<close>. A request keeps the locations it names; a listing is the list of its items.
\<close>

section \<open>Object stores\<close>

datatype store_error = StoreNotFound string | StoreNotImplemented string string | StoreOther string

record object_meta =
  om_location :: string
  om_size :: nat

datatype store_request =
    PutOpts string
  | PutMultipartOpts string
  | GetOpts string bool
  | GetRanges string "(nat \<times> nat) list"
  | DeleteStream "string list"
  | ListObjects "string option"
  | ListWithDelimiter "string option"
  | CopyOpts string string

datatype store_reply =
    ReplyMeta object_meta
  | ReplyList "(store_error, object_meta) result list"
  | ReplyOther

type_synonym ('s, 'w) store_call = "'s \<Rightarrow> store_request \<Rightarrow> 'w \<Rightarrow> (store_error, store_reply) result \<times> 'w"

section \<open>The read-only view\<close>

record 's read_only_object_store =
  ro_inner :: 's

definition read_only_store :: "'s \<Rightarrow> 's read_only_object_store" where
  "read_only_store inner = \<lparr>ro_inner = inner\<rparr>"

definition ro_unsupported :: "string \<Rightarrow> (store_error, 'a) result" where
  "ro_unsupported operation = Inl (StoreNotImplemented operation ''SilkInputHandle'')"

definition ro_call ::
  "('s, 'w) store_call \<Rightarrow> 's read_only_object_store \<Rightarrow> store_request \<Rightarrow> 'w \<Rightarrow>
   (store_error, store_reply) result \<times> 'w" where
  "ro_call call ro request w =
     (case request of
        PutOpts _ \<Rightarrow> (ro_unsupported ''put_opts'', w)
      | PutMultipartOpts _ \<Rightarrow> (ro_unsupported ''put_multipart_opts'', w)
      | GetOpts _ _ \<Rightarrow> call (ro_inner ro) request w
      | GetRanges _ _ \<Rightarrow> call (ro_inner ro) request w
      | DeleteStream _ \<Rightarrow> (Inl (StoreNotImplemented ''delete_stream'' ''SilkInputHandle''), w)
      | ListObjects _ \<Rightarrow> call (ro_inner ro) request w
      | ListWithDelimiter _ \<Rightarrow> call (ro_inner ro) request w
      | CopyOpts _ _ \<Rightarrow> (ro_unsupported ''copy_opts'', w))"

section \<open>Handles\<close>

record ('u, 's) storage_handle =
  sh_url :: 'u
  sh_object_store :: 's
  sh_read_only_store :: "'s read_only_object_store"
  sh_object_path :: string
  sh_store_url :: 'u

definition local_path :: "'u url_ops \<Rightarrow> ('u, 's) storage_handle \<Rightarrow> (storage_error, string) result" where
  "local_path ops h =
     (if url_scheme ops (sh_url h) \<noteq> ''file'' then Inl (InvalidFilePath (url_text ops (sh_url h)))
      else ok_or (InvalidFilePath (url_text ops (sh_url h))) (url_to_file_path ops (sh_url h)))"

record ('u, 's) input_handle =
  ih_handle :: "('u, 's) storage_handle"
  ih_read_only_store :: "'s read_only_object_store"

definition input_handle_new :: "('u, 's) storage_handle \<Rightarrow> ('u, 's) input_handle" where
  "input_handle_new h = \<lparr>ih_handle = h, ih_read_only_store = sh_read_only_store h\<rparr>"

record ('u, 's) input_object =
  io_input_handle :: "('u, 's) input_handle"
  io_metadata :: object_meta

datatype existing_output = AllowExisting | RejectIfObserved

record output_preparation =
  op_existing_output :: existing_output
  op_create_parent_directories :: bool

section \<open>Properties\<close>

fun is_read_request :: "store_request \<Rightarrow> bool" where
  "is_read_request (GetOpts _ _) = True"
| "is_read_request (GetRanges _ _) = True"
| "is_read_request (ListObjects _) = True"
| "is_read_request (ListWithDelimiter _) = True"
| "is_read_request _ = False"

fun run_requests ::
  "(store_request \<Rightarrow> 'w \<Rightarrow> (store_error, store_reply) result \<times> 'w) \<Rightarrow> store_request list \<Rightarrow> 'w \<Rightarrow>
   (store_error, store_reply) result list \<times> 'w" where
  "run_requests call [] w = ([], w)"
| "run_requests call (r # rs) w =
     (let (reply, w) = call r w; (replies, w) = run_requests call rs w in (reply # replies, w))"

fun not_implemented :: "(store_error, store_reply) result \<Rightarrow> bool" where
  "not_implemented (Inl (StoreNotImplemented _ _)) = True"
| "not_implemented _ = False"

lemma run_requests_Cons [simp]:
  "fst (run_requests call (r # rs) w) = fst (call r w) # fst (run_requests call rs (snd (call r w)))"
  "snd (run_requests call (r # rs) w) = snd (run_requests call rs (snd (call r w)))"
  by (simp_all split: prod.splits)

declare run_requests.simps(2) [simp del]

lemma ro_call_read: "is_read_request r \<Longrightarrow> ro_call call ro r = call (ro_inner ro) r"
  by (rule ext) (cases r; simp add: ro_call_def)

lemma ro_call_write: "\<not> is_read_request r \<Longrightarrow> \<exists>e. not_implemented (Inl e) \<and> ro_call call ro r w = (Inl e, w)"
  by (cases r) (auto simp: ro_call_def ro_unsupported_def)

text \<open>
  An input handle cannot change its store. Whatever sequence of calls is made through the
  read-only view, the store sees exactly the reads among them, in order, so the outside world ends as
  if only they had been made; the reads get the store's own replies and every other call is answered
  as not implemented.
\<close>

theorem read_only_view_only_reads:
  "snd (run_requests (ro_call call (read_only_store store)) requests w) =
     snd (run_requests (call store) (filter is_read_request requests) w) \<and>
   map snd (filter (\<lambda>x. is_read_request (fst x))
     (zip requests (fst (run_requests (ro_call call (read_only_store store)) requests w)))) =
     fst (run_requests (call store) (filter is_read_request requests) w) \<and>
   list_all (\<lambda>x. is_read_request (fst x) \<or> not_implemented (snd x))
     (zip requests (fst (run_requests (ro_call call (read_only_store store)) requests w)))"
proof (induction requests arbitrary: w)
  case (Cons r rs)
  show ?case
  proof (cases "is_read_request r")
    case True
    have c: "ro_call call (read_only_store store) r w = call store r w"
      using True by (simp add: ro_call_read read_only_store_def)
    show ?thesis using Cons [of "snd (call store r w)"] True
      by (simp only: run_requests_Cons c zip_Cons_Cons filter.simps list.map list.pred_inject fst_conv snd_conv
          if_True simp_thms)
  next
    case False
    then obtain e where e: "not_implemented (Inl e)" "ro_call call (read_only_store store) r w = (Inl e, w)"
      using ro_call_write [OF False, of call "read_only_store store" w] by blast
    show ?thesis using Cons [of w] False e(1)
      by (simp only: run_requests_Cons e(2) zip_Cons_Cons filter.simps list.map list.pred_inject fst_conv snd_conv
          if_False simp_thms)
  qed
qed simp

end
