(* ===== verification/Storage_Registry.thy ===== *)
theory Storage_Registry
  imports Storage_Handle
begin

text \<open>
  Backend definitions and the registry (\<open>crates/silk-chiffon-storage/src/backend.rs\<close>,
  \<open>backend/binding.rs\<close>, \<open>registry.rs\<close>). The Clap library is a parameter (\<open>'c\<close> a command, \<open>'m\<close> parsed
  matches), and so are the callbacks of a backend: \<open>'t\<close> is its settings type, erased by binding, \<open>'s\<close>
  an object-store client, \<open>'r\<close> the shared retry configuration and \<open>'w\<close> the outside world.
\<close>

section \<open>Access\<close>

datatype storage_access = ReadOnlyAccess | WriteOnlyAccess | ReadWriteAccess

fun access_supports :: "storage_access \<Rightarrow> storage_direction \<Rightarrow> bool" where
  "access_supports ReadOnlyAccess DirectionInput = True"
| "access_supports ReadWriteAccess DirectionInput = True"
| "access_supports WriteOnlyAccess DirectionOutput = True"
| "access_supports ReadWriteAccess DirectionOutput = True"
| "access_supports _ _ = False"

section \<open>Command-line keys\<close>

text \<open>A short option is one character, given as its text.\<close>

datatype cli_argument_key = KeyId string | KeyLong string | KeyShort string

record clap_argument =
  ca_id :: string
  ca_long :: "string option"
  ca_aliases :: "string list option"
  ca_short :: "string option"
  ca_short_aliases :: "string list option"

record 'c clap_ops =
  cl_command_new :: "string \<Rightarrow> 'c"
  cl_arguments :: "'c \<Rightarrow> clap_argument list"
  cl_groups :: "'c \<Rightarrow> string list"
  cl_get_about :: "'c \<Rightarrow> string option"
  cl_about :: "'c \<Rightarrow> string \<Rightarrow> 'c"
  cl_get_long_about :: "'c \<Rightarrow> string option"
  cl_long_about :: "'c \<Rightarrow> string \<Rightarrow> 'c"
  cl_upload_augment :: "'c \<Rightarrow> 'c"
  cl_retry_augment :: "'c \<Rightarrow> 'c"

definition keys_of_argument :: "clap_argument \<Rightarrow> cli_argument_key list" where
  "keys_of_argument a =
     [KeyId (ca_id a)] @
     (case ca_long a of Some long \<Rightarrow> [KeyLong long] | None \<Rightarrow> []) @
     (case ca_aliases a of Some aliases \<Rightarrow> map KeyLong aliases | None \<Rightarrow> []) @
     (case ca_short a of Some short \<Rightarrow> [KeyShort short] | None \<Rightarrow> []) @
     (case ca_short_aliases a of Some aliases \<Rightarrow> map KeyShort aliases | None \<Rightarrow> [])"

definition argument_keys :: "'c clap_ops \<Rightarrow> string \<Rightarrow> ('c \<Rightarrow> 'c) \<Rightarrow> cli_argument_key list" where
  "argument_keys cl name augment =
     (let command = augment (cl_command_new cl name) in
      concat (map keys_of_argument (cl_arguments cl command)) @ map KeyId (cl_groups cl command))"

section \<open>Backends\<close>

record ('u, 'g, 's, 'r, 'w, 't) backend_callbacks =
  cb_map_location :: "(string \<Rightarrow> 't \<Rightarrow> (string, 'u) result) option"
  cb_map_pattern :: "(string \<Rightarrow> 't \<Rightarrow> (string, ('u, 'g) pattern_input) result) option"
  cb_prepare :: "('u, 's) storage_handle \<Rightarrow> output_preparation \<Rightarrow> 't \<Rightarrow> 'w \<Rightarrow> (string, unit) result \<times> 'w"

text \<open>Session-time behaviour: the callbacks with the parsed settings filled in.\<close>

record ('u, 'g, 's, 'r, 'w) backend_binding =
  bn_name :: string
  bn_access :: storage_access
  bn_uses_shared_retries :: bool
  bn_map_location :: "(string \<Rightarrow> (string, 'u) result) option"
  bn_map_pattern :: "(string \<Rightarrow> (string, ('u, 'g) pattern_input) result) option"
  bn_validate :: "'u \<Rightarrow> (string, unit) result"
  bn_create_store :: "'u \<Rightarrow> 'r option \<Rightarrow> 'w \<Rightarrow> (string, 's) result \<times> 'w"
  bn_prepare :: "('u, 's) storage_handle \<Rightarrow> output_preparation \<Rightarrow> 'w \<Rightarrow> (string, unit) result \<times> 'w"

text \<open>Definition-time behaviour, without the settings type.\<close>

record ('u, 'g, 's, 'r, 'w, 'c, 'm) storage_backend =
  sb_name :: string
  sb_schemes :: "string list"
  sb_access :: storage_access
  sb_claims_bare_locations :: bool
  sb_uses_shared_retries :: bool
  sb_augment_args :: "'c \<Rightarrow> 'c"
  sb_argument_keys :: "cli_argument_key list"
  sb_bind :: "'m \<Rightarrow> (string, ('u, 'g, 's, 'r, 'w) backend_binding) result"

record ('u, 'g, 's, 'r, 'w, 't, 'c, 'm) typed_definition =
  td_name :: string
  td_schemes :: "string list"
  td_access :: storage_access
  td_callbacks :: "('u, 'g, 's, 'r, 'w, 't) backend_callbacks"
  td_location_validator :: "'u \<Rightarrow> 't \<Rightarrow> (string, unit) result"
  td_object_store_creator :: "'u \<Rightarrow> 't \<Rightarrow> 'r option \<Rightarrow> 'w \<Rightarrow> (string, 's) result \<times> 'w"
  td_uses_shared_retries :: bool
  td_argument_keys :: "cli_argument_key list"
  td_augment_args :: "'c \<Rightarrow> 'c"
  td_parse_args :: "'m \<Rightarrow> (string, 't) result"

definition bind_typed ::
  "('u, 'g, 's, 'r, 'w, 't, 'c, 'm) typed_definition \<Rightarrow> 'm \<Rightarrow>
   (string, ('u, 'g, 's, 'r, 'w) backend_binding) result" where
  "bind_typed d matches =
     res_bind (td_parse_args d matches) (\<lambda>settings.
       Inr \<lparr>bn_name = td_name d, bn_access = td_access d, bn_uses_shared_retries = td_uses_shared_retries d,
            bn_map_location = map_option (\<lambda>f input. f input settings) (cb_map_location (td_callbacks d)),
            bn_map_pattern = map_option (\<lambda>f input. f input settings) (cb_map_pattern (td_callbacks d)),
            bn_validate = (\<lambda>location. td_location_validator d location settings),
            bn_create_store = (\<lambda>url retry. td_object_store_creator d url settings retry),
            bn_prepare = (\<lambda>target preparation. cb_prepare (td_callbacks d) target preparation settings)\<rparr>)"

definition erase_definition ::
  "('u, 'g, 's, 'r, 'w, 't, 'c, 'm) typed_definition \<Rightarrow> ('u, 'g, 's, 'r, 'w, 'c, 'm) storage_backend" where
  "erase_definition d =
     \<lparr>sb_name = td_name d, sb_schemes = td_schemes d, sb_access = td_access d,
      sb_claims_bare_locations = (cb_map_location (td_callbacks d) \<noteq> None),
      sb_uses_shared_retries = td_uses_shared_retries d, sb_augment_args = td_augment_args d,
      sb_argument_keys = td_argument_keys d, sb_bind = bind_typed d\<rparr>"

section \<open>Building a backend\<close>

datatype backend_build_error =
    MissingName
  | InvalidName string
  | MissingSchemes
  | InvalidScheme string
  | BuildDuplicateScheme string
  | BuildDuplicateCliArgument cli_argument_key
  | MissingAccess
  | MissingLocationValidator
  | BarePatternMapperWithoutBareLocationMapper
  | MissingObjectStoreCreator

record ('u, 'g, 's, 'r, 'w, 't, 'c, 'm) backend_builder =
  bb_name :: "string option"
  bb_schemes :: "string list"
  bb_access :: "storage_access option"
  bb_callbacks :: "('u, 'g, 's, 'r, 'w, 't) backend_callbacks"
  bb_location_validator :: "('u \<Rightarrow> 't \<Rightarrow> (string, unit) result) option"
  bb_object_store_creator :: "('u \<Rightarrow> 't \<Rightarrow> 'r option \<Rightarrow> 'w \<Rightarrow> (string, 's) result \<times> 'w) option"
  bb_uses_shared_retries :: bool
  bb_augment_args :: "'c \<Rightarrow> 'c"
  bb_parse_args :: "'m \<Rightarrow> (string, 't) result"

definition builder_new ::
  "('c \<Rightarrow> 'c) \<Rightarrow> ('m \<Rightarrow> (string, 't) result) \<Rightarrow> ('u, 'g, 's, 'r, 'w, 't, 'c, 'm) backend_builder" where
  "builder_new augment parse =
     \<lparr>bb_name = None, bb_schemes = [], bb_access = None,
      bb_callbacks = \<lparr>cb_map_location = None, cb_map_pattern = None, cb_prepare = (\<lambda>_ _ _ w. (Inr (), w))\<rparr>,
      bb_location_validator = None, bb_object_store_creator = None, bb_uses_shared_retries = False,
      bb_augment_args = augment, bb_parse_args = parse\<rparr>"

definition with_name :: "string \<Rightarrow> ('u, 'g, 's, 'r, 'w, 't, 'c, 'm) backend_builder \<Rightarrow> ('u, 'g, 's, 'r, 'w, 't, 'c, 'm) backend_builder" where
  "with_name name b = b\<lparr>bb_name := Some name\<rparr>"

definition with_schemes :: "string list \<Rightarrow> ('u, 'g, 's, 'r, 'w, 't, 'c, 'm) backend_builder \<Rightarrow> ('u, 'g, 's, 'r, 'w, 't, 'c, 'm) backend_builder" where
  "with_schemes schemes b = b\<lparr>bb_schemes := schemes\<rparr>"

definition with_access :: "storage_access \<Rightarrow> ('u, 'g, 's, 'r, 'w, 't, 'c, 'm) backend_builder \<Rightarrow> ('u, 'g, 's, 'r, 'w, 't, 'c, 'm) backend_builder" where
  "with_access access b = b\<lparr>bb_access := Some access\<rparr>"

definition bare_location_mapper :: "(string \<Rightarrow> 't \<Rightarrow> (string, 'u) result) \<Rightarrow>
   ('u, 'g, 's, 'r, 'w, 't, 'c, 'm) backend_builder \<Rightarrow> ('u, 'g, 's, 'r, 'w, 't, 'c, 'm) backend_builder" where
  "bare_location_mapper mapper b = b\<lparr>bb_callbacks := (bb_callbacks b)\<lparr>cb_map_location := Some mapper\<rparr>\<rparr>"

definition bare_pattern_mapper :: "(string \<Rightarrow> 't \<Rightarrow> (string, ('u, 'g) pattern_input) result) \<Rightarrow>
   ('u, 'g, 's, 'r, 'w, 't, 'c, 'm) backend_builder \<Rightarrow> ('u, 'g, 's, 'r, 'w, 't, 'c, 'm) backend_builder" where
  "bare_pattern_mapper mapper b = b\<lparr>bb_callbacks := (bb_callbacks b)\<lparr>cb_map_pattern := Some mapper\<rparr>\<rparr>"

definition location_validator :: "('u \<Rightarrow> 't \<Rightarrow> (string, unit) result) \<Rightarrow>
   ('u, 'g, 's, 'r, 'w, 't, 'c, 'm) backend_builder \<Rightarrow> ('u, 'g, 's, 'r, 'w, 't, 'c, 'm) backend_builder" where
  "location_validator validator b = b\<lparr>bb_location_validator := Some validator\<rparr>"

definition allow_any_location :: "('u, 'g, 's, 'r, 'w, 't, 'c, 'm) backend_builder \<Rightarrow> ('u, 'g, 's, 'r, 'w, 't, 'c, 'm) backend_builder" where
  "allow_any_location b = b\<lparr>bb_location_validator := Some (\<lambda>_ _. Inr ())\<rparr>"

definition object_store_creator :: "('u \<Rightarrow> 't \<Rightarrow> 'r option \<Rightarrow> 'w \<Rightarrow> (string, 's) result \<times> 'w) \<Rightarrow>
   ('u, 'g, 's, 'r, 'w, 't, 'c, 'm) backend_builder \<Rightarrow> ('u, 'g, 's, 'r, 'w, 't, 'c, 'm) backend_builder" where
  "object_store_creator creator b = b\<lparr>bb_object_store_creator := Some creator\<rparr>"

definition with_prepare_output_target :: "(('u, 's) storage_handle \<Rightarrow> output_preparation \<Rightarrow> 't \<Rightarrow> 'w \<Rightarrow> (string, unit) result \<times> 'w) \<Rightarrow>
   ('u, 'g, 's, 'r, 'w, 't, 'c, 'm) backend_builder \<Rightarrow> ('u, 'g, 's, 'r, 'w, 't, 'c, 'm) backend_builder" where
  "with_prepare_output_target callback b = b\<lparr>bb_callbacks := (bb_callbacks b)\<lparr>cb_prepare := callback\<rparr>\<rparr>"

definition shared_retries :: "('u, 'g, 's, 'r, 'w, 't, 'c, 'm) backend_builder \<Rightarrow> ('u, 'g, 's, 'r, 'w, 't, 'c, 'm) backend_builder" where
  "shared_retries b = b\<lparr>bb_uses_shared_retries := True\<rparr>"

definition valid_backend_name :: "string \<Rightarrow> bool" where
  "valid_backend_name name =
     (case name of [] \<Rightarrow> False
      | c # cs \<Rightarrow> is_ascii_lowercase c \<and>
          list_all (\<lambda>c. is_ascii_lowercase c \<or> is_ascii_digit c \<or> c = CHR ''-'') cs)"

definition valid_scheme :: "string \<Rightarrow> bool" where
  "valid_scheme scheme =
     (case scheme of [] \<Rightarrow> False
      | c # cs \<Rightarrow> is_ascii_lowercase c \<and>
          list_all (\<lambda>c. is_ascii_lowercase c \<or> is_ascii_digit c \<or> c \<in> {CHR ''+'', CHR ''.'', CHR ''-''}) cs)"

fun check_schemes :: "string list \<Rightarrow> string set \<Rightarrow> (backend_build_error, unit) result" where
  "check_schemes [] seen = Inr ()"
| "check_schemes (scheme # rest) seen =
     (if \<not> valid_scheme scheme then Inl (InvalidScheme scheme)
      else if scheme \<in> seen then Inl (BuildDuplicateScheme scheme)
      else check_schemes rest (insert scheme seen))"

fun check_argument_keys :: "cli_argument_key list \<Rightarrow> cli_argument_key set \<Rightarrow> (backend_build_error, unit) result" where
  "check_argument_keys [] seen = Inr ()"
| "check_argument_keys (key # rest) seen =
     (if key \<in> seen then Inl (BuildDuplicateCliArgument key)
      else check_argument_keys rest (insert key seen))"

definition backend_build ::
  "'c clap_ops \<Rightarrow> ('u, 'g, 's, 'r, 'w, 't, 'c, 'm) backend_builder \<Rightarrow>
   (backend_build_error, ('u, 'g, 's, 'r, 'w, 'c, 'm) storage_backend) result" where
  "backend_build cl b =
     res_bind (ok_or MissingName (bb_name b)) (\<lambda>name.
     if \<not> valid_backend_name name then Inl (InvalidName name)
     else if bb_schemes b = [] then Inl MissingSchemes
     else res_bind (check_schemes (bb_schemes b) {}) (\<lambda>_.
       let keys = argument_keys cl name (bb_augment_args b) in
       res_bind (check_argument_keys keys {}) (\<lambda>_.
       res_bind (ok_or MissingAccess (bb_access b)) (\<lambda>access.
       if cb_map_pattern (bb_callbacks b) \<noteq> None \<and> cb_map_location (bb_callbacks b) = None
       then Inl BarePatternMapperWithoutBareLocationMapper
       else res_bind (ok_or MissingLocationValidator (bb_location_validator b)) (\<lambda>validator.
            res_bind (ok_or MissingObjectStoreCreator (bb_object_store_creator b)) (\<lambda>creator.
              Inr (erase_definition
                \<lparr>td_name = name, td_schemes = bb_schemes b, td_access = access, td_callbacks = bb_callbacks b,
                 td_location_validator = validator, td_object_store_creator = creator,
                 td_uses_shared_retries = bb_uses_shared_retries b, td_argument_keys = keys,
                 td_augment_args = bb_augment_args b, td_parse_args = bb_parse_args b\<rparr>)))))))"

section \<open>The registry\<close>

datatype registry_error =
    DuplicateBackendName string nat
  | DuplicateScheme string "string list"
  | DuplicateCliArgument cli_argument_key "string list"
  | MultipleBareLocationBackends "string list"

record routing_index =
  ri_by_scheme :: "string \<Rightarrow> nat option"
  ri_bare :: "nat option"

record ('u, 'g, 's, 'r, 'w, 'c, 'm) storage_registry =
  sr_backends :: "('u, 'g, 's, 'r, 'w, 'c, 'm) storage_backend list"
  sr_routing :: routing_index
  sr_uses_shared_retries :: bool

text \<open>Names with their number of occurrences, and claims with their claimants; both keep the order of first insertion.\<close>

type_synonym name_counts = "(string \<Rightarrow> nat) \<times> string list"
type_synonym 'k claims = "('k \<Rightarrow> string list option) \<times> 'k list"

definition count_name :: "string \<Rightarrow> unit \<Rightarrow> name_counts \<Rightarrow> name_counts" where
  "count_name name u t =
     (case t of (counts, order) \<Rightarrow>
        (counts(name := counts name + 1), if counts name = 0 then order @ [name] else order))"

definition add_claim :: "'k \<Rightarrow> string \<Rightarrow> 'k claims \<Rightarrow> 'k claims" where
  "add_claim key contributor t =
     (case t of (claims, order) \<Rightarrow>
        (claims(key \<mapsto> (case claims key of Some cs \<Rightarrow> cs | None \<Rightarrow> []) @ [contributor]),
         if claims key = None then order @ [key] else order))"

fun add_cli_claims :: "'k claims \<Rightarrow> string \<Rightarrow> 'k list \<Rightarrow> 'k claims" where
  "add_cli_claims t contributor [] = t"
| "add_cli_claims t contributor (key # keys) = add_cli_claims (add_claim key contributor t) contributor keys"

definition first_conflict :: "'k claims \<Rightarrow> ('k \<times> string list) option" where
  "first_conflict t =
     (case find (\<lambda>k. 1 < length (the (fst t k))) (snd t) of
        Some k \<Rightarrow> Some (k, the (fst t k)) | None \<Rightarrow> None)"

definition validate_backend_names ::
  "('u, 'g, 's, 'r, 'w, 'c, 'm) storage_backend list \<Rightarrow> (registry_error, unit) result" where
  "validate_backend_names backends =
     (let t = fold (\<lambda>b. count_name (sb_name b) ()) backends ((\<lambda>_. 0), []) in
      case find (\<lambda>name. 1 < fst t name) (snd t) of
        Some name \<Rightarrow> Inl (DuplicateBackendName name (fst t name))
      | None \<Rightarrow> Inr ())"

definition validate_schemes ::
  "('u, 'g, 's, 'r, 'w, 'c, 'm) storage_backend list \<Rightarrow> (registry_error, unit) result" where
  "validate_schemes backends =
     (case first_conflict
         (fold (\<lambda>b t. fold (\<lambda>scheme. add_claim scheme (sb_name b)) (sb_schemes b) t) backends ((\<lambda>_. None), [])) of
        Some (scheme, claimants) \<Rightarrow> Inl (DuplicateScheme scheme claimants)
      | None \<Rightarrow> Inr ())"

definition validate_cli_arguments ::
  "'c clap_ops \<Rightarrow> ('u, 'g, 's, 'r, 'w, 'c, 'm) storage_backend list \<Rightarrow> bool \<Rightarrow> (registry_error, unit) result" where
  "validate_cli_arguments cl backends uses_shared_retries =
     (let t = add_cli_claims ((\<lambda>_. None), []) ''shared object uploads''
                (argument_keys cl ''shared object uploads'' (cl_upload_augment cl));
          t = (if uses_shared_retries
               then add_cli_claims t ''shared storage retries''
                 (argument_keys cl ''shared storage retries'' (cl_retry_augment cl))
               else t);
          t = fold (\<lambda>b t. add_cli_claims t (sb_name b) (sb_argument_keys b)) backends t in
      case first_conflict t of
        Some (key, contributors) \<Rightarrow> Inl (DuplicateCliArgument key contributors)
      | None \<Rightarrow> Inr ())"

definition validate_bare_location_claim ::
  "('u, 'g, 's, 'r, 'w, 'c, 'm) storage_backend list \<Rightarrow> (registry_error, unit) result" where
  "validate_bare_location_claim backends =
     (let claimants = map sb_name (filter sb_claims_bare_locations backends) in
      if 1 < length claimants then Inl (MultipleBareLocationBackends claimants) else Inr ())"

definition index_backend ::
  "nat \<times> ('u, 'g, 's, 'r, 'w, 'c, 'm) storage_backend \<Rightarrow> routing_index \<Rightarrow> routing_index" where
  "index_backend ib r =
     (case ib of (i, b) \<Rightarrow>
        \<lparr>ri_by_scheme = fold (\<lambda>scheme m. m(scheme \<mapsto> i)) (sb_schemes b) (ri_by_scheme r),
         ri_bare = (if sb_claims_bare_locations b then Some i else ri_bare r)\<rparr>)"

definition registry_from_backends ::
  "'c clap_ops \<Rightarrow> ('u, 'g, 's, 'r, 'w, 'c, 'm) storage_backend list \<Rightarrow>
   (registry_error, ('u, 'g, 's, 'r, 'w, 'c, 'm) storage_registry) result" where
  "registry_from_backends cl backends =
     res_bind (validate_backend_names backends) (\<lambda>_.
     res_bind (validate_schemes backends) (\<lambda>_.
       let uses_shared_retries = list_ex sb_uses_shared_retries backends in
       res_bind (validate_cli_arguments cl backends uses_shared_retries) (\<lambda>_.
       res_bind (validate_bare_location_claim backends) (\<lambda>_.
         Inr \<lparr>sr_backends = backends,
              sr_routing = fold index_backend (enumerate 0 backends) \<lparr>ri_by_scheme = (\<lambda>_. None), ri_bare = None\<rparr>,
              sr_uses_shared_retries = uses_shared_retries\<rparr>))))"

definition by_scheme ::
  "('u, 'g, 's, 'r, 'w, 'c, 'm) storage_registry \<Rightarrow> string \<Rightarrow> ('u, 'g, 's, 'r, 'w, 'c, 'm) storage_backend option" where
  "by_scheme reg scheme = map_option (\<lambda>i. sr_backends reg ! i) (ri_by_scheme (sr_routing reg) scheme)"

definition bare_location_backend ::
  "('u, 'g, 's, 'r, 'w, 'c, 'm) storage_registry \<Rightarrow> ('u, 'g, 's, 'r, 'w, 'c, 'm) storage_backend option" where
  "bare_location_backend reg = map_option (\<lambda>i. sr_backends reg ! i) (ri_bare (sr_routing reg))"

definition registry_augment_args :: "'c clap_ops \<Rightarrow> ('u, 'g, 's, 'r, 'w, 'c, 'm) storage_registry \<Rightarrow> 'c \<Rightarrow> 'c" where
  "registry_augment_args cl reg command =
     (let host_about = cl_get_about cl command;
          host_long_about = cl_get_long_about cl command;
          command = cl_upload_augment cl command;
          command = (if sr_uses_shared_retries reg then cl_retry_augment cl command else command);
          command = fold (\<lambda>b. sb_augment_args b) (sr_backends reg) command;
          command = (case host_about of Some about \<Rightarrow> cl_about cl command about | None \<Rightarrow> command) in
      (case host_long_about of Some about \<Rightarrow> cl_long_about cl command about | None \<Rightarrow> command))"

fun bind_all ::
  "('u, 'g, 's, 'r, 'w, 'c, 'm) storage_backend list \<Rightarrow> 'm \<Rightarrow>
   (string, ('u, 'g, 's, 'r, 'w) backend_binding list) result" where
  "bind_all [] matches = Inr []"
| "bind_all (b # bs) matches =
     res_bind (sb_bind b matches) (\<lambda>x. res_bind (bind_all bs matches) (\<lambda>xs. Inr (x # xs)))"


section \<open>Claims in order of first insertion\<close>

text \<open>
  The interface of the name counts and of the claims: adding a claim appends its claimant and lists a
  new key last. Its client is the search for the first key with more than one claimant.
\<close>

locale claim_index =
  fixes add :: "'k \<Rightarrow> 'v \<Rightarrow> 's \<Rightarrow> 's"
    and order :: "'s \<Rightarrow> 'k list"
    and claimants :: "'s \<Rightarrow> 'k \<Rightarrow> 'v list"
    and well_formed :: "'s \<Rightarrow> bool"
  assumes well_formed_add: "well_formed t \<Longrightarrow> well_formed (add k v t)"
    and order_add: "well_formed t \<Longrightarrow> order (add k v t) = (if k \<in> set (order t) then order t else order t @ [k])"
    and claimants_add: "claimants (add k v t) k' = (if k' = k then claimants t k' @ [v] else claimants t k')"
begin

definition add_all :: "('k \<times> 'v) list \<Rightarrow> 's \<Rightarrow> 's" where
  "add_all ps t = fold (\<lambda>(k, v). add k v) ps t"

lemma add_all_simps [simp]:
  "add_all [] t = t"
  "add_all (ps @ [(k, v)]) t = add k v (add_all ps t)"
  by (simp_all add: add_all_def)

lemma add_all_append: "add_all (ps @ qs) t = add_all qs (add_all ps t)"
  by (simp add: add_all_def)

lemma well_formed_add_all: "well_formed t \<Longrightarrow> well_formed (add_all ps t)"
  by (induction ps rule: rev_induct) (auto simp: well_formed_add)

lemma claimants_add_all:
  "claimants (add_all ps t) k = claimants t k @ map snd (filter (\<lambda>p. fst p = k) ps)"
  by (induction ps rule: rev_induct) (auto simp: claimants_add)

lemma order_add_all:
  assumes "well_formed t" "order t = []"
  shows "set (order (add_all ps t)) = fst ` set ps \<and> find P (order (add_all ps t)) = find P (map fst ps)"
proof (induction ps rule: rev_induct)
  case Nil
  then show ?case using assms by simp
next
  case (snoc p ps)
  obtain k v where p: "p = (k, v)" by (cases p)
  have find_snoc: "find P (xs @ [x]) = (case find P xs of Some y \<Rightarrow> Some y | None \<Rightarrow> if P x then Some x else None)"
    for xs x by (induction xs) auto
  have "find P (map fst ps) = None \<Longrightarrow> k \<in> fst ` set ps \<Longrightarrow> \<not> P k"
    by (auto simp: find_None_iff)
  then show ?case
    using snoc order_add [OF well_formed_add_all [OF assms(1), of ps], of k v] p
    by (auto simp: find_snoc split: option.splits)
qed

text \<open>The first conflict among a list of claims, in the order they were made.\<close>

lemma first_conflict_find:
  assumes "well_formed t" "order t = []" "\<And>k. claimants t k = []"
  shows "find (\<lambda>k. 1 < length (claimants (add_all ps t) k)) (order (add_all ps t)) =
    find (\<lambda>k. 1 < count_list (map fst ps) k) (map fst ps)"
proof -
  have "length (claimants (add_all ps t) k) = count_list (map fst ps) k" for k
    by (simp add: claimants_add_all assms(3) count_list_eq_length_filter filter_map o_def eq_commute)
  then show ?thesis using order_add_all [OF assms(1,2)] by simp
qed

end

definition claimants_of :: "'k claims \<Rightarrow> 'k \<Rightarrow> string list" where
  "claimants_of t k = (case fst t k of Some cs \<Rightarrow> cs | None \<Rightarrow> [])"

definition claims_well_formed :: "'k claims \<Rightarrow> bool" where
  "claims_well_formed t \<longleftrightarrow> (\<forall>k. k \<in> set (snd t) \<longleftrightarrow> fst t k \<noteq> None)"

definition counts_well_formed :: "name_counts \<Rightarrow> bool" where
  "counts_well_formed t \<longleftrightarrow> (\<forall>k. k \<in> set (snd t) \<longleftrightarrow> 0 < fst t k)"

interpretation names: claim_index count_name snd "\<lambda>t n. replicate (fst t n) ()" counts_well_formed
  by unfold_locales
    (auto simp: count_name_def counts_well_formed_def replicate_append_same [symmetric] split: prod.splits)

interpretation claims: claim_index add_claim snd claimants_of claims_well_formed
  by unfold_locales
    (auto simp: add_claim_def claimants_of_def claims_well_formed_def split: prod.splits option.splits)

lemma count_list_distinct: "distinct xs \<Longrightarrow> count_list xs k \<le> 1"
  by (induction xs) (auto simp: count_list_0_iff)

lemma find_unique_distinct:
  "find (\<lambda>k. 1 < count_list xs k) xs = None \<longleftrightarrow> distinct xs"
proof
  assume n: "find (\<lambda>k. 1 < count_list xs k) xs = None"
  have "\<And>k. k \<in> set xs \<Longrightarrow> count_list xs k = 1"
    using n by (metis count_list_0_iff find_None_iff less_one linorder_neqE_nat)
  then show "distinct xs"
  proof (induction xs)
    case (Cons x xs)
    have "x \<notin> set xs"
      using Cons.prems [of x] by (simp add: count_list_0_iff)
    moreover have "count_list xs k = 1" if "k \<in> set xs" for k
      using Cons.prems [of k] that \<open>x \<notin> set xs\<close> by (auto split: if_splits)
    ultimately show ?case using Cons.IH by simp
  qed simp
next
  assume "distinct xs"
  then show "find (\<lambda>k. 1 < count_list xs k) xs = None"
    using count_list_distinct [of xs] by (fastforce simp: find_None_iff not_less)
qed

definition name_pairs :: "('u, 'g, 's, 'r, 'w, 'c, 'm) storage_backend list \<Rightarrow> (string \<times> unit) list" where
  "name_pairs backends = map (\<lambda>b. (sb_name b, ())) backends"

definition scheme_pairs :: "('u, 'g, 's, 'r, 'w, 'c, 'm) storage_backend list \<Rightarrow> (string \<times> string) list" where
  "scheme_pairs backends = concat (map (\<lambda>b. map (\<lambda>s. (s, sb_name b)) (sb_schemes b)) backends)"

definition cli_pairs ::
  "'c clap_ops \<Rightarrow> ('u, 'g, 's, 'r, 'w, 'c, 'm) storage_backend list \<Rightarrow> bool \<Rightarrow> (cli_argument_key \<times> string) list" where
  "cli_pairs cl backends shared =
     map (\<lambda>k. (k, ''shared object uploads'')) (argument_keys cl ''shared object uploads'' (cl_upload_augment cl)) @
     (if shared
      then map (\<lambda>k. (k, ''shared storage retries'')) (argument_keys cl ''shared storage retries'' (cl_retry_augment cl))
      else []) @
     concat (map (\<lambda>b. map (\<lambda>k. (k, sb_name b)) (sb_argument_keys b)) backends)"

lemma add_cli_claims_all: "add_cli_claims t contributor keys = claims.add_all (map (\<lambda>k. (k, contributor)) keys) t"
  by (induction t contributor keys rule: add_cli_claims.induct) (simp_all add: claims.add_all_def)

lemma fold_add_all:
  "fold (\<lambda>b t. claims.add_all (f b) t) bs t = claims.add_all (concat (map f bs)) t"
  by (induction bs arbitrary: t) (simp_all add: claims.add_all_append)

lemma first_conflict_add_all:
  "first_conflict (claims.add_all ps ((\<lambda>_. None), [])) =
     map_option (\<lambda>k. (k, map snd (filter (\<lambda>p. fst p = k) ps)))
       (find (\<lambda>k. 1 < count_list (map fst ps) k) (map fst ps))"
proof -
  let ?t = "claims.add_all ps ((\<lambda>_. None), [])"
  have e: "claims_well_formed ((\<lambda>_. None), [])" "snd ((\<lambda>_. None), []) = []"
    "\<And>k. claimants_of ((\<lambda>_. None), []) k = []"
    by (simp_all add: claims_well_formed_def claimants_of_def)
  have wf: "claims_well_formed ?t" by (rule claims.well_formed_add_all [OF e(1)])
  have c: "claimants_of ?t k = map snd (filter (\<lambda>p. fst p = k) ps)" for k
    by (simp add: claims.claimants_add_all e(3))
  have the: "the (fst ?t k) = claimants_of ?t k" if "k \<in> set (snd ?t)" for k
    using wf that by (cases "fst ?t k") (simp_all add: claims_well_formed_def claimants_of_def)
  have "find (\<lambda>k. 1 < length (the (fst ?t k))) (snd ?t) = find (\<lambda>k. 1 < length (claimants_of ?t k)) (snd ?t)"
    using the by (intro find_cong) auto
  also have "\<dots> = find (\<lambda>k. 1 < count_list (map fst ps) k) (map fst ps)"
    by (rule claims.first_conflict_find [OF e])
  finally have f: "find (\<lambda>k. 1 < length (the (fst ?t k))) (snd ?t) =
    find (\<lambda>k. 1 < count_list (map fst ps) k) (map fst ps)" .
  show ?thesis
  proof (cases "find (\<lambda>k. 1 < length (the (fst ?t k))) (snd ?t)")
    case (Some k)
    then have k: "k \<in> set (snd ?t)" by (auto simp: find_Some_iff)
    show ?thesis unfolding first_conflict_def f [symmetric] Some using the [OF k] c by simp
  qed (use f in \<open>simp add: first_conflict_def\<close>)
qed


section \<open>What each validation reports\<close>

lemma validate_backend_names_find:
  "validate_backend_names backends =
     (case find (\<lambda>n. 1 < count_list (map sb_name backends) n) (map sb_name backends) of
        Some n \<Rightarrow> Inl (DuplicateBackendName n (count_list (map sb_name backends) n)) | None \<Rightarrow> Inr ())"
proof -
  let ?ps = "name_pairs backends" and ?e = "((\<lambda>_. 0), []) :: name_counts"
  have t: "fold (\<lambda>b. count_name (sb_name b) ()) backends ?e = names.add_all ?ps ?e"
    by (simp add: names.add_all_def name_pairs_def fold_map o_def)
  have keys: "map fst ?ps = map sb_name backends" by (simp add: name_pairs_def)
  have e: "counts_well_formed ?e" "snd ?e = []" "\<And>k. replicate (fst ?e k) () = []"
    by (simp_all add: counts_well_formed_def)
  have "length (replicate (fst (names.add_all ?ps ?e) k) ()) = count_list (map sb_name backends) k" for k
    unfolding names.claimants_add_all keys [symmetric]
    by (simp add: count_list_eq_length_filter filter_map o_def eq_commute)
  then have count: "fst (names.add_all ?ps ?e) k = count_list (map sb_name backends) k" for k by simp
  show ?thesis
    using names.first_conflict_find [OF e, of ?ps]
    unfolding validate_backend_names_def Let_def t length_replicate count keys by simp
qed

lemma validate_schemes_find:
  "validate_schemes backends =
     (case find (\<lambda>s. 1 < count_list (concat (map sb_schemes backends)) s) (concat (map sb_schemes backends)) of
        Some s \<Rightarrow> Inl (DuplicateScheme s (map snd (filter (\<lambda>p. fst p = s) (scheme_pairs backends)))) | None \<Rightarrow> Inr ())"
proof -
  have keys: "map fst (scheme_pairs backends) = concat (map sb_schemes backends)"
    by (simp add: scheme_pairs_def map_concat o_def)
  have t: "fold (\<lambda>b t. fold (\<lambda>scheme. add_claim scheme (sb_name b)) (sb_schemes b) t) backends e =
      claims.add_all (scheme_pairs backends) e" for e
    by (induction backends arbitrary: e)
      (simp_all add: scheme_pairs_def claims.add_all_def fold_map o_def)
  show ?thesis
    unfolding validate_schemes_def t first_conflict_add_all keys by (simp split: option.splits)
qed

lemma validate_cli_arguments_find:
  "validate_cli_arguments cl backends shared =
     (case find (\<lambda>k. 1 < count_list (map fst (cli_pairs cl backends shared)) k) (map fst (cli_pairs cl backends shared)) of
        Some k \<Rightarrow> Inl (DuplicateCliArgument k (map snd (filter (\<lambda>p. fst p = k) (cli_pairs cl backends shared))))
      | None \<Rightarrow> Inr ())"
proof -
  have "fold (\<lambda>b t. add_cli_claims t (sb_name b) (sb_argument_keys b)) backends
      (if shared
       then add_cli_claims (add_cli_claims ((\<lambda>_. None), []) ''shared object uploads''
           (argument_keys cl ''shared object uploads'' (cl_upload_augment cl))) ''shared storage retries''
         (argument_keys cl ''shared storage retries'' (cl_retry_augment cl))
       else add_cli_claims ((\<lambda>_. None), []) ''shared object uploads''
         (argument_keys cl ''shared object uploads'' (cl_upload_augment cl))) =
    claims.add_all (cli_pairs cl backends shared) ((\<lambda>_. None), [])"
    by (cases shared) (simp_all only: add_cli_claims_all fold_add_all cli_pairs_def claims.add_all_append
      if_True if_False append_Nil)
  then show ?thesis
    unfolding validate_cli_arguments_def Let_def by (simp add: first_conflict_add_all split: option.splits)
qed

subsection \<open>The routing index\<close>

lemma fold_scheme_index:
  "fold (\<lambda>scheme m. m(scheme \<mapsto> i)) ss m s = (if s \<in> set ss then Some i else m s)"
  by (induction ss arbitrary: m) auto

lemma index_backend_step:
  "ri_by_scheme (index_backend (i, b) r) s = (if s \<in> set (sb_schemes b) then Some i else ri_by_scheme r s)"
  "ri_bare (index_backend (i, b) r) = (if sb_claims_bare_locations b then Some i else ri_bare r)"
  by (simp_all add: index_backend_def fold_scheme_index)

lemma index_backends:
  assumes "distinct (concat (map sb_schemes backends))" "length (filter sb_claims_bare_locations backends) \<le> 1"
  defines "r \<equiv> fold index_backend (enumerate 0 backends) \<lparr>ri_by_scheme = (\<lambda>_. None), ri_bare = None\<rparr>"
  shows "(ri_by_scheme r s = Some i \<longleftrightarrow> i < length backends \<and> s \<in> set (sb_schemes (backends ! i))) \<and>
    (ri_bare r = Some i \<longleftrightarrow> i < length backends \<and> sb_claims_bare_locations (backends ! i))"
  using assms(1,2) unfolding r_def
proof (induction backends arbitrary: i rule: rev_induct)
  case Nil
  then show ?case by simp
next
  case (snoc b bs)
  let ?r = "fold index_backend (enumerate 0 bs) \<lparr>ri_by_scheme = (\<lambda>_. None), ri_bare = None\<rparr>"
  have step: "fold index_backend (enumerate 0 (bs @ [b])) \<lparr>ri_by_scheme = (\<lambda>_. None), ri_bare = None\<rparr> =
      index_backend (length bs, b) ?r"
    by (simp add: enumerate_append_eq)
  have IH: "(ri_by_scheme ?r s = Some j \<longleftrightarrow> j < length bs \<and> s \<in> set (sb_schemes (bs ! j))) \<and>
      (ri_bare ?r = Some j \<longleftrightarrow> j < length bs \<and> sb_claims_bare_locations (bs ! j))" for j
    using snoc.IH [of j] snoc.prems by auto
  have other: "s \<notin> set (sb_schemes (bs ! j))" if "s \<in> set (sb_schemes b)" "j < length bs" for j
  proof -
    have "bs ! j \<in> set bs" using that(2) by simp
    then show ?thesis using snoc.prems(1) that(1) by fastforce
  qed
  have bare: "\<not> sb_claims_bare_locations (bs ! j)" if "sb_claims_bare_locations b" "j < length bs" for j
  proof -
    have "bs ! j \<in> set bs" using that(2) by simp
    then show ?thesis using snoc.prems(2) that(1) by (auto simp: filter_empty_conv)
  qed
  show ?case
    unfolding step index_backend_step
    using IH other bare
    by (cases "i < length bs"; cases "i = length bs") (auto simp: nth_append)
qed

lemma registry_from_backends_Inr:
  assumes "registry_from_backends cl backends = Inr reg"
  shows "sr_backends reg = backends \<and> distinct (map sb_name backends) \<and> distinct (concat (map sb_schemes backends)) \<and>
    distinct (map fst (cli_pairs cl backends (list_ex sb_uses_shared_retries backends))) \<and>
    length (filter sb_claims_bare_locations backends) \<le> 1 \<and>
    sr_uses_shared_retries reg = list_ex sb_uses_shared_retries backends \<and>
    sr_routing reg = fold index_backend (enumerate 0 backends) \<lparr>ri_by_scheme = (\<lambda>_. None), ri_bare = None\<rparr>"
  using assms
  by (auto simp: registry_from_backends_def res_bind_Inr_conv validate_backend_names_find validate_schemes_find
      validate_cli_arguments_find validate_bare_location_claim_def Let_def find_unique_distinct [unfolded One_nat_def]
      split: option.splits if_splits)

lemma registry_routes:
  assumes "registry_from_backends cl backends = Inr reg"
  shows "ri_by_scheme (sr_routing reg) s = Some i \<longleftrightarrow> i < length backends \<and> s \<in> set (sb_schemes (backends ! i))"
    and "ri_bare (sr_routing reg) = Some i \<longleftrightarrow> i < length backends \<and> sb_claims_bare_locations (backends ! i)"
  using registry_from_backends_Inr [OF assms] index_backends [of backends s i] by auto


subsection \<open>Building\<close>

lemma check_schemes_Inr:
  "check_schemes ss seen = Inr u \<longleftrightarrow> list_all valid_scheme ss \<and> distinct ss \<and> set ss \<inter> seen = {}"
  by (induction ss seen rule: check_schemes.induct) auto

lemma check_argument_keys_Inr:
  "check_argument_keys ks seen = Inr u \<longleftrightarrow> distinct ks \<and> set ks \<inter> seen = {}"
  by (induction ks seen rule: check_argument_keys.induct) auto

text \<open>What a builder must hold for its definition to be complete and unambiguous.\<close>

definition builder_complete :: "'c clap_ops \<Rightarrow> ('u, 'g, 's, 'r, 'w, 't, 'c, 'm) backend_builder \<Rightarrow> bool" where
  "builder_complete cl b \<longleftrightarrow>
     (case bb_name b of None \<Rightarrow> False
      | Some name \<Rightarrow> valid_backend_name name \<and> distinct (argument_keys cl name (bb_augment_args b))) \<and>
     bb_schemes b \<noteq> [] \<and> list_all valid_scheme (bb_schemes b) \<and> distinct (bb_schemes b) \<and>
     bb_access b \<noteq> None \<and> bb_location_validator b \<noteq> None \<and> bb_object_store_creator b \<noteq> None \<and>
     (cb_map_pattern (bb_callbacks b) = None \<or> cb_map_location (bb_callbacks b) \<noteq> None)"

lemma backend_build_Inr:
  assumes "backend_build cl b = Inr sb"
  shows "builder_complete cl b \<and> bb_name b = Some (sb_name sb) \<and> sb_schemes sb = bb_schemes b \<and>
    bb_access b = Some (sb_access sb) \<and> sb_uses_shared_retries sb = bb_uses_shared_retries b \<and>
    sb_argument_keys sb = argument_keys cl (sb_name sb) (bb_augment_args b) \<and>
    sb_claims_bare_locations sb = (cb_map_location (bb_callbacks b) \<noteq> None)"
  using assms
  by (auto simp: backend_build_def builder_complete_def res_bind_Inr_conv ok_or_Inr_conv check_schemes_Inr
      check_argument_keys_Inr erase_definition_def Let_def split: if_splits)

lemma backend_build_binds:
  assumes "backend_build cl b = Inr sb" "sb_bind sb matches = Inr bn"
  shows "bn_name bn = sb_name sb \<and> bn_access bn = sb_access sb \<and>
    bn_uses_shared_retries bn = sb_uses_shared_retries sb \<and>
    (bn_map_location bn = None \<longleftrightarrow> \<not> sb_claims_bare_locations sb) \<and>
    (bn_map_pattern bn = None \<or> sb_claims_bare_locations sb)"
  using assms
  by (auto simp: backend_build_def res_bind_Inr_conv ok_or_Inr_conv check_schemes_Inr
      check_argument_keys_Inr erase_definition_def bind_typed_def Let_def split: if_splits)

lemma backend_build_ok: "is_ok (backend_build cl b) \<longleftrightarrow> builder_complete cl b"
proof
  show "is_ok (backend_build cl b) \<Longrightarrow> builder_complete cl b"
    unfolding is_ok_conv using backend_build_Inr by blast
next
  assume c: "builder_complete cl b"
  then obtain name access validator creator where
    "bb_name b = Some name" "bb_access b = Some access" "bb_location_validator b = Some validator"
    "bb_object_store_creator b = Some creator"
    by (auto simp: builder_complete_def split: option.splits)
  moreover have "check_schemes (bb_schemes b) {} = Inr ()"
    using c by (simp add: check_schemes_Inr builder_complete_def)
  moreover have "check_argument_keys (argument_keys cl name (bb_augment_args b)) {} = Inr ()"
    using c \<open>bb_name b = Some name\<close> by (simp add: check_argument_keys_Inr builder_complete_def)
  ultimately show "is_ok (backend_build cl b)"
    using c by (auto simp: backend_build_def builder_complete_def Let_def)
qed

section \<open>Properties\<close>

text \<open>
  A registry is built exactly from a set of backends without conflicts, and a refused set is
  reported by its first conflict: names before schemes before command-line keys before the bare route,
  the earliest repeated item in registration order, with its number of occurrences or all of its
  claimants in order.
\<close>

theorem registry_reports_the_first_conflict:
  "case registry_from_backends cl backends of
     Inr reg \<Rightarrow> sr_backends reg = backends \<and> distinct (map sb_name backends) \<and>
       distinct (concat (map sb_schemes backends)) \<and>
       distinct (map fst (cli_pairs cl backends (list_ex sb_uses_shared_retries backends))) \<and>
       length (filter sb_claims_bare_locations backends) \<le> 1
   | Inl (DuplicateBackendName name n) \<Rightarrow>
       find (\<lambda>k. 1 < count_list (map sb_name backends) k) (map sb_name backends) = Some name \<and>
       n = count_list (map sb_name backends) name
   | Inl (DuplicateScheme scheme claimants) \<Rightarrow> distinct (map sb_name backends) \<and>
       find (\<lambda>k. 1 < count_list (concat (map sb_schemes backends)) k) (concat (map sb_schemes backends)) = Some scheme \<and>
       claimants = map snd (filter (\<lambda>p. fst p = scheme) (scheme_pairs backends))
   | Inl (DuplicateCliArgument key contributors) \<Rightarrow> distinct (map sb_name backends) \<and>
       distinct (concat (map sb_schemes backends)) \<and>
       (let pairs = cli_pairs cl backends (list_ex sb_uses_shared_retries backends) in
        find (\<lambda>k. 1 < count_list (map fst pairs) k) (map fst pairs) = Some key \<and>
        contributors = map snd (filter (\<lambda>p. fst p = key) pairs))
   | Inl (MultipleBareLocationBackends claimants) \<Rightarrow> distinct (map sb_name backends) \<and>
       distinct (concat (map sb_schemes backends)) \<and>
       distinct (map fst (cli_pairs cl backends (list_ex sb_uses_shared_retries backends))) \<and>
       claimants = map sb_name (filter sb_claims_bare_locations backends) \<and> 1 < length claimants"
proof (cases "registry_from_backends cl backends")
  case (Inr reg)
  then show ?thesis using registry_from_backends_Inr [OF Inr] by simp
next
  case (Inl e)
  then show ?thesis
    unfolding registry_from_backends_def validate_backend_names_find validate_schemes_find
      validate_cli_arguments_find validate_bare_location_claim_def Let_def find_unique_distinct [symmetric]
    by (auto split: option.splits if_splits)
qed

text \<open>
  In a registry a URL scheme is served by exactly the one registered backend that claims it, and
  schemeless input by exactly the one that claims the bare route; a scheme no backend claims is not
  found, whatever its spelling.
\<close>

theorem registry_routes_to_the_claimant:
  assumes "registry_from_backends cl backends = Inr reg"
  shows "(by_scheme reg scheme = Some b \<longleftrightarrow> b \<in> set backends \<and> scheme \<in> set (sb_schemes b)) \<and>
    (bare_location_backend reg = Some b \<longleftrightarrow> b \<in> set backends \<and> sb_claims_bare_locations b)"
  using registry_routes [OF assms] registry_from_backends_Inr [OF assms]
  by (auto simp: by_scheme_def bare_location_backend_def in_set_conv_nth map_option_eq_Some)

text \<open>
  A backend definition is accepted exactly when it is complete: a canonical name, at least one
  canonical scheme and no scheme or command-line key twice, an access declaration, a validator, a store
  creator, and a bare-pattern mapper only together with a bare-location mapper.
\<close>

theorem backend_build_accepts_complete_definitions:
  "is_ok (backend_build cl b) = builder_complete cl b"
  by (rule backend_build_ok)

text \<open>
  Erasing the settings type loses nothing: the binding of a built backend carries the definition's
  name, access and retry choice, it maps bare locations exactly when the definition claims the bare
  route (so the session's lookup of the mapper cannot fail), and it maps bare patterns only then.
\<close>

theorem binding_keeps_the_definition:
  assumes "backend_build cl b = Inr sb" and "sb_bind sb matches = Inr bn"
  shows "bn_name bn = sb_name sb \<and> bn_access bn = sb_access sb \<and>
    bn_uses_shared_retries bn = sb_uses_shared_retries sb \<and>
    (bn_map_location bn = None \<longleftrightarrow> \<not> sb_claims_bare_locations sb) \<and>
    (bn_map_pattern bn = None \<or> sb_claims_bare_locations sb)"
  by (rule backend_build_binds [OF assms])

section \<open>Concrete backends\<close>

definition tiny_clap :: "clap_argument list clap_ops" where
  "tiny_clap = \<lparr>cl_command_new = (\<lambda>_. []), cl_arguments = id, cl_groups = (\<lambda>_. []),
     cl_get_about = (\<lambda>_. None), cl_about = (\<lambda>c _. c), cl_get_long_about = (\<lambda>_. None), cl_long_about = (\<lambda>c _. c),
     cl_upload_augment = (\<lambda>c. c @ [\<lparr>ca_id = ''part'', ca_long = Some ''part-size'', ca_aliases = None,
       ca_short = None, ca_short_aliases = None\<rparr>]),
     cl_retry_augment = id\<rparr>"

type_synonym tiny_world = nat

definition tiny_builder ::
  "string \<Rightarrow> string \<Rightarrow> bool \<Rightarrow>
   (string, string, nat, unit, tiny_world, unit, clap_argument list, unit) backend_builder" where
  "tiny_builder name scheme bare =
     (if bare then bare_location_mapper (\<lambda>s _. Inr (scheme @ ''://'' @ s)) else id)
       (object_store_creator (\<lambda>_ _ _ w. (Inr w, w + 1))
         (allow_any_location (with_access ReadWriteAccess (with_schemes [scheme] (with_name name
           (builder_new id (\<lambda>_. Inr ())))))))"

definition tiny_backend ::
  "string \<Rightarrow> string \<Rightarrow> bool \<Rightarrow>
   (string, string, nat, unit, tiny_world, clap_argument list, unit) storage_backend" where
  "tiny_backend name scheme bare = projr (backend_build tiny_clap (tiny_builder name scheme bare))"

definition tiny_registry :: "(string, string, nat, unit, tiny_world, clap_argument list, unit) storage_registry" where
  "tiny_registry = projr (registry_from_backends tiny_clap [tiny_backend ''local'' ''file'' True, tiny_backend ''s3'' ''s3'' False])"

lemma tiny_backend_built:
  "backend_build tiny_clap (tiny_builder ''local'' ''file'' True) = Inr (tiny_backend ''local'' ''file'' True)"
  "backend_build tiny_clap (tiny_builder ''s3'' ''s3'' False) = Inr (tiny_backend ''s3'' ''s3'' False)"
proof -
  have "is_ok (backend_build tiny_clap (tiny_builder ''local'' ''file'' True))"
    "is_ok (backend_build tiny_clap (tiny_builder ''s3'' ''s3'' False))"
    unfolding backend_build_ok by code_simp+
  then show "backend_build tiny_clap (tiny_builder ''local'' ''file'' True) = Inr (tiny_backend ''local'' ''file'' True)"
    "backend_build tiny_clap (tiny_builder ''s3'' ''s3'' False) = Inr (tiny_backend ''s3'' ''s3'' False)"
    unfolding tiny_backend_def is_ok_conv by auto
qed

lemma tiny_registry_built:
  "registry_from_backends tiny_clap [tiny_backend ''local'' ''file'' True, tiny_backend ''s3'' ''s3'' False] = Inr tiny_registry"
proof -
  have "is_ok (registry_from_backends tiny_clap [tiny_backend ''local'' ''file'' True, tiny_backend ''s3'' ''s3'' False])"
    by code_simp
  then show ?thesis unfolding tiny_registry_def is_ok_conv by auto
qed

theorem registry_routes_to_the_claimant_witness:
  "(by_scheme tiny_registry ''s3'' = Some (tiny_backend ''s3'' ''s3'' False) \<longleftrightarrow>
      tiny_backend ''s3'' ''s3'' False \<in> set [tiny_backend ''local'' ''file'' True, tiny_backend ''s3'' ''s3'' False] \<and>
      ''s3'' \<in> set (sb_schemes (tiny_backend ''s3'' ''s3'' False))) \<and>
   (bare_location_backend tiny_registry = Some (tiny_backend ''s3'' ''s3'' False) \<longleftrightarrow>
      tiny_backend ''s3'' ''s3'' False \<in> set [tiny_backend ''local'' ''file'' True, tiny_backend ''s3'' ''s3'' False] \<and>
      sb_claims_bare_locations (tiny_backend ''s3'' ''s3'' False))"
  by (rule registry_routes_to_the_claimant [OF tiny_registry_built])

definition tiny_binding :: "(string, string, nat, unit, tiny_world) backend_binding" where
  "tiny_binding = projr (sb_bind (tiny_backend ''local'' ''file'' True) ())"

lemma tiny_bound: "sb_bind (tiny_backend ''local'' ''file'' True) () = Inr tiny_binding"
proof -
  have "is_ok (sb_bind (tiny_backend ''local'' ''file'' True) ())" by code_simp
  then show ?thesis unfolding tiny_binding_def is_ok_conv by auto
qed

theorem binding_keeps_the_definition_witness:
  "bn_name tiny_binding = sb_name (tiny_backend ''local'' ''file'' True) \<and>
   bn_access tiny_binding = sb_access (tiny_backend ''local'' ''file'' True) \<and>
   bn_uses_shared_retries tiny_binding = sb_uses_shared_retries (tiny_backend ''local'' ''file'' True) \<and>
   (bn_map_location tiny_binding = None \<longleftrightarrow> \<not> sb_claims_bare_locations (tiny_backend ''local'' ''file'' True)) \<and>
   (bn_map_pattern tiny_binding = None \<or> sb_claims_bare_locations (tiny_backend ''local'' ''file'' True))"
  by (rule binding_keeps_the_definition [OF tiny_backend_built(1) tiny_bound])

end
