(* ===== verification/Storage_Session.thy ===== *)
theory Storage_Session
  imports Storage_Registry
begin

text \<open>
  The storage session of one command (\<open>crates/silk-chiffon-storage/src/session.rs\<close>): routing of a
  location to its backend, the cache of object stores, the claims on output targets, and the expansion
  of patterns. The session state is passed explicitly; the mutexes of the source make each operation's
  access to it atomic. A panic (an index out of range, a missing mapper, an unreachable branch) is an
  outcome of its own, so that its absence is a theorem.
\<close>

section \<open>State\<close>

record ('u, 'g, 's, 'w) storage_libs =
  lib_url :: "'u url_ops"
  lib_glob :: "'g glob_ops"
  lib_path :: path_ops
  lib_call :: "('s, 'w) store_call"

record 's cached_object_store =
  co_writable :: 's
  co_read_only :: "'s read_only_object_store"

type_synonym 'u output_target_identity = "'u \<times> string"

record ('u, 'g, 's, 'r, 'w) storage_session =
  ss_bindings :: "('u, 'g, 's, 'r, 'w) backend_binding list"
  ss_routing :: routing_index
  ss_retry :: "'r option"
  ss_cache :: "'u \<Rightarrow> 's cached_object_store option"
  ss_claimed :: "'u output_target_identity set"

datatype session_failure = Failed storage_error | Panicked

type_synonym ('a, 'u, 'g, 's, 'r, 'w) session_step =
  "(session_failure, 'a) result \<times> ('u, 'g, 's, 'r, 'w) storage_session \<times> 'w"

definition session_new ::
  "('u, 'g, 's, 'r, 'w) backend_binding list \<Rightarrow> routing_index \<Rightarrow> 'r option \<Rightarrow> ('u, 'g, 's, 'r, 'w) storage_session" where
  "session_new bindings routing retry =
     \<lparr>ss_bindings = bindings, ss_routing = routing, ss_retry = retry, ss_cache = (\<lambda>_. None), ss_claimed = {}\<rparr>"

text \<open>
  \<open>StorageRegistry::create_session\<close>; reading the upload settings and the retry configuration from the
  matches is a parameter, and the upload settings, which no operation here reads, are left out.
\<close>

definition create_session ::
  "('m \<Rightarrow> (string, unit) result) \<Rightarrow> ('m \<Rightarrow> (string, 'r) result) \<Rightarrow>
   ('u, 'g, 's, 'r, 'w, 'c, 'm) storage_registry \<Rightarrow> 'm \<Rightarrow> (string, ('u, 'g, 's, 'r, 'w) storage_session) result" where
  "create_session parse_upload parse_retry reg matches =
     res_bind (parse_upload matches) (\<lambda>_.
     res_bind (if sr_uses_shared_retries reg then res_bind (parse_retry matches) (\<lambda>r. Inr (Some r)) else Inr None) (\<lambda>retry.
     res_bind (bind_all (sr_backends reg) matches) (\<lambda>bindings.
       Inr (session_new bindings (sr_routing reg) retry))))"

section \<open>Locations\<close>

definition store_url :: "'u url_ops \<Rightarrow> 'u \<Rightarrow> 'u" where
  "store_url ops url = url_set_fragment ops (url_set_query ops (url_set_path ops url ''/'') None) None"

definition encode_matched_byte :: "char \<Rightarrow> string" where
  "encode_matched_byte c =
     (if c = CHR ''*'' then ''%2A'' else if c = CHR ''['' then ''%5B'' else if c = CHR '']'' then ''%5D'' else [c])"

definition matched_url :: "'u url_ops \<Rightarrow> path_ops \<Rightarrow> 'u \<Rightarrow> string \<Rightarrow> (storage_error, 'u) result" where
  "matched_url ops paths base object_path =
     (let query = url_query ops base;
          exact = url_set_path ops (url_set_query ops base None) ''/'';
          exact = url_set_segments ops exact (op_parts paths object_path) in
      location_parse_url ops
        (url_before_path ops exact @ concat (map encode_matched_byte (url_path ops exact)) @
         (case query of Some q \<Rightarrow> CHR ''?'' # q | None \<Rightarrow> [])))"

definition nth_binding ::
  "('u, 'g, 's, 'r, 'w) storage_session \<Rightarrow> nat \<Rightarrow> ('u, 'g, 's, 'r, 'w) backend_binding option" where
  "nth_binding s i = (if i < length (ss_bindings s) then Some (ss_bindings s ! i) else None)"

definition backend_index_for_url ::
  "'u url_ops \<Rightarrow> ('u, 'g, 's, 'r, 'w) storage_session \<Rightarrow> 'u \<Rightarrow> (storage_error, nat) result" where
  "backend_index_for_url ops s url =
     ok_or (UnsupportedScheme (url_scheme ops url)) (ri_by_scheme (ss_routing s) (url_scheme ops url))"

section \<open>Handles\<close>

definition handle_of :: "'u \<Rightarrow> 's cached_object_store \<Rightarrow> string \<Rightarrow> 'u \<Rightarrow> ('u, 's) storage_handle" where
  "handle_of url store path key =
     \<lparr>sh_url = url, sh_object_store = co_writable store, sh_read_only_store = co_read_only store,
      sh_object_path = path, sh_store_url = key\<rparr>"

definition create_handle_for_location ::
  "('u, 'g, 's, 'w) storage_libs \<Rightarrow> 'u \<Rightarrow> nat \<Rightarrow> storage_direction \<Rightarrow>
   ('u, 'g, 's, 'r, 'w) storage_session \<Rightarrow> 'w \<Rightarrow> (('u, 's) storage_handle, 'u, 'g, 's, 'r, 'w) session_step" where
  "create_handle_for_location libs location index direction s w =
     (case nth_binding s index of
        None \<Rightarrow> (Inl Panicked, s, w)
      | Some backend \<Rightarrow>
          if \<not> access_supports (bn_access backend) direction
          then (Inl (Failed (DirectionUnsupported (bn_name backend) direction)), s, w)
          else (case bn_validate backend location of
            Inl e \<Rightarrow> (Inl (Failed (LocationValidation (bn_name backend) (url_text (lib_url libs) location) e)), s, w)
          | Inr _ \<Rightarrow>
              (case op_from_url_path (lib_path libs) (url_path (lib_url libs) location) of
                 None \<Rightarrow> (Inl (Failed (InvalidObjectPath (url_text (lib_url libs) location) [])), s, w)
               | Some path \<Rightarrow>
                   (let key = store_url (lib_url libs) location in
                    case ss_cache s key of
                      Some store \<Rightarrow> (Inr (handle_of location store path key), s, w)
                    | None \<Rightarrow>
                        (case bn_create_store backend key
                            (if bn_uses_shared_retries backend then ss_retry s else None) w of
                           (Inl e, w) \<Rightarrow>
                             (Inl (Failed (ObjectStoreCreation (bn_name backend) (url_text (lib_url libs) key) e)), s, w)
                         | (Inr writable, w) \<Rightarrow>
                             (let store = \<lparr>co_writable = writable, co_read_only = read_only_store writable\<rparr> in
                              (Inr (handle_of location store path key), s\<lparr>ss_cache := (ss_cache s)(key \<mapsto> store)\<rparr>, w)))))))"

definition route_input ::
  "'u url_ops \<Rightarrow> 'u location_input \<Rightarrow> ('u, 'g, 's, 'r, 'w) storage_session \<Rightarrow> (storage_error, nat) result" where
  "route_input ops input s =
     (case input of
        UrlInput location \<Rightarrow>
          ok_or (UnsupportedScheme (url_scheme ops location)) (ri_by_scheme (ss_routing s) (url_scheme ops location))
      | BareInput bare \<Rightarrow> ok_or (UnsupportedBareLocation bare) (ri_bare (ss_routing s)))"

definition create_handle ::
  "('u, 'g, 's, 'w) storage_libs \<Rightarrow> 'u location_input \<Rightarrow> storage_direction \<Rightarrow>
   ('u, 'g, 's, 'r, 'w) storage_session \<Rightarrow> 'w \<Rightarrow> (('u, 's) storage_handle, 'u, 'g, 's, 'r, 'w) session_step" where
  "create_handle libs input direction s w =
     (case route_input (lib_url libs) input s of
        Inl e \<Rightarrow> (Inl (Failed e), s, w)
      | Inr index \<Rightarrow>
          (case nth_binding s index of
             None \<Rightarrow> (Inl Panicked, s, w)
           | Some backend \<Rightarrow>
               if \<not> access_supports (bn_access backend) direction
               then (Inl (Failed (DirectionUnsupported (bn_name backend) direction)), s, w)
               else
                 (case (case input of
                          UrlInput location \<Rightarrow> Inr location
                        | BareInput bare \<Rightarrow>
                            (case bn_map_location backend of
                               None \<Rightarrow> Inl Panicked
                             | Some mapper \<Rightarrow>
                                 (case mapper bare of
                                    Inl e \<Rightarrow> Inl (Failed (BareLocationMapping (bn_name backend) bare e))
                                  | Inr location \<Rightarrow> Inr location))) of
                    Inl e \<Rightarrow> (Inl e, s, w)
                  | Inr location \<Rightarrow>
                      if ri_by_scheme (ss_routing s) (url_scheme (lib_url libs) location) \<noteq> Some index
                      then (Inl (Failed (BareLocationSchemeMismatch (bn_name backend)
                              (url_scheme (lib_url libs) location))), s, w)
                      else create_handle_for_location libs location index direction s w)))"

definition open_input_handle ::
  "('u, 'g, 's, 'w) storage_libs \<Rightarrow> 'u location_input \<Rightarrow>
   ('u, 'g, 's, 'r, 'w) storage_session \<Rightarrow> 'w \<Rightarrow> (('u, 's) input_handle, 'u, 'g, 's, 'r, 'w) session_step" where
  "open_input_handle libs input s w =
     (case create_handle libs input DirectionInput s w of
        (Inl e, s, w) \<Rightarrow> (Inl e, s, w)
      | (Inr h, s, w) \<Rightarrow> (Inr (input_handle_new h), s, w))"

text \<open>\<open>head\<close> is a \<open>GetOpts\<close> call for the metadata; a reply of another kind is given as an error.\<close>

definition head_reply :: "(store_error, store_reply) result \<times> 'w \<Rightarrow> (store_error, object_meta) result \<times> 'w" where
  "head_reply r =
     (case r of
        (Inl e, w) \<Rightarrow> (Inl e, w)
      | (Inr (ReplyMeta m), w) \<Rightarrow> (Inr m, w)
      | (Inr _, w) \<Rightarrow> (Inl (StoreOther ''reply''), w))"

definition store_error_text :: "store_error \<Rightarrow> string" where
  "store_error_text e = (case e of StoreNotFound m \<Rightarrow> m | StoreNotImplemented m _ \<Rightarrow> m | StoreOther m \<Rightarrow> m)"

definition head_input ::
  "('u, 'g, 's, 'w) storage_libs \<Rightarrow> ('u, 's) input_handle \<Rightarrow> 'w \<Rightarrow> (store_error, object_meta) result \<times> 'w" where
  "head_input libs h w =
     head_reply (ro_call (lib_call libs) (ih_read_only_store h) (GetOpts (sh_object_path (ih_handle h)) True) w)"

definition lookup_input ::
  "('u, 'g, 's, 'w) storage_libs \<Rightarrow> 'u location_input \<Rightarrow>
   ('u, 'g, 's, 'r, 'w) storage_session \<Rightarrow> 'w \<Rightarrow> (('u, 's) input_object, 'u, 'g, 's, 'r, 'w) session_step" where
  "lookup_input libs input s w =
     (case open_input_handle libs input s w of
        (Inl e, s, w) \<Rightarrow> (Inl e, s, w)
      | (Inr h, s, w) \<Rightarrow>
          (case head_input libs h w of
             (Inl e, w) \<Rightarrow> (Inl (Failed (ObjectStoreFailed (store_error_text e))), s, w)
           | (Inr m, w) \<Rightarrow> (Inr \<lparr>io_input_handle = h, io_metadata = m\<rparr>, s, w)))"

section \<open>Output targets\<close>

definition reject_existing ::
  "('u, 'g, 's, 'w) storage_libs \<Rightarrow> ('u, 's) storage_handle \<Rightarrow> output_preparation \<Rightarrow> 'w \<Rightarrow>
   (storage_error, unit) result \<times> 'w" where
  "reject_existing libs target preparation w =
     (if op_existing_output preparation = RejectIfObserved
      then (case head_reply (lib_call libs (sh_object_store target) (GetOpts (sh_object_path target) True) w) of
              (Inr _, w) \<Rightarrow> (Inl (OutputTargetAlreadyExists (url_text (lib_url libs) (sh_url target))), w)
            | (Inl (StoreNotFound _), w) \<Rightarrow> (Inr (), w)
            | (Inl e, w) \<Rightarrow> (Inl (ObjectStoreFailed (store_error_text e)), w))
      else (Inr (), w))"

definition prepare_with_backend ::
  "('u, 'g, 's, 'w) storage_libs \<Rightarrow> ('u, 's) storage_handle \<Rightarrow> output_preparation \<Rightarrow>
   ('u, 'g, 's, 'r, 'w) storage_session \<Rightarrow> 'w \<Rightarrow> (('u, 's) storage_handle, 'u, 'g, 's, 'r, 'w) session_step" where
  "prepare_with_backend libs target preparation s w =
     (case backend_index_for_url (lib_url libs) s (sh_url target) of
        Inl e \<Rightarrow> (Inl (Failed e), s, w)
      | Inr index \<Rightarrow>
          (case nth_binding s index of
             None \<Rightarrow> (Inl Panicked, s, w)
           | Some backend \<Rightarrow>
               (case bn_prepare backend target preparation w of
                  (Inl e, w) \<Rightarrow>
                    (Inl (Failed (OutputTargetPreparation (bn_name backend)
                       (url_text (lib_url libs) (sh_url target)) e)), s, w)
                | (Inr _, w) \<Rightarrow> (Inr target, s, w))))"

definition prepare_output_target ::
  "('u, 'g, 's, 'w) storage_libs \<Rightarrow> 'u location_input \<Rightarrow> output_preparation \<Rightarrow>
   ('u, 'g, 's, 'r, 'w) storage_session \<Rightarrow> 'w \<Rightarrow> (('u, 's) storage_handle, 'u, 'g, 's, 'r, 'w) session_step" where
  "prepare_output_target libs input preparation s w =
     (case create_handle libs input DirectionOutput s w of
        (Inl e, s, w) \<Rightarrow> (Inl e, s, w)
      | (Inr target, s, w) \<Rightarrow>
          (let identity = (sh_store_url target, sh_object_path target) in
           if identity \<in> ss_claimed s
           then (Inl (Failed (OutputTargetAlreadyClaimed (url_text (lib_url libs) (sh_url target)))), s, w)
           else
             (let s = s\<lparr>ss_claimed := insert identity (ss_claimed s)\<rparr> in
              case reject_existing libs target preparation w of
                (Inl e, w) \<Rightarrow> (Inl (Failed e), s, w)
              | (Inr _, w) \<Rightarrow> prepare_with_backend libs target preparation s w)))"

section \<open>Patterns\<close>

definition head_pattern ::
  "('u, 'g, 's, 'w) storage_libs \<Rightarrow> ('u, 's) input_handle \<Rightarrow> string \<Rightarrow>
   ('u, 'g, 's, 'r, 'w) storage_session \<Rightarrow> 'w \<Rightarrow> (('u, 's) input_object list, 'u, 'g, 's, 'r, 'w) session_step" where
  "head_pattern libs h pattern s w =
     (case head_input libs h w of
        (Inr m, w) \<Rightarrow> (Inr [\<lparr>io_input_handle = h, io_metadata = m\<rparr>], s, w)
      | (Inl (StoreNotFound _), w) \<Rightarrow> (Inr [], s, w)
      | (Inl e, w) \<Rightarrow> (Inl (Failed (PatternMetadata pattern (store_error_text e))), s, w))"

definition expand_exact_pattern ::
  "('u, 'g, 's, 'w) storage_libs \<Rightarrow> 'u location_input \<Rightarrow>
   ('u, 'g, 's, 'r, 'w) storage_session \<Rightarrow> 'w \<Rightarrow> (('u, 's) input_object list, 'u, 'g, 's, 'r, 'w) session_step" where
  "expand_exact_pattern libs input s w =
     (case open_input_handle libs input s w of
        (Inl e, s, w) \<Rightarrow> (Inl e, s, w)
      | (Inr h, s, w) \<Rightarrow>
          head_pattern libs h (case input of UrlInput location \<Rightarrow> url_text (lib_url libs) location
                               | BareInput source \<Rightarrow> source) s w)"

text \<open>One listed object that matches: its exact URL, parsed again and validated by the backend.\<close>

definition matched_object ::
  "('u, 'g, 's, 'w) storage_libs \<Rightarrow> ('u, 'g, 's, 'r, 'w) backend_binding \<Rightarrow> 'u \<Rightarrow> ('u, 's) input_handle \<Rightarrow>
   object_meta \<Rightarrow> (storage_error, ('u, 's) input_object) result" where
  "matched_object libs backend location pattern_handle m =
     res_bind (matched_url (lib_url libs) (lib_path libs) location (om_location m)) (\<lambda>url.
     res_bind (location_parse_url (lib_url libs) (url_text (lib_url libs) url)) (\<lambda>matched.
       (case bn_validate backend matched of
          Inl e \<Rightarrow> Inl (LocationValidation (bn_name backend) (url_text (lib_url libs) url) e)
        | Inr _ \<Rightarrow>
            Inr \<lparr>io_input_handle = input_handle_new
                   \<lparr>sh_url = url, sh_object_store = sh_object_store (ih_handle pattern_handle),
                    sh_read_only_store = ih_read_only_store pattern_handle,
                    sh_object_path = om_location m,
                    sh_store_url = sh_store_url (ih_handle pattern_handle)\<rparr>,
                 io_metadata = m\<rparr>)))"

fun expand_listing ::
  "('u, 'g, 's, 'w) storage_libs \<Rightarrow> ('u, 'g, 's, 'r, 'w) backend_binding \<Rightarrow> string \<Rightarrow> 'u \<Rightarrow> 'g \<Rightarrow>
   ('u, 's) input_handle \<Rightarrow> (store_error, object_meta) result list \<Rightarrow>
   (storage_error, ('u, 's) input_object list) result" where
  "expand_listing libs backend source location matcher pattern_handle [] = Inr []"
| "expand_listing libs backend source location matcher pattern_handle (item # rest) =
     (case item of
        Inl e \<Rightarrow> Inl (PatternListing source (store_error_text e))
      | Inr m \<Rightarrow>
          if \<not> glob_matches (lib_glob libs) matcher (om_location m)
          then expand_listing libs backend source location matcher pattern_handle rest
          else res_bind (matched_object libs backend location pattern_handle m) (\<lambda>object.
               res_bind (expand_listing libs backend source location matcher pattern_handle rest) (\<lambda>objects.
                 Inr (object # objects))))"

definition list_reply ::
  "(store_error, store_reply) result \<times> 'w \<Rightarrow> (store_error, object_meta) result list \<times> 'w" where
  "list_reply r =
     (case r of
        (Inl e, w) \<Rightarrow> ([Inl e], w)
      | (Inr (ReplyList items), w) \<Rightarrow> (items, w)
      | (Inr _, w) \<Rightarrow> ([Inl (StoreOther ''reply'')], w))"

definition listing_prefix_of ::
  "('u, 'g, 's, 'w) storage_libs \<Rightarrow> 'u \<Rightarrow> string \<Rightarrow> (storage_error, string option) result" where
  "listing_prefix_of libs location literal_prefix =
     (if literal_prefix = [] then Inr None
      else (case op_parse (lib_path libs) literal_prefix of
              None \<Rightarrow> Inl (InvalidObjectPath (url_text (lib_url libs) location) [])
            | Some p \<Rightarrow> Inr (Some p)))"

definition expand_url_pattern ::
  "('u, 'g, 's, 'w) storage_libs \<Rightarrow> ('u, 'g) pattern_input \<Rightarrow> nat option \<Rightarrow>
   ('u, 'g, 's, 'r, 'w) storage_session \<Rightarrow> 'w \<Rightarrow> (('u, 's) input_object list, 'u, 'g, 's, 'r, 'w) session_step" where
  "expand_url_pattern libs pattern expected s w =
     (case pattern of
        UrlPattern source location matcher literal_prefix \<Rightarrow>
          (case (case expected of Some i \<Rightarrow> Inr i | None \<Rightarrow> backend_index_for_url (lib_url libs) s location) of
             Inl e \<Rightarrow> (Inl (Failed e), s, w)
           | Inr index \<Rightarrow>
               (case create_handle_for_location libs location index DirectionInput s w of
                  (Inl e, s, w) \<Rightarrow> (Inl e, s, w)
                | (Inr h, s, w) \<Rightarrow>
                    (case listing_prefix_of libs location literal_prefix of
                       Inl e \<Rightarrow> (Inl (Failed e), s, w)
                     | Inr listing_prefix \<Rightarrow>
                         (case list_reply (ro_call (lib_call libs) (ih_read_only_store (input_handle_new h))
                              (ListObjects listing_prefix) w) of
                            (listed, w) \<Rightarrow>
                              (case nth_binding s index of
                                 None \<Rightarrow> (Inl Panicked, s, w)
                               | Some backend \<Rightarrow>
                                   (case expand_listing libs backend source location matcher (input_handle_new h) listed of
                                      Inl e \<Rightarrow> (Inl (Failed e), s, w)
                                    | Inr objects \<Rightarrow> (Inr objects, s, w)))))))
      | _ \<Rightarrow> (Inl Panicked, s, w))"

definition require_pattern_backend ::
  "'u url_ops \<Rightarrow> 'u \<Rightarrow> nat \<Rightarrow> string \<Rightarrow> ('u, 'g, 's, 'r, 'w) storage_session \<Rightarrow> (storage_error, unit) result" where
  "require_pattern_backend ops location index name s =
     (if ri_by_scheme (ss_routing s) (url_scheme ops location) \<noteq> Some index
      then Inl (BarePatternSchemeMismatch name (url_scheme ops location)) else Inr ())"

definition expand_mapped_pattern ::
  "('u, 'g, 's, 'w) storage_libs \<Rightarrow> ('u, 'g) pattern_input \<Rightarrow> nat \<Rightarrow> string \<Rightarrow>
   ('u, 'g, 's, 'r, 'w) storage_session \<Rightarrow> 'w \<Rightarrow> (('u, 's) input_object list, 'u, 'g, 's, 'r, 'w) session_step" where
  "expand_mapped_pattern libs pattern index name s w =
     (case pattern of
        ExactPattern (UrlInput location) \<Rightarrow>
          (case require_pattern_backend (lib_url libs) location index name s of
             Inl e \<Rightarrow> (Inl (Failed e), s, w)
           | Inr _ \<Rightarrow>
               (case create_handle_for_location libs location index DirectionInput s w of
                  (Inl e, s, w) \<Rightarrow> (Inl e, s, w)
                | (Inr h, s, w) \<Rightarrow> head_pattern libs (input_handle_new h) (url_text (lib_url libs) location) s w))
      | UrlPattern source location matcher literal_prefix \<Rightarrow>
          (case require_pattern_backend (lib_url libs) location index name s of
             Inl e \<Rightarrow> (Inl (Failed e), s, w)
           | Inr _ \<Rightarrow> expand_url_pattern libs pattern (Some index) s w)
      | _ \<Rightarrow> (Inl (Failed (BarePatternSchemeMismatch name ''bare'')), s, w))"

definition expand_input_pattern ::
  "('u, 'g, 's, 'w) storage_libs \<Rightarrow> ('u, 'g) pattern_input \<Rightarrow>
   ('u, 'g, 's, 'r, 'w) storage_session \<Rightarrow> 'w \<Rightarrow> (('u, 's) input_object list, 'u, 'g, 's, 'r, 'w) session_step" where
  "expand_input_pattern libs pattern s w =
     (case pattern of
        ExactPattern input \<Rightarrow> expand_exact_pattern libs input s w
      | BarePattern source \<Rightarrow>
          (case ri_bare (ss_routing s) of
             None \<Rightarrow> (Inl (Failed (UnsupportedBarePattern source)), s, w)
           | Some index \<Rightarrow>
               (case nth_binding s index of
                  None \<Rightarrow> (Inl Panicked, s, w)
                | Some backend \<Rightarrow>
                    if \<not> access_supports (bn_access backend) DirectionInput
                    then (Inl (Failed (DirectionUnsupported (bn_name backend) DirectionInput)), s, w)
                    else (case bn_map_pattern backend of
                      None \<Rightarrow> (Inl (Failed (UnsupportedBarePattern source)), s, w)
                    | Some mapper \<Rightarrow>
                        (case mapper source of
                           Inl e \<Rightarrow> (Inl (Failed (BarePatternMapping (bn_name backend) source e)), s, w)
                         | Inr mapped \<Rightarrow> expand_mapped_pattern libs mapped index (bn_name backend) s w))))
      | UrlPattern _ _ _ _ \<Rightarrow> expand_url_pattern libs pattern None s w)"


section \<open>Sequences of operations\<close>

datatype ('u, 'g) session_op =
    OpenInput "'u location_input"
  | LookupInput "'u location_input"
  | PrepareOutput "'u location_input" output_preparation
  | ExpandPattern "('u, 'g) pattern_input"

datatype ('u, 's) op_result =
    OpenedInput "('u, 's) storage_handle"
  | PreparedOutput "('u, 's) storage_handle"
  | FoundObjects "('u, 's) input_object list"
  | OpFailed session_failure

definition settle ::
  "('a \<Rightarrow> ('u, 's) op_result) \<Rightarrow> ('a, 'u, 'g, 's, 'r, 'w) session_step \<Rightarrow>
   ('u, 's) op_result \<times> ('u, 'g, 's, 'r, 'w) storage_session \<times> 'w" where
  "settle f step = (case step of (Inl e, rest) \<Rightarrow> (OpFailed e, rest) | (Inr x, rest) \<Rightarrow> (f x, rest))"

definition session_op_step ::
  "('u, 'g, 's, 'w) storage_libs \<Rightarrow> ('u, 'g) session_op \<Rightarrow> ('u, 'g, 's, 'r, 'w) storage_session \<Rightarrow> 'w \<Rightarrow>
   ('u, 's) op_result \<times> ('u, 'g, 's, 'r, 'w) storage_session \<times> 'w" where
  "session_op_step libs op s w =
     (case op of
        OpenInput input \<Rightarrow> settle (\<lambda>h. OpenedInput (ih_handle h)) (open_input_handle libs input s w)
      | LookupInput input \<Rightarrow> settle (\<lambda>x. FoundObjects [x]) (lookup_input libs input s w)
      | PrepareOutput input preparation \<Rightarrow> settle PreparedOutput (prepare_output_target libs input preparation s w)
      | ExpandPattern pattern \<Rightarrow> settle FoundObjects (expand_input_pattern libs pattern s w))"

fun session_run ::
  "('u, 'g, 's, 'w) storage_libs \<Rightarrow> ('u, 'g) session_op list \<Rightarrow> ('u, 'g, 's, 'r, 'w) storage_session \<Rightarrow> 'w \<Rightarrow>
   ('u, 's) op_result list \<times> ('u, 'g, 's, 'r, 'w) storage_session \<times> 'w" where
  "session_run libs [] s w = ([], s, w)"
| "session_run libs (op # ops) s w =
     (case session_op_step libs op s w of (result, s, w) \<Rightarrow>
        (case session_run libs ops s w of (results, s, w) \<Rightarrow> (result # results, s, w)))"

fun result_handles :: "('u, 's) op_result \<Rightarrow> ('u, 's) storage_handle list" where
  "result_handles (OpenedInput h) = [h]"
| "result_handles (PreparedOutput h) = [h]"
| "result_handles (FoundObjects objects) = map (ih_handle \<circ> io_input_handle) objects"
| "result_handles (OpFailed _) = []"

fun prepared_targets :: "('u, 's) op_result list \<Rightarrow> 'u output_target_identity list" where
  "prepared_targets [] = []"
| "prepared_targets (PreparedOutput h # rest) = (sh_store_url h, sh_object_path h) # prepared_targets rest"
| "prepared_targets (_ # rest) = prepared_targets rest"

section \<open>Invariants of a session\<close>

text \<open>What every operation keeps: the cache and the claims only grow, the rest does not change.\<close>

definition session_extends ::
  "('u, 'g, 's, 'r, 'w) storage_session \<Rightarrow> ('u, 'g, 's, 'r, 'w) storage_session \<Rightarrow> bool" where
  "session_extends s t \<longleftrightarrow> ss_bindings t = ss_bindings s \<and> ss_routing t = ss_routing s \<and> ss_retry t = ss_retry s \<and>
     ss_cache s \<subseteq>\<^sub>m ss_cache t \<and> ss_claimed s \<subseteq> ss_claimed t"

definition cache_ok :: "('u, 'g, 's, 'r, 'w) storage_session \<Rightarrow> bool" where
  "cache_ok s \<longleftrightarrow> (\<forall>key store. ss_cache s key = Some store \<longrightarrow> co_read_only store = read_only_store (co_writable store))"

text \<open>A handle is backed when the session's cache holds the store it was given for its store URL.\<close>

definition handle_backed :: "('u, 'g, 's, 'r, 'w) storage_session \<Rightarrow> ('u, 's) storage_handle \<Rightarrow> bool" where
  "handle_backed s h \<longleftrightarrow>
     ss_cache s (sh_store_url h) = Some \<lparr>co_writable = sh_object_store h, co_read_only = sh_read_only_store h\<rparr>"

definition session_wf :: "('u, 'g, 's, 'r, 'w) storage_session \<Rightarrow> bool" where
  "session_wf s \<longleftrightarrow>
     (\<forall>scheme i. ri_by_scheme (ss_routing s) scheme = Some i \<longrightarrow> i < length (ss_bindings s)) \<and>
     (\<forall>i. ri_bare (ss_routing s) = Some i \<longrightarrow>
        i < length (ss_bindings s) \<and> bn_map_location (ss_bindings s ! i) \<noteq> None)"

definition step_ok ::
  "('u, 'g, 's, 'r, 'w) storage_session \<Rightarrow> ('u, 'g, 's, 'r, 'w) storage_session \<Rightarrow>
   ('u, 's) storage_handle list \<Rightarrow> bool" where
  "step_ok s t handles \<longleftrightarrow> session_extends s t \<and> (cache_ok s \<longrightarrow> cache_ok t) \<and> list_all (handle_backed t) handles"

lemma session_extends_refl [simp]: "session_extends s s"
  by (simp add: session_extends_def)

lemma session_extends_trans: "session_extends s t \<Longrightarrow> session_extends t u \<Longrightarrow> session_extends s u"
  by (auto simp: session_extends_def intro: map_le_trans)

lemma handle_backed_extends: "handle_backed s h \<Longrightarrow> session_extends s t \<Longrightarrow> handle_backed t h"
  unfolding handle_backed_def session_extends_def map_le_def by (metis domI)

lemma step_ok_refl [simp]: "step_ok s s []"
  by (simp add: step_ok_def)

lemma step_ok_trans:
  assumes "step_ok s t hs" "step_ok t u hs'"
  shows "step_ok s u (hs @ hs')"
  using assms session_extends_trans [of s t u] handle_backed_extends [of t _ u]
  by (auto simp: step_ok_def list_all_iff)

lemma step_ok_mono: "step_ok s t hs \<Longrightarrow> set hs' \<subseteq> set hs \<Longrightarrow> step_ok s t hs'"
  by (auto simp: step_ok_def list_all_iff)

lemma step_ok_drop: "step_ok s t hs \<Longrightarrow> step_ok s t []"
  by (simp add: step_ok_def)

lemma session_wf_extends: "session_wf s \<Longrightarrow> session_extends s t \<Longrightarrow> session_wf t"
  by (simp add: session_wf_def session_extends_def)

lemma create_handle_for_location_ok:
  assumes "create_handle_for_location libs location index direction s w = (r, t, w')"
  shows "step_ok s t (case r of Inl _ \<Rightarrow> [] | Inr h \<Rightarrow> [h]) \<and> ss_claimed t = ss_claimed s \<and>
    (index < length (ss_bindings s) \<longrightarrow> r \<noteq> Inl Panicked)"
  using assms
  by (auto simp: create_handle_for_location_def nth_binding_def handle_of_def step_ok_def session_extends_def
      cache_ok_def handle_backed_def map_le_def Let_def split: option.splits sum.splits if_splits prod.splits)


lemma route_input_wf:
  assumes "session_wf s" "route_input ops input s = Inr index"
  shows "index < length (ss_bindings s) \<and>
    (case input of UrlInput _ \<Rightarrow> True | BareInput _ \<Rightarrow> bn_map_location (ss_bindings s ! index) \<noteq> None)"
  using assms by (auto simp: route_input_def session_wf_def ok_or_Inr_conv split: location_input.splits)

lemma create_handle_ok:
  assumes "create_handle libs input direction s w = (r, t, w')"
  shows "step_ok s t (case r of Inl _ \<Rightarrow> [] | Inr h \<Rightarrow> [h]) \<and> ss_claimed t = ss_claimed s \<and>
    (session_wf s \<longrightarrow> r \<noteq> Inl Panicked)"
proof (cases "route_input (lib_url libs) input s")
  case (Inl e)
  then show ?thesis using assms by (auto simp: create_handle_def)
next
  case index: (Inr index)
  show ?thesis
  proof (cases "index < length (ss_bindings s)")
    case False
    then show ?thesis using assms index route_input_wf [of s "lib_url libs" input index]
      by (auto simp: create_handle_def nth_binding_def)
  next
    case True
    let ?b = "ss_bindings s ! index"
    consider (stopped) e where "r = Inl (Failed e)" "t = s"
      | (no_mapper) bare where "r = Inl Panicked" "t = s" "input = BareInput bare" "bn_map_location ?b = None"
      | (created) location where "create_handle_for_location libs location index direction s w = (r, t, w')"
      using assms index True
      by (auto simp: create_handle_def nth_binding_def split: if_splits location_input.splits option.splits sum.splits)
    then show ?thesis
    proof cases
      case no_mapper
      then show ?thesis using route_input_wf [of s "lib_url libs" input index] index by auto
    next
      case created
      show ?thesis using create_handle_for_location_ok [OF created] True by simp
    qed simp
  qed
qed

lemma open_input_handle_ok:
  assumes "open_input_handle libs input s w = (r, t, w')"
  shows "step_ok s t (case r of Inl _ \<Rightarrow> [] | Inr h \<Rightarrow> [ih_handle h]) \<and> ss_claimed t = ss_claimed s \<and>
    (session_wf s \<longrightarrow> r \<noteq> Inl Panicked) \<and>
    (case r of Inl _ \<Rightarrow> True | Inr h \<Rightarrow> ih_read_only_store h = sh_read_only_store (ih_handle h))"
proof (cases "create_handle libs input DirectionInput s w")
  case (fields q u v)
  then show ?thesis
    using assms create_handle_ok [OF fields]
    by (cases q) (auto simp: open_input_handle_def input_handle_new_def)
qed

lemma lookup_input_ok:
  assumes "lookup_input libs input s w = (r, t, w')"
  shows "step_ok s t (case r of Inl _ \<Rightarrow> [] | Inr x \<Rightarrow> [ih_handle (io_input_handle x)]) \<and> ss_claimed t = ss_claimed s \<and>
    (session_wf s \<longrightarrow> r \<noteq> Inl Panicked)"
proof (cases "open_input_handle libs input s w")
  case (fields q u v)
  note h = open_input_handle_ok [OF fields]
  show ?thesis
  proof (cases q)
    case (Inl e)
    then show ?thesis using assms h fields by (auto simp: lookup_input_def)
  next
    case (Inr x)
    have "step_ok s u []" using h step_ok_drop by blast
    then show ?thesis
      using assms h fields Inr by (auto simp: lookup_input_def split: prod.splits sum.splits)
  qed
qed

lemma prepare_with_backend_ok:
  assumes "prepare_with_backend libs target preparation s w = (r, t, w')"
  shows "t = s \<and> (r = Inr target \<or> (\<exists>e. r = Inl e)) \<and> (session_wf s \<longrightarrow> r \<noteq> Inl Panicked)"
  using assms
  by (auto simp: prepare_with_backend_def backend_index_for_url_def nth_binding_def session_wf_def ok_or_def
      split: sum.splits option.splits prod.splits if_splits)

text \<open>The claim of a target is new when it is prepared, and it stays claimed whatever happens next.\<close>

lemma prepare_output_target_ok:
  assumes "prepare_output_target libs input preparation s w = (r, t, w')"
  shows "step_ok s t (case r of Inl _ \<Rightarrow> [] | Inr h \<Rightarrow> [h]) \<and> (session_wf s \<longrightarrow> r \<noteq> Inl Panicked) \<and>
    (case r of Inl _ \<Rightarrow> True
     | Inr h \<Rightarrow> (sh_store_url h, sh_object_path h) \<notin> ss_claimed s \<and> (sh_store_url h, sh_object_path h) \<in> ss_claimed t)"
proof (cases "create_handle libs input DirectionOutput s w")
  case (fields q u v)
  note h = create_handle_ok [OF fields]
  show ?thesis
  proof (cases q)
    case (Inl e)
    then show ?thesis using assms h fields by (auto simp: prepare_output_target_def)
  next
    case (Inr target)
    let ?id = "(sh_store_url target, sh_object_path target)"
    let ?u = "u\<lparr>ss_claimed := insert ?id (ss_claimed u)\<rparr>"
    have ext: "step_ok u ?u []"
      by (auto simp: step_ok_def session_extends_def cache_ok_def)
    have t: "step_ok s u [target]" using h Inr by simp
    have su: "step_ok s ?u [target]" using step_ok_trans [OF t ext] by simp
    have wf: "session_wf s \<Longrightarrow> session_wf ?u"
      using session_wf_extends su unfolding step_ok_def by blast
    have none: "step_ok s u []" "step_ok s ?u []"
      using step_ok_drop t su by blast+
    consider (claimed) e where "?id \<in> ss_claimed u" "r = Inl (Failed e)" "t = u"
      | (rejected) e where "r = Inl (Failed e)" "t = ?u"
      | (backend) v' where "?id \<notin> ss_claimed u" "prepare_with_backend libs target preparation ?u v' = (r, t, w')"
      using assms fields Inr by (auto simp: prepare_output_target_def Let_def split: if_splits prod.splits sum.splits)
    then show ?thesis
    proof cases
      case backend
      note p = prepare_with_backend_ok [OF backend(2)]
      have "?id \<notin> ss_claimed s" using backend(1) h by simp
      moreover have "t = ?u" using p by simp
      ultimately show ?thesis using p su none(2) wf by (cases r) auto
    qed (use none in simp_all)
  qed
qed


subsection \<open>Patterns\<close>

lemma matched_object_Inr:
  assumes "matched_object libs backend location h m = Inr x"
  shows "io_metadata x = m \<and> sh_object_path (ih_handle (io_input_handle x)) = om_location m \<and>
    matched_url (lib_url libs) (lib_path libs) location (om_location m) = Inr (sh_url (ih_handle (io_input_handle x))) \<and>
    sh_object_store (ih_handle (io_input_handle x)) = sh_object_store (ih_handle h) \<and>
    sh_read_only_store (ih_handle (io_input_handle x)) = ih_read_only_store h \<and>
    sh_store_url (ih_handle (io_input_handle x)) = sh_store_url (ih_handle h) \<and>
    (\<exists>matched. location_parse_url (lib_url libs) (url_text (lib_url libs) (sh_url (ih_handle (io_input_handle x)))) = Inr matched
      \<and> bn_validate backend matched = Inr ())"
proof -
  obtain url matched where "matched_url (lib_url libs) (lib_path libs) location (om_location m) = Inr url"
    "location_parse_url (lib_url libs) (url_text (lib_url libs) url) = Inr matched"
    using assms by (auto simp: matched_object_def res_bind_Inr_conv)
  then show ?thesis
    using assms by (cases "bn_validate backend matched") (auto simp: matched_object_def input_handle_new_def)
qed

lemma expand_listing_Inr:
  assumes "expand_listing libs backend source location matcher h listed = Inr objects"
  shows "\<exists>metas. listed = map Inr metas \<and>
    map io_metadata objects = filter (\<lambda>m. glob_matches (lib_glob libs) matcher (om_location m)) metas \<and>
    list_all (\<lambda>x. matched_object libs backend location h (io_metadata x) = Inr x) objects"
  using assms
proof (induction listed arbitrary: objects)
  case (Cons item rest)
  then obtain m where m: "item = Inr m" by (cases item) auto
  show ?case
  proof (cases "glob_matches (lib_glob libs) matcher (om_location m)")
    case False
    then obtain metas where "rest = map Inr metas"
      "map io_metadata objects = filter (\<lambda>m. glob_matches (lib_glob libs) matcher (om_location m)) metas"
      "list_all (\<lambda>x. matched_object libs backend location h (io_metadata x) = Inr x) objects"
      using Cons m by auto
    then show ?thesis using m False by (intro exI [of _ "m # metas"]) simp
  next
    case True
    then obtain x xs where x: "matched_object libs backend location h m = Inr x" "objects = x # xs"
      "expand_listing libs backend source location matcher h rest = Inr xs"
      using Cons.prems m by (auto simp: res_bind_Inr_conv)
    then obtain metas where "rest = map Inr metas"
      "map io_metadata xs = filter (\<lambda>m. glob_matches (lib_glob libs) matcher (om_location m)) metas"
      "list_all (\<lambda>x. matched_object libs backend location h (io_metadata x) = Inr x) xs"
      using Cons.IH by blast
    moreover have "io_metadata x = m" using matched_object_Inr [OF x(1)] by simp
    ultimately show ?thesis using m True x by (intro exI [of _ "m # metas"]) simp
  qed
qed simp

lemma head_pattern_ok:
  assumes "head_pattern libs h pattern s w = (r, t, w')"
  shows "t = s \<and> r \<noteq> Inl Panicked \<and> (case r of Inl _ \<Rightarrow> True | Inr xs \<Rightarrow> set (map io_input_handle xs) \<subseteq> {h})"
  using assms by (auto simp: head_pattern_def split: prod.splits sum.splits store_error.splits)

abbreviation object_handles :: "(session_failure, ('u, 's) input_object list) result \<Rightarrow> ('u, 's) storage_handle list" where
  "object_handles r \<equiv> (case r of Inl _ \<Rightarrow> [] | Inr xs \<Rightarrow> map (ih_handle \<circ> io_input_handle) xs)"

lemma head_pattern_step:
  assumes "head_pattern libs h pattern u v = (r, t, w')" "step_ok s u [ih_handle h]"
  shows "step_ok s t (object_handles r) \<and> r \<noteq> Inl Panicked"
proof -
  note p = head_pattern_ok [OF assms(1)]
  have "set (object_handles r) \<subseteq> {ih_handle h}" using p by (cases r) auto
  then show ?thesis using p step_ok_mono [OF assms(2), of "object_handles r"] by simp
qed

lemma expand_exact_pattern_ok:
  assumes "expand_exact_pattern libs input s w = (r, t, w')"
  shows "step_ok s t (object_handles r) \<and> (session_wf s \<longrightarrow> r \<noteq> Inl Panicked)"
proof (cases "open_input_handle libs input s w")
  case (fields q u v)
  note h = open_input_handle_ok [OF fields]
  show ?thesis
  proof (cases q)
    case (Inl e)
    then show ?thesis using assms h fields by (auto simp: expand_exact_pattern_def)
  next
    case (Inr x)
    then have "\<exists>source. head_pattern libs x source u v = (r, t, w')"
      using assms fields by (auto simp: expand_exact_pattern_def)
    then show ?thesis using head_pattern_step h Inr by fastforce
  qed
qed

lemma expand_url_pattern_ok:
  assumes "expand_url_pattern libs (UrlPattern source location matcher literal_prefix) expected s w = (r, t, w')"
    and "\<And>i. expected = Some i \<Longrightarrow> i < length (ss_bindings s)"
  shows "step_ok s t (object_handles r) \<and> (session_wf s \<longrightarrow> r \<noteq> Inl Panicked)"
proof (cases "case expected of Some i \<Rightarrow> Inr i | None \<Rightarrow> backend_index_for_url (lib_url libs) s location")
  case (Inl e)
  then show ?thesis using assms by (auto simp: expand_url_pattern_def)
next
  case index: (Inr index)
  have wf: "index < length (ss_bindings s)" if "session_wf s"
    using index assms(2) that
    by (auto simp: backend_index_for_url_def ok_or_Inr_conv session_wf_def split: option.splits)
  show ?thesis
  proof (cases "create_handle_for_location libs location index DirectionInput s w")
    case (fields q u v)
    note h = create_handle_for_location_ok [OF fields]
    show ?thesis
    proof (cases q)
      case (Inl e)
      then show ?thesis using assms h fields index wf by (auto simp: expand_url_pattern_def)
    next
      case (Inr x)
      have su: "step_ok s u [x]" using h Inr by simp
      have same: "ss_bindings u = ss_bindings s" using su by (simp add: step_ok_def session_extends_def)
      let ?h = "input_handle_new x"
      have eq: "(case listing_prefix_of libs location literal_prefix of
           Inl e \<Rightarrow> (Inl (Failed e), u, v)
         | Inr listing_prefix \<Rightarrow>
             (case list_reply (ro_call (lib_call libs) (ih_read_only_store ?h) (ListObjects listing_prefix) v) of
                (listed, w) \<Rightarrow>
                  (case nth_binding u index of
                     None \<Rightarrow> (Inl Panicked, u, w)
                   | Some backend \<Rightarrow>
                       (case expand_listing libs backend source location matcher ?h listed of
                          Inl e \<Rightarrow> (Inl (Failed e), u, w)
                        | Inr objects \<Rightarrow> (Inr objects, u, w))))) = (r, t, w')"
        using assms(1) index fields Inr by (simp add: expand_url_pattern_def)
      consider (failed) e where "r = Inl (Failed e)" "t = u"
        | (panic) "r = Inl Panicked" "nth_binding u index = None" "t = u"
        | (found) backend listed objects where "r = Inr objects" "t = u"
          "expand_listing libs backend source location matcher ?h listed = Inr objects" "nth_binding u index = Some backend"
      proof (cases "listing_prefix_of libs location literal_prefix")
        case (Inl e)
        then show ?thesis using eq failed [of e] by auto
      next
        case prefixed: (Inr p)
        obtain listed v2 where l: "list_reply (ro_call (lib_call libs) (ih_read_only_store ?h) (ListObjects p) v) = (listed, v2)"
          by fastforce
        show ?thesis
        proof (cases "nth_binding u index")
          case None
          then have "r = Inl Panicked \<and> t = u" using eq prefixed l by auto
        then show ?thesis using panic None by simp
        next
          case (Some backend)
          show ?thesis
          proof (cases "expand_listing libs backend source location matcher ?h listed")
            case (Inl e)
            then have "r = Inl (Failed e) \<and> t = u" using eq prefixed l Some by auto
            then show ?thesis using failed [of e] by simp
          next
            case (Inr objects)
            then have "r = Inr objects \<and> t = u" using eq prefixed l Some by auto
            then show ?thesis using found [of objects backend listed] Inr Some by simp
          qed
        qed
      qed
      then show ?thesis
      proof cases
        case found
        have "handle_backed u (ih_handle (io_input_handle y))" if "y \<in> set objects" for y
        proof -
          have "matched_object libs backend location (input_handle_new x) (io_metadata y) = Inr y"
            using expand_listing_Inr [OF found(3)] that by (auto simp: list_all_iff)
          from matched_object_Inr [OF this] show ?thesis
            using su by (simp add: step_ok_def handle_backed_def input_handle_new_def)
        qed
        then show ?thesis using su found(1,2) by (auto simp: step_ok_def list_all_iff)
      qed (use step_ok_drop [OF su] wf same in \<open>auto simp: nth_binding_def\<close>)
    qed
  qed
qed


lemma expand_mapped_pattern_ok:
  assumes "expand_mapped_pattern libs pattern index name s w = (r, t, w')" "index < length (ss_bindings s)"
  shows "step_ok s t (object_handles r) \<and> (session_wf s \<longrightarrow> r \<noteq> Inl Panicked)"
proof -
  consider (failed) e where "r = Inl (Failed e)" "t = s"
    | (exact) location where "pattern = ExactPattern (UrlInput location)"
        "(case create_handle_for_location libs location index DirectionInput s w of
           (Inl e, s, w) \<Rightarrow> (Inl e, s, w)
         | (Inr h, s, w) \<Rightarrow> head_pattern libs (input_handle_new h) (url_text (lib_url libs) location) s w) = (r, t, w')"
    | (glob) source location matcher lit where "pattern = UrlPattern source location matcher lit"
        "expand_url_pattern libs (UrlPattern source location matcher lit) (Some index) s w = (r, t, w')"
    using assms(1)
    by (auto simp: expand_mapped_pattern_def split: pattern_input.splits location_input.splits sum.splits)
  then show ?thesis
  proof cases
    case exact
    show ?thesis
    proof (cases "create_handle_for_location libs location index DirectionInput s w")
      case (fields q u v)
      note h = create_handle_for_location_ok [OF fields]
      show ?thesis
      proof (cases q)
        case (Inl e)
        then show ?thesis using exact h fields assms(2) by auto
      next
        case (Inr x)
        have su: "step_ok s u [ih_handle (input_handle_new x)]" using h Inr by (simp add: input_handle_new_def)
        have "head_pattern libs (input_handle_new x) (url_text (lib_url libs) location) u v = (r, t, w')"
          using exact fields Inr by simp
        from head_pattern_step [OF this su] show ?thesis by simp
      qed
    qed
  next
    case glob
    show ?thesis by (rule expand_url_pattern_ok [OF glob(2)]) (use assms(2) in simp)
  qed simp
qed

lemma expand_input_pattern_ok:
  assumes "expand_input_pattern libs pattern s w = (r, t, w')"
  shows "step_ok s t (object_handles r) \<and> (session_wf s \<longrightarrow> r \<noteq> Inl Panicked)"
proof (cases pattern)
  case (ExactPattern input)
  then show ?thesis using expand_exact_pattern_ok assms by (simp add: expand_input_pattern_def)
next
  case (UrlPattern source location matcher lit)
  then have "expand_url_pattern libs (UrlPattern source location matcher lit) None s w = (r, t, w')"
    using assms by (simp add: expand_input_pattern_def)
  then show ?thesis by (rule expand_url_pattern_ok) simp
next
  case (BarePattern source)
  consider (failed) e where "r = Inl (Failed e)" "t = s"
    | (panic) index where "r = Inl Panicked" "t = s" "ri_bare (ss_routing s) = Some index" "\<not> index < length (ss_bindings s)"
    | (mapped) index name mapped where "index < length (ss_bindings s)"
        "expand_mapped_pattern libs mapped index name s w = (r, t, w')"
    using assms BarePattern
    by (auto simp: expand_input_pattern_def nth_binding_def split: option.splits if_splits sum.splits)
  then show ?thesis
  proof cases
    case panic
    then show ?thesis by (auto simp: session_wf_def)
  next
    case mapped
    show ?thesis by (rule expand_mapped_pattern_ok [OF mapped(2,1)])
  qed simp
qed

subsection \<open>Runs\<close>

lemma session_op_step_ok:
  assumes "session_op_step libs op s w = (result, t, w')"
  shows "step_ok s t (result_handles result) \<and> (session_wf s \<longrightarrow> result \<noteq> OpFailed Panicked) \<and>
    (case result of
       PreparedOutput h \<Rightarrow> (sh_store_url h, sh_object_path h) \<notin> ss_claimed s \<and> (sh_store_url h, sh_object_path h) \<in> ss_claimed t
     | _ \<Rightarrow> True)"
proof (cases op)
  case (OpenInput input)
  show ?thesis
  proof (cases "open_input_handle libs input s w")
    case (fields q u v)
    show ?thesis using open_input_handle_ok [OF fields] assms OpenInput fields
      by (cases q) (auto simp: session_op_step_def settle_def)
  qed
next
  case (LookupInput input)
  show ?thesis
  proof (cases "lookup_input libs input s w")
    case (fields q u v)
    show ?thesis using lookup_input_ok [OF fields] assms LookupInput fields
      by (cases q) (auto simp: session_op_step_def settle_def)
  qed
next
  case (PrepareOutput input preparation)
  show ?thesis
  proof (cases "prepare_output_target libs input preparation s w")
    case (fields q u v)
    show ?thesis using prepare_output_target_ok [OF fields] assms PrepareOutput fields
      by (cases q) (auto simp: session_op_step_def settle_def)
  qed
next
  case (ExpandPattern pattern)
  show ?thesis
  proof (cases "expand_input_pattern libs pattern s w")
    case (fields q u v)
    show ?thesis using expand_input_pattern_ok [OF fields] assms ExpandPattern fields
      by (cases q) (auto simp: session_op_step_def settle_def)
  qed
qed

lemma session_run_ok:
  "session_run libs ops s w = (results, t, w') \<Longrightarrow>
    step_ok s t (concat (map result_handles results)) \<and>
    (session_wf s \<longrightarrow> list_all (\<lambda>r. r \<noteq> OpFailed Panicked) results) \<and>
    distinct (prepared_targets results) \<and> set (prepared_targets results) \<inter> ss_claimed s = {}"
proof (induction ops arbitrary: s w results)
  case (Cons op ops)
  obtain result u v where op: "session_op_step libs op s w = (result, u, v)" by (metis prod_cases3)
  obtain rest where run: "session_run libs ops u v = (rest, t, w')" and results: "results = result # rest"
    using Cons.prems op by (auto split: prod.splits)
  note o = session_op_step_ok [OF op]
  note IH = Cons.IH [OF run]
  have claims: "ss_claimed s \<subseteq> ss_claimed u" using o by (simp add: step_ok_def session_extends_def)
  have wf: "session_wf s \<Longrightarrow> session_wf u" using o session_wf_extends by (auto simp: step_ok_def)
  have "step_ok s t (concat (map result_handles results))"
    using step_ok_trans o IH results by fastforce
  moreover have "distinct (prepared_targets results) \<and> set (prepared_targets results) \<inter> ss_claimed s = {}"
    using o IH claims results by (cases result) auto
  ultimately show ?case using o IH wf results by simp
qed simp


lemma create_handle_for_location_Inr:
  assumes "create_handle_for_location libs location index direction s w = (Inr h, t, w')"
  shows "\<exists>backend. nth_binding s index = Some backend \<and> access_supports (bn_access backend) direction \<and>
    bn_validate backend location = Inr () \<and> sh_url h = location \<and>
    op_from_url_path (lib_path libs) (url_path (lib_url libs) location) = Some (sh_object_path h) \<and>
    sh_store_url h = store_url (lib_url libs) location"
proof -
  obtain backend where b: "nth_binding s index = Some backend"
    using assms by (cases "nth_binding s index") (auto simp: create_handle_for_location_def)
  then show ?thesis
    using assms
    by (cases "bn_validate backend location")
      (auto simp: create_handle_for_location_def handle_of_def Let_def split: option.splits sum.splits if_splits prod.splits)
qed

lemma create_handle_Inr:
  assumes "create_handle libs input direction s w = (Inr h, t, w')"
  shows "\<exists>index. ri_by_scheme (ss_routing s) (url_scheme (lib_url libs) (sh_url h)) = Some index \<and>
    create_handle_for_location libs (sh_url h) index direction s w = (Inr h, t, w') \<and>
    (case input of UrlInput location \<Rightarrow> sh_url h = location
     | BareInput bare \<Rightarrow> ri_bare (ss_routing s) = Some index \<and>
         (\<exists>backend mapper. nth_binding s index = Some backend \<and> bn_map_location backend = Some mapper \<and>
            mapper bare = Inr (sh_url h)))"
proof -
  obtain index location where
    c: "create_handle_for_location libs location index direction s w = (Inr h, t, w')" and
    r: "ri_by_scheme (ss_routing s) (url_scheme (lib_url libs) location) = Some index" and
    i: "case input of UrlInput l \<Rightarrow> l = location
     | BareInput bare \<Rightarrow> ri_bare (ss_routing s) = Some index \<and>
         (\<exists>backend mapper. nth_binding s index = Some backend \<and> bn_map_location backend = Some mapper \<and>
            mapper bare = Inr location)"
    using assms
    by (auto simp: create_handle_def route_input_def ok_or_def
        split: sum.splits option.splits if_splits location_input.splits)
  have "sh_url h = location" using create_handle_for_location_Inr [OF c] by blast
  then show ?thesis using c r i by (auto split: location_input.splits)
qed

text \<open>A backend whose bindings map bare locations exactly when it claims the bare route; every built one does.\<close>

definition binds_faithfully :: "('u, 'g, 's, 'r, 'w, 'c, 'm) storage_backend \<Rightarrow> bool" where
  "binds_faithfully sb \<longleftrightarrow>
     (\<forall>matches bn. sb_bind sb matches = Inr bn \<longrightarrow> (bn_map_location bn = None \<longleftrightarrow> \<not> sb_claims_bare_locations sb))"

lemma backend_build_binds_faithfully: "backend_build cl b = Inr sb \<Longrightarrow> binds_faithfully sb"
  using backend_build_binds [of cl b sb] by (auto simp: binds_faithfully_def)

lemma bind_all_Inr:
  "bind_all backends matches = Inr bindings \<Longrightarrow>
    length bindings = length backends \<and> (\<forall>i < length backends. sb_bind (backends ! i) matches = Inr (bindings ! i))"
proof (induction backends arbitrary: bindings)
  case (Cons b bs)
  then obtain x xs where x: "sb_bind b matches = Inr x" "bind_all bs matches = Inr xs" "bindings = x # xs"
    by (auto simp: res_bind_Inr_conv)
  then show ?case using Cons.IH [OF x(2)] by (auto simp: nth_Cons split: nat.splits)
qed simp

lemma create_session_wf:
  assumes "registry_from_backends cl backends = Inr reg" "list_all binds_faithfully backends"
    "create_session parse_upload parse_retry reg matches = Inr s"
  shows "session_wf s"
proof -
  obtain bindings retry where b: "bind_all backends matches = Inr bindings"
    and s: "s = session_new bindings (sr_routing reg) retry"
    using assms(3) registry_from_backends_Inr [OF assms(1)] by (auto simp: create_session_def res_bind_Inr_conv)
  have map_location: "bn_map_location (bindings ! i) \<noteq> None"
    if "i < length backends" "sb_claims_bare_locations (backends ! i)" for i
  proof -
    have "binds_faithfully (backends ! i)" using assms(2) that(1) by (simp add: list_all_length)
    then show ?thesis using that bind_all_Inr [OF b] by (auto simp: binds_faithfully_def)
  qed
  show ?thesis
    using bind_all_Inr [OF b] registry_routes [OF assms(1)] map_location
    by (auto simp: session_wf_def s session_new_def)
qed

section \<open>Properties\<close>

text \<open>
  C9: Within one session an output target is handed out at most once: whatever operations are made,
  in whatever order and with whatever failures between them, the prepared targets have pairwise
  different identities (store URL and object path), none of them claimed before.
\<close>

theorem outputs_are_claimed_once:
  "case session_run libs ops s w of (results, t, w') \<Rightarrow>
     distinct (prepared_targets results) \<and> set (prepared_targets results) \<inter> ss_claimed s = {}"
  using session_run_ok [of libs ops s w] by (cases "session_run libs ops s w") simp

text \<open>
  A claim is made before anything can fail and is never given back: once the handle of an output
  target exists its identity is claimed, whatever the existence check and the backend answer
  afterwards, and a target already claimed is refused without asking the store or the backend.
\<close>

theorem claim_survives_failed_preparation:
  assumes "create_handle libs input DirectionOutput s w = (Inr target, u, v)"
  shows "(sh_store_url target, sh_object_path target) \<in>
      ss_claimed (fst (snd (prepare_output_target libs input preparation s w))) \<and>
    (if (sh_store_url target, sh_object_path target) \<in> ss_claimed s
     then prepare_output_target libs input preparation s w =
       (Inl (Failed (OutputTargetAlreadyClaimed (url_text (lib_url libs) (sh_url target)))), u, v)
     else fst (prepare_output_target libs input preparation s w) \<noteq>
       Inl (Failed (OutputTargetAlreadyClaimed (url_text (lib_url libs) (sh_url target)))))"
proof -
  have c: "ss_claimed u = ss_claimed s" using create_handle_ok [OF assms] by simp
  let ?u = "u\<lparr>ss_claimed := insert (sh_store_url target, sh_object_path target) (ss_claimed u)\<rparr>"
  show ?thesis
  proof (cases "(sh_store_url target, sh_object_path target) \<in> ss_claimed s")
    case True
    then show ?thesis using assms c by (simp add: prepare_output_target_def)
  next
    case False
    obtain q v' where e: "reject_existing libs target preparation v = (q, v')" by fastforce
    show ?thesis
    proof (cases q)
      case (Inl x)
      have "x \<noteq> OutputTargetAlreadyClaimed y" for y
        using e Inl by (auto simp: reject_existing_def split: if_splits prod.splits sum.splits store_error.splits)
      then show ?thesis using assms c False e Inl by (simp add: prepare_output_target_def Let_def)
    next
      case (Inr x)
      obtain r t w' where p: "prepare_with_backend libs target preparation ?u v' = (r, t, w')" by (metis prod_cases3)
      have "r \<noteq> Inl (Failed (OutputTargetAlreadyClaimed y))" for y
        using p by (auto simp: prepare_with_backend_def backend_index_for_url_def ok_or_def
            split: sum.splits option.splits prod.splits)
      then show ?thesis
        using assms c False e Inr p prepare_with_backend_ok [OF p]
        by (simp add: prepare_output_target_def Let_def)
    qed
  qed
qed

text \<open>
  A session makes one object store per store URL. After any operations on a fresh session, every
  handle it gave out holds the store its cache keeps for the handle's store URL, so handles with one
  store URL share one client; and the view an input reads through wraps that same client.
\<close>

theorem one_store_per_store_url:
  "case session_run libs ops (session_new bindings routing retry) w of (results, t, w') \<Rightarrow>
     list_all (handle_backed t) (concat (map result_handles results)) \<and>
     list_all (\<lambda>h. sh_read_only_store h = read_only_store (sh_object_store h)) (concat (map result_handles results))"
proof (cases "session_run libs ops (session_new bindings routing retry) w")
  case (fields results t w')
  have "cache_ok (session_new bindings routing retry)" by (simp add: cache_ok_def session_new_def)
  then have "cache_ok t" "list_all (handle_backed t) (concat (map result_handles results))"
    using session_run_ok [OF fields] by (simp_all add: step_ok_def)
  moreover have "list_all (\<lambda>h. sh_read_only_store h = read_only_store (sh_object_store h)) hs"
    if "list_all (handle_backed t) hs" for hs
    using that \<open>cache_ok t\<close> by (fastforce simp: list_all_iff handle_backed_def cache_ok_def)
  ultimately show ?thesis by (simp add: fields)
qed

text \<open>
  C30: A handle always belongs to the backend its URL's scheme routes to, which supports the requested
  direction and accepted the location. An explicit URL is used as it is. Schemeless input goes only to
  the backend of the bare route, and what that backend maps it to cannot leave the schemes it claims.
\<close>

theorem handle_is_routed:
  assumes "create_handle libs input direction s w = (Inr h, t, w')"
  shows "\<exists>index backend. ri_by_scheme (ss_routing s) (url_scheme (lib_url libs) (sh_url h)) = Some index \<and>
    nth_binding s index = Some backend \<and> access_supports (bn_access backend) direction \<and>
    bn_validate backend (sh_url h) = Inr () \<and> sh_store_url h = store_url (lib_url libs) (sh_url h) \<and>
    op_from_url_path (lib_path libs) (url_path (lib_url libs) (sh_url h)) = Some (sh_object_path h) \<and>
    (case input of UrlInput location \<Rightarrow> sh_url h = location
     | BareInput bare \<Rightarrow> ri_bare (ss_routing s) = Some index \<and>
         (\<exists>mapper. bn_map_location backend = Some mapper \<and> mapper bare = Inr (sh_url h)))"
proof -
  obtain index where i: "ri_by_scheme (ss_routing s) (url_scheme (lib_url libs) (sh_url h)) = Some index"
    "create_handle_for_location libs (sh_url h) index direction s w = (Inr h, t, w')"
    "case input of UrlInput location \<Rightarrow> sh_url h = location
     | BareInput bare \<Rightarrow> ri_bare (ss_routing s) = Some index \<and>
         (\<exists>backend mapper. nth_binding s index = Some backend \<and> bn_map_location backend = Some mapper \<and>
            mapper bare = Inr (sh_url h))"
    using create_handle_Inr [OF assms] by blast
  from create_handle_for_location_Inr [OF i(2)] i show ?thesis
    by (cases input) auto
qed


text \<open>
  C28: Expanding a URL pattern finds exactly the listed objects that match: the listing is asked below
  the literal prefix through the read-only view, the objects found are those of its items whose path
  the glob matches, each once and in listing order, and each gets a handle for its own path with the
  pattern's store and a URL that the backend of the pattern's scheme accepted.
\<close>

theorem expansion_is_the_matching_listing:
  assumes "expand_url_pattern libs (UrlPattern source location matcher lit) None s w = (Inr objects, t, w')"
  shows "\<exists>index backend h p w1 metas.
    ri_by_scheme (ss_routing s) (url_scheme (lib_url libs) location) = Some index \<and>
    nth_binding s index = Some backend \<and>
    create_handle_for_location libs location index DirectionInput s w = (Inr h, t, w1) \<and>
    listing_prefix_of libs location lit = Inr p \<and>
    list_reply (ro_call (lib_call libs) (sh_read_only_store h) (ListObjects p) w1) = (map Inr metas, w') \<and>
    map io_metadata objects = filter (\<lambda>m. glob_matches (lib_glob libs) matcher (om_location m)) metas \<and>
    list_all (\<lambda>x. sh_object_path (ih_handle (io_input_handle x)) = om_location (io_metadata x) \<and>
        sh_object_store (ih_handle (io_input_handle x)) = sh_object_store h \<and>
        (\<exists>matched. location_parse_url (lib_url libs) (url_text (lib_url libs) (sh_url (ih_handle (io_input_handle x)))) =
           Inr matched \<and> bn_validate backend matched = Inr ())) objects"
proof -
  obtain index where i: "ri_by_scheme (ss_routing s) (url_scheme (lib_url libs) location) = Some index"
    using assms by (auto simp: expand_url_pattern_def backend_index_for_url_def ok_or_def split: option.splits)
  obtain q u v where c: "create_handle_for_location libs location index DirectionInput s w = (q, u, v)"
    by (metis prod_cases3)
  obtain h where q: "q = Inr h"
    using assms i c by (cases q) (auto simp: expand_url_pattern_def backend_index_for_url_def)
  obtain p where p: "listing_prefix_of libs location lit = Inr p"
    using assms i c q by (cases "listing_prefix_of libs location lit")
      (auto simp: expand_url_pattern_def backend_index_for_url_def)
  obtain listed w2 where l: "list_reply (ro_call (lib_call libs) (sh_read_only_store h) (ListObjects p) v) = (listed, w2)"
    by fastforce
  have "ss_bindings u = ss_bindings s"
    using create_handle_for_location_ok [OF c] by (simp add: step_ok_def session_extends_def)
  then have same: "nth_binding u index = nth_binding s index" by (simp add: nth_binding_def)
  obtain backend where b: "nth_binding s index = Some backend"
    using create_handle_for_location_Inr [of libs location index DirectionInput s w h] c q by blast
  have e: "expand_listing libs backend source location matcher (input_handle_new h) listed = Inr objects \<and> t = u \<and> w' = w2"
    using assms i c q p l b same
    by (cases "expand_listing libs backend source location matcher (input_handle_new h) listed")
      (auto simp: expand_url_pattern_def backend_index_for_url_def input_handle_new_def)
  then obtain metas where m: "listed = map Inr metas"
    "map io_metadata objects = filter (\<lambda>m. glob_matches (lib_glob libs) matcher (om_location m)) metas"
    "list_all (\<lambda>x. matched_object libs backend location (input_handle_new h) (io_metadata x) = Inr x) objects"
    using expand_listing_Inr [OF conjunct1 [OF e]] by blast
  have "list_all (\<lambda>x. sh_object_path (ih_handle (io_input_handle x)) = om_location (io_metadata x) \<and>
        sh_object_store (ih_handle (io_input_handle x)) = sh_object_store h \<and>
        (\<exists>matched. location_parse_url (lib_url libs) (url_text (lib_url libs) (sh_url (ih_handle (io_input_handle x)))) =
           Inr matched \<and> bn_validate backend matched = Inr ())) objects"
    using m(3) matched_object_Inr [of libs backend location "input_handle_new h"]
    by (auto simp: list_all_iff input_handle_new_def)
  then show ?thesis
    using i b c q p l e m
    by (intro exI [of _ index] exI [of _ backend] exI [of _ h] exI [of _ p] exI [of _ v] exI [of _ metas] conjI)
      (simp_all only:)
qed


section \<open>A concrete session\<close>

text \<open>A store with two objects, which counts the calls made on it, and libraries that keep texts as they are.\<close>

definition tiny_objects :: "string list" where
  "tiny_objects = [''x/a'', ''x/b'']"

fun tiny_call :: "(nat, nat) store_call" where
  "tiny_call store (GetOpts path _) w =
     (if path \<in> set tiny_objects then (Inr (ReplyMeta \<lparr>om_location = path, om_size = 1\<rparr>), w + 1)
      else (Inl (StoreNotFound path), w + 1))"
| "tiny_call store (ListObjects _) w =
     (Inr (ReplyList (map (\<lambda>p. Inr \<lparr>om_location = p, om_size = 1\<rparr>) tiny_objects)), w + 1)"
| "tiny_call store _ w = (Inr ReplyOther, w + 1)"

definition tiny_libs :: "(string, string, nat, nat) storage_libs" where
  "tiny_libs = \<lparr>lib_url = plain_urls,
     lib_glob = \<lparr>glob_new = Inr, glob_escape = id, glob_matches = (\<lambda>g s. g = ''*'' \<or> g = s)\<rparr>,
     lib_path = \<lparr>op_from_url_path = (\<lambda>p. Some (case strip_prefix ''/'' p of Some q \<Rightarrow> q | None \<Rightarrow> p)), op_parse = Some,
       op_parts = split_on CHR ''/''\<rparr>,
     lib_call = tiny_call\<rparr>"

definition tiny_session :: "(string, string, nat, unit, nat) storage_session" where
  "tiny_session = projr (create_session (\<lambda>_. Inr ()) (\<lambda>_. Inr ()) tiny_registry ())"

lemma tiny_session_created: "create_session (\<lambda>_. Inr ()) (\<lambda>_. Inr ()) tiny_registry () = Inr tiny_session"
proof -
  have "is_ok (create_session (\<lambda>_. Inr ()) (\<lambda>_. Inr ()) tiny_registry ())" by code_simp
  then show ?thesis unfolding tiny_session_def is_ok_conv by auto
qed

lemma step_triple: "is_ok (fst step) \<Longrightarrow> step = (Inr (projr (fst step)), fst (snd step), snd (snd step))"
  by (cases step) (auto simp: is_ok_conv)

definition tiny_output :: "((string, nat) storage_handle, string, string, nat, unit, nat) session_step" where
  "tiny_output = create_handle tiny_libs (UrlInput ''s3://b/x/c'') DirectionOutput tiny_session 0"

lemma tiny_output_handle:
  "create_handle tiny_libs (UrlInput ''s3://b/x/c'') DirectionOutput tiny_session 0 =
     (Inr (projr (fst tiny_output)), fst (snd tiny_output), snd (snd tiny_output))"
proof -
  have "is_ok (fst tiny_output)" by code_simp
  from step_triple [OF this] show ?thesis unfolding tiny_output_def .
qed

theorem claim_survives_failed_preparation_witness:
  "(sh_store_url (projr (fst tiny_output)), sh_object_path (projr (fst tiny_output))) \<in>
      ss_claimed (fst (snd (prepare_output_target tiny_libs (UrlInput ''s3://b/x/c'')
        \<lparr>op_existing_output = RejectIfObserved, op_create_parent_directories = True\<rparr> tiny_session 0)))"
  using claim_survives_failed_preparation [OF tiny_output_handle] by blast

theorem handle_is_routed_witness:
  "\<exists>index backend. ri_by_scheme (ss_routing tiny_session) (url_scheme (lib_url tiny_libs) (sh_url (projr (fst tiny_output)))) = Some index \<and>
    nth_binding tiny_session index = Some backend \<and> access_supports (bn_access backend) DirectionOutput \<and>
    bn_validate backend (sh_url (projr (fst tiny_output))) = Inr () \<and>
    sh_url (projr (fst tiny_output)) = ''s3://b/x/c''"
  using handle_is_routed [OF tiny_output_handle] by auto

lemma tiny_backends_faithful: "list_all binds_faithfully [tiny_backend ''local'' ''file'' True, tiny_backend ''s3'' ''s3'' False]"
  using tiny_backend_built [THEN backend_build_binds_faithfully] by simp


definition tiny_expansion :: "((string, nat) input_object list, string, string, nat, unit, nat) session_step" where
  "tiny_expansion = expand_url_pattern tiny_libs (UrlPattern ''s3://b/x/*'' ''s3://b/x/%2A'' ''*'' ''x'') None tiny_session 0"

lemma tiny_expanded:
  "expand_url_pattern tiny_libs (UrlPattern ''s3://b/x/*'' ''s3://b/x/%2A'' ''*'' ''x'') None tiny_session 0 =
     (Inr (projr (fst tiny_expansion)), fst (snd tiny_expansion), snd (snd tiny_expansion))"
proof -
  have "is_ok (fst tiny_expansion)" by code_simp
  from step_triple [OF this] show ?thesis unfolding tiny_expansion_def .
qed

theorem expansion_is_the_matching_listing_witness:
  "\<exists>metas store. map io_metadata (projr (fst tiny_expansion)) =
      filter (\<lambda>m. glob_matches (lib_glob tiny_libs) ''*'' (om_location m)) metas \<and>
    list_all (\<lambda>x. sh_object_path (ih_handle (io_input_handle x)) = om_location (io_metadata x) \<and>
        sh_object_store (ih_handle (io_input_handle x)) = store) (projr (fst tiny_expansion))"
  using expansion_is_the_matching_listing [OF tiny_expanded] by (fastforce simp: list_all_iff)

end
