(* ===== verification/Target_Template.thy ===== *)
theory Target_Template
  imports Partition_Runs Location_Pattern
begin

text \<open>
  Partition output templates (\<open>src/commands/transform/file_output/target_template.rs\<close>): splitting a
  template into its fixed envelope and its object-path template, the scan for template tags, the rules
  for \<open>file_number\<close>, and rendering with Hive escaping.

  The template engine (minijinja), the \<open>percent_encoding\<close> and \<open>url\<close> crates, Arrow's value formatter
  and the Unicode table behind \<open>char::is_alphanumeric\<close> are parameters. The base of a URL template is
  an accepted location, whose text has \<open>://\<close>, so it always has path segments to set.
\<close>

section \<open>Libraries\<close>

datatype context_value = TextValue string | NumberValue nat

record 'a template_libs =
  tl_parse :: "string \<Rightarrow> bool"
  tl_undeclared :: "string \<Rightarrow> string set"
  tl_render :: "(bool \<Rightarrow> bool \<Rightarrow> string \<Rightarrow> string) \<Rightarrow> (string \<Rightarrow> string) \<Rightarrow> string \<Rightarrow> (string \<Rightarrow> context_value option) \<Rightarrow> string option"
  tl_escape_formatter :: "bool \<Rightarrow> string \<Rightarrow> string"
  tl_percent_encode :: "(char \<Rightarrow> bool) \<Rightarrow> string \<Rightarrow> string"
  tl_percent_decode :: "string \<Rightarrow> string"
  tl_display :: "string \<Rightarrow> 'a \<Rightarrow> string option"
  tl_unicode_alphanumeric :: "string \<Rightarrow> bool"

datatype template_error =
    TemplateHasFragment
  | TemplateWithoutPath
  | QueryBeforePath
  | SyntaxOutsidePath
  | TemplatePathEmpty
  | NoUrlEnvelope
  | TemplateLocation storage_error
  | UnclosedTag
  | InvalidTemplate string
  | FileNumberNotDirect
  | FileNumberInControlFlow
  | FileNumberMissing
  | FileNumberReserved
  | FormatterFailed
  | RenderFailed
  | RenderedNotUtf8
  | RenderedPathEmpty
  | RenderedEmptySegment
  | RenderedDotSegment

section \<open>Hive escaping\<close>

definition hive_default_partition :: string where
  "hive_default_partition = ''__HIVE_DEFAULT_PARTITION__''"

definition hive_encode_set :: "char \<Rightarrow> bool" where
  "hive_encode_set c \<longleftrightarrow> byte_nat c < 32 \<or> byte_nat c = 127 \<or>
     c \<in> {CHR 0x22, CHR ''#'', CHR ''%'', CHR 0x27, CHR ''*'', CHR ''/'', CHR '':'', CHR ''='', CHR ''?'',
          CHR 0x5C, CHR ''{'', CHR ''['', CHR '']'', CHR ''^''}"

definition hive_escape_path :: "'a template_libs \<Rightarrow> string \<Rightarrow> string" where
  "hive_escape_path libs path =
     (if path = [] then hive_default_partition else tl_percent_encode libs hive_encode_set path)"

section \<open>Template tags\<close>

datatype tag_kind = ExpressionTag | BlockTag | CommentTag

record template_tag =
  tag_kind :: tag_kind
  tag_body :: string
  tag_start :: nat
  tag_end :: nat

definition tag_at :: "string \<Rightarrow> (tag_kind \<times> string) option" where
  "tag_at remainder =
     (if starts_with remainder ''{{'' then Some (ExpressionTag, ''}}'')
      else if starts_with remainder ''{%'' then Some (BlockTag, ''%}'')
      else if starts_with remainder ''{#'' then Some (CommentTag, ''#}'')
      else None)"

function template_tags :: "string \<Rightarrow> nat \<Rightarrow> (template_error, template_tag list) result" where
  "template_tags source cursor =
     (case find_index (\<lambda>c. c = CHR ''{'') (drop cursor source) of
        None \<Rightarrow> Inr []
      | Some relative_start \<Rightarrow>
          (let start = cursor + relative_start in
           case tag_at (drop start source) of
             None \<Rightarrow> template_tags source (start + 1)
           | Some (kind, closing) \<Rightarrow>
               (let body_start = start + 2 in
                case find_sub closing (drop body_start source) of
                  None \<Rightarrow> Inl UnclosedTag
                | Some relative_end \<Rightarrow>
                    (let body_end = body_start + relative_end; tag_end = body_end + 2 in
                     res_bind (template_tags source tag_end) (\<lambda>tags.
                       Inr (\<lparr>tag_kind = kind, tag_body = take relative_end (drop body_start source),
                              tag_start = start, tag_end = tag_end\<rparr> # tags))))))"
  by pat_completeness auto
termination
proof (relation "measure (\<lambda>(source, cursor). length source - cursor)", goal_cases)
  case (2 source cursor relative_start)
  then have "relative_start < length source - cursor"
    using find_index_Some [of "\<lambda>c. c = CHR ''{''" "drop cursor source" relative_start] by simp
  with 2 show ?case by simp
next
  case (3 source cursor relative_start)
  then have "relative_start < length source - cursor"
    using find_index_Some [of "\<lambda>c. c = CHR ''{''" "drop cursor source" relative_start] by simp
  with 3 show ?case by simp
qed simp

declare template_tags.simps [simp del]

fun mask_from :: "string \<Rightarrow> nat \<Rightarrow> template_tag list \<Rightarrow> string" where
  "mask_from source cursor [] = drop cursor source"
| "mask_from source cursor (tag # tags) =
     take (tag_start tag - cursor) (drop cursor source) @ ''x'' @ mask_from source (tag_end tag) tags"

definition mask_template_tags :: "string \<Rightarrow> (template_error, string) result" where
  "mask_template_tags source = res_bind (template_tags source 0) (\<lambda>tags. Inr (mask_from source 0 tags))"

subsection \<open>Characters\<close>

text \<open>
  The last character of a text and the first of one, as their UTF-8 bytes: a character ends where the
  next byte is not a continuation byte.
\<close>

definition first_character :: "string \<Rightarrow> string option" where
  "first_character s = (case s of [] \<Rightarrow> None | c # cs \<Rightarrow> Some (c # takeWhile continuation_byte cs))"

definition last_character :: "string \<Rightarrow> string option" where
  "last_character s =
     (case rev s of
        [] \<Rightarrow> None
      | _ \<Rightarrow> Some (rev (takeWhile continuation_byte (rev s) @ take 1 (dropWhile continuation_byte (rev s)))))"

definition identifier_character :: "'a template_libs \<Rightarrow> string option \<Rightarrow> bool" where
  "identifier_character libs character =
     (case character of None \<Rightarrow> False | Some c \<Rightarrow> c = ''_'' \<or> tl_unicode_alphanumeric libs c)"

fun match_starts :: "string \<Rightarrow> string \<Rightarrow> nat \<Rightarrow> nat \<Rightarrow> nat list" where
  "match_starts identifier [] position skip = []"
| "match_starts identifier (c # cs) position skip =
     (if skip > 0 then match_starts identifier cs (position + 1) (skip - 1)
      else if starts_with (c # cs) identifier
      then position # match_starts identifier cs (position + 1) (length identifier - 1)
      else match_starts identifier cs (position + 1) 0)"

definition contains_identifier :: "'a template_libs \<Rightarrow> string \<Rightarrow> string \<Rightarrow> bool" where
  "contains_identifier libs source identifier =
     list_ex (\<lambda>start. \<not> identifier_character libs (last_character (take start source)) \<and>
         \<not> identifier_character libs (first_character (drop (start + length identifier) source)))
       (match_starts identifier source 0 0)"

fun until_whitespace :: "string \<Rightarrow> string" where
  "until_whitespace [] = []"
| "until_whitespace (c # cs) = (if whitespace_prefix (c # cs) \<noteq> None then [] else c # until_whitespace cs)"

text \<open>\<open>split_whitespace().next().unwrap_or_default()\<close>\<close>

definition first_word :: "string \<Rightarrow> string" where
  "first_word s = until_whitespace (trim_start s)"

section \<open>The template\<close>

datatype 'u output_envelope = BareEnvelope bool | UrlEnvelope 'u

record 'u target_template =
  tt_object_path_template :: string
  tt_envelope :: "'u output_envelope"

definition with_template_syntax :: "string \<Rightarrow> bool" where
  "with_template_syntax s \<longleftrightarrow> CHR ''{'' \<in> set s \<or> CHR ''}'' \<in> set s"

definition parse_envelope ::
  "'u url_ops \<Rightarrow> string \<Rightarrow> (template_error, 'u output_envelope \<times> string) result" where
  "parse_envelope ops pattern =
     (case find_sub ''://'' pattern of
        Some separator \<Rightarrow>
          if CHR ''#'' \<in> set pattern then Inl TemplateHasFragment
          else (case find_index (\<lambda>c. c = CHR ''/'') (drop (separator + 3) pattern) of
            None \<Rightarrow> Inl TemplateWithoutPath
          | Some offset \<Rightarrow>
              (let path_start = separator + 3 + offset;
                   query_start = (case find_index (\<lambda>c. c = CHR ''?'') pattern of Some q \<Rightarrow> q | None \<Rightarrow> length pattern) in
               if query_start < path_start then Inl QueryBeforePath
               else
                 (let fixed_prefix = take (path_start + 1) pattern;
                      object_path_template = take (query_start - (path_start + 1)) (drop (path_start + 1) pattern);
                      fixed_query = drop query_start pattern in
                  if with_template_syntax fixed_prefix \<or> with_template_syntax fixed_query then Inl SyntaxOutsidePath
                  else if object_path_template = [] then Inl TemplatePathEmpty
                  else res_bind (mask_template_tags object_path_template) (\<lambda>masked_path.
                    (case location_input_parse ops (fixed_prefix @ masked_path @ fixed_query) of
                       Inl e \<Rightarrow> Inl (TemplateLocation e)
                     | Inr (BareInput _) \<Rightarrow> Inl NoUrlEnvelope
                     | Inr (UrlInput location) \<Rightarrow>
                         Inr (UrlEnvelope (url_set_path ops location ''/''), object_path_template))))))
      | None \<Rightarrow>
          (let object_path_template = (case strip_prefix ''/'' pattern of Some p \<Rightarrow> p | None \<Rightarrow> pattern) in
           if object_path_template = [] then Inl TemplatePathEmpty
           else Inr (BareEnvelope (starts_with pattern ''/''), object_path_template)))"

definition target_template_new ::
  "'u url_ops \<Rightarrow> 'a template_libs \<Rightarrow> string \<Rightarrow> (template_error, 'u target_template) result" where
  "target_template_new ops libs pattern =
     res_bind (parse_envelope ops pattern) (\<lambda>(envelope, object_path_template).
       if \<not> tl_parse libs object_path_template then Inl (InvalidTemplate pattern)
       else Inr \<lparr>tt_object_path_template = object_path_template, tt_envelope = envelope\<rparr>)"

definition protects_percent_encoding :: "'u target_template \<Rightarrow> bool" where
  "protects_percent_encoding t = (case tt_envelope t of UrlEnvelope _ \<Rightarrow> True | BareEnvelope _ \<Rightarrow> False)"

definition protect_percent :: "string \<Rightarrow> string" where
  "protect_percent s = concat (map (\<lambda>c. if c = CHR ''%'' then ''%25'' else [c]) s)"

text \<open>
  The formatter and the \<open>raw\<close> filter the environment is given. The engine hands the formatter the
  auto-escape mode in force (\<open>hive_mode\<close>: it is the custom one the environment starts in), whether
  the value is marked safe, and its text; outside the custom mode it is the engine's own formatter.
\<close>

definition hive_formatter :: "'a template_libs \<Rightarrow> bool \<Rightarrow> bool \<Rightarrow> bool \<Rightarrow> string \<Rightarrow> string" where
  "hive_formatter libs protects hive_mode is_safe value =
     (if \<not> hive_mode then tl_escape_formatter libs is_safe value
      else
        (let formatted = (if is_safe then value else hive_escape_path libs value) in
         if protects then protect_percent formatted else formatted))"

definition raw_filter :: "string \<Rightarrow> string" where
  "raw_filter value =
     (if value = [] \<or> value = hive_default_partition then hive_default_partition else value)"

definition referenced_fields :: "'a template_libs \<Rightarrow> 'u target_template \<Rightarrow> (template_error, string set) result" where
  "referenced_fields libs t =
     (if tl_parse libs (tt_object_path_template t) then Inr (tl_undeclared libs (tt_object_path_template t))
      else Inl (InvalidTemplate (tt_object_path_template t)))"

definition static_extension :: "'u target_template \<Rightarrow> string option" where
  "static_extension t =
     (case rsplit_once_on CHR ''.'' (last (split_on CHR ''/'' (tt_object_path_template t))) of
        None \<Rightarrow> None
      | Some (_, extension) \<Rightarrow>
          if extension \<noteq> [] \<and> find_sub ''{{'' extension = None \<and> find_sub ''{%'' extension = None
            \<and> find_sub ''{#'' extension = None
          then Some extension else None)"

section \<open>The file number\<close>

definition opens_block :: "string \<Rightarrow> string \<Rightarrow> bool" where
  "opens_block keyword body \<longleftrightarrow>
     keyword \<in> {''if'', ''for'', ''block'', ''filter'', ''macro'', ''with'', ''autoescape'', ''call'', ''raw''} \<or>
     (keyword = ''set'' \<and> CHR ''='' \<notin> set body)"

fun scan_file_number ::
  "'a template_libs \<Rightarrow> template_tag list \<Rightarrow> nat \<Rightarrow> bool \<Rightarrow> (template_error, bool) result" where
  "scan_file_number libs [] depth direct = Inr direct"
| "scan_file_number libs (tag # tags) depth direct =
     (case tag_kind tag of
        ExpressionTag \<Rightarrow>
          if contains_identifier libs (tag_body tag) ''file_number'' then
            if trim (tag_body tag) = ''file_number'' \<and> depth = 0 then scan_file_number libs tags depth True
            else Inl FileNumberNotDirect
          else scan_file_number libs tags depth direct
      | BlockTag \<Rightarrow>
          if contains_identifier libs (tag_body tag) ''file_number'' then Inl FileNumberInControlFlow
          else
            (let keyword = first_word (tag_body tag) in
             scan_file_number libs tags
               (if starts_with keyword ''end'' then depth - 1
                else if opens_block keyword (tag_body tag) then depth + 1 else depth) direct)
      | CommentTag \<Rightarrow> scan_file_number libs tags depth direct)"

definition require_file_number :: "'a template_libs \<Rightarrow> 'u target_template \<Rightarrow> (template_error, unit) result" where
  "require_file_number libs t =
     res_bind (template_tags (tt_object_path_template t) 0) (\<lambda>tags.
     res_bind (scan_file_number libs tags 0 False) (\<lambda>direct.
       if direct then Inr () else Inl FileNumberMissing))"

section \<open>Rendering\<close>

fun check_segments :: "string list \<Rightarrow> (template_error, unit) result" where
  "check_segments [] = Inr ()"
| "check_segments (segment # segments) =
     (if segment = [] then Inl RenderedEmptySegment
      else if segment \<in> {''.'', ''..''} then Inl RenderedDotSegment
      else check_segments segments)"

definition validate_object_path :: "string \<Rightarrow> (template_error, unit) result" where
  "validate_object_path path =
     (if path = [] then Inl RenderedPathEmpty else check_segments (split_on CHR ''/'' path))"

fun partition_context ::
  "'a template_libs \<Rightarrow> 'a partition_values \<Rightarrow> (template_error, (string \<times> context_value) list) result" where
  "partition_context libs [] = Inr []"
| "partition_context libs ((column, value) # rest) =
     (case tl_display libs hive_default_partition value of
        None \<Rightarrow> Inl FormatterFailed
      | Some text \<Rightarrow> res_bind (partition_context libs rest) (\<lambda>c. Inr ((column, TextValue text) # c)))"

definition render_object_path ::
  "'a template_libs \<Rightarrow> 'u target_template \<Rightarrow> 'a partition_values \<Rightarrow> nat option \<Rightarrow> (template_error, string) result" where
  "render_object_path libs t vals file_number =
     (if ''file_number'' \<in> fst ` set vals then Inl FileNumberReserved
      else res_bind (partition_context libs vals) (\<lambda>columns.
        let context = (case file_number of
              Some n \<Rightarrow> (map_of columns)(''file_number'' \<mapsto> NumberValue n) | None \<Rightarrow> map_of columns) in
        (case tl_render libs (hive_formatter libs (protects_percent_encoding t)) raw_filter
            (tt_object_path_template t) context of
           None \<Rightarrow> Inl RenderFailed
         | Some rendered \<Rightarrow>
             (case tt_envelope t of
                UrlEnvelope _ \<Rightarrow>
                  (let decoded = tl_percent_decode libs rendered in
                   if utf8_valid decoded then Inr decoded else Inl RenderedNotUtf8)
              | BareEnvelope _ \<Rightarrow> Inr rendered))))"

definition render_target ::
  "'u url_ops \<Rightarrow> 'a template_libs \<Rightarrow> 'u target_template \<Rightarrow> 'a partition_values \<Rightarrow> nat option \<Rightarrow>
   (template_error, 'u location_input) result" where
  "render_target ops libs t vals file_number =
     res_bind (render_object_path libs t vals file_number) (\<lambda>object_path.
     res_bind (validate_object_path object_path) (\<lambda>_.
       (case tt_envelope t of
          BareEnvelope absolute \<Rightarrow> Inr (BareInput ((if absolute then ''/'' else []) @ object_path))
        | UrlEnvelope base \<Rightarrow>
            (case location_parse_url ops (url_text ops (url_set_segments ops base (split_on CHR ''/'' object_path))) of
               Inl e \<Rightarrow> Inl (TemplateLocation e)
             | Inr location \<Rightarrow> Inr (UrlInput location)))))"

section \<open>Escaping is reversible\<close>

definition hex_digit :: "nat \<Rightarrow> char" where
  "hex_digit n = (if n < 10 then char_of (48 + n) else char_of (55 + n))"

definition percent_escape :: "char \<Rightarrow> string" where
  "percent_escape c = [CHR ''%'', hex_digit (byte_nat c div 16), hex_digit (byte_nat c mod 16)]"

definition percent_escaped :: "(char \<Rightarrow> bool) \<Rightarrow> char \<Rightarrow> string" where
  "percent_escaped S c = (if S c \<or> \<not> is_ascii c then percent_escape c else [c])"

text \<open>
  What the \<open>percent_encoding\<close> crate documents: encoding turns every byte of the set and every byte that
  is not ASCII into its upper-case escape, decoding undoes well-formed escapes.
\<close>

definition escape_laws :: "'a template_libs \<Rightarrow> bool" where
  "escape_laws libs \<longleftrightarrow>
     (\<forall>S s. tl_percent_encode libs S s = concat (map (percent_escaped S) s)) \<and>
     (\<forall>s. tl_percent_decode libs s = percent_decode s)"

lemma byte_nat_bound: "byte_nat c < 256"
  by (simp add: byte_nat_def)

lemma hex_digit_byte: "n < 16 \<Longrightarrow> byte_nat (hex_digit n) = (if n < 10 then 48 + n else 55 + n)"
  by (simp add: hex_digit_def byte_nat_def)

lemma hex_digit_inverse:
  assumes "n < 16"
  shows "is_ascii_hexdigit (hex_digit n)" "hex_value (hex_digit n) = n"
  using assms hex_digit_byte [OF assms]
  by (auto simp: is_ascii_hexdigit_def is_ascii_digit_def hex_value_def)

lemma percent_decode_escape: "percent_decode (percent_escape c @ r) = c # percent_decode r"
proof -
  have b: "byte_nat c div 16 < 16" "byte_nat c mod 16 < 16" using byte_nat_bound [of c] by auto
  have sum: "byte_nat c div 16 * 16 + byte_nat c mod 16 = byte_nat c" by simp
  have "char_of (hex_value (hex_digit (byte_nat c div 16)) * 16 + hex_value (hex_digit (byte_nat c mod 16))) =
      (char_of (byte_nat c) :: char)"
    by (simp only: hex_digit_inverse(2) [OF b(1)] hex_digit_inverse(2) [OF b(2)] sum)
  also have "\<dots> = c" by (simp add: byte_nat_def)
  finally have "char_of (hex_value (hex_digit (byte_nat c div 16)) * 16 + hex_value (hex_digit (byte_nat c mod 16))) = c" .
  then show ?thesis
    unfolding percent_escape_def append.simps percent_decode.simps
    using hex_digit_inverse(1) [OF b(1)] hex_digit_inverse(1) [OF b(2)] by simp
qed

lemma percent_decode_escaped:
  assumes "S CHR ''%''"
  shows "percent_decode (concat (map (percent_escaped S) s) @ r) = s @ percent_decode r"
proof (induction s)
  case (Cons c s)
  show ?case
  proof (cases "S c \<or> \<not> is_ascii c")
    case True
    then show ?thesis using Cons by (simp add: percent_escaped_def percent_decode_escape)
  next
    case False
    then have "c \<noteq> CHR ''%''" using assms by metis
    then show ?thesis using Cons False by (simp add: percent_escaped_def percent_decode_plain)
  qed
qed simp

lemma protect_percent_decode: "percent_decode (protect_percent s @ r) = s @ percent_decode r"
proof (induction s)
  case (Cons c s)
  have "percent_decode (CHR ''%'' # CHR ''2'' # CHR ''5'' # u) = CHR ''%'' # percent_decode u" for u
  proof -
    have "char_of (hex_value CHR ''2'' * 16 + hex_value CHR ''5'') = CHR ''%''" by code_simp
    then show ?thesis by (simp only: percent_decode.simps) (simp add: ascii_defs)
  qed
  then show ?case
    using Cons percent_decode_plain [of c] by (simp add: protect_percent_def)
qed (simp add: protect_percent_def)

lemma hive_encode_set_bytes:
  "hive_encode_set c \<longleftrightarrow> byte_nat c < 32 \<or>
     byte_nat c \<in> {127, 34, 35, 37, 39, 42, 47, 58, 61, 63, 92, 123, 91, 93, 94}"
proof -
  have eq: "c = d \<longleftrightarrow> byte_nat c = byte_nat d" for d by (simp add: byte_nat_def)
  show ?thesis
    by (simp only: hive_encode_set_def insert_iff empty_iff eq) (simp add: byte_nat_def)
qed

lemma hive_default_plain: "c \<in> set hive_default_partition \<Longrightarrow> \<not> hive_encode_set c"
  by (auto simp: hive_encode_set_bytes hive_default_partition_def byte_nat_def)

lemma hive_encode_set_percent: "hive_encode_set CHR ''%''" "hive_encode_set CHR ''/''"
  by (simp_all add: hive_encode_set_bytes byte_nat_def)

lemma hex_digit_not_encoded: "n < 16 \<Longrightarrow> \<not> hive_encode_set (hex_digit n)"
  by (auto simp: hive_encode_set_bytes hex_digit_byte)

lemma percent_escaped_bytes:
  "d \<in> set (percent_escaped hive_encode_set c) \<Longrightarrow> d = CHR ''%'' \<or> \<not> hive_encode_set d"
  using hex_digit_not_encoded byte_nat_bound [of c]
  by (auto simp: percent_escaped_def percent_escape_def split: if_splits)

lemma hive_escape_eq:
  "escape_laws libs \<Longrightarrow> hive_escape_path libs v =
     (if v = [] then hive_default_partition else concat (map (percent_escaped hive_encode_set) v))"
  by (simp add: hive_escape_path_def escape_laws_def)

lemma hive_escape_bytes:
  "escape_laws libs \<Longrightarrow> c \<in> set (hive_escape_path libs v) \<Longrightarrow> c = CHR ''%'' \<or> \<not> hive_encode_set c"
  using hive_default_plain by (auto simp: hive_escape_eq dest: percent_escaped_bytes split: if_splits)

lemma hive_escape_no_separator:
  assumes "escape_laws libs"
  shows "CHR ''/'' \<notin> set (hive_escape_path libs v)"
proof
  assume "CHR ''/'' \<in> set (hive_escape_path libs v)"
  from hive_escape_bytes [OF assms this] hive_encode_set_percent(2) show False by simp
qed

lemma hive_escape_plain:
  assumes "escape_laws libs" "v \<noteq> []" "list_all (\<lambda>c. \<not> hive_encode_set c \<and> is_ascii c) v"
  shows "hive_escape_path libs v = v"
proof -
  have "concat (map (percent_escaped hive_encode_set) w) = w"
    if "list_all (\<lambda>c. \<not> hive_encode_set c \<and> is_ascii c) w" for w
    using that by (induction w) (simp_all add: percent_escaped_def)
  then show ?thesis using assms by (simp add: hive_escape_eq)
qed

text \<open>
  C19: Escaping a partition value for a Hive path is reversible and keeps the value in one segment: the
  escaped text is never empty, has no byte of the reserved set besides the percent signs of its escapes
  (so no separator), decodes to the value (an empty value to the default partition), is different for
  different values, and the extra percent protection of URL templates is undone by the decoding of the
  rendered path.
\<close>

theorem hive_escaping_is_reversible:
  assumes laws: "escape_laws libs"
  shows "hive_escape_path libs v \<noteq> [] \<and>
    (\<forall>c \<in> set (hive_escape_path libs v). c = CHR ''%'' \<or> \<not> hive_encode_set c) \<and>
    CHR ''/'' \<notin> set (hive_escape_path libs v) \<and>
    tl_percent_decode libs (hive_escape_path libs v) = (if v = [] then hive_default_partition else v) \<and>
    (v \<noteq> [] \<and> w \<noteq> [] \<and> hive_escape_path libs v = hive_escape_path libs w \<longrightarrow> v = w) \<and>
    tl_percent_decode libs (hive_formatter libs True True safe v) = hive_formatter libs False True safe v"
proof -
  let ?e = "\<lambda>v. concat (map (percent_escaped hive_encode_set) v)"
  note esc = hive_escape_eq [OF laws]
  have dec: "tl_percent_decode libs x = percent_decode x" for x using laws by (simp add: escape_laws_def)
  have e: "percent_decode (?e x) = x" for x
    using percent_decode_escaped [of hive_encode_set x "[]"] hive_encode_set_percent(1) by simp
  have d: "percent_decode hive_default_partition = hive_default_partition" by code_simp
  have bytes: "\<forall>c \<in> set (hive_escape_path libs v). c = CHR ''%'' \<or> \<not> hive_encode_set c"
    using hive_escape_bytes [OF laws] by blast
  have ne: "hive_escape_path libs v \<noteq> []"
    by (cases v) (simp_all add: esc hive_default_partition_def percent_escaped_def percent_escape_def)
  have inj: "v \<noteq> [] \<and> w \<noteq> [] \<and> hive_escape_path libs v = hive_escape_path libs w \<longrightarrow> v = w"
    unfolding esc by (metis e)
  have prot: "percent_decode (protect_percent x) = x" for x using protect_percent_decode [of x "[]"] by simp
  have "tl_percent_decode libs (hive_formatter libs True True safe v) = hive_formatter libs False True safe v"
    by (simp add: hive_formatter_def dec prot Let_def)
  moreover have "tl_percent_decode libs (hive_escape_path libs v) = (if v = [] then hive_default_partition else v)"
    by (simp add: dec esc e d)
  moreover note hive_escape_no_separator [OF laws]
  ultimately show ?thesis using ne bytes inj by (intro conjI)
qed

section \<open>The tags of a template\<close>

fun tag_marks :: "tag_kind \<Rightarrow> string \<times> string" where
  "tag_marks ExpressionTag = (''{{'', ''}}'')"
| "tag_marks BlockTag = (''{%'', ''%}'')"
| "tag_marks CommentTag = (''{#'', ''#}'')"

text \<open>
  What the tags of a text are: they follow each other inside the text, each is its opening mark, its
  body and the first closing mark after it, and between them and after them no tag opens.
\<close>

definition tag_in_text :: "string \<Rightarrow> template_tag \<Rightarrow> bool" where
  "tag_in_text source tag \<longleftrightarrow>
     (case tag_marks (tag_kind tag) of (opening, closing) \<Rightarrow>
        (\<exists>rest. drop (tag_start tag) source = opening @ tag_body tag @ closing @ rest \<and>
           find_sub closing (tag_body tag @ closing @ rest) = Some (length (tag_body tag))) \<and>
        tag_end tag = tag_start tag + length (opening @ tag_body tag @ closing) \<and>
        tag_end tag \<le> length source)"

fun tags_tile :: "string \<Rightarrow> nat \<Rightarrow> template_tag list \<Rightarrow> bool" where
  "tags_tile source cursor [] \<longleftrightarrow> (\<forall>i \<ge> cursor. tag_at (drop i source) = None)"
| "tags_tile source cursor (tag # tags) \<longleftrightarrow>
     cursor \<le> tag_start tag \<and> (\<forall>i. cursor \<le> i \<and> i < tag_start tag \<longrightarrow> tag_at (drop i source) = None) \<and>
     tag_in_text source tag \<and> tags_tile source (tag_end tag) tags"

definition has_unclosed_tag :: "string \<Rightarrow> bool" where
  "has_unclosed_tag source \<longleftrightarrow>
     (\<exists>start kind closing. tag_at (drop start source) = Some (kind, closing) \<and>
        find_sub closing (drop (start + 2) source) = None)"

lemma tag_at_Some:
  "tag_at s = Some (kind, closing) \<Longrightarrow>
     closing = snd (tag_marks kind) \<and> starts_with s (fst (tag_marks kind)) \<and> hd s = CHR ''{'' \<and> s \<noteq> []"
  by (auto simp: tag_at_def starts_with_conv split: if_splits)

lemma tag_at_not_brace: "tag_at s \<noteq> None \<Longrightarrow> \<exists>r. s = CHR ''{'' # r"
  using tag_at_Some [of s] by (cases s) auto

lemma no_tag_before:
  assumes "find_index (\<lambda>c. c = CHR ''{'') (drop cursor source) = Some k" "cursor \<le> i" "i < cursor + k"
  shows "tag_at (drop i source) = None"
proof (rule ccontr)
  assume "tag_at (drop i source) \<noteq> None"
  then obtain r where r: "drop i source = CHR ''{'' # r" using tag_at_not_brace by blast
  have len: "i < length source"
  proof (rule ccontr)
    assume "\<not> i < length source"
    then show False using r by simp
  qed
  have "drop cursor source ! (i - cursor) = hd (drop i source)"
    using assms(2) len by (simp add: hd_drop_conv_nth)
  then have "drop cursor source ! (i - cursor) = CHR ''{''" by (simp only: r list.sel)
  moreover have "i - cursor < k" using assms(2,3) by arith
  ultimately show False using find_index_Some [OF assms(1)] by blast
qed

lemma no_tag_after:
  assumes "find_index (\<lambda>c. c = CHR ''{'') (drop cursor source) = None" "cursor \<le> i"
  shows "tag_at (drop i source) = None"
proof (rule ccontr)
  assume "tag_at (drop i source) \<noteq> None"
  then obtain r where r: "drop i source = CHR ''{'' # r" using tag_at_not_brace by blast
  have "set (drop i source) \<subseteq> set (drop cursor source)" by (rule set_drop_subset_set_drop [OF assms(2)])
  then show False using r assms(1) unfolding find_index_None by auto
qed

lemma tags_tile_later:
  assumes "tags_tile source cursor tags" "from \<le> cursor"
    "\<forall>i. from \<le> i \<and> i < cursor \<longrightarrow> tag_at (drop i source) = None"
  shows "tags_tile source from tags"
proof (cases tags)
  case Nil
  then show ?thesis using assms by (simp, metis not_le)
next
  case (Cons tag rest)
  then show ?thesis using assms by (simp, metis not_le order_trans)
qed

lemma tag_found:
  assumes "tag_at (drop start source) = Some (kind, closing)"
    "find_sub closing (drop (start + 2) source) = Some k"
  shows "tag_in_text source \<lparr>tag_kind = kind, tag_body = take k (drop (start + 2) source), tag_start = start,
    tag_end = start + 2 + k + 2\<rparr>"
proof -
  let ?body = "take k (drop (start + 2) source)"
  have c: "closing = snd (tag_marks kind)" "starts_with (drop start source) (fst (tag_marks kind))"
    using tag_at_Some [OF assms(1)] by auto
  have two: "length closing = 2" "length (fst (tag_marks kind)) = 2" unfolding c(1) by (cases kind; simp)+
  have f: "k + 2 \<le> length (drop (start + 2) source)" "take 2 (drop k (drop (start + 2) source)) = closing"
    using find_sub_Some [OF assms(2)] two by auto
  have body: "drop (start + 2) source = ?body @ closing @ drop (k + 2) (drop (start + 2) source)"
    using f(2) by (metis append_take_drop_id drop_drop add.commute)
  have "drop start source = fst (tag_marks kind) @ drop (start + 2) source"
    using c(2) two by (metis add.commute append_take_drop_id drop_drop starts_with_def)
  moreover have len: "length ?body = k" using f(1) by simp
  moreover have "start + 2 + k + 2 \<le> length source" using f(1) by simp
  moreover have "find_sub closing (?body @ closing @ drop (k + 2) (drop (start + 2) source)) = Some (length ?body)"
    unfolding len body [symmetric] by (rule assms(2))
  moreover have "tag_marks kind = (fst (tag_marks kind), closing)" using c(1) by simp
  ultimately show ?thesis using body two by (auto simp: tag_in_text_def split: prod.splits)
qed

text \<open>
  The tag scan finds exactly the tags of a template. When it succeeds its tags tile the text: they
  are in order and disjoint, every slice it takes is in range and is an opening mark, a body and the
  first closing mark after it, and nothing outside them opens a tag. It fails only on a tag that is
  never closed. The scan always ends.
\<close>

theorem template_tags_tile:
  "case template_tags source cursor of
     Inl e \<Rightarrow> e = UnclosedTag \<and> has_unclosed_tag source
   | Inr tags \<Rightarrow> tags_tile source cursor tags"
proof (induction source cursor rule: template_tags.induct)
  case (1 source cursor)
  show ?case
  proof (cases "find_index (\<lambda>c. c = CHR ''{'') (drop cursor source)")
    case None
    then show ?thesis using no_tag_after [OF None] by (simp add: template_tags.simps [of source cursor])
  next
    case (Some k)
    note before = no_tag_before [OF Some]
    show ?thesis
    proof (cases "tag_at (drop (cursor + k) source)")
      case None
      have "template_tags source cursor = template_tags source (cursor + k + 1)"
        using Some None by (simp add: template_tags.simps [of source cursor])
      moreover have "\<forall>i. cursor \<le> i \<and> i < cursor + k + 1 \<longrightarrow> tag_at (drop i source) = None"
        using before None by (metis Suc_eq_plus1 less_SucE)
      ultimately show ?thesis
        using "1.IH"(1) [OF Some refl None] tags_tile_later [of source "cursor + k + 1" _ cursor]
        by (auto split: sum.splits)
    next
      case tag: (Some kc)
      obtain kind closing where kc: "kc = (kind, closing)" by fastforce
      note at = tag [unfolded kc]
      show ?thesis
      proof (cases "find_sub closing (drop (cursor + k + 2) source)")
        case None
        then show ?thesis using Some at
          by (auto simp: template_tags.simps [of source cursor] has_unclosed_tag_def)
      next
        case end_at: (Some l)
        have "template_tags source cursor = res_bind (template_tags source (cursor + k + 2 + l + 2)) (\<lambda>tags.
            Inr (\<lparr>tag_kind = kind, tag_body = take l (drop (cursor + k + 2) source), tag_start = cursor + k,
              tag_end = cursor + k + 2 + l + 2\<rparr> # tags))"
          using Some at end_at by (simp add: template_tags.simps [of source cursor] Let_def)
        then show ?thesis
          using "1.IH"(2) [OF Some refl tag kc [symmetric] refl end_at refl refl] tag_found [OF at end_at] before
          by (auto split: sum.splits)
      qed
    qed
  qed
qed

section \<open>The envelope\<close>

lemma take_drop_parts:
  "i \<le> j \<Longrightarrow> xs = take i xs @ take (j - i) (drop i xs) @ drop j xs"
  by (metis append_take_drop_id drop_drop le_add_diff_inverse2)

lemma first_occurrence:
  assumes "find_index (\<lambda>x. x = c) xs = Some i"
  shows "xs = take i xs @ c # drop (i + 1) xs" "c \<notin> set (take i xs)"
proof -
  from find_index_Some [OF assms] have i: "i < length xs" "xs ! i = c" "\<forall>j < i. xs ! j \<noteq> c" by auto
  show "xs = take i xs @ c # drop (i + 1) xs" using i(1,2) by (metis Suc_eq_plus1 id_take_nth_drop)
  show "c \<notin> set (take i xs)" using i(1,3) by (auto simp: in_set_conv_nth)
qed

lemma parse_envelope_bare:
  assumes "find_sub ''://'' pattern = None" "parse_envelope ops pattern = Inr (envelope, path)"
  shows "envelope = BareEnvelope (starts_with pattern ''/'')" "path \<noteq> []"
    "pattern = (if starts_with pattern ''/'' then ''/'' else []) @ path"
  using assms by (auto simp: parse_envelope_def strip_prefix_def starts_with_conv split: if_splits)

lemma parse_envelope_url:
  assumes "find_sub ''://'' pattern = Some separator" "parse_envelope ops pattern = Inr (envelope, path)"
  obtains authority query masked location where
    "pattern = (take separator pattern @ ''://'' @ authority @ ''/'') @ path @ query"
    "CHR ''/'' \<notin> set authority" "path \<noteq> []" "CHR ''#'' \<notin> set pattern"
    "CHR ''?'' \<notin> set (take separator pattern @ ''://'' @ authority @ ''/'' @ path)"
    "query = [] \<or> hd query = CHR ''?''"
    "\<not> with_template_syntax (take separator pattern @ ''://'' @ authority @ ''/'')"
    "\<not> with_template_syntax query" "mask_template_tags path = Inr masked"
    "location_input_parse ops ((take separator pattern @ ''://'' @ authority @ ''/'') @ masked @ query) =
       Inr (UrlInput location)"
    "envelope = UrlEnvelope (url_set_path ops location ''/'')"
proof -
  define after where "after = drop (separator + 3) pattern"
  obtain offset where off: "find_index (\<lambda>c. c = CHR ''/'') after = Some offset"
    using assms by (cases "find_index (\<lambda>c. c = CHR ''/'') after") (auto simp: parse_envelope_def after_def split: if_splits)
  define q where "q = (case find_index (\<lambda>c. c = CHR ''?'') pattern of Some q \<Rightarrow> q | None \<Rightarrow> length pattern)"
  define before where "before = take (separator + 3 + offset + 1) pattern"
  define query where "query = drop q pattern"
  note parts = assms(2) [unfolded parse_envelope_def assms(1) option.case Let_def, folded after_def,
      unfolded off option.case, folded q_def, folded before_def query_def]
  have hash: "CHR ''#'' \<notin> set pattern" using parts by (auto split: if_splits)
  have q: "separator + 3 + offset \<le> q" using parts by (auto split: if_splits)
  have syn: "\<not> with_template_syntax before" "\<not> with_template_syntax query"
    using parts by (auto split: if_splits)
  define raw where "raw = take (q - (separator + 3 + offset + 1)) (drop (separator + 3 + offset + 1) pattern)"
  note rest = parts [folded raw_def]
  have raw: "raw \<noteq> []" using rest by (auto split: if_splits)
  obtain masked where masked: "mask_template_tags raw = Inr masked"
    using rest hash q syn raw by (cases "mask_template_tags raw") (auto split: if_splits)
  obtain location where location: "location_input_parse ops (before @ masked @ query) = Inr (UrlInput location)"
    using rest hash q syn raw masked
    by (cases "location_input_parse ops (before @ masked @ query)")
      (auto split: if_splits location_input.splits)
  have res: "UrlEnvelope (url_set_path ops location ''/'') = envelope" "raw = path"
    using rest hash q syn raw masked location by (auto split: if_splits)
  have path: "path = take (q - (separator + 3 + offset + 1)) (drop (separator + 3 + offset + 1) pattern)" "path \<noteq> []"
    using res(2) raw by (simp_all add: raw_def)
  have m: "mask_template_tags path = Inr masked"
    "location_input_parse ops (before @ masked @ query) = Inr (UrlInput location)"
    "envelope = UrlEnvelope (url_set_path ops location ''/'')"
    using res masked location by simp_all
  have three: "length ''://'' = 3" by simp
  have colon: "separator + 3 \<le> length pattern" "take 3 (drop separator pattern) = ''://''"
    using find_sub_Some [OF assms(1)] unfolding three by auto
  have sep: "pattern = take separator pattern @ ''://'' @ after"
    using colon unfolding after_def by (metis append_take_drop_id drop_drop add.commute)
  note aft = first_occurrence [OF off]
  have lt: "separator + 3 + offset < q"
  proof (rule ccontr)
    assume "\<not> separator + 3 + offset < q"
    then have "take (q - (separator + 3 + offset + 1)) (drop (separator + 3 + offset + 1) pattern) = []" by simp
    then show False using path by simp
  qed
  have "take (separator + 3 + offset + 1) pattern = take separator pattern @ ''://'' @ take offset after @ ''/''"
  proof -
    have "pattern = (take separator pattern @ ''://'' @ take offset after @ ''/'') @ drop (offset + 1) after"
      using sep aft(1) by simp
    moreover have "length (take separator pattern @ ''://'' @ take offset after @ ''/'') = separator + 3 + offset + 1"
      using colon(1) find_index_Some [OF off] by simp
    ultimately show ?thesis by (metis append_eq_conv_conj)
  qed
  then have before: "before = take separator pattern @ ''://'' @ take offset after @ ''/''" by (simp add: before_def)
  have whole: "pattern = before @ path @ query"
    unfolding before_def query_def path(1) by (rule take_drop_parts) (use lt in simp)
  have noq: "CHR ''?'' \<notin> set (take q pattern)"
  proof (cases "find_index (\<lambda>c. c = CHR ''?'') pattern")
    case None
    then show ?thesis using find_index_None [of "\<lambda>c. c = CHR ''?''" pattern] by (auto simp: q_def dest: in_set_takeD)
  next
    case (Some i)
    then show ?thesis using first_occurrence(2) [OF Some] by (simp add: q_def)
  qed
  have "take q pattern = before @ path"
    using lt unfolding before_def path(1) by (metis Suc_eq_plus1 Suc_leI add.commute le_add_diff_inverse take_add)
  with noq have noq': "CHR ''?'' \<notin> set (before @ path)" by simp
  have hq: "query = [] \<or> hd query = CHR ''?''"
  proof (cases "find_index (\<lambda>c. c = CHR ''?'') pattern")
    case None
    then show ?thesis by (simp add: query_def q_def)
  next
    case (Some i)
    then show ?thesis using find_index_Some [OF Some] by (simp add: query_def q_def hd_drop_conv_nth)
  qed
  show thesis
    by (rule that [of "take offset after" query masked location])
      (use whole before aft(2) path(2) hash noq' hq syn m in simp_all)
qed

text \<open>
  C20: The routing envelope of an accepted template is fixed text. A bare pattern is its object-path
  template behind an optional leading slash. A URL pattern is \<open>scheme://authority/\<close>, the object-path
  template and an optional query, without a fragment; only the object-path template has template
  syntax, so no partition value can change the scheme, the authority or the query, and the base the
  objects are placed under is the root of the location the pattern denotes with its tags masked.
\<close>

theorem template_envelope_is_fixed:
  assumes "target_template_new ops libs pattern = Inr t"
  shows "tl_parse libs (tt_object_path_template t) \<and> tt_object_path_template t \<noteq> [] \<and>
    (case tt_envelope t of
       BareEnvelope absolute \<Rightarrow> pattern = (if absolute then ''/'' else []) @ tt_object_path_template t
     | UrlEnvelope base \<Rightarrow>
         (\<exists>scheme authority query masked location.
            pattern = (scheme @ ''://'' @ authority @ ''/'') @ tt_object_path_template t @ query \<and>
            CHR ''/'' \<notin> set authority \<and> CHR ''#'' \<notin> set pattern \<and>
            CHR ''?'' \<notin> set (scheme @ ''://'' @ authority @ ''/'' @ tt_object_path_template t) \<and>
            (query = [] \<or> hd query = CHR ''?'') \<and>
            \<not> with_template_syntax (scheme @ ''://'' @ authority @ ''/'') \<and> \<not> with_template_syntax query \<and>
            mask_template_tags (tt_object_path_template t) = Inr masked \<and>
            location_input_parse ops ((scheme @ ''://'' @ authority @ ''/'') @ masked @ query) =
              Inr (UrlInput location) \<and>
            base = url_set_path ops location ''/''))"
proof -
  obtain envelope path where p: "parse_envelope ops pattern = Inr (envelope, path)" "tl_parse libs path"
    "t = \<lparr>tt_object_path_template = path, tt_envelope = envelope\<rparr>"
    using assms by (auto simp: target_template_new_def res_bind_Inr_conv split: if_splits)
  show ?thesis
  proof (cases "find_sub ''://'' pattern")
    case None
    from parse_envelope_bare [OF None p(1)] p(2,3) show ?thesis by simp
  next
    case (Some separator)
    show ?thesis
      by (rule parse_envelope_url [OF Some p(1)])
        (use p(2,3) in \<open>simp only: target_template.simps output_envelope.case simp_thms, blast\<close>)
  qed
qed

section \<open>The file number\<close>

definition mentions_file_number :: "'a template_libs \<Rightarrow> template_tag \<Rightarrow> bool" where
  "mentions_file_number libs tag \<longleftrightarrow>
     tag_kind tag \<noteq> CommentTag \<and> contains_identifier libs (tag_body tag) ''file_number''"

definition direct_use :: "template_tag \<Rightarrow> bool" where
  "direct_use tag \<longleftrightarrow> tag_kind tag = ExpressionTag \<and> trim (tag_body tag) = ''file_number''"

text \<open>How many blocks are open after some tags, by the keyword each block tag starts with.\<close>

definition tag_effect :: "template_tag \<Rightarrow> nat \<Rightarrow> nat" where
  "tag_effect tag depth =
     (if tag_kind tag \<noteq> BlockTag then depth
      else if starts_with (first_word (tag_body tag)) ''end'' then depth - 1
      else if opens_block (first_word (tag_body tag)) (tag_body tag) then depth + 1 else depth)"

definition file_number_is_direct :: "'a template_libs \<Rightarrow> template_tag list \<Rightarrow> nat \<Rightarrow> bool" where
  "file_number_is_direct libs tags depth \<longleftrightarrow>
     (\<forall>i < length tags. mentions_file_number libs (tags ! i) \<longrightarrow>
        direct_use (tags ! i) \<and> fold tag_effect (take i tags) depth = 0)"

lemma file_number_is_direct_Cons:
  "file_number_is_direct libs (tag # tags) depth \<longleftrightarrow>
     (mentions_file_number libs tag \<longrightarrow> direct_use tag \<and> depth = 0) \<and>
     file_number_is_direct libs tags (tag_effect tag depth)"
  unfolding file_number_is_direct_def by (simp add: All_less_Suc2)

lemma scan_file_number_Inr:
  "scan_file_number libs tags depth direct = Inr r \<longleftrightarrow>
     file_number_is_direct libs tags depth \<and> r = (direct \<or> list_ex (mentions_file_number libs) tags)"
proof (induction tags arbitrary: depth direct)
  case Nil
  then show ?case by (auto simp: file_number_is_direct_def)
next
  case (Cons tag tags)
  then show ?case
    unfolding file_number_is_direct_Cons
    by (cases "tag_kind tag")
      (auto simp: mentions_file_number_def direct_use_def tag_effect_def Let_def)
qed


section \<open>Concrete libraries\<close>

definition ascii_libs :: "unit template_libs" where
  "ascii_libs = \<lparr>tl_parse = (\<lambda>_. True), tl_undeclared = (\<lambda>_. {}), tl_render = (\<lambda>_ _ s _. Some s),
     tl_escape_formatter = (\<lambda>_ s. s), tl_percent_encode = (\<lambda>S s. concat (map (percent_escaped S) s)),
     tl_percent_decode = percent_decode, tl_display = (\<lambda>_ _. None),
     tl_unicode_alphanumeric = list_all is_ascii_alphanumeric\<rparr>"

lemma ascii_escape_laws: "escape_laws ascii_libs"
  by (simp add: escape_laws_def ascii_libs_def)

theorem hive_escaping_is_reversible_witness:
  "hive_escape_path ascii_libs ''a/b%'' \<noteq> [] \<and> CHR ''/'' \<notin> set (hive_escape_path ascii_libs ''a/b%'') \<and>
    tl_percent_decode ascii_libs (hive_escape_path ascii_libs ''a/b%'') = ''a/b%'' \<and>
    tl_percent_decode ascii_libs (hive_formatter ascii_libs True True False ''a/b%'') =
      hive_formatter ascii_libs False True False ''a/b%''"
  using hive_escaping_is_reversible [OF ascii_escape_laws, of "''a/b%''" "''a''" False] by simp

definition url_template :: string where
  "url_template = ''s3://b/x={{ x }}.arrow?v=1''"

lemma url_template_new:
  "target_template_new plain_urls ascii_libs url_template =
     Inr \<lparr>tt_object_path_template = ''x={{ x }}.arrow'', tt_envelope = UrlEnvelope ''s3://b/?v=1''\<rparr>"
  by code_simp

theorem template_envelope_is_fixed_witness:
  "\<exists>scheme authority query. url_template = (scheme @ ''://'' @ authority @ ''/'') @ ''x={{ x }}.arrow'' @ query \<and>
     \<not> with_template_syntax (scheme @ ''://'' @ authority @ ''/'') \<and> \<not> with_template_syntax query"
  using template_envelope_is_fixed [OF url_template_new] by auto

text \<open>
  The keyword of a block tag with whitespace control is the hyphen, or starts with it, so the scan does
  not count the block and a conditional file number passes; the same template without the hyphen is
  refused.
\<close>

definition numbered_template :: "string \<Rightarrow> string target_template" where
  "numbered_template s = \<lparr>tt_object_path_template = s, tt_envelope = BareEnvelope False\<rparr>"

lemma whitespace_control_hides_a_conditional:
  "require_file_number ascii_libs (numbered_template ''{%- if x %}{{ file_number }}{% endif %}'') = Inr ()"
  "require_file_number ascii_libs (numbered_template ''{% if x %}{{ file_number }}{% endif %}'') =
     Inl FileNumberNotDirect"
  by code_simp+

end
