(* ===== verification/Target_Render.thy ===== *)
theory Target_Render
  imports Target_Template
begin

text \<open>
  What rendering a partition output template guarantees (\<open>OutputTargetTemplate::render\<close> of
  \<open>src/commands/transform/file_output/target_template.rs\<close>): every rendered path is a plain path below
  the fixed envelope, and for templates of literal text and plain interpolations a value never leaves
  its segment and files with different numbers have different paths.
\<close>

section \<open>Contained paths\<close>

lemma check_segments_Inr:
  "check_segments segs = Inr () \<longleftrightarrow> list_all (\<lambda>s. s \<noteq> [] \<and> s \<noteq> ''.'' \<and> s \<noteq> ''..'') segs"
  by (induction segs) auto

lemma validate_object_path_Inr:
  "validate_object_path path = Inr () \<longleftrightarrow> list_all plain_segment (split_on CHR ''/'' path)"
proof -
  have "list_all (\<lambda>s. s \<noteq> [] \<and> s \<noteq> ''.'' \<and> s \<noteq> ''..'') (split_on CHR ''/'' path) \<longleftrightarrow>
      list_all plain_segment (split_on CHR ''/'' path)"
    by (intro list.pred_cong refl) (auto simp: plain_segment_def dest: split_on_no_sep)
  moreover have "path = [] \<Longrightarrow> \<not> list_all plain_segment (split_on CHR ''/'' path)"
    by (simp add: plain_segment_def)
  ultimately show ?thesis by (auto simp: validate_object_path_def check_segments_Inr)
qed

lemma plain_path_normal:
  assumes "list_all plain_segment (split_on CHR ''/'' path)"
  shows "lexically_normalize_absolute_path (''/'' @ path) = ''/'' @ path"
proof -
  have "foldl normalize_step [] (path_components (''/'' @ join_with ''/'' (split_on CHR ''/'' path))) =
      split_on CHR ''/'' path"
    unfolding components_of_plain [OF assms] by (simp add: normalize_step_def foldl_normal)
  then show ?thesis by (simp add: lexically_normalize_absolute_path_def)
qed

lemma render_target_Inr:
  assumes "render_target ops libs t vals n = Inr target"
  obtains path where "render_object_path libs t vals n = Inr path" "validate_object_path path = Inr ()"
    "case tt_envelope t of
       BareEnvelope absolute \<Rightarrow> target = BareInput ((if absolute then ''/'' else []) @ path)
     | UrlEnvelope base \<Rightarrow> (\<exists>url. target = UrlInput url \<and>
         location_parse_url ops (url_text ops (url_set_segments ops base (split_on CHR ''/'' path))) = Inr url)"
proof -
  obtain path where p: "render_object_path libs t vals n = Inr path" "validate_object_path path = Inr ()"
    and rest: "(case tt_envelope t of
          BareEnvelope absolute \<Rightarrow> Inr (BareInput ((if absolute then ''/'' else []) @ path))
        | UrlEnvelope base \<Rightarrow>
            (case location_parse_url ops (url_text ops (url_set_segments ops base (split_on CHR ''/'' path))) of
               Inl e \<Rightarrow> Inl (TemplateLocation e)
             | Inr location \<Rightarrow> Inr (UrlInput location))) = Inr target"
    using assms unfolding render_target_def res_bind_Inr_conv by auto
  show thesis
    by (rule that [OF p]) (use rest in \<open>auto split: output_envelope.splits sum.splits\<close>)
qed

text \<open>
  C10: A rendered target never leaves its envelope. Whatever the template and the partition values, the
  object path is one or more plain segments (none empty, none a dot or a double dot), so it is already
  in normal form; a bare target is that path behind the template's own leading slash, and a URL target
  is the accepted location of the template's base with exactly these segments.
\<close>

theorem rendered_target_is_contained:
  assumes "render_target ops libs t vals n = Inr target"
  shows "\<exists>path. render_object_path libs t vals n = Inr path \<and>
    list_all plain_segment (split_on CHR ''/'' path) \<and>
    lexically_normalize_absolute_path (''/'' @ path) = ''/'' @ path \<and>
    (case tt_envelope t of
       BareEnvelope absolute \<Rightarrow> target = BareInput ((if absolute then ''/'' else []) @ path)
     | UrlEnvelope base \<Rightarrow> utf8_valid path \<and> (\<exists>url. target = UrlInput url \<and>
         location_parse_url ops (url_text ops (url_set_segments ops base (split_on CHR ''/'' path))) = Inr url))"
proof (rule render_target_Inr [OF assms])
  fix path
  assume path: "render_object_path libs t vals n = Inr path" "validate_object_path path = Inr ()"
    and target: "case tt_envelope t of
       BareEnvelope absolute \<Rightarrow> target = BareInput ((if absolute then ''/'' else []) @ path)
     | UrlEnvelope base \<Rightarrow> (\<exists>url. target = UrlInput url \<and>
         location_parse_url ops (url_text ops (url_set_segments ops base (split_on CHR ''/'' path))) = Inr url)"
  have plain: "list_all plain_segment (split_on CHR ''/'' path)"
    using path(2) by (simp only: validate_object_path_Inr)
  have "utf8_valid path" if "tt_envelope t = UrlEnvelope base" for base
    using path(1) that
    by (auto simp: render_object_path_def res_bind_Inr_conv Let_def split: if_splits option.splits)
  with target have "case tt_envelope t of
       BareEnvelope absolute \<Rightarrow> target = BareInput ((if absolute then ''/'' else []) @ path)
     | UrlEnvelope base \<Rightarrow> utf8_valid path \<and> (\<exists>url. target = UrlInput url \<and>
         location_parse_url ops (url_text ops (url_set_segments ops base (split_on CHR ''/'' path))) = Inr url)"
    by (cases "tt_envelope t") simp_all
  then show ?thesis using path(1) plain plain_path_normal [OF plain] by blast
qed

section \<open>Templates of literal text and plain interpolations\<close>

datatype piece = Literal string | Variable string

fun piece_source :: "piece \<Rightarrow> string" where
  "piece_source (Literal s) = s"
| "piece_source (Variable x) = ''{{ '' @ x @ '' }}''"

definition plain_literal :: "string \<Rightarrow> bool" where
  "plain_literal s \<longleftrightarrow> list_all (\<lambda>c. c \<notin> {CHR ''{'', CHR ''}'', CHR 0x0A, CHR 0x0D}) s"

definition plain_identifier :: "string \<Rightarrow> bool" where
  "plain_identifier x \<longleftrightarrow>
     x \<noteq> [] \<and> (is_ascii_alphabetic (hd x) \<or> hd x = CHR ''_'') \<and>
     list_all (\<lambda>c. is_ascii_alphanumeric c \<or> c = CHR ''_'') x \<and>
     x \<notin> {''true'', ''false'', ''none'', ''True'', ''False'', ''None'', ''not'', ''and'', ''or'', ''in'', ''is'',
       ''if'', ''else'', ''loop'', ''self'', ''super'', ''caller''}"

definition context_text :: "(string \<Rightarrow> context_value option) \<Rightarrow> string \<Rightarrow> string" where
  "context_text ctx x =
     (case ctx x of None \<Rightarrow> [] | Some (TextValue v) \<Rightarrow> v | Some (NumberValue k) \<Rightarrow> show_nat k)"

fun piece_ok :: "(string \<Rightarrow> context_value option) \<Rightarrow> piece \<Rightarrow> bool" where
  "piece_ok ctx (Literal s) \<longleftrightarrow> plain_literal s"
| "piece_ok ctx (Variable x) \<longleftrightarrow> plain_identifier x \<and> ctx x \<noteq> None"

fun piece_value :: "(bool \<Rightarrow> bool \<Rightarrow> string \<Rightarrow> string) \<Rightarrow> (string \<Rightarrow> context_value option) \<Rightarrow> piece \<Rightarrow> string" where
  "piece_value fmt ctx (Literal s) = s"
| "piece_value fmt ctx (Variable x) = fmt True False (context_text ctx x)"

text \<open>
  What minijinja documents for such templates: literal text is copied, an interpolated variable is
  handed to the formatter in the environment's own escape mode, as a value that is not marked safe.
\<close>

definition engine_laws :: "'a template_libs \<Rightarrow> bool" where
  "engine_laws libs \<longleftrightarrow>
     (\<forall>fmt raw ctx ps. list_all (piece_ok ctx) ps \<longrightarrow>
        tl_render libs fmt raw (concat (map piece_source ps)) ctx = Some (concat (map (piece_value fmt ctx) ps)))"

lemma engine_render:
  "engine_laws libs \<Longrightarrow> list_all (piece_ok ctx) ps \<Longrightarrow>
     tl_render libs fmt raw (concat (map piece_source ps)) ctx = Some (concat (map (piece_value fmt ctx) ps))"
  by (simp add: engine_laws_def)

text \<open>The context a render builds, and the path the pieces stand for.\<close>

definition render_context ::
  "'a template_libs \<Rightarrow> 'a partition_values \<Rightarrow> nat option \<Rightarrow> string \<Rightarrow> context_value option" where
  "render_context libs vals n =
     (let columns = (case partition_context libs vals of Inl _ \<Rightarrow> [] | Inr c \<Rightarrow> c) in
      case n of Some k \<Rightarrow> (map_of columns)(''file_number'' \<mapsto> NumberValue k) | None \<Rightarrow> map_of columns)"

fun piece_path :: "'a template_libs \<Rightarrow> bool \<Rightarrow> (string \<Rightarrow> context_value option) \<Rightarrow> piece \<Rightarrow> string" where
  "piece_path libs decodes ctx (Literal s) = (if decodes then percent_decode s else s)"
| "piece_path libs decodes ctx (Variable x) = hive_escape_path libs (context_text ctx x)"

fun piece_separators :: "bool \<Rightarrow> piece \<Rightarrow> nat" where
  "piece_separators decodes (Literal s) = count_list (if decodes then percent_decode s else s) CHR ''/''"
| "piece_separators decodes (Variable x) = 0"

fun literal_escapes_ok :: "piece \<Rightarrow> bool" where
  "literal_escapes_ok (Literal s) \<longleftrightarrow> has_valid_percent_encoding s"
| "literal_escapes_ok (Variable x) \<longleftrightarrow> True"

lemma render_object_path_Inr:
  assumes "render_object_path libs t vals n = Inr path"
  obtains rendered where
    "tl_render libs (hive_formatter libs (protects_percent_encoding t)) raw_filter (tt_object_path_template t)
       (render_context libs vals n) = Some rendered"
    "path = (if protects_percent_encoding t then tl_percent_decode libs rendered else rendered)"
proof -
  obtain columns where columns: "partition_context libs vals = Inr columns"
    using assms by (auto simp: render_object_path_def res_bind_Inr_conv split: if_splits)
  let ?ctx = "case n of Some k \<Rightarrow> (map_of columns)(''file_number'' \<mapsto> NumberValue k) | None \<Rightarrow> map_of columns"
  have ctx: "render_context libs vals n = ?ctx" using columns by (simp add: render_context_def)
  obtain rendered where rendered: "tl_render libs (hive_formatter libs (protects_percent_encoding t)) raw_filter
      (tt_object_path_template t) ?ctx = Some rendered"
    using assms columns unfolding render_object_path_def by (auto simp: Let_def split: if_splits option.splits)
  have "path = (if protects_percent_encoding t then tl_percent_decode libs rendered else rendered)"
    using assms columns rendered unfolding render_object_path_def protects_percent_encoding_def
    by (auto simp: Let_def split: if_splits output_envelope.splits)
  with rendered show thesis by (intro that [of rendered]) (simp_all only: ctx)
qed

lemma percent_decode_append:
  "has_valid_percent_encoding s \<Longrightarrow> percent_decode (s @ r) = percent_decode s @ percent_decode r"
proof (induction s rule: has_valid_percent_encoding.induct)
  case (2 c cs)
  show ?case
  proof (cases "c = CHR ''%''")
    case False
    then show ?thesis using 2 by (simp add: percent_decode_plain)
  next
    case True
    then obtain a b rest where cs: "cs = a # b # rest" using "2.prems" by (auto split: list.splits)
    then show ?thesis using "2.IH"(2) [of a "b # rest" b rest] True "2.prems" by simp
  qed
qed simp

lemma render_pieces:
  assumes "engine_laws libs" "escape_laws libs" "list_all (piece_ok (render_context libs vals n)) ps"
    "protects_percent_encoding t \<longrightarrow> list_all literal_escapes_ok ps"
    "tt_object_path_template t = concat (map piece_source ps)"
    "render_object_path libs t vals n = Inr path"
  shows "path = concat (map (piece_path libs (protects_percent_encoding t) (render_context libs vals n)) ps)"
proof -
  let ?ctx = "render_context libs vals n" and ?p = "protects_percent_encoding t"
  let ?fmt = "hive_formatter libs ?p"
  obtain rendered where r: "tl_render libs ?fmt raw_filter (tt_object_path_template t) ?ctx = Some rendered"
    "path = (if ?p then tl_percent_decode libs rendered else rendered)"
    using render_object_path_Inr [OF assms(6)] .
  have rendered: "rendered = concat (map (piece_value ?fmt ?ctx) ps)"
    using r(1) engine_render [OF assms(1,3), of ?fmt raw_filter] assms(5) by simp
  show ?thesis
  proof (cases ?p)
    case False
    have "map (piece_value ?fmt ?ctx) ps = map (piece_path libs ?p ?ctx) ps"
    proof (rule map_cong [OF refl])
      fix p
      show "piece_value ?fmt ?ctx p = piece_path libs ?p ?ctx p"
        using False by (cases p) (simp_all add: hive_formatter_def)
    qed
    then have "concat (map (piece_value ?fmt ?ctx) ps) = concat (map (piece_path libs ?p ?ctx) ps)" by (rule arg_cong)
    then show ?thesis using r(2) rendered False by simp
  next
    case True
    have "percent_decode (concat (map (piece_value ?fmt ?ctx) qs)) = concat (map (piece_path libs ?p ?ctx) qs)"
      if "list_all literal_escapes_ok qs" for qs
      using that
    proof (induction qs)
      case (Cons q qs)
      then show ?case
        using True by (cases q) (simp_all add: percent_decode_append hive_formatter_def protect_percent_decode)
    qed simp
    then show ?thesis using r(2) rendered True assms(2,4) by (simp add: escape_laws_def)
  qed
qed

lemma count_list_concat: "count_list (concat xss) x = sum_list (map (\<lambda>xs. count_list xs x) xss)"
  by (induction xss) simp_all

lemma length_split_on: "length (split_on c s) = count_list s c + 1"
  by (induction s) (auto split: list.splits)

text \<open>
  C17: In a template of literal text and plain interpolations every partition value stays in its
  segment. The rendered path is the literals (percent-decoded in a URL template, as the envelope is)
  with the Hive escape of each value between them, whatever bytes the values contain, so it has
  exactly as many segments as the literals have separators, plus one.
\<close>

theorem values_stay_in_their_segment:
  assumes "engine_laws libs" and "escape_laws libs"
    and "tt_object_path_template t = concat (map piece_source ps)"
    and "list_all (piece_ok (render_context libs vals n)) ps"
    and "protects_percent_encoding t \<longrightarrow> list_all literal_escapes_ok ps"
    and "render_object_path libs t vals n = Inr path"
  shows "path = concat (map (piece_path libs (protects_percent_encoding t) (render_context libs vals n)) ps) \<and>
    length (split_on CHR ''/'' path) = sum_list (map (piece_separators (protects_percent_encoding t)) ps) + 1"
proof
  let ?path = "piece_path libs (protects_percent_encoding t) (render_context libs vals n)"
  show path: "path = concat (map ?path ps)" by (rule render_pieces [OF assms(1,2,4,5,3,6)])
  have "count_list (?path p) CHR ''/'' = piece_separators (protects_percent_encoding t) p" for p
  proof (cases p)
    case (Variable x)
    then show ?thesis using hive_escape_no_separator [OF assms(2)] by (simp add: count_list_0_iff)
  qed simp
  then show "length (split_on CHR ''/'' path) = sum_list (map (piece_separators (protects_percent_encoding t)) ps) + 1"
    unfolding length_split_on path count_list_concat by (simp add: comp_def)
qed

section \<open>Numbered files\<close>

lemma show_nat_plain: "list_all (\<lambda>c. \<not> hive_encode_set c \<and> is_ascii c) (show_nat n)"
proof -
  have "\<not> hive_encode_set c \<and> is_ascii c" if "is_ascii_digit c" for c
    using that by (auto simp: hive_encode_set_bytes is_ascii_digit_def is_ascii_def)
  then show ?thesis using show_nat_digits by (auto simp: list_all_iff)
qed

lemma concat_same_lengths:
  "map length xss = map length yss \<Longrightarrow> concat xss = concat yss \<Longrightarrow> xss = yss"
proof (induction xss arbitrary: yss)
  case (Cons x xss)
  then show ?case by (cases yss) (auto simp: append_eq_append_conv)
qed simp

text \<open>Two lists of texts that differ only where one inserts a longer text are of different length.\<close>

lemma insert_length:
  fixes f :: "nat \<Rightarrow> piece \<Rightarrow> string"
  assumes "\<And>p. p \<noteq> q \<Longrightarrow> f m p = f k p" "length (f m q) < length (f k q)" "q \<in> set ps"
  shows "length (concat (map (f m) ps)) < length (concat (map (f k) ps))"
proof -
  have le: "length (f m p) \<le> length (f k p)" for p using assms(1,2) by (cases "p = q") auto
  have "length (concat (map (f m) rs)) \<le> length (concat (map (f k) rs))" for rs
    by (induction rs) (use le in \<open>simp_all add: add_mono\<close>)
  then show ?thesis using assms(3)
  proof (induction ps)
    case (Cons p ps)
    then show ?case using le [of p] assms(2) by (cases "p = q") (auto simp: add_less_le_mono add_le_less_mono)
  qed simp
qed

lemma numbered_texts_differ:
  fixes f :: "nat \<Rightarrow> piece \<Rightarrow> string"
  assumes "\<And>p m k. p \<noteq> q \<Longrightarrow> f m p = f k p" "\<And>m. f m q = show_nat m" "q \<in> set ps" "m \<noteq> k"
  shows "concat (map (f m) ps) \<noteq> concat (map (f k) ps)"
proof
  assume eq: "concat (map (f m) ps) = concat (map (f k) ps)"
  have "length (show_nat m) = length (show_nat k)"
    using insert_length [of q f m k ps] insert_length [of q f k m ps] assms(1-3) eq by (metis less_irrefl nat_neq_iff)
  then have "length (f m p) = length (f k p)" for p
    using assms(1,2) by (cases "p = q") (simp_all, metis)
  then have "map (f m) ps = map (f k) ps" using concat_same_lengths [OF _ eq] by (simp add: comp_def)
  then have "f m q = f k q" using assms(3) by simp
  then show False using assms(2,4) show_nat_inject by simp
qed

text \<open>
  C18: The files an evicting writer numbers never share a path. In a template of literal text and plain
  interpolations that interpolates \<open>file_number\<close>, rendering the same partition values under two
  different numbers gives two different object paths, and so two different bare targets.
\<close>

theorem numbered_files_have_distinct_paths:
  assumes "engine_laws libs" and "escape_laws libs"
    and "tt_object_path_template t = concat (map piece_source ps)"
    and "Variable ''file_number'' \<in> set ps"
    and "list_all (piece_ok (render_context libs vals (Some m))) ps"
    and "protects_percent_encoding t \<longrightarrow> list_all literal_escapes_ok ps"
    and "render_object_path libs t vals (Some m) = Inr path"
    and "render_object_path libs t vals (Some k) = Inr other" and "m \<noteq> k"
  shows "path \<noteq> other \<and>
    (tt_envelope t = BareEnvelope absolute \<and> render_target ops libs t vals (Some m) = Inr target \<longrightarrow>
      render_target ops libs t vals (Some k) \<noteq> Inr target)"
proof
  let ?ctx = "\<lambda>n. render_context libs vals (Some n)"
  let ?f = "\<lambda>n. piece_path libs (protects_percent_encoding t) (?ctx n)"
  have ok: "list_all (piece_ok (?ctx k)) ps"
  proof -
    have "piece_ok (?ctx m) p = piece_ok (?ctx k) p" for p by (cases p) (simp_all add: render_context_def Let_def)
    then have "piece_ok (?ctx m) = piece_ok (?ctx k)" by (rule ext)
    then show ?thesis using assms(5) by simp
  qed
  have same: "?f m p = ?f k p" if "p \<noteq> Variable ''file_number''" for p m k
    using that by (cases p) (simp_all add: render_context_def context_text_def Let_def)
  have number: "?f n (Variable ''file_number'') = show_nat n" for n
    using hive_escape_plain [OF assms(2) _ show_nat_plain]
    by (simp add: render_context_def context_text_def Let_def)
  have "path = concat (map (?f m) ps)" by (rule render_pieces [OF assms(1,2,5,6,3,7)])
  moreover have "other = concat (map (?f k) ps)" by (rule render_pieces [OF assms(1,2) ok assms(6,3,8)])
  ultimately show distinct: "path \<noteq> other"
    using numbered_texts_differ [of "Variable ''file_number''" ?f ps m k, OF same number assms(4,9)] by simp
  show "tt_envelope t = BareEnvelope absolute \<and> render_target ops libs t vals (Some m) = Inr target \<longrightarrow>
      render_target ops libs t vals (Some k) \<noteq> Inr target"
    using distinct assms(7,8)
    by (cases "validate_object_path path"; cases "validate_object_path other") (auto simp: render_target_def)
qed

section \<open>A concrete engine\<close>

text \<open>An engine for literal text and plain interpolations, to evaluate the model on.\<close>

function small_render ::
  "(bool \<Rightarrow> bool \<Rightarrow> string \<Rightarrow> string) \<Rightarrow> (string \<Rightarrow> context_value option) \<Rightarrow> string \<Rightarrow> string" where
  "small_render fmt ctx [] = []"
| "small_render fmt ctx (c # cs) =
     (if c = CHR ''{'' then
        (let name = takeWhile (\<lambda>d. d \<noteq> CHR '' '') (drop 2 cs) in
         fmt True False (context_text ctx name) @ small_render fmt ctx (drop (length name + 5) cs))
      else c # small_render fmt ctx cs)"
  by pat_completeness auto
termination by (relation "measure (\<lambda>(fmt, ctx, s). length s)") auto

lemma small_render_literal:
  "CHR ''{'' \<notin> set s \<Longrightarrow> small_render fmt ctx (s @ r) = s @ small_render fmt ctx r"
  by (induction s) auto

lemma small_render_variable:
  assumes "CHR '' '' \<notin> set x"
  shows "small_render fmt ctx (''{{ '' @ x @ '' }}'' @ r) = fmt True False (context_text ctx x) @ small_render fmt ctx r"
proof -
  have "takeWhile (\<lambda>d. d \<noteq> CHR '' '') (x @ '' }}'' @ r) = x"
    using assms by (subst takeWhile_append2) auto
  moreover have "drop (length x + 3) (x @ '' }}'' @ r) = r" by simp
  ultimately show ?thesis by (simp add: Let_def numeral_eq_Suc)
qed

lemma plain_identifier_no_space: "plain_identifier x \<Longrightarrow> CHR '' '' \<notin> set x"
  by (auto simp: plain_identifier_def list_all_iff ascii_defs)

lemma plain_literal_no_brace: "plain_literal s \<Longrightarrow> CHR ''{'' \<notin> set s"
  by (auto simp: plain_literal_def list_all_iff)

definition small_libs :: "string template_libs" where
  "small_libs = \<lparr>tl_parse = (\<lambda>_. True), tl_undeclared = (\<lambda>_. {}),
     tl_render = (\<lambda>fmt raw s ctx. Some (small_render fmt ctx s)),
     tl_escape_formatter = (\<lambda>_ s. s), tl_percent_encode = (\<lambda>S s. concat (map (percent_escaped S) s)),
     tl_percent_decode = percent_decode, tl_display = (\<lambda>_ v. Some v),
     tl_unicode_alphanumeric = list_all is_ascii_alphanumeric\<rparr>"

lemma small_libs_laws: "escape_laws small_libs" "engine_laws small_libs"
proof -
  show "escape_laws small_libs" by (simp add: escape_laws_def small_libs_def)
  have "small_render fmt ctx (concat (map piece_source ps)) = concat (map (piece_value fmt ctx) ps)"
    if "list_all (piece_ok ctx) ps" for fmt ctx ps
    using that
  proof (induction ps)
    case (Cons p ps)
    show ?case
    proof (cases p)
      case (Literal s)
      then show ?thesis using Cons plain_literal_no_brace [of s] by (simp add: small_render_literal)
    next
      case (Variable x)
      then show ?thesis using Cons small_render_variable [OF plain_identifier_no_space, of x] by simp
    qed
  qed simp
  then show "engine_laws small_libs" by (simp add: engine_laws_def small_libs_def)
qed

definition numbered_pieces :: "piece list" where
  "numbered_pieces = [Literal ''out/'', Variable ''x'', Literal ''/'', Variable ''file_number'', Literal ''.arrow'']"

definition numbered :: "string target_template" where
  "numbered = \<lparr>tt_object_path_template = concat (map piece_source numbered_pieces), tt_envelope = BareEnvelope True\<rparr>"

lemma numbered_rendered:
  "render_object_path small_libs numbered [(''x'', ''a/b'')] (Some 0) = Inr ''out/a%2Fb/0.arrow''"
  "render_object_path small_libs numbered [(''x'', ''a/b'')] (Some 1) = Inr ''out/a%2Fb/1.arrow''"
  "render_target plain_urls small_libs numbered [(''x'', ''a/b'')] (Some 0) = Inr (BareInput ''/out/a%2Fb/0.arrow'')"
  by code_simp+

lemma numbered_ok:
  "list_all (piece_ok (render_context small_libs [(''x'', ''a/b'')] (Some 0))) numbered_pieces"
  by code_simp

lemma numbered_bare: "\<not> protects_percent_encoding numbered"
  by (simp add: numbered_def protects_percent_encoding_def)

lemma numbered_source: "tt_object_path_template numbered = concat (map piece_source numbered_pieces)"
  by (simp add: numbered_def)

theorem rendered_target_is_contained_witness:
  "\<exists>path. render_object_path small_libs numbered [(''x'', ''a/b'')] (Some 0) = Inr path \<and>
    list_all plain_segment (split_on CHR ''/'' path) \<and> BareInput ''/out/a%2Fb/0.arrow'' = BareInput (''/'' @ path)"
  using rendered_target_is_contained [OF numbered_rendered(3)] by (auto simp: numbered_def)

theorem values_stay_in_their_segment_witness:
  "length (split_on CHR ''/'' ''out/a%2Fb/0.arrow'') = sum_list (map (piece_separators False) numbered_pieces) + 1"
proof -
  have e: "protects_percent_encoding numbered \<longrightarrow> list_all literal_escapes_ok numbered_pieces"
    using numbered_bare by simp
  note v = values_stay_in_their_segment [OF small_libs_laws(2,1) numbered_source numbered_ok e numbered_rendered(1)]
  show ?thesis using conjunct2 [OF v] by (simp only: numbered_bare)
qed

theorem numbered_files_have_distinct_paths_witness:
  "''out/a%2Fb/0.arrow'' \<noteq> ''out/a%2Fb/1.arrow'' \<and>
    render_target plain_urls small_libs numbered [(''x'', ''a/b'')] (Some 1) \<noteq> Inr (BareInput ''/out/a%2Fb/0.arrow'')"
proof -
  have v: "Variable ''file_number'' \<in> set numbered_pieces" by (simp add: numbered_pieces_def)
  have e: "protects_percent_encoding numbered \<longrightarrow> list_all literal_escapes_ok numbered_pieces"
    using numbered_bare by simp
  have b: "tt_envelope numbered = BareEnvelope True" by (simp add: numbered_def)
  note d = numbered_files_have_distinct_paths [OF small_libs_laws(2,1) numbered_source v numbered_ok e
      numbered_rendered(1,2), of True plain_urls "BareInput ''/out/a%2Fb/0.arrow''"]
  show ?thesis using d b numbered_rendered(3) by simp
qed

end
