(* ===== verification/Memory_Pool.thy ===== *)
theory Memory_Pool
  imports Silk_Prelude "HOL-Library.Word"
begin

text \<open>
  The memory pool of the query engine (\<open>ReservedSpillPool\<close> of
  \<open>silk-chiffon-core/src/pipeline/memory_pool.rs\<close>): a pool that lets spillable consumers share
  everything but a reserve, and lets the others take from all of it.

  The counters are \<open>usize\<close>, 64 bits wide: additions wrap around (the release build does not check
  them), \<open>checked_sub\<close> panics as the source does. A panic is \<open>None\<close>. The pool is driven by
  DataFusion's reservations, whose documented protocol is the ledger of clients below.
\<close>

type_synonym usize = "64 word"

section \<open>The pool\<close>

record reserved_pool =
  pool_size :: usize
  reserve_for_non_spillable :: usize
  num_spill :: usize
  spillable :: usize
  non_spillable :: usize

definition reserved_pool_new :: "usize \<Rightarrow> usize \<Rightarrow> reserved_pool option" where
  "reserved_pool_new limit reserve =
     (if \<not> 0 < limit then None
      else if \<not> reserve < limit then None
      else Some \<lparr>pool_size = limit, reserve_for_non_spillable = reserve,
                 num_spill = 0, spillable = 0, non_spillable = 0\<rparr>)"

definition word_saturating_sub :: "usize \<Rightarrow> usize \<Rightarrow> usize" where
  "word_saturating_sub a b = (if b \<le> a then a - b else 0)"

definition word_checked_sub :: "usize \<Rightarrow> usize \<Rightarrow> usize option" where
  "word_checked_sub a b = (if b \<le> a then Some (a - b) else None)"

definition pool_register :: "bool \<Rightarrow> reserved_pool \<Rightarrow> reserved_pool" where
  "pool_register can_spill p = (if can_spill then p\<lparr>num_spill := num_spill p + 1\<rparr> else p)"

definition pool_unregister :: "bool \<Rightarrow> reserved_pool \<Rightarrow> reserved_pool option" where
  "pool_unregister can_spill p =
     (if can_spill
      then (case word_checked_sub (num_spill p) 1 of
              None \<Rightarrow> None
            | Some n \<Rightarrow> Some (p\<lparr>num_spill := n\<rparr>))
      else Some p)"

definition pool_grow :: "bool \<Rightarrow> usize \<Rightarrow> reserved_pool \<Rightarrow> reserved_pool" where
  "pool_grow can_spill additional p =
     (if can_spill then p\<lparr>spillable := spillable p + additional\<rparr>
      else p\<lparr>non_spillable := non_spillable p + additional\<rparr>)"

definition pool_shrink :: "bool \<Rightarrow> usize \<Rightarrow> reserved_pool \<Rightarrow> reserved_pool option" where
  "pool_shrink can_spill amount p =
     (if can_spill
      then (case word_checked_sub (spillable p) amount of
              None \<Rightarrow> None
            | Some n \<Rightarrow> Some (p\<lparr>spillable := n\<rparr>))
      else (case word_checked_sub (non_spillable p) amount of
              None \<Rightarrow> None
            | Some n \<Rightarrow> Some (p\<lparr>non_spillable := n\<rparr>)))"

definition spill_capacity :: "reserved_pool \<Rightarrow> usize" where
  "spill_capacity p =
     word_saturating_sub (pool_size p) (max (non_spillable p) (reserve_for_non_spillable p))"

definition per_consumer :: "reserved_pool \<Rightarrow> usize" where
  "per_consumer p = (if num_spill p = 0 then spill_capacity p else spill_capacity p div num_spill p)"

text \<open>\<open>None\<close> is the error of a refused allocation.\<close>

definition pool_try_grow :: "bool \<Rightarrow> usize \<Rightarrow> usize \<Rightarrow> reserved_pool \<Rightarrow> reserved_pool option" where
  "pool_try_grow can_spill reservation_size additional p =
     (if can_spill
      then (if reservation_size + additional > per_consumer p then None
            else Some (p\<lparr>spillable := spillable p + additional\<rparr>))
      else (let available = word_saturating_sub (pool_size p) (non_spillable p + spillable p) in
            if available < additional then None
            else Some (p\<lparr>non_spillable := non_spillable p + additional\<rparr>)))"

definition pool_reserved :: "reserved_pool \<Rightarrow> usize" where
  "pool_reserved p = spillable p + non_spillable p"

section \<open>The clients\<close>

text \<open>
  DataFusion's \<open>MemoryReservation\<close>: a reservation belongs to a registered consumer and keeps the
  bytes it holds; it adds what it grew by, gives back at most what it holds, gives back the rest when
  it is dropped, and a consumer is unregistered after its last reservation. \<open>owner\<close> is the consumer of a
  reservation, \<open>spills\<close> what the consumer was created with.
\<close>

record ('c, 'r) ledger =
  registered :: "'c list"
  live :: "'r list"
  held :: "'r \<Rightarrow> nat"

datatype ('c, 'r) client_call =
    Register 'c
  | Unregister 'c
  | OpenReservation 'r
  | Grow 'r nat
  | TryGrow 'r nat
  | Shrink 'r nat
  | CloseReservation 'r
  | MoveBytes 'r 'r nat

definition held_by :: "('r \<Rightarrow> bool) \<Rightarrow> ('c, 'r) ledger \<Rightarrow> nat" where
  "held_by K l = sum_list (map (\<lambda>r. if K r then held l r else 0) (live l))"

fun event_allowed :: "('r \<Rightarrow> 'c) \<Rightarrow> ('c, 'r) ledger \<Rightarrow> ('c, 'r) client_call \<Rightarrow> bool" where
  "event_allowed owner l (Register c) \<longleftrightarrow> c \<notin> set (registered l) \<and> length (registered l) + 1 < 2 ^ 64"
| "event_allowed owner l (Unregister c) \<longleftrightarrow> c \<in> set (registered l) \<and> (\<forall>r \<in> set (live l). owner r \<noteq> c)"
| "event_allowed owner l (OpenReservation r) \<longleftrightarrow> r \<notin> set (live l) \<and> owner r \<in> set (registered l)"
| "event_allowed owner l (Grow r n) \<longleftrightarrow> r \<in> set (live l) \<and> held_by (\<lambda>_. True) l + n < 2 ^ 64"
| "event_allowed owner l (TryGrow r n) \<longleftrightarrow> r \<in> set (live l) \<and> held_by (\<lambda>_. True) l + n < 2 ^ 64"
| "event_allowed owner l (Shrink r n) \<longleftrightarrow> r \<in> set (live l) \<and> n \<le> held l r"
| "event_allowed owner l (CloseReservation r) \<longleftrightarrow> r \<in> set (live l)"
| "event_allowed owner l (MoveBytes r q n) \<longleftrightarrow>
     r \<in> set (live l) \<and> q \<in> set (live l) \<and> r \<noteq> q \<and> owner r = owner q \<and> n \<le> held l r"

definition add_held :: "'r \<Rightarrow> nat \<Rightarrow> ('c, 'r) ledger \<Rightarrow> ('c, 'r) ledger" where
  "add_held r n l = l\<lparr>held := (held l)(r := held l r + n)\<rparr>"

definition sub_held :: "'r \<Rightarrow> nat \<Rightarrow> ('c, 'r) ledger \<Rightarrow> ('c, 'r) ledger" where
  "sub_held r n l = l\<lparr>held := (held l)(r := held l r - n)\<rparr>"

text \<open>One event: whether it was granted, the pool and the ledger after it; \<open>None\<close> is a panic.\<close>

fun pool_perform ::
  "('c \<Rightarrow> bool) \<Rightarrow> ('r \<Rightarrow> 'c) \<Rightarrow> ('c, 'r) client_call \<Rightarrow> reserved_pool \<Rightarrow> ('c, 'r) ledger \<Rightarrow>
   (bool \<times> reserved_pool \<times> ('c, 'r) ledger) option" where
  "pool_perform spills owner (Register c) p l =
     Some (True, pool_register (spills c) p, l\<lparr>registered := c # registered l\<rparr>)"
| "pool_perform spills owner (Unregister c) p l =
     map_option (\<lambda>p. (True, p, l\<lparr>registered := remove1 c (registered l)\<rparr>)) (pool_unregister (spills c) p)"
| "pool_perform spills owner (OpenReservation r) p l =
     Some (True, p, l\<lparr>live := r # live l, held := (held l)(r := 0)\<rparr>)"
| "pool_perform spills owner (Grow r n) p l =
     Some (True, pool_grow (spills (owner r)) (of_nat n) p, add_held r n l)"
| "pool_perform spills owner (TryGrow r n) p l =
     (case pool_try_grow (spills (owner r)) (of_nat (held l r)) (of_nat n) p of
        None \<Rightarrow> Some (False, p, l)
      | Some p \<Rightarrow> Some (True, p, add_held r n l))"
| "pool_perform spills owner (Shrink r n) p l =
     map_option (\<lambda>p. (True, p, sub_held r n l)) (pool_shrink (spills (owner r)) (of_nat n) p)"
| "pool_perform spills owner (CloseReservation r) p l =
     map_option (\<lambda>p. (True, p, l\<lparr>live := remove1 r (live l), held := (held l)(r := 0)\<rparr>))
       (pool_shrink (spills (owner r)) (of_nat (held l r)) p)"
| "pool_perform spills owner (MoveBytes r q n) p l = Some (True, p, add_held q n (sub_held r n l))"

definition no_clients :: "('c, 'r) ledger" where
  "no_clients = \<lparr>registered = [], live = [], held = (\<lambda>_. 0)\<rparr>"

text \<open>The pool and its clients after any events the protocol allows.\<close>

inductive pool_reaches ::
  "('c \<Rightarrow> bool) \<Rightarrow> ('r \<Rightarrow> 'c) \<Rightarrow> (('c, 'r) ledger \<Rightarrow> ('c, 'r) client_call \<Rightarrow> bool) \<Rightarrow> reserved_pool \<Rightarrow>
   reserved_pool \<Rightarrow> ('c, 'r) ledger \<Rightarrow> bool"
  for spills owner allowed p0 where
  start: "pool_reaches spills owner allowed p0 p0 no_clients"
| event: "pool_reaches spills owner allowed p0 p l \<Longrightarrow> event_allowed owner l e \<Longrightarrow> allowed l e \<Longrightarrow>
     pool_perform spills owner e p l = Some (granted, p', l') \<Longrightarrow> pool_reaches spills owner allowed p0 p' l'"

section \<open>Accounting\<close>

lemma sum_list_update_one:
  fixes f :: "'r \<Rightarrow> nat"
  assumes "distinct rs" "r \<in> set rs"
  shows "sum_list (map (f(r := v)) rs) + f r = sum_list (map f rs) + v"
  using assms
proof (induction rs)
  case (Cons a rs)
  show ?case
  proof (cases "a = r")
    case True
    then have "map (f(r := v)) rs = map f rs" using Cons.prems(1) by (intro map_cong refl) auto
    then have "sum_list (map (f(r := v)) rs) = sum_list (map f rs)" by (rule arg_cong)
    then show ?thesis using True by (simp only: list.map sum_list.Cons fun_upd_same)
  next
    case False
    then show ?thesis using Cons by simp
  qed
qed simp

lemma held_by_update:
  assumes "distinct (live l)" "r \<in> set (live l)"
  shows "held_by K (l\<lparr>held := (held l)(r := v)\<rparr>) + (if K r then held l r else 0) =
    held_by K l + (if K r then v else 0)"
proof -
  have eq: "(\<lambda>q. if K q then ((held l)(r := v)) q else 0) = (\<lambda>q. if K q then held l q else 0)(r := if K r then v else 0)"
    by auto
  have "held_by K (l\<lparr>held := (held l)(r := v)\<rparr>) =
      sum_list (map ((\<lambda>q. if K q then held l q else 0)(r := if K r then v else 0)) (live l))"
    by (simp add: held_by_def eq del: fun_upd_apply cong: if_cong)
  then show ?thesis
    unfolding held_by_def [of K l]
    using sum_list_update_one [OF assms, of "\<lambda>q. if K q then held l q else 0" "if K r then v else 0"]
    by (simp only:)
qed

lemma held_by_other:
  "r \<notin> set (live l) \<Longrightarrow> held_by K (l\<lparr>held := (held l)(r := v)\<rparr>) = held_by K l"
  unfolding held_by_def by (simp cong: if_cong, intro arg_cong [where f = sum_list] map_cong) auto

lemma held_le:
  assumes "r \<in> set (live l)" "K r"
  shows "held l r \<le> held_by K l"
  using member_le_sum_list [of "if K r then held l r else 0" "map (\<lambda>r. if K r then held l r else 0) (live l)"] assms
  by (auto simp: held_by_def)

lemma held_by_split: "held_by K l + held_by (\<lambda>r. \<not> K r) l = held_by (\<lambda>_. True) l"
proof -
  have "(\<Sum>r\<leftarrow>rs. if K r then held l r else 0) + (\<Sum>r\<leftarrow>rs. if \<not> K r then held l r else 0) =
      (\<Sum>r\<leftarrow>rs. if True then held l r else 0)" for rs
    by (induction rs) auto
  then show ?thesis by (simp add: held_by_def)
qed

lemma held_by_registered [simp]: "held_by K (l\<lparr>registered := cs\<rparr>) = held_by K l"
  by (simp add: held_by_def cong: if_cong)

lemma held_by_open: "r \<notin> set (live l) \<Longrightarrow>
    held_by K (l\<lparr>live := r # live l, held := (held l)(r := 0)\<rparr>) = held_by K l"
  unfolding held_by_def by (simp cong: if_cong, intro arg_cong [where f = sum_list] map_cong) auto

lemma held_by_close:
  assumes "distinct (live l)" "r \<in> set (live l)"
  shows "held_by K (l\<lparr>live := remove1 r (live l), held := (held l)(r := 0)\<rparr>) + (if K r then held l r else 0) =
    held_by K l"
proof -
  have "map (\<lambda>q. if K q then ((held l)(r := 0)) q else 0) (remove1 r (live l)) =
      map (\<lambda>q. if K q then held l q else 0) (remove1 r (live l))"
    using assms(1) by (intro map_cong refl) auto
  then have "(\<Sum>q\<leftarrow>remove1 r (live l). if K q then ((held l)(r := 0)) q else 0) =
      (\<Sum>q\<leftarrow>remove1 r (live l). if K q then held l q else 0)" by (rule arg_cong)
  then show ?thesis
    using sum_list_map_remove1 [OF assms(2), of "\<lambda>q. if K q then held l q else 0"]
    by (simp add: held_by_def cong: if_cong)
qed

definition pool_accounts ::
  "('c \<Rightarrow> bool) \<Rightarrow> ('r \<Rightarrow> 'c) \<Rightarrow> reserved_pool \<Rightarrow> reserved_pool \<Rightarrow> ('c, 'r) ledger \<Rightarrow> bool" where
  "pool_accounts spills owner p0 p l \<longleftrightarrow>
     pool_size p = pool_size p0 \<and> reserve_for_non_spillable p = reserve_for_non_spillable p0 \<and>
     distinct (live l) \<and> distinct (registered l) \<and> owner ` set (live l) \<subseteq> set (registered l) \<and>
     length (registered l) < 2 ^ 64 \<and> held_by (\<lambda>_. True) l < 2 ^ 64 \<and>
     unat (spillable p) = held_by (\<lambda>r. spills (owner r)) l \<and>
     unat (non_spillable p) = held_by (\<lambda>r. \<not> spills (owner r)) l \<and>
     unat (num_spill p) = length (filter spills (registered l))"

lemma unat_of_nat_usize: "n < 2 ^ 64 \<Longrightarrow> unat (of_nat n :: usize) = n"
  by (simp add: unat_of_nat take_bit_nat_eq_self)

lemma unat_add_usize: "unat a + unat b < 2 ^ 64 \<Longrightarrow> unat (a + b :: usize) = unat a + unat b"
  using unat_add_lem [of a b] by simp

lemma unat_sub_usize: "b \<le> a \<Longrightarrow> unat (a - b :: usize) = unat a - unat b"
  by (rule unat_sub)

subsection \<open>Every event keeps the accounts\<close>

lemmas ledger_moves = add_held_def sub_held_def

lemma held_by_add:
  assumes "distinct (live l)" "r \<in> set (live l)"
  shows "held_by K (add_held r n l) = held_by K l + (if K r then n else 0)"
  using held_by_update [OF assms, of K "held l r + n"] by (auto simp: add_held_def split: if_splits)

lemma held_by_sub:
  assumes "distinct (live l)" "r \<in> set (live l)" "n \<le> held l r"
  shows "held_by K (sub_held r n l) + (if K r then n else 0) = held_by K l"
  using held_by_update [OF assms(1,2), of K "held l r - n"] assms(3) by (auto simp: sub_held_def split: if_splits)

lemma accounts_part:
  assumes "pool_accounts spills owner p0 p l"
  shows "unat (spillable p) + unat (non_spillable p) = held_by (\<lambda>_. True) l"
  using assms held_by_split [of "\<lambda>r. spills (owner r)" l] by (simp add: pool_accounts_def)

lemma accounts_grow:
  assumes acc: "pool_accounts spills owner p0 p l"
    and r: "r \<in> set (live l)" and n: "held_by (\<lambda>_. True) l + n < 2 ^ 64"
  shows "pool_accounts spills owner p0 (pool_grow (spills (owner r)) (of_nat n) p) (add_held r n l)"
proof -
  have d: "distinct (live l)" using acc by (simp add: pool_accounts_def)
  note add = held_by_add [OF d r]
  have len: "live (add_held r n l) = live l" "registered (add_held r n l) = registered l"
    by (simp_all add: add_held_def)
  have w: "unat (of_nat n :: usize) = n" using n by (intro unat_of_nat_usize) simp
  have part: "unat (spillable p) + unat (non_spillable p) = held_by (\<lambda>_. True) l" by (rule accounts_part [OF acc])
  have "unat (spillable p + of_nat n) = unat (spillable p) + n"
    "unat (non_spillable p + of_nat n) = unat (non_spillable p) + n"
    using n part w by (simp_all add: unat_add_usize)
  then show ?thesis
    using acc add n by (auto simp: pool_accounts_def pool_grow_def len)
qed

lemma accounts_shrink:
  assumes acc: "pool_accounts spills owner p0 p l"
    and r: "r \<in> set (live l)" and n: "n \<le> held l r"
  shows "\<exists>p'. pool_shrink (spills (owner r)) (of_nat n) p = Some p' \<and>
    pool_accounts spills owner p0 p' (sub_held r n l)"
proof -
  have d: "distinct (live l)" using acc by (simp add: pool_accounts_def)
  note sub = held_by_sub [OF d r n]
  have len: "live (sub_held r n l) = live l" "registered (sub_held r n l) = registered l"
    by (simp_all add: sub_held_def)
  have part: "unat (spillable p) + unat (non_spillable p) = held_by (\<lambda>_. True) l" by (rule accounts_part [OF acc])
  have "n \<le> held_by (\<lambda>_. True) l" using held_le [OF r, of "\<lambda>_. True"] n by simp
  then have w: "unat (of_nat n :: usize) = n"
    using acc by (intro unat_of_nat_usize) (simp add: pool_accounts_def)
  show ?thesis
  proof (cases "spills (owner r)")
    case True
    then have "n \<le> unat (spillable p)"
      using held_le [OF r, of "\<lambda>r. spills (owner r)"] n acc by (simp add: pool_accounts_def)
    then have le: "of_nat n \<le> spillable p" by (simp add: word_le_nat_alt w)
    show ?thesis
      using True le acc sub [of "\<lambda>_. True"] sub [of "\<lambda>r. spills (owner r)"] sub [of "\<lambda>r. \<not> spills (owner r)"]
      by (simp add: pool_shrink_def word_checked_sub_def pool_accounts_def len unat_sub_usize [OF le] w)
  next
    case False
    then have "n \<le> unat (non_spillable p)"
      using held_le [OF r, of "\<lambda>r. \<not> spills (owner r)"] n acc by (simp add: pool_accounts_def)
    then have le: "of_nat n \<le> non_spillable p" by (simp add: word_le_nat_alt w)
    show ?thesis
      using False le acc sub [of "\<lambda>_. True"] sub [of "\<lambda>r. spills (owner r)"] sub [of "\<lambda>r. \<not> spills (owner r)"]
      by (simp add: pool_shrink_def word_checked_sub_def pool_accounts_def len unat_sub_usize [OF le] w)
  qed
qed

lemma pool_try_grow_Some: "pool_try_grow can_spill own n p = Some p' \<Longrightarrow> p' = pool_grow can_spill n p"
  by (auto simp: pool_try_grow_def pool_grow_def Let_def split: if_splits)

lemma accounts_close:
  assumes acc: "pool_accounts spills owner p0 p l" and r: "r \<in> set (live l)"
  shows "\<exists>p'. pool_shrink (spills (owner r)) (of_nat (held l r)) p = Some p' \<and>
    pool_accounts spills owner p0 p' (l\<lparr>live := remove1 r (live l), held := (held l)(r := 0)\<rparr>)"
proof -
  have d: "distinct (live l)" using acc by (simp add: pool_accounts_def)
  let ?l = "l\<lparr>live := remove1 r (live l), held := (held l)(r := 0)\<rparr>"
  obtain p' where p': "pool_shrink (spills (owner r)) (of_nat (held l r)) p = Some p'"
    "pool_accounts spills owner p0 p' (sub_held r (held l r) l)"
    using accounts_shrink [OF acc r order_refl] by blast
  have "held_by K ?l = held_by K (sub_held r (held l r) l)" for K
    using held_by_close [OF d r, of K] held_by_sub [OF d r order_refl, of K] by simp
  then have "pool_accounts spills owner p0 p' ?l"
    using p'(2) d by (auto simp: pool_accounts_def sub_held_def)
  with p'(1) show ?thesis by blast
qed

lemma accounts_move:
  assumes acc: "pool_accounts spills owner p0 p l" and "r \<in> set (live l)" "q \<in> set (live l)" "r \<noteq> q"
    "owner r = owner q" "n \<le> held l r"
  shows "pool_accounts spills owner p0 p (add_held q n (sub_held r n l))"
proof -
  have d: "distinct (live l)" using acc by (simp add: pool_accounts_def)
  have live: "live (sub_held r n l) = live l" by (simp add: sub_held_def)
  have "held_by K (add_held q n (sub_held r n l)) = held_by K l" if "K r = K q" for K
    using held_by_add [of "sub_held r n l" q K n] held_by_sub [OF d assms(2,6), of K] d assms(3) that
    by (simp add: live)
  then have "held_by (\<lambda>r. spills (owner r)) (add_held q n (sub_held r n l)) = held_by (\<lambda>r. spills (owner r)) l"
    "held_by (\<lambda>r. \<not> spills (owner r)) (add_held q n (sub_held r n l)) = held_by (\<lambda>r. \<not> spills (owner r)) l"
    "held_by (\<lambda>_. True) (add_held q n (sub_held r n l)) = held_by (\<lambda>_. True) l"
    using assms(5) by simp_all
  then show ?thesis using acc by (simp add: pool_accounts_def ledger_moves)
qed

lemma length_filter_remove1:
  "c \<in> set cs \<Longrightarrow> length (filter P (remove1 c cs)) = length (filter P cs) - (if P c then 1 else 0)"
  by (simp add: filter_remove1 length_remove1)

lemma accounts_step:
  assumes acc: "pool_accounts spills owner p0 p l" and ok: "event_allowed owner l e"
  shows "\<exists>granted p' l'. pool_perform spills owner e p l = Some (granted, p', l') \<and>
    pool_accounts spills owner p0 p' l'"
proof (cases e)
  case (Register c)
  have "unat (num_spill p) + 1 < 2 ^ 64"
    using acc ok Register by (auto simp: pool_accounts_def intro: le_less_trans [OF length_filter_le])
  then have "unat (num_spill p + 1) = unat (num_spill p) + 1" using unat_add_usize [of "num_spill p" 1] by simp
  then show ?thesis using acc ok Register by (auto simp: pool_accounts_def pool_register_def)
next
  case (Unregister c)
  then have c: "c \<in> set (registered l)" "\<forall>r \<in> set (live l). owner r \<noteq> c" using ok by simp_all
  have d: "distinct (registered l)" using acc by (simp add: pool_accounts_def)
  have len: "length (remove1 c (registered l)) < 2 ^ 64"
    using acc length_remove1 [of c "registered l"] by (simp add: pool_accounts_def split: if_splits)
  have sub: "owner ` set (live l) \<subseteq> set (remove1 c (registered l))"
    using acc c d by (auto simp: pool_accounts_def)
  have "spills c \<Longrightarrow> 1 \<le> num_spill p"
  proof -
    assume "spills c"
    then have "filter spills (registered l) \<noteq> []" using c(1) by (auto simp: filter_empty_conv)
    then have "0 < unat (num_spill p)" using acc by (simp add: pool_accounts_def)
    then show "1 \<le> num_spill p" by (simp add: word_le_nat_alt)
  qed
  then show ?thesis
    using acc c(1) d len sub Unregister length_filter_remove1 [OF c(1), of spills]
    by (auto simp: pool_accounts_def pool_unregister_def word_checked_sub_def unat_sub_usize)
next
  case (OpenReservation r)
  then show ?thesis
    using acc ok held_by_open [of r l] by (auto simp: pool_accounts_def)
next
  case (Grow r n)
  then show ?thesis using accounts_grow [OF acc] ok by auto
next
  case (TryGrow r n)
  then show ?thesis
    using acc accounts_grow [OF acc] ok pool_try_grow_Some [of "spills (owner r)" "of_nat (held l r)" "of_nat n" p]
    by (auto split: option.split)
next
  case (Shrink r n)
  then show ?thesis using accounts_shrink [OF acc] ok by fastforce
next
  case (CloseReservation r)
  then show ?thesis using accounts_close [OF acc] ok by fastforce
next
  case (MoveBytes r q n)
  then show ?thesis using accounts_move [OF acc] ok by auto
qed

lemma no_clients_account:
  assumes "reserved_pool_new limit reserve = Some p0"
  shows "pool_accounts spills owner p0 p0 no_clients"
  using assms by (auto simp: reserved_pool_new_def pool_accounts_def no_clients_def held_by_def split: if_splits)

lemma reached_accounts:
  assumes "pool_reaches spills owner allowed p0 p l" "reserved_pool_new limit reserve = Some p0"
  shows "pool_accounts spills owner p0 p l"
  using assms(1)
proof induction
  case start
  show ?case by (rule no_clients_account [OF assms(2)])
next
  case (event p l e granted p' l')
  then show ?case using accounts_step [OF event.IH event.hyps(2)] by auto
qed

lemma per_consumer_unat:
  "unat (per_consumer p) =
     (unat (pool_size p) - max (unat (non_spillable p)) (unat (reserve_for_non_spillable p))) div max 1 (unat (num_spill p))"
proof -
  have m: "unat (max a b) = max (unat a) (unat b)" for a b :: usize
    by (simp add: max_def word_le_nat_alt)
  have "unat (spill_capacity p) =
      unat (pool_size p) - max (unat (non_spillable p)) (unat (reserve_for_non_spillable p))"
  proof (cases "max (non_spillable p) (reserve_for_non_spillable p) \<le> pool_size p")
    case True
    then show ?thesis by (simp add: spill_capacity_def word_saturating_sub_def unat_sub_usize m)
  next
    case False
    then have "unat (pool_size p) < max (unat (non_spillable p)) (unat (reserve_for_non_spillable p))"
      by (simp only: not_le word_less_nat_alt m)
    then show ?thesis using False by (auto simp: spill_capacity_def word_saturating_sub_def)
  qed
  then show ?thesis
    by (auto simp: per_consumer_def unat_div_distrib max_def word_le_nat_alt unat_eq_0 not_le)
qed

text \<open>Exactly when an allocation is granted.\<close>

definition grant_rule :: "('c \<Rightarrow> bool) \<Rightarrow> ('r \<Rightarrow> 'c) \<Rightarrow> reserved_pool \<Rightarrow> ('c, 'r) ledger \<Rightarrow> 'r \<Rightarrow> nat \<Rightarrow> bool" where
  "grant_rule spills owner p l r n \<longleftrightarrow>
     (if spills (owner r)
      then held l r + n \<le>
        (unat (pool_size p) - max (held_by (\<lambda>r. \<not> spills (owner r)) l) (unat (reserve_for_non_spillable p)))
          div max 1 (length (filter spills (registered l)))
      else n \<le> unat (pool_size p) - held_by (\<lambda>_. True) l)"

lemma granted_exactly:
  assumes acc: "pool_accounts spills owner p0 p l" and ok: "event_allowed owner l (TryGrow r n)"
    and "pool_perform spills owner (TryGrow r n) p l = Some (granted, p', l')"
  shows "granted = grant_rule spills owner p l r n"
proof -
  have bound: "held l r + n < 2 ^ 64"
    using ok held_le [of r l "\<lambda>_. True"] by simp
  have w: "unat (of_nat n :: usize) = n" "unat (of_nat (held l r) :: usize) = held l r"
    using bound by (simp_all add: unat_of_nat_usize)
  have add: "unat (of_nat (held l r) + of_nat n :: usize) = held l r + n"
    using bound w by (simp add: unat_add_usize)
  have part: "unat (non_spillable p + spillable p) = held_by (\<lambda>_. True) l"
    using accounts_part [OF acc] acc by (subst unat_add_usize) (simp_all add: pool_accounts_def)
  have counts: "unat (num_spill p) = length (filter spills (registered l))"
    "unat (non_spillable p) = held_by (\<lambda>r. \<not> spills (owner r)) l"
    using acc by (simp_all add: pool_accounts_def)
  show ?thesis
  proof (cases "spills (owner r)")
    case True
    have "granted \<longleftrightarrow> unat (of_nat (held l r) + of_nat n :: usize) \<le> unat (per_consumer p)"
      using assms(3) True by (auto simp: pool_try_grow_def word_le_nat_alt word_less_nat_alt split: if_splits)
    then show ?thesis using True by (simp add: add per_consumer_unat grant_rule_def counts)
  next
    case False
    have "granted \<longleftrightarrow> n \<le> unat (word_saturating_sub (pool_size p) (non_spillable p + spillable p))"
      using assms(3) False w(1)
      by (auto simp: pool_try_grow_def Let_def word_le_nat_alt word_less_nat_alt split: if_splits)
    also have "unat (word_saturating_sub (pool_size p) (non_spillable p + spillable p)) =
        unat (pool_size p) - held_by (\<lambda>_. True) l"
      unfolding word_saturating_sub_def using part by (simp add: unat_sub_usize word_le_nat_alt)
    finally show ?thesis using False by (simp add: grant_rule_def)
  qed
qed

text \<open>
  C34: The pool accounts exactly and never panics. Whatever its clients do within DataFusion's protocol
  (and below the width of the counters), no \<open>checked_sub\<close> underflows, the two counters are the bytes
  held by spillable and by other reservations, the spillable consumers are counted, and an allocation
  is granted exactly by the documented rule: a spillable reservation up to its even share of what the
  reserve and the others leave, any other up to what is free in the whole pool. A refused allocation
  changes nothing.
\<close>

theorem pool_accounts_exactly:
  assumes "reserved_pool_new limit reserve = Some p0"
    and "pool_reaches spills owner allowed p0 p l"
    and "event_allowed owner l e"
  shows "\<exists>granted p' l'. pool_perform spills owner e p l = Some (granted, p', l') \<and>
    unat (spillable p') = held_by (\<lambda>r. spills (owner r)) l' \<and>
    unat (non_spillable p') = held_by (\<lambda>r. \<not> spills (owner r)) l' \<and>
    unat (pool_reserved p') = held_by (\<lambda>_. True) l' \<and>
    unat (num_spill p') = length (filter spills (registered l')) \<and>
    (\<forall>r n. e = TryGrow r n \<longrightarrow> granted = grant_rule spills owner p l r n \<and> (\<not> granted \<longrightarrow> p' = p \<and> l' = l))"
proof -
  have acc: "pool_accounts spills owner p0 p l" by (rule reached_accounts [OF assms(2,1)])
  obtain granted p' l' where step: "pool_perform spills owner e p l = Some (granted, p', l')"
    and acc': "pool_accounts spills owner p0 p' l'"
    using accounts_step [OF acc assms(3)] by blast
  have "unat (pool_reserved p') = held_by (\<lambda>_. True) l'"
    using accounts_part [OF acc'] acc' by (simp add: pool_reserved_def unat_add_usize pool_accounts_def)
  moreover have "granted = grant_rule spills owner p l r n \<and> (\<not> granted \<longrightarrow> p' = p \<and> l' = l)"
    if "e = TryGrow r n" for r n
    using granted_exactly [OF acc, of r n granted p' l'] assms(3) step that by (auto split: option.splits)
  ultimately show ?thesis using step acc' by (auto simp: pool_accounts_def)
qed

section \<open>The reserve\<close>

text \<open>
  The runs the reserve is meant for: spillable consumers are registered before any of them holds
  memory, each has one reservation, and they only grow by asking.
\<close>

fun orderly :: "('c \<Rightarrow> bool) \<Rightarrow> ('r \<Rightarrow> 'c) \<Rightarrow> ('c, 'r) ledger \<Rightarrow> ('c, 'r) client_call \<Rightarrow> bool" where
  "orderly spills owner l (Register c) \<longleftrightarrow> spills c \<longrightarrow> held_by (\<lambda>r. spills (owner r)) l = 0"
| "orderly spills owner l (OpenReservation r) \<longleftrightarrow> spills (owner r) \<longrightarrow> owner r \<notin> owner ` set (live l)"
| "orderly spills owner l (Grow r n) \<longleftrightarrow> \<not> spills (owner r)"
| "orderly spills owner l _ \<longleftrightarrow> True"

definition share_bound :: "('c \<Rightarrow> bool) \<Rightarrow> ('r \<Rightarrow> 'c) \<Rightarrow> reserved_pool \<Rightarrow> ('c, 'r) ledger \<Rightarrow> bool" where
  "share_bound spills owner p0 l \<longleftrightarrow>
     (\<forall>r \<in> set (live l). spills (owner r) \<longrightarrow>
        held l r * length (filter spills (registered l)) \<le> unat (pool_size p0) - unat (reserve_for_non_spillable p0)) \<and>
     inj_on owner {r \<in> set (live l). spills (owner r)}"

lemma sum_list_bounded:
  fixes f :: "'a \<Rightarrow> nat"
  assumes "\<forall>x \<in> set xs. f x * n \<le> b" "length xs \<le> n"
  shows "sum_list (map f xs) \<le> b"
proof (cases "n = 0")
  case False
  have "sum_list (map f xs) * n \<le> length xs * b"
    using assms(1) by (induction xs) (auto simp: algebra_simps)
  also have "\<dots> \<le> b * n" using assms(2) by (simp add: mult.commute)
  finally show ?thesis using False by simp
qed (use assms in simp)

lemma share_bound_total:
  assumes acc: "pool_accounts spills owner p0 p l" and share: "share_bound spills owner p0 l"
  shows "unat (spillable p) \<le> unat (pool_size p0) - unat (reserve_for_non_spillable p0)"
proof -
  let ?S = "\<lambda>r. spills (owner r)"
  let ?rs = "filter ?S (live l)"
  have "held_by ?S l = sum_list (map (held l) ?rs)"
    by (simp add: held_by_def sum_list_map_filter')
  moreover have "length ?rs \<le> length (filter spills (registered l))"
  proof -
    have "distinct (map owner ?rs)"
      using acc share by (auto simp: distinct_map pool_accounts_def share_bound_def)
    then have "length ?rs = card (owner ` set ?rs)"
      using distinct_card [of "map owner ?rs"] by simp
    also have "\<dots> \<le> card (set (filter spills (registered l)))"
      using acc by (intro card_mono) (auto simp: pool_accounts_def)
    also have "\<dots> \<le> length (filter spills (registered l))" by (rule card_length)
    finally show ?thesis .
  qed
  ultimately show ?thesis
    using acc share sum_list_bounded [of ?rs "held l" "length (filter spills (registered l))"]
    by (auto simp: pool_accounts_def share_bound_def)
qed

lemma div_share:
  assumes "(a :: nat) \<le> b div max 1 n" "0 < n"
  shows "a * n \<le> b"
proof -
  have "a * n \<le> (b div n) * n" using assms by (simp add: max_def)
  also have "\<dots> \<le> b" by simp
  finally show ?thesis .
qed

lemma share_bound_step:
  assumes acc: "pool_accounts spills owner p0 p l" and share: "share_bound spills owner p0 l"
    and ok: "event_allowed owner l e" and o: "orderly spills owner l e"
    and step: "pool_perform spills owner e p l = Some (granted, p', l')"
  shows "share_bound spills owner p0 l'"
proof (cases e)
  case (Register c)
  show ?thesis
  proof (cases "spills c")
    case False
    then show ?thesis using Register step share by (auto simp: share_bound_def)
  next
    case True
    then have "held_by (\<lambda>r. spills (owner r)) l = 0" using o Register by simp
    then have "held l r = 0" if "r \<in> set (live l)" "spills (owner r)" for r
      using held_le [of r l "\<lambda>r. spills (owner r)"] that by simp
    then show ?thesis using Register step share by (auto simp: share_bound_def)
  qed
next
  case (Unregister c)
  then have l': "l' = l\<lparr>registered := remove1 c (registered l)\<rparr>" using step by auto
  have c: "c \<in> set (registered l)" using ok Unregister by simp
  have "length (filter spills (remove1 c (registered l))) \<le> length (filter spills (registered l))"
    by (simp add: length_filter_remove1 [OF c])
  then have le: "held l r * length (filter spills (remove1 c (registered l))) \<le>
      held l r * length (filter spills (registered l))" for r by (rule mult_le_mono2)
  have "held l r * length (filter spills (remove1 c (registered l))) \<le>
      unat (pool_size p0) - unat (reserve_for_non_spillable p0)"
    if "r \<in> set (live l)" "spills (owner r)" for r
    by (rule order_trans [OF le]) (use share that in \<open>simp add: share_bound_def\<close>)
  then show ?thesis using share l' by (simp add: share_bound_def)
next
  case (OpenReservation r)
  then have l': "l' = l\<lparr>live := r # live l, held := (held l)(r := 0)\<rparr>" using step by auto
  have "inj_on owner {q \<in> set (r # live l). spills (owner q)}"
  proof (cases "spills (owner r)")
    case True
    then have "owner r \<notin> owner ` set (live l)" using o OpenReservation by simp
    moreover have "{q \<in> set (r # live l). spills (owner q)} = insert r {q \<in> set (live l). spills (owner q)}"
      using True by auto
    ultimately show ?thesis using share by (auto simp: share_bound_def inj_on_insert)
  next
    case False
    then have "{q \<in> set (r # live l). spills (owner q)} = {q \<in> set (live l). spills (owner q)}" by auto
    then show ?thesis using share by (simp add: share_bound_def)
  qed
  then show ?thesis using share l' by (auto simp: share_bound_def)
next
  case (Grow r n)
  then show ?thesis using step share o by (auto simp: share_bound_def add_held_def)
next
  case (TryGrow r n)
  show ?thesis
  proof (cases "granted \<and> spills (owner r)")
    case False
    then show ?thesis using TryGrow step share by (auto simp: share_bound_def add_held_def split: option.splits)
  next
    case True
    have r: "r \<in> set (live l)" using ok TryGrow by simp
    let ?N = "length (filter spills (registered l))"
    have "owner r \<in> set (filter spills (registered l))" using acc r True by (auto simp: pool_accounts_def)
    then have N: "0 < ?N" by (rule length_pos_if_in_set)
    have "grant_rule spills owner p l r n"
      using granted_exactly [OF acc] ok step TryGrow True by blast
    then have "held l r + n \<le>
        (unat (pool_size p) - max (held_by (\<lambda>r. \<not> spills (owner r)) l) (unat (reserve_for_non_spillable p))) div max 1 ?N"
      unfolding grant_rule_def by (simp only: conjunct2 [OF True] if_True)
    from div_share [OF this N] have "(held l r + n) * ?N \<le>
        unat (pool_size p) - max (held_by (\<lambda>r. \<not> spills (owner r)) l) (unat (reserve_for_non_spillable p))" .
    then have bound: "(held l r + n) * ?N \<le> unat (pool_size p0) - unat (reserve_for_non_spillable p0)"
      using acc by (simp add: pool_accounts_def)
    have l': "l' = add_held r n l" using TryGrow step True by (auto split: option.splits)
    show ?thesis
      unfolding l' using share bound
      by (auto simp: share_bound_def add_held_def)
  qed
next
  case (Shrink r n)
  then have l': "l' = sub_held r n l" using step by auto
  have "(held l r - n) * length (filter spills (registered l)) \<le>
      unat (pool_size p0) - unat (reserve_for_non_spillable p0)" if "r \<in> set (live l)" "spills (owner r)"
    using share that order_trans [OF mult_le_mono1 [OF diff_le_self]]
    unfolding share_bound_def by blast
  then show ?thesis using share l' by (auto simp: share_bound_def sub_held_def)
next
  case (CloseReservation r)
  then have l': "l' = l\<lparr>live := remove1 r (live l), held := (held l)(r := 0)\<rparr>" using step by auto
  have sub: "set (remove1 r (live l)) \<subseteq> set (live l)" by (rule set_remove1_subset)
  have "inj_on owner {q \<in> set (remove1 r (live l)). spills (owner q)}"
  proof (rule inj_on_subset)
    show "inj_on owner {r \<in> set (live l). spills (owner r)}" using share by (simp add: share_bound_def)
  qed (use sub in blast)
  then show ?thesis using share l' sub by (auto simp: share_bound_def)
next
  case (MoveBytes r q n)
  then have m: "r \<in> set (live l)" "q \<in> set (live l)" "r \<noteq> q" "owner r = owner q" using ok by auto
  have "\<not> spills (owner r)" using share m by (auto simp: share_bound_def inj_on_def)
  then show ?thesis using share step MoveBytes m by (auto simp: share_bound_def ledger_moves)
qed

lemma reached_share_bound:
  assumes "pool_reaches spills owner (orderly spills owner) p0 p l" "reserved_pool_new limit reserve = Some p0"
  shows "share_bound spills owner p0 l"
  using assms(1)
proof induction
  case start
  show ?case by (simp add: share_bound_def no_clients_def)
next
  case (event p l e granted p' l')
  show ?case
    by (rule share_bound_step [OF reached_accounts [OF event.hyps(1) assms(2)] event.IH event.hyps(2,3,4)])
qed


section \<open>Concrete runs\<close>

fun run_calls ::
  "('c \<Rightarrow> bool) \<Rightarrow> ('r \<Rightarrow> 'c) \<Rightarrow> (('c, 'r) ledger \<Rightarrow> ('c, 'r) client_call \<Rightarrow> bool) \<Rightarrow> ('c, 'r) client_call list \<Rightarrow>
   reserved_pool \<Rightarrow> ('c, 'r) ledger \<Rightarrow> (bool list \<times> reserved_pool \<times> ('c, 'r) ledger) option" where
  "run_calls spills owner allowed [] p l = Some ([], p, l)"
| "run_calls spills owner allowed (e # es) p l =
     (if event_allowed owner l e \<and> allowed l e
      then (case pool_perform spills owner e p l of
              None \<Rightarrow> None
            | Some (granted, p, l) \<Rightarrow>
                map_option (\<lambda>(gs, r). (granted # gs, r)) (run_calls spills owner allowed es p l))
      else None)"

lemma run_calls_reaches:
  "run_calls spills owner allowed es p l = Some (gs, p', l') \<Longrightarrow> pool_reaches spills owner allowed p0 p l \<Longrightarrow>
    pool_reaches spills owner allowed p0 p' l'"
proof (induction es arbitrary: p l gs)
  case (Cons e es)
  then obtain granted p1 l1 gs1 where step: "event_allowed owner l e" "allowed l e"
    "pool_perform spills owner e p l = Some (granted, p1, l1)"
    "run_calls spills owner allowed es p1 l1 = Some (gs1, p', l')"
    by (auto split: if_splits option.splits)
  show ?case by (rule Cons.IH [OF step(4) pool_reaches.event [OF Cons.prems(2) step(1-3)]])
qed simp

definition even_spills :: "nat \<Rightarrow> bool" where
  "even_spills c \<longleftrightarrow> even c"

definition small_pool :: reserved_pool where
  "small_pool = \<lparr>pool_size = 100, reserve_for_non_spillable = 20, num_spill = 0, spillable = 0, non_spillable = 0\<rparr>"

lemma small_pool_new: "reserved_pool_new 100 20 = Some small_pool"
  by (simp add: reserved_pool_new_def small_pool_def)

definition full_calls :: "(nat, nat) client_call list" where
  "full_calls = [Register 0, Register 1, OpenReservation 0, OpenReservation 1, TryGrow 0 80]"

lemmas run_eval = full_calls_def small_pool_def no_clients_def held_by_def add_held_def even_spills_def
  pool_register_def pool_try_grow_def per_consumer_def spill_capacity_def word_saturating_sub_def

definition full_pool :: reserved_pool where
  "full_pool = small_pool\<lparr>num_spill := 1, spillable := 80\<rparr>"

definition full_ledger :: "(nat, nat) ledger" where
  "full_ledger = \<lparr>registered = [1, 0], live = [1, 0], held = (\<lambda>_. 0)(1 := 0, 0 := 80)\<rparr>"

lemma full_run:
  "run_calls even_spills id (orderly even_spills id) full_calls small_pool no_clients =
     Some ([True, True, True, True, True], full_pool, full_ledger)"
  by (simp add: run_eval full_pool_def full_ledger_def fun_eq_iff)

lemma full_reached: "pool_reaches even_spills id (orderly even_spills id) small_pool full_pool full_ledger"
  by (rule run_calls_reaches [OF full_run pool_reaches.start])

theorem pool_accounts_exactly_witness:
  "\<exists>granted p' l'. pool_perform even_spills id (TryGrow 1 30) full_pool full_ledger = Some (granted, p', l') \<and>
     unat (pool_reserved p') = held_by (\<lambda>_. True) l' \<and> granted = grant_rule even_spills id full_pool full_ledger 1 30"
proof -
  have "event_allowed id full_ledger (TryGrow 1 30)" by (simp add: held_by_def full_ledger_def)
  from pool_accounts_exactly [OF small_pool_new full_reached this] show ?thesis by blast
qed


text \<open>
  A spillable consumer that registers after another has taken its whole share is granted a share of its
  own, so the spillable consumers hold more than the pool, and the reserve is gone: a single byte is
  refused to a consumer that cannot spill.
\<close>

definition late_calls :: "(nat, nat) client_call list" where
  "late_calls = [Register 0, OpenReservation 0, TryGrow 0 80, Register 2, OpenReservation 2, TryGrow 2 40,
     Register 1, OpenReservation 1, TryGrow 1 1]"

lemma late_registration_takes_the_reserve:
  "\<exists>p l. run_calls even_spills id (\<lambda>_ _. True) late_calls small_pool no_clients =
     Some ([True, True, True, True, True, True, True, True, False], p, l) \<and> unat (spillable p) = 120"
  by (simp add: late_calls_def run_eval)

end
