(* ===== verification/Read_Liveness.thy ===== *)
theory Read_Liveness
  imports Read_Stream
begin

text \<open>
  The loop of \<open>next_batch\<close> (\<open>bigquery/read_stream.rs\<close>) returns: every pass that continues either
  reconnects, which uses up an attempt of the budget, opens a call, or reads a response without rows.
  So a server whose calls carry only finitely many empty responses in a row cannot keep the loop
  busy, and the fuel of the model is never what ends a stream.
\<close>

section \<open>What a pass leaves alone\<close>

definition same_retries :: "'w read_state \<Rightarrow> 'w read_state \<Rightarrow> bool" where
  "same_retries s s' \<longleftrightarrow> rs_attempt s' = rs_attempt s \<and> rs_budget s' = rs_budget s"

lemma same_retries_refl [simp]: "same_retries s s"
  by (simp add: same_retries_def)

lemma same_retries_trans: "same_retries s t \<Longrightarrow> same_retries t u \<Longrightarrow> same_retries s u"
  by (simp add: same_retries_def)

lemma wait_timeout_retries: "wait_timeout env s = (r, s') \<Longrightarrow> same_retries s s' \<and> rs_connected s' = rs_connected s"
  by (auto simp: wait_timeout_def Let_def same_retries_def split: prod.splits option.splits)

lemma accept_batch_retries: "accept_batch env d s = (r, s') \<Longrightarrow> same_retries s s' \<and> rs_connected s' = rs_connected s"
  by (auto simp: accept_batch_def Let_def same_retries_def split: sum.splits option.splits prod.splits if_splits)

lemma decode_response_retries:
  assumes "decode_response env response s = (r, s')"
  shows "same_retries s s' \<and> rs_connected s' = rs_connected s"
proof (cases "env_prepare env response")
  case (Inl e)
  then show ?thesis using assms by (auto simp: decode_response_def Let_def same_retries_def split: prod.splits if_splits)
next
  case (Inr prepared)
  then show ?thesis
    using assms
    by (auto simp: decode_response_def Let_def same_retries_def split: prod.splits if_splits option.splits sum.splits
        dest!: accept_batch_retries)
qed

lemma open_stream_retries: "open_stream env s = (r, s') \<Longrightarrow> same_retries s s' \<and> rs_connected s' = rs_connected s"
  by (auto simp: open_stream_def Let_def same_retries_def
      split: prod.splits sum.splits open_outcome.splits dest!: wait_timeout_retries)

lemma retry_or_fail_budget: "retry_or_fail env failure s = (r, s') \<Longrightarrow> rs_budget s' = rs_budget s"
  by (auto simp: retry_or_fail_def Let_def split: prod.splits if_splits retry_decision.splits
      sum.splits option.splits dest: streak_after_progress_frame)

definition pass_state :: "('w read_state, ('w, 'a) read_step) result \<Rightarrow> 'w read_state" where
  "pass_state r = (case r of Inl s \<Rightarrow> s | Inr (_, s) \<Rightarrow> s)"

lemma pass_state_simps [simp]: "pass_state (Inl s) = s" "pass_state (Inr (x, s)) = s"
  by (simp_all add: pass_state_def)

lemma retry_pass_budget: "rs_budget (pass_state (retry_pass env failure s)) = rs_budget s"
  by (auto simp: retry_pass_def split: prod.splits sum.splits dest: retry_or_fail_budget)

lemma receive_pass_budget: "rs_budget (pass_state (receive_pass env s)) = rs_budget s"
proof -
  obtain r s1 where w: "wait_timeout env s = (r, s1)" by fastforce
  have b: "rs_budget s1 = rs_budget s" using wait_timeout_retries [OF w] by (simp add: same_retries_def)
  show ?thesis
  proof (cases r)
    case (Inl reason)
    then show ?thesis using w b by (simp add: receive_pass_def)
  next
    case (Inr v)
    obtain t lim where v: "v = (t, lim)" by fastforce
    obtain out w1 where n: "env_next env t (rs_world s1) = (out, w1)" by fastforce
    show ?thesis
    proof (cases out)
      case (NextResponse response)
      then show ?thesis
        using w b Inr v n
        by (auto simp: receive_pass_def Let_def same_retries_def split: prod.splits sum.splits option.splits
            dest!: decode_response_retries)
    qed (use w b Inr v n in \<open>auto simp: receive_pass_def Let_def retry_pass_budget\<close>)
  qed
qed

lemma next_pass_budget: "rs_budget (pass_state (next_pass env s)) = rs_budget s"
proof (cases "rs_connected s")
  case True
  then show ?thesis by (simp add: next_pass_def receive_pass_budget)
next
  case False
  obtain v s1 where o: "open_stream env s = (v, s1)" by fastforce
  then have "rs_budget s1 = rs_budget s" using open_stream_retries by (auto simp: same_retries_def)
  then show ?thesis
    using False o by (cases v) (auto simp: next_pass_def retry_pass_budget receive_pass_budget)
qed

section \<open>A server whose empty responses end\<close>

text \<open>
  \<open>m w\<close> bounds the responses without rows that the open call may still send: each uses one up, and the
  clock, the memory pool, the permits and the decoder add none.
\<close>

definition empty_runs_end :: "('w, 'r, 'p, 'o) read_env \<Rightarrow> ('w \<Rightarrow> nat) \<Rightarrow> bool" where
  "empty_runs_end env m \<longleftrightarrow>
     (\<forall>t w w' r. env_next env t w = (NextResponse r, w') \<and> env_prepare env r = Inr None \<longrightarrow> m w' < m w) \<and>
     (\<forall>w. m (snd (env_clock env w)) \<le> m w) \<and>
     (\<forall>n w. m (snd (env_reserve env n w)) \<le> m w) \<and>
     (\<forall>w. m (snd (env_acquire_permit env w)) \<le> m w) \<and>
     (\<forall>w. m (env_release_permit env w) \<le> m w) \<and>
     (\<forall>w. m (env_free env w) \<le> m w)"

lemma empty_runs:
  assumes "empty_runs_end env m"
  shows "env_next env t w = (NextResponse r, w') \<Longrightarrow> env_prepare env r = Inr None \<Longrightarrow> m w' < m w"
    and "env_clock env w = (x, w') \<Longrightarrow> m w' \<le> m w"
    and "env_reserve env n w = (b, w') \<Longrightarrow> m w' \<le> m w"
    and "env_acquire_permit env w = (b, w') \<Longrightarrow> m w' \<le> m w"
    and "m (env_release_permit env w) \<le> m w" and "m (env_free env w) \<le> m w"
  using assms unfolding empty_runs_end_def by (metis snd_conv)+

lemma wait_timeout_runs:
  "empty_runs_end env m \<Longrightarrow> wait_timeout env s = (r, s') \<Longrightarrow> m (rs_world s') \<le> m (rs_world s)"
  by (auto simp: wait_timeout_def Let_def split: prod.splits option.splits dest: empty_runs(2))

lemma accept_batch_not_none: "accept_batch env d s \<noteq> (Inr None, s')"
  by (auto simp: accept_batch_def Let_def split: sum.splits option.splits prod.splits if_splits)

lemma decode_response_empty:
  assumes e: "empty_runs_end env m" and d: "decode_response env response s = (Inr None, s')"
  shows "env_prepare env response = Inr None \<and> m (rs_world s') \<le> m (rs_world s)"
proof -
  obtain w1 where w1: "env_reserve env (serialized_payload_len response) (rs_world s) = (True, w1)"
    using d by (auto simp: decode_response_def Let_def split: prod.splits if_splits)
  obtain w2 where w2: "env_acquire_permit env w1 = (True, w2)"
    using d w1 by (auto simp: decode_response_def Let_def split: prod.splits if_splits)
  have p: "env_prepare env response = Inr None"
    using d w1 w2
    by (auto simp: decode_response_def Let_def accept_batch_not_none
        split: prod.splits if_splits option.splits sum.splits)
  have "s' = s\<lparr>rs_serialized_bytes := rs_serialized_bytes s + serialized_payload_len response,
      rs_world := env_release_permit env w2\<rparr>"
    using d w1 w2 p by (simp add: decode_response_def Let_def)
  then show ?thesis
    using p empty_runs(3) [OF e w1] empty_runs(4) [OF e w2] empty_runs(5) [OF e, of w2] by simp
qed

text \<open>The attempts left, whether a call must still be opened, and the empty responses left.\<close>

definition pass_measure :: "('w \<Rightarrow> nat) \<Rightarrow> 'w read_state \<Rightarrow> nat \<times> nat \<times> nat" where
  "pass_measure m s =
     (max_attempts (rs_budget s) - rs_attempt s, if rs_connected s then 0 else 1, m (rs_world s))"

abbreviation pass_order :: "((nat \<times> nat \<times> nat) \<times> (nat \<times> nat \<times> nat)) set" where
  "pass_order \<equiv> less_than <*lex*> (less_than <*lex*> less_than)"

lemma retry_pass_progress:
  assumes ok: "budget_ok (rs_budget s)" and r: "retry_pass env failure s = Inl s'"
  shows "max_attempts (rs_budget s') - rs_attempt s' < max_attempts (rs_budget s) - rs_attempt s"
proof -
  obtain u where "retry_or_fail env failure s = (Inr u, s')"
    using r by (auto simp: retry_pass_def split: prod.splits sum.splits)
  from retry_or_fail_Inr [OF this ok] show ?thesis by auto
qed

lemma receive_pass_progress:
  assumes e: "empty_runs_end env m" and ok: "budget_ok (rs_budget s)" and c: "rs_connected s"
    and r: "receive_pass env s = Inl s'"
  shows "max_attempts (rs_budget s') - rs_attempt s' < max_attempts (rs_budget s) - rs_attempt s \<or>
    same_retries s s' \<and> rs_connected s' \<and> m (rs_world s') < m (rs_world s)"
proof -
  obtain t lim s1 where w: "wait_timeout env s = (Inr (t, lim), s1)"
    using r by (auto simp: receive_pass_def split: prod.splits sum.splits)
  have s1: "rs_budget s1 = rs_budget s" "rs_attempt s1 = rs_attempt s" "rs_connected s1"
    using wait_timeout_retries [OF w] c by (simp_all add: same_retries_def)
  obtain out w1 where n: "env_next env t (rs_world s1) = (out, w1)" by fastforce
  show ?thesis
  proof (cases out)
    case (NextResponse response)
    obtain s2 s3 where d: "decode_response env response s2 = (Inr None, s3)"
      and s2: "same_retries s1 s2" "rs_world s2 = w1" "rs_connected s2 = rs_connected s1"
      and s': "s' = s3\<lparr>rs_world := env_free env (rs_world s3)\<rparr>"
      using r w n NextResponse
      by (auto simp: receive_pass_def Let_def same_retries_def split: prod.splits sum.splits option.splits)
    have "m w1 < m (rs_world s1)"
      using empty_runs(1) [OF e] n NextResponse decode_response_empty [OF e d] by blast
    then have "m (rs_world s') < m (rs_world s)"
      using decode_response_empty [OF e d] s2 s' empty_runs(6) [OF e, of "rs_world s3"] wait_timeout_runs [OF e w]
      by simp
    moreover have "same_retries s s' \<and> rs_connected s'"
      using decode_response_retries [OF d] s2 s' s1 by (simp add: same_retries_def)
    ultimately show ?thesis by blast
  next
    case (NextStatus status)
    then have "retry_pass env (FailStatus status) (s1\<lparr>rs_world := w1, rs_connected := False\<rparr>) = Inl s'"
      using r w n by (simp add: receive_pass_def Let_def)
    from retry_pass_progress [OF _ this] ok s1 show ?thesis by simp
  next
    case NextEnd
    then show ?thesis using r w n by (simp add: receive_pass_def Let_def)
  next
    case NextTimedOut
    then have "retry_pass env FailIdleTimeout (s1\<lparr>rs_world := w1, rs_connected := False\<rparr>) = Inl s'"
      using r w n by (auto simp: receive_pass_def Let_def split: if_splits)
    from retry_pass_progress [OF _ this] ok s1 show ?thesis by simp
  qed
qed

lemma next_pass_progress:
  assumes e: "empty_runs_end env m" and ok: "budget_ok (rs_budget s)" and n: "next_pass env s = Inl s'"
  shows "(pass_measure m s', pass_measure m s) \<in> pass_order"
proof (cases "rs_connected s")
  case True
  then have "receive_pass env s = Inl s'" using n by (simp add: next_pass_def)
  from receive_pass_progress [OF e ok True this] True show ?thesis
    by (auto simp: pass_measure_def same_retries_def)
next
  case False
  obtain v s1 where o: "open_stream env s = (v, s1)" by fastforce
  have s1: "rs_budget s1 = rs_budget s" "rs_attempt s1 = rs_attempt s"
    using open_stream_retries [OF o] by (simp_all add: same_retries_def)
  show ?thesis
  proof (cases v)
    case (Inl failure)
    then have "retry_pass env failure s1 = Inl s'" using n False o by (simp add: next_pass_def)
    from retry_pass_progress [OF _ this] ok s1 show ?thesis by (simp add: pass_measure_def)
  next
    case (Inr u)
    then have "receive_pass env (s1\<lparr>rs_connected := True\<rparr>) = Inl s'" using n False o by (simp add: next_pass_def)
    from receive_pass_progress [OF e _ _ this] ok s1 False show ?thesis
      by (auto simp: pass_measure_def same_retries_def)
  qed
qed

lemma next_batch_returns:
  assumes e: "empty_runs_end env m"
    and ok: "budget_ok (rs_budget s)"
  shows "\<exists>fuel r. next_batch env fuel s = Some r \<and> rs_budget (snd r) = rs_budget s"
proof -
  have wf: "wf (inv_image pass_order (pass_measure m))" by (intro wf_inv_image wf_lex_prod wf_less_than)
  show ?thesis
    using wf ok
  proof (induction s rule: wf_induct_rule)
    case (less s)
    have b: "rs_budget (pass_state (next_pass env s)) = rs_budget s" by (rule next_pass_budget)
    show ?case
    proof (cases "next_pass env s")
      case (Inl s')
      then have s': "budget_ok (rs_budget s')" "rs_budget s' = rs_budget s" using b less.prems by simp_all
      have "(s', s) \<in> inv_image pass_order (pass_measure m)"
        using next_pass_progress [OF e less.prems Inl] by simp
      from less.IH [OF this s'(1)] obtain fuel r where
        r: "next_batch env fuel s' = Some r" "rs_budget (snd r) = rs_budget s" using s'(2) by auto
      from r(1) Inl have "next_batch env (Suc fuel) s = Some r" by simp
      then show ?thesis using r(2) by blast
    next
      case (Inr r)
      then have "next_batch env (Suc 0) s = Some r" by simp
      moreover have "rs_budget (snd r) = rs_budget s" using b Inr by (cases r) simp
      ultimately show ?thesis by blast
    qed
  qed
qed

lemma next_batch_more: "next_batch env fuel s = Some r \<Longrightarrow> fuel \<le> fuel' \<Longrightarrow> next_batch env fuel' s = Some r"
proof (induction fuel arbitrary: s fuel')
  case (Suc fuel)
  then obtain k where k: "fuel' = Suc k" "fuel \<le> k" by (cases fuel') auto
  then show ?case using Suc by (auto split: sum.splits)
qed simp

lemma poll_stream_never_stuck:
  assumes e: "empty_runs_end env m"
  shows "budget_ok (rs_budget s) \<Longrightarrow>
    \<exists>fuel. \<forall>fuel' \<ge> fuel. fst (snd (poll_stream env fuel' polls s)) \<noteq> Some StreamStuck"
proof (induction polls arbitrary: s)
  case (Suc polls)
  let ?s = "s\<lparr>rs_world := env_free env (rs_world s)\<rparr>"
  obtain fuel r where r: "next_batch env fuel ?s = Some r" "rs_budget (snd r) = rs_budget s"
    using next_batch_returns [OF e, of ?s] Suc.prems by auto
  obtain v s1 where v: "r = (v, s1)" by fastforce
  show ?case
  proof (cases "\<exists>batch. v = Inr (Some batch)")
    case False
    then have "fst (snd (poll_stream env fuel' (Suc polls) s)) \<noteq> Some StreamStuck" if "fuel \<le> fuel'" for fuel'
      using next_batch_more [OF r(1) that] v by (auto split: sum.splits option.splits)
    then show ?thesis by blast
  next
    case True
    then obtain batch where b: "v = Inr (Some batch)" by blast
    obtain fuel1 where f1: "\<forall>fuel' \<ge> fuel1. fst (snd (poll_stream env fuel' polls s1)) \<noteq> Some StreamStuck"
      using Suc.IH [of s1] Suc.prems r(2) v by auto
    have "fst (snd (poll_stream env fuel' (Suc polls) s)) \<noteq> Some StreamStuck" if "max fuel fuel1 \<le> fuel'" for fuel'
    proof -
      obtain bs fin s2 where p: "poll_stream env fuel' polls s1 = (bs, fin, s2)" by (metis prod_cases3)
      have "fuel \<le> fuel'" "fuel1 \<le> fuel'" using that by simp_all
      moreover have "fin \<noteq> Some StreamStuck" using f1 \<open>fuel1 \<le> fuel'\<close> p by (metis fst_conv snd_conv)
      ultimately show ?thesis using next_batch_more [OF r(1)] v b p by simp
    qed
    then show ?thesis by blast
  qed
qed simp

text \<open>
  C31: A partition stream never hangs in its loop. When every call of the server sends only finitely many
  responses without rows in a row, then for any number of polls there is a bound on the passes the
  loop makes: with that many (or more) every poll returns a batch, the end of the stream or an error.
  No assumption is made about failures: reconnections are paid for by the retry budget.
\<close>

theorem read_stream_never_hangs:
  assumes "empty_runs_end env m"
    and "read_rows_start env ordinal b0 b1 window lease w = (Inr (), s0)"
  shows "\<exists>fuel. \<forall>fuel' \<ge> fuel. fst (snd (poll_stream env fuel' polls s0)) \<noteq> Some StreamStuck"
  by (rule poll_stream_never_stuck [OF assms(1)]) (use read_rows_start_inv [OF assms(2)] in blast)

lemma demo_runs_end: "empty_runs_end demo_env (\<lambda>_. 0)"
  by (auto simp: empty_runs_end_def demo_env_def demo_next_def split: if_splits)

theorem read_stream_never_hangs_witness:
  "\<exists>fuel. \<forall>fuel' \<ge> fuel. fst (snd (poll_stream demo_env fuel' 10 demo_state)) \<noteq> Some StreamStuck"
  by (rule read_stream_never_hangs [OF demo_runs_end demo_start])

end
