(* ===== verification/Pushdown_Text.thy ===== *)
theory Pushdown_Text
  imports Silk_Prelude
begin

text \<open>
  The texts a pushed-down filter is made of (\<open>bigquery/pushdown.rs\<close>: \<open>quote_identifier\<close>,
  \<open>string_literal\<close>, the binary literals, \<open>scaled_decimal_string\<close>), and a lexer for the fragment of
  GoogleSQL they are written in. The lexer is the reference: it says what the service reads.
\<close>

section \<open>The texts\<close>

definition escape_identifier :: "string \<Rightarrow> string" where
  "escape_identifier value =
     concat (map (\<lambda>c. if c = CHR 0x60 then [CHR 0x5C, CHR 0x60] else [c])
       (concat (map (\<lambda>c. if c = CHR 0x5C then [CHR 0x5C, CHR 0x5C] else [c]) value)))"

definition quote_identifier :: "string \<Rightarrow> string" where
  "quote_identifier value = [CHR 0x60] @ escape_identifier value @ [CHR 0x60]"

text \<open>A character is a control character: the ASCII ones, and U+0080 to U+009F in UTF-8.\<close>

definition is_ascii_control :: "char \<Rightarrow> bool" where
  "is_ascii_control c \<longleftrightarrow> byte_nat c < 32 \<or> byte_nat c = 127"

definition starts_c1_control :: "char \<Rightarrow> string \<Rightarrow> bool" where
  "starts_c1_control c cs \<longleftrightarrow>
     c = CHR 0xC2 \<and> (case cs of [] \<Rightarrow> False | d # _ \<Rightarrow> 0x80 \<le> byte_nat d \<and> byte_nat d \<le> 0x9F)"

fun string_body :: "string \<Rightarrow> string option" where
  "string_body [] = Some []"
| "string_body (c # cs) =
     (if c = CHR 0x5C then map_option (\<lambda>s. [CHR 0x5C, CHR 0x5C] @ s) (string_body cs)
      else if c = CHR 0x27 then map_option (\<lambda>s. [CHR 0x5C, CHR 0x27] @ s) (string_body cs)
      else if c = CHR 0x0A then map_option (\<lambda>s. [CHR 0x5C, CHR ''n''] @ s) (string_body cs)
      else if c = CHR 0x0D then map_option (\<lambda>s. [CHR 0x5C, CHR ''r''] @ s) (string_body cs)
      else if c = CHR 0x09 then map_option (\<lambda>s. [CHR 0x5C, CHR ''t''] @ s) (string_body cs)
      else if is_ascii_control c \<or> starts_c1_control c cs then None
      else map_option (\<lambda>s. c # s) (string_body cs))"

definition string_literal :: "string \<Rightarrow> string option" where
  "string_literal value = map_option (\<lambda>s. [CHR 0x27] @ s @ [CHR 0x27]) (string_body value)"

definition lower_hex_digit :: "nat \<Rightarrow> char" where
  "lower_hex_digit n = (if n < 10 then char_of (48 + n) else char_of (87 + n))"

definition hex_byte :: "char \<Rightarrow> string" where
  "hex_byte c = [CHR 0x5C, CHR ''x'', lower_hex_digit (byte_nat c div 16), lower_hex_digit (byte_nat c mod 16)]"

definition binary_literal :: "string \<Rightarrow> string" where
  "binary_literal value = ''b'' @ [CHR 0x27] @ concat (map hex_byte value) @ [CHR 0x27]"

definition show_int :: "int \<Rightarrow> string" where
  "show_int i = (if i < 0 then CHR ''-'' # show_nat (nat (- i)) else show_nat (nat i))"

definition scaled_decimal_string :: "string \<Rightarrow> int \<Rightarrow> string option" where
  "scaled_decimal_string value scale =
     (if scale < 0 then None
      else if scale = 0 then Some value
      else
        (let (negative, digits) = (case strip_prefix ''-'' value of None \<Rightarrow> (False, value) | Some d \<Rightarrow> (True, d));
             padded = (if length digits \<le> nat scale then replicate (nat scale + 1 - length digits) CHR ''0'' else []) @ digits;
             point = length padded - nat scale;
             padded = take point padded @ ''.'' @ drop point padded in
         Some (if negative then CHR ''-'' # padded else padded)))"

section \<open>The lexer\<close>

datatype token = TIdent string | TString string | TWord string | TOp string | TPunct char

definition word_char :: "char \<Rightarrow> bool" where
  "word_char c \<longleftrightarrow> is_ascii_alphanumeric c \<or> c \<in> {CHR ''_'', CHR ''.'', CHR ''+'', CHR ''-''}"

definition op_char :: "char \<Rightarrow> bool" where
  "op_char c \<longleftrightarrow> c \<in> {CHR ''='', CHR ''!'', CHR ''<'', CHR ''>''}"

definition hex_digit_value :: "char \<Rightarrow> nat" where
  "hex_digit_value c =
     (if is_ascii_digit c then byte_nat c - 48 else if 97 \<le> byte_nat c then byte_nat c - 87 else byte_nat c - 55)"

definition simple_escape :: "char \<Rightarrow> char option" where
  "simple_escape c =
     (if c = CHR ''n'' then Some CHR 0x0A else if c = CHR ''r'' then Some CHR 0x0D
      else if c = CHR ''t'' then Some CHR 0x09
      else if c \<in> {CHR 0x5C, CHR 0x27, CHR 0x60, CHR 0x22, CHR ''?''} then Some c
      else None)"

text \<open>What follows an opening quote: the quoted text and what is after its closing quote.\<close>

fun unquote :: "char \<Rightarrow> string \<Rightarrow> (string \<times> string) option" where
  "unquote q [] = None"
| "unquote q (c # cs) =
     (if c = q then Some ([], cs)
      else if q = CHR 0x27 \<and> c \<in> {CHR 0x0A, CHR 0x0D} then None
      else if c = CHR 0x5C then
        (case cs of
           [] \<Rightarrow> None
         | e # rest \<Rightarrow>
             if e = CHR ''x'' then
               (case rest of
                  a # b # more \<Rightarrow>
                    if is_ascii_hexdigit a \<and> is_ascii_hexdigit b
                    then map_option (\<lambda>(s, r). (char_of (hex_digit_value a * 16 + hex_digit_value b) # s, r)) (unquote q more)
                    else None
                | _ \<Rightarrow> None)
             else (case simple_escape e of
                     None \<Rightarrow> None
                   | Some d \<Rightarrow> map_option (\<lambda>(s, r). (d # s, r)) (unquote q rest)))
      else map_option (\<lambda>(s, r). (c # s, r)) (unquote q cs))"

lemma unquote_length: "unquote q s = Some (t, r) \<Longrightarrow> length r < length s"
proof (induction q s arbitrary: t r rule: unquote.induct)
  case (2 q c cs)
  show ?case using 2 by (auto split: if_splits list.splits option.splits) fastforce+
qed simp

function sql_lex :: "string \<Rightarrow> token list option" where
  "sql_lex [] = Some []"
| "sql_lex (c # cs) =
     (if c = CHR '' '' then sql_lex cs
      else if c = CHR 0x60 then
        (case unquote c cs of None \<Rightarrow> None | Some (s, rest) \<Rightarrow> map_option (\<lambda>ts. TIdent s # ts) (sql_lex rest))
      else if c = CHR 0x27 then
        (case unquote c cs of None \<Rightarrow> None | Some (s, rest) \<Rightarrow> map_option (\<lambda>ts. TString s # ts) (sql_lex rest))
      else if c \<in> {CHR ''('', CHR '')'', CHR '',''} then map_option (\<lambda>ts. TPunct c # ts) (sql_lex cs)
      else if op_char c then
        map_option (\<lambda>ts. TOp (c # takeWhile op_char cs) # ts) (sql_lex (dropWhile op_char cs))
      else if word_char c then
        map_option (\<lambda>ts. TWord (c # takeWhile word_char cs) # ts) (sql_lex (dropWhile word_char cs))
      else None)"
  by pat_completeness auto
termination
  by (relation "measure length") (auto dest: unquote_length intro: le_less_trans [OF length_dropWhile_le])

declare sql_lex.simps [simp del]

section \<open>Quoted texts are read back\<close>

definition identifier_escape :: "char \<Rightarrow> string" where
  "identifier_escape c =
     (if c = CHR 0x5C then [CHR 0x5C, CHR 0x5C] else if c = CHR 0x60 then [CHR 0x5C, CHR 0x60] else [c])"

lemma escape_identifier_eq: "escape_identifier v = concat (map identifier_escape v)"
  by (induction v) (simp_all add: escape_identifier_def identifier_escape_def)

lemma simple_escape_simps:
  "simple_escape CHR 0x5C = Some CHR 0x5C" "simple_escape CHR 0x60 = Some CHR 0x60"
  "simple_escape CHR 0x27 = Some CHR 0x27" "simple_escape CHR ''n'' = Some CHR 0x0A"
  "simple_escape CHR ''r'' = Some CHR 0x0D" "simple_escape CHR ''t'' = Some CHR 0x09"
  by (simp_all add: simple_escape_def)

lemma unquote_identifier: "unquote CHR 0x60 (escape_identifier v @ CHR 0x60 # rest) = Some (v, rest)"
  unfolding escape_identifier_eq
  by (induction v) (simp_all add: identifier_escape_def simple_escape_simps)

lemma unquote_string: "string_body v = Some body \<Longrightarrow> unquote CHR 0x27 (body @ CHR 0x27 # rest) = Some (v, rest)"
proof (induction v arbitrary: body)
  case (Cons c v)
  obtain b where b: "string_body v = Some b" using Cons.prems by (auto split: if_splits)
  note ih = Cons.IH [OF b]
  consider "c = CHR 0x5C" | "c = CHR 0x27" | "c = CHR 0x0A" | "c = CHR 0x0D" | "c = CHR 0x09"
    | "c \<noteq> CHR 0x5C" "c \<noteq> CHR 0x27" "c \<noteq> CHR 0x0A" "c \<noteq> CHR 0x0D" "c \<noteq> CHR 0x09" by blast
  then show ?case
  proof cases
    case 6
    then have "body = c # b" using Cons.prems b by (auto split: if_splits)
    then show ?thesis using ih 6 by simp
  qed (use Cons.prems b ih in \<open>auto simp: simple_escape_simps\<close>)
qed simp

lemma lower_hex:
  assumes "n < 16"
  shows "is_ascii_hexdigit (lower_hex_digit n)" "hex_digit_value (lower_hex_digit n) = n"
proof -
  have "byte_nat (lower_hex_digit n) = (if n < 10 then 48 + n else 87 + n)"
    using assms by (simp add: lower_hex_digit_def byte_nat_def)
  then show "is_ascii_hexdigit (lower_hex_digit n)" "hex_digit_value (lower_hex_digit n) = n"
    using assms by (auto simp: is_ascii_hexdigit_def is_ascii_digit_def hex_digit_value_def)
qed

lemma unquote_binary: "unquote CHR 0x27 (concat (map hex_byte v) @ CHR 0x27 # rest) = Some (v, rest)"
proof (induction v)
  case (Cons c v)
  have "byte_nat c < 256" by (simp add: byte_nat_def)
  then have b: "byte_nat c div 16 < 16" "byte_nat c mod 16 < 16" by auto
  have sum: "byte_nat c div 16 * 16 + byte_nat c mod 16 = byte_nat c" by simp
  have "char_of (hex_digit_value (lower_hex_digit (byte_nat c div 16)) * 16 +
      hex_digit_value (lower_hex_digit (byte_nat c mod 16))) = (char_of (byte_nat c) :: char)"
    by (simp only: lower_hex(2) [OF b(1)] lower_hex(2) [OF b(2)] sum)
  also have "\<dots> = c" by (simp add: byte_nat_def)
  finally show ?case using Cons lower_hex(1) [OF b(1)] lower_hex(1) [OF b(2)] by (simp add: hex_byte_def)
qed simp

definition plain_quoted :: "string \<Rightarrow> bool" where
  "plain_quoted s \<longleftrightarrow> list_all (\<lambda>c. c \<notin> {CHR 0x27, CHR 0x5C, CHR 0x0A, CHR 0x0D}) s"

lemma unquote_plain: "plain_quoted s \<Longrightarrow> unquote CHR 0x27 (s @ CHR 0x27 # rest) = Some (s, rest)"
  by (induction s) (auto simp: plain_quoted_def)

section \<open>Lexing piece by piece\<close>

definition lexes_free :: "string \<Rightarrow> token list \<Rightarrow> bool" where
  "lexes_free s ts \<longleftrightarrow> (\<forall>rest. sql_lex (s @ rest) = map_option ((@) ts) (sql_lex rest))"

definition breaks :: "string \<Rightarrow> bool" where
  "breaks rest \<longleftrightarrow> (case rest of [] \<Rightarrow> True | c # _ \<Rightarrow> \<not> word_char c \<and> \<not> op_char c)"

definition lexes :: "string \<Rightarrow> token list \<Rightarrow> bool" where
  "lexes s ts \<longleftrightarrow> (\<forall>rest. breaks rest \<longrightarrow> sql_lex (s @ rest) = map_option ((@) ts) (sql_lex rest))"

named_theorems lexing \<open>how the pieces of a filter lex\<close>

lemma map_option_append: "map_option ((@) ts) (map_option ((@) us) x) = map_option ((@) (ts @ us)) x"
  by (cases x) simp_all

lemma append_one: "(@) [t] = (#) t"
  by (rule ext) simp

lemma lexes_freeI: "lexes_free s ts \<Longrightarrow> lexes s ts"
  by (simp add: lexes_free_def lexes_def)

lemma lexes_append_free: "lexes_free s ts \<Longrightarrow> lexes t us \<Longrightarrow> lexes (s @ t) (ts @ us)"
  unfolding lexes_free_def lexes_def by (auto simp: map_option_append)

lemma lexes_free_append: "lexes_free s ts \<Longrightarrow> lexes_free t us \<Longrightarrow> lexes_free (s @ t) (ts @ us)"
  unfolding lexes_free_def by (auto simp: map_option_append)

lemma lexes_append: "lexes s ts \<Longrightarrow> breaks t \<Longrightarrow> t \<noteq> [] \<Longrightarrow> lexes t us \<Longrightarrow> lexes (s @ t) (ts @ us)"
  unfolding lexes_def by (cases t) (auto simp: map_option_append breaks_def)

lemma lexes_append_lexes_free: "lexes s ts \<Longrightarrow> breaks t \<Longrightarrow> t \<noteq> [] \<Longrightarrow> lexes_free t us \<Longrightarrow> lexes_free (s @ t) (ts @ us)"
  unfolding lexes_def lexes_free_def by (cases t) (auto simp: map_option_append breaks_def)

lemma lexes_whole: "lexes s ts \<Longrightarrow> sql_lex s = Some ts"
  unfolding lexes_def by (metis append_Nil2 breaks_def sql_lex.simps(1) list.simps(4) option.simps(9))

lemma lexes_free_nil: "lexes_free [] []"
  by (auto simp: lexes_free_def option.map_ident_strong)

lemma lexes_space: "lexes_free '' '' []"
  by (auto simp: lexes_free_def sql_lex.simps option.map_ident_strong)

lemma lexes_punct: "c \<in> {CHR ''('', CHR '')'', CHR '',''} \<Longrightarrow> lexes_free [c] [TPunct c]"
  by (auto simp: lexes_free_def sql_lex.simps append_one)

lemma lexes_identifier: "lexes_free (quote_identifier v) [TIdent v]"
  by (simp add: lexes_free_def quote_identifier_def sql_lex.simps unquote_identifier append_one)

lemma lexes_quoted:
  assumes "\<And>rest. unquote CHR 0x27 (body @ CHR 0x27 # rest) = Some (v, rest)"
  shows "lexes_free ([CHR 0x27] @ body @ [CHR 0x27]) [TString v]"
  using assms by (simp add: lexes_free_def sql_lex.simps append_one)

lemma word_char_excludes:
  "word_char c \<Longrightarrow> c \<noteq> CHR '' '' \<and> c \<noteq> CHR 0x60 \<and> c \<noteq> CHR 0x27 \<and> c \<noteq> CHR ''('' \<and> c \<noteq> CHR '')'' \<and> c \<noteq> CHR '','' \<and> \<not> op_char c"
  by (auto simp: word_char_def op_char_def ascii_defs)

lemma op_char_excludes:
  "op_char c \<Longrightarrow> c \<noteq> CHR '' '' \<and> c \<noteq> CHR 0x60 \<and> c \<noteq> CHR 0x27 \<and> c \<noteq> CHR ''('' \<and> c \<noteq> CHR '')'' \<and> c \<noteq> CHR '',''"
  by (auto simp: op_char_def)

lemma takeWhile_run:
  assumes "list_all P w" "rest = [] \<or> \<not> P (hd rest)"
  shows "takeWhile P (w @ rest) = w" "dropWhile P (w @ rest) = rest"
  using assms by (cases rest; induction w; auto)+

lemma lexes_word:
  assumes "list_all word_char w" "w \<noteq> []"
  shows "lexes w [TWord w]"
  unfolding lexes_def
proof (intro allI impI)
  fix rest
  assume b: "breaks rest"
  obtain c cs where w: "w = c # cs" using assms(2) by (cases w) auto
  have c: "word_char c" "list_all word_char cs" using assms(1) w by auto
  have h: "rest = [] \<or> \<not> word_char (hd rest)" using b by (cases rest) (auto simp: breaks_def)
  show "sql_lex (w @ rest) = map_option ((@) [TWord w]) (sql_lex rest)"
    using word_char_excludes [OF c(1)] c(1) takeWhile_run [OF c(2) h] w by (simp add: sql_lex.simps append_one)
qed

lemma lexes_op:
  assumes "list_all op_char w" "w \<noteq> []"
  shows "lexes w [TOp w]"
  unfolding lexes_def
proof (intro allI impI)
  fix rest
  assume b: "breaks rest"
  obtain c cs where w: "w = c # cs" using assms(2) by (cases w) auto
  have c: "op_char c" "list_all op_char cs" using assms(1) w by auto
  have h: "rest = [] \<or> \<not> op_char (hd rest)" using b by (cases rest) (auto simp: breaks_def)
  show "sql_lex (w @ rest) = map_option ((@) [TOp w]) (sql_lex rest)"
    using op_char_excludes [OF c(1)] c(1) takeWhile_run [OF c(2) h] w by (simp add: sql_lex.simps append_one)
qed

lemma breaks_space: "breaks (CHR '' '' # s)"
  by (simp add: breaks_def word_char_def op_char_def ascii_defs)

lemma breaks_punct: "c \<in> {CHR ''('', CHR '')'', CHR '',''} \<Longrightarrow> breaks (c # s)"
  by (auto simp: breaks_def word_char_def op_char_def ascii_defs)

section \<open>Numbers\<close>

definition digit_value :: "char \<Rightarrow> nat" where
  "digit_value c = byte_nat c - 48"

definition digits_value :: "string \<Rightarrow> nat" where
  "digits_value ds = foldl (\<lambda>n c. 10 * n + digit_value c) 0 ds"

lemma digits_value_snoc: "digits_value (ds @ [c]) = 10 * digits_value ds + digit_value c"
  by (simp add: digits_value_def)

lemma digits_value_show_nat: "digits_value (show_nat n) = n"
proof (induction n rule: show_nat.induct)
  case (1 n)
  have d: "digit_value (decimal_digit n) = n mod 10"
    using decimal_digit_nat [of n] by (simp add: digit_value_def byte_nat_def)
  show ?case
  proof (cases "n < 10")
    case True
    then show ?thesis using d by (subst show_nat.simps) (simp add: digits_value_def)
  next
    case False
    then show ?thesis using 1 d by (subst show_nat.simps) (simp add: digits_value_snoc)
  qed
qed

lemma digits_value_zeros: "digits_value (replicate k CHR ''0'' @ ds) = digits_value ds"
proof -
  have "foldl (\<lambda>n c. 10 * n + digit_value c) 0 (replicate k CHR ''0'') = 0"
    by (induction k) (simp_all add: digit_value_def byte_nat_def)
  then show ?thesis by (simp add: digits_value_def)
qed

lemma digit_not_special: "is_ascii_digit c \<Longrightarrow> c \<noteq> CHR ''-'' \<and> c \<noteq> CHR ''.''"
  by (auto simp: ascii_defs)

lemma show_nat_no_special: "CHR ''-'' \<notin> set (show_nat n)" "CHR ''.'' \<notin> set (show_nat n)"
  using show_nat_digits digit_not_special by blast+

text \<open>What a decimal text denotes: a numerator and the number of decimal places.\<close>

definition read_decimal :: "string \<Rightarrow> int \<times> nat" where
  "read_decimal text =
     (let (negative, digits) = (case strip_prefix ''-'' text of None \<Rightarrow> (False, text) | Some d \<Rightarrow> (True, d));
          (whole, places) = (case split_once_on CHR ''.'' digits of None \<Rightarrow> (digits, []) | Some (a, b) \<Rightarrow> (a, b)) in
      ((if negative then - 1 else 1) * int (digits_value (whole @ places)), length places))"

lemma strip_minus_show_nat: "strip_prefix ''-'' (show_nat n @ r) = None"
proof (rule ccontr)
  assume "strip_prefix ''-'' (show_nat n @ r) \<noteq> None"
  then obtain t where "show_nat n @ r = CHR ''-'' # t" by (auto simp: strip_prefix_Some)
  then have "hd (show_nat n) = CHR ''-''" by (cases "show_nat n") auto
  moreover have "hd (show_nat n) \<in> set (show_nat n)" by simp
  ultimately show False using show_nat_no_special(1) [of n] by metis
qed

lemma strip_minus: "strip_prefix ''-'' (CHR ''-'' # s) = Some s"
  by (simp add: strip_prefix_def starts_with_def)

definition point_digits :: "nat \<Rightarrow> nat \<Rightarrow> string" where
  "point_digits n k =
     (let padded = (if length (show_nat n) \<le> k then replicate (k + 1 - length (show_nat n)) CHR ''0'' else []) @ show_nat n in
      take (length padded - k) padded @ ''.'' @ drop (length padded - k) padded)"

lemma scaled_decimal_show_int:
  "scaled_decimal_string (show_int i) scale =
     (if scale < 0 then None else if scale = 0 then Some (show_int i)
      else Some ((if i < 0 then ''-'' else []) @ point_digits (nat \<bar>i\<bar>) (nat scale)))"
  using strip_minus_show_nat [of "nat i" "[]"]
  by (auto simp: scaled_decimal_string_def show_int_def point_digits_def Let_def strip_prefix_def starts_with_def abs_if)

lemma point_digits_read:
  "\<exists>a b. point_digits n k = a @ ''.'' @ b \<and> CHR ''.'' \<notin> set a \<and> CHR ''-'' \<notin> set a \<and> a \<noteq> [] \<and>
     list_all is_ascii_digit (a @ b) \<and> length b = k \<and> digits_value (a @ b) = n"
proof -
  define padded where "padded = (if length (show_nat n) \<le> k then replicate (k + 1 - length (show_nat n)) CHR ''0'' else []) @ show_nat n"
  let ?a = "take (length padded - k) padded" and ?b = "drop (length padded - k) padded"
  have len: "k < length padded" by (simp add: padded_def)
  have digits: "list_all is_ascii_digit padded"
    using show_nat_digits by (auto simp: padded_def list_all_iff ascii_defs)
  then have "\<forall>c \<in> set ?a. is_ascii_digit c" by (auto simp: list_all_iff dest: in_set_takeD)
  then have a: "CHR ''.'' \<notin> set ?a" "CHR ''-'' \<notin> set ?a" using digit_not_special by blast+
  have "digits_value padded = n" by (simp add: padded_def digits_value_zeros digits_value_show_nat)
  moreover have "point_digits n k = ?a @ ''.'' @ ?b" by (simp only: point_digits_def Let_def padded_def)
  moreover have "list_all is_ascii_digit (?a @ ?b)" "length ?b = k" "?a \<noteq> []" using len digits by auto
  moreover have "digits_value (?a @ ?b) = digits_value padded" by simp
  ultimately show ?thesis using a by (intro exI [of _ ?a] exI [of _ ?b]) simp
qed

lemma show_int_digits: "list_all (\<lambda>c. is_ascii_digit c \<or> c = CHR ''-'') (show_int i)"
  using show_nat_digits by (auto simp: show_int_def list_all_iff)

lemma scaled_decimal_chars:
  assumes "scaled_decimal_string (show_int i) scale = Some t"
  shows "list_all (\<lambda>c. is_ascii_digit c \<or> c = CHR ''-'' \<or> c = CHR ''.'') t"
proof -
  obtain a b where ab: "point_digits (nat \<bar>i\<bar>) (nat scale) = a @ ''.'' @ b" "list_all is_ascii_digit (a @ b)"
    using point_digits_read [of "nat \<bar>i\<bar>" "nat scale"] by blast
  have "list_all (\<lambda>c. is_ascii_digit c \<or> c = CHR ''-'' \<or> c = CHR ''.'') (point_digits (nat \<bar>i\<bar>) (nat scale))"
    unfolding ab(1) using ab(2) by (auto simp: list_all_iff)
  then show ?thesis
    using assms show_int_digits [of i] by (auto simp: scaled_decimal_show_int list_all_iff split: if_splits)
qed

lemma scaled_decimal_read:
  "if scale < 0 then scaled_decimal_string (show_int i) scale = None
   else \<exists>text. scaled_decimal_string (show_int i) scale = Some text \<and> read_decimal text = (i, nat scale)"
proof (cases "scale < 0")
  case True
  then show ?thesis by (simp add: scaled_decimal_show_int)
next
  case nonneg: False
  show ?thesis
  proof (cases "scale = 0")
    case True
    have n: "split_once_on CHR ''.'' (show_nat n) = None" for n
      using show_nat_no_special(2) by (simp add: split_once_on_None)
    have "read_decimal (show_int i) = (i, 0)"
    proof (cases "i < 0")
      case True
      then show ?thesis by (simp add: read_decimal_def show_int_def strip_minus n digits_value_show_nat)
    next
      case False
      then show ?thesis using strip_minus_show_nat [of "nat i" "[]"]
        by (simp add: read_decimal_def show_int_def n digits_value_show_nat)
    qed
    then show ?thesis using True by (simp add: scaled_decimal_show_int)
  next
    case False
    obtain a b where ab: "point_digits (nat \<bar>i\<bar>) (nat scale) = a @ ''.'' @ b" "CHR ''.'' \<notin> set a"
      "CHR ''-'' \<notin> set a" "a \<noteq> []" "length b = nat scale" "digits_value (a @ b) = nat \<bar>i\<bar>"
      using point_digits_read [of "nat \<bar>i\<bar>" "nat scale"] by blast
    have s: "split_once_on CHR ''.'' (a @ ''.'' @ b) = Some (a, b)"
      using split_once_on_append [OF ab(2)] by simp
    have m: "strip_prefix ''-'' (a @ ''.'' @ b) = None"
      using ab(3,4) by (cases a) (auto simp: strip_prefix_def starts_with_def)
    show ?thesis
    proof (cases "i < 0")
      case True
      then show ?thesis using False nonneg ab s
        by (simp add: scaled_decimal_show_int read_decimal_def strip_minus)
    next
      case i: False
      then show ?thesis using False nonneg ab s m by (simp add: scaled_decimal_show_int read_decimal_def)
    qed
  qed
qed

text \<open>
  A scaled decimal is written exactly: for every unscaled value and every scale that is not negative
  the text denotes the value divided by that power of ten, with exactly as many decimal places as the
  scale and at least one digit before the point; a negative scale is refused.
\<close>

theorem scaled_decimal_is_exact:
  "if scale < 0 then scaled_decimal_string (show_int i) scale = None
   else \<exists>text. scaled_decimal_string (show_int i) scale = Some text \<and> read_decimal text = (i, nat scale)"
  by (rule scaled_decimal_read)

end
