(* ===== verification/Pushdown.thy ===== *)
theory Pushdown
  imports Pushdown_Text "HOL-Library.Word"
begin

text \<open>
  The translation of query filters into BigQuery row restrictions (\<open>bigquery/pushdown.rs\<close>). A filter is
  pushed down as exact, so the engine does not check it again: the text must mean what the filter means.

  The \<open>chrono\<close> crate (calendar dates and times) is a parameter, and so is the text the standard library
  gives a 64-bit float; DataFusion's expressions are data.
\<close>

section \<open>Types, values and expressions\<close>

datatype time_unit = Second | Millisecond | Microsecond | Nanosecond

datatype data_type =
    BooleanType | Int64Type | Float64Type | Utf8Type | BinaryType | Date32Type
  | Time64Type time_unit
  | TimestampType time_unit "string option"
  | Decimal128Type nat int
  | Decimal256Type nat int
  | StructType "schema_field list"
  | OtherType string
and schema_field = SchemaField string data_type "(string \<times> string) list"

fun field_name :: "schema_field \<Rightarrow> string" where "field_name (SchemaField n t m) = n"
fun field_type :: "schema_field \<Rightarrow> data_type" where "field_type (SchemaField n t m) = t"
fun field_metadata :: "schema_field \<Rightarrow> (string \<times> string) list" where "field_metadata (SchemaField n t m) = m"

datatype scalar_value =
    BooleanValue "bool option"
  | Int8Value "int option" | Int16Value "int option" | Int32Value "int option" | Int64Value "int option"
  | UInt8Value "nat option" | UInt16Value "nat option" | UInt32Value "nat option" | UInt64Value "nat option"
  | Float64Value "64 word option"
  | Utf8Value "string option" | Utf8ViewValue "string option" | LargeUtf8Value "string option"
  | BinaryValue "string option" | BinaryViewValue "string option" | LargeBinaryValue "string option"
  | Date32Value "int option"
  | Time64MicrosecondValue "int option"
  | TimestampMicrosecondValue "int option" "string option"
  | TimestampNanosecondValue "int option" "string option"
  | Decimal128Value "int option" nat int
  | Decimal256Value "int option" nat int
  | OtherValue string

datatype operator = AndOp | OrOp | EqOp | NotEqOp | LtOp | LtEqOp | GtOp | GtEqOp | OtherOp string

datatype table_reference = BareTable string | QualifiedTable string

datatype expr =
    ColumnExpr "table_reference option" string
  | LiteralExpr scalar_value
  | BinaryExpr expr operator expr
  | NotExpr expr
  | IsNullExpr expr
  | IsNotNullExpr expr
  | InListExpr expr "expr list" bool
  | BetweenExpr expr bool expr expr
  | OtherExpr string

text \<open>
  \<open>pl_date\<close> is the text of the day a number of days after the epoch, \<open>pl_time\<close> that of the time of day
  (seconds, nanoseconds) with six decimal places, \<open>pl_timestamp\<close> that of an instant (seconds,
  nanoseconds); each is \<open>None\<close> out of chrono's range.
\<close>

record pushdown_libs =
  pl_float :: "64 word \<Rightarrow> string"
  pl_date :: "int \<Rightarrow> string option"
  pl_time :: "nat \<Rightarrow> nat \<Rightarrow> string option"
  pl_timestamp :: "int \<Rightarrow> nat \<Rightarrow> string option"

section \<open>Columns\<close>

definition to_ascii_upper :: "char \<Rightarrow> char" where
  "to_ascii_upper c = (if is_ascii_lowercase c then char_of (byte_nat c - 32) else c)"

definition contains_text :: "string \<Rightarrow> string \<Rightarrow> bool" where
  "contains_text p s \<longleftrightarrow> find_sub p s \<noteq> None"

definition supported_field :: "schema_field \<Rightarrow> bool" where
  "supported_field field \<longleftrightarrow>
     \<not> list_ex (\<lambda>(name, value).
         let name = map to_ascii_upper name; value = map to_ascii_upper value in
         (contains_text ''LOGICAL'' name \<or> contains_text ''EXTENSION'' name) \<and>
         (contains_text ''GEOGRAPHY'' value \<or> contains_text ''JSON'' value)) (field_metadata field) \<and>
     (case field_type field of
        BooleanType \<Rightarrow> True | Int64Type \<Rightarrow> True | Float64Type \<Rightarrow> True | Utf8Type \<Rightarrow> True | BinaryType \<Rightarrow> True
      | Date32Type \<Rightarrow> True | Time64Type u \<Rightarrow> u = Microsecond
      | TimestampType u _ \<Rightarrow> u = Microsecond \<or> u = Nanosecond
      | Decimal128Type _ _ \<Rightarrow> True | Decimal256Type _ _ \<Rightarrow> True
      | StructType _ \<Rightarrow> False | OtherType _ \<Rightarrow> False)"

record resolved_column =
  rc_sql :: string
  rc_type :: data_type

definition field_named :: "schema_field list \<Rightarrow> string \<Rightarrow> schema_field option" where
  "field_named members name = find (\<lambda>f. field_name f = name) members"

fun resolve_parts :: "schema_field \<Rightarrow> string list \<Rightarrow> string list \<Rightarrow> (schema_field \<times> string list) option" where
  "resolve_parts field quoted [] = Some (field, quoted)"
| "resolve_parts field quoted (part # parts) =
     (case field_type field of
        StructType members \<Rightarrow>
          (case field_named members part of
             None \<Rightarrow> None
           | Some field \<Rightarrow> resolve_parts field (quoted @ [quote_identifier part]) parts)
      | _ \<Rightarrow> None)"

definition resolve_column_path :: "schema_field list \<Rightarrow> string \<Rightarrow> resolved_column option" where
  "resolve_column_path schema path =
     (case field_named schema path of
        Some field \<Rightarrow>
          if supported_field field then Some \<lparr>rc_sql = quote_identifier path, rc_type = field_type field\<rparr> else None
      | None \<Rightarrow>
          (case split_on CHR ''.'' path of
             [] \<Rightarrow> None
           | first # parts \<Rightarrow>
               (case field_named schema first of
                  None \<Rightarrow> None
                | Some field \<Rightarrow>
                    (case resolve_parts field [quote_identifier first] parts of
                       None \<Rightarrow> None
                     | Some (field, quoted) \<Rightarrow>
                         if supported_field field
                         then Some \<lparr>rc_sql = join_with ''.'' quoted, rc_type = field_type field\<rparr> else None))))"

definition resolve_column :: "schema_field list \<Rightarrow> expr \<Rightarrow> resolved_column option" where
  "resolve_column schema expression =
     (case expression of
        ColumnExpr relation name \<Rightarrow>
          (case field_named schema name of
             Some field \<Rightarrow>
               if supported_field field then Some \<lparr>rc_sql = quote_identifier name, rc_type = field_type field\<rparr> else None
           | None \<Rightarrow>
               (case (case relation of
                        Some (BareTable table) \<Rightarrow> resolve_column_path schema (table @ ''.'' @ name)
                      | _ \<Rightarrow> None) of
                  Some column \<Rightarrow> Some column
                | None \<Rightarrow> resolve_column_path schema name))
      | _ \<Rightarrow> None)"

section \<open>Literals\<close>

definition i64_bound :: int where
  "i64_bound = 9223372036854775807"

definition integer_literal :: "scalar_value \<Rightarrow> string option" where
  "integer_literal value =
     (case value of
        Int8Value (Some v) \<Rightarrow> Some (show_int v) | Int16Value (Some v) \<Rightarrow> Some (show_int v)
      | Int32Value (Some v) \<Rightarrow> Some (show_int v) | Int64Value (Some v) \<Rightarrow> Some (show_int v)
      | UInt8Value (Some v) \<Rightarrow> Some (show_nat v) | UInt16Value (Some v) \<Rightarrow> Some (show_nat v)
      | UInt32Value (Some v) \<Rightarrow> Some (show_nat v)
      | UInt64Value (Some v) \<Rightarrow> if int v \<le> i64_bound then Some (show_nat v) else None
      | _ \<Rightarrow> None)"

definition quoted_text :: "string \<Rightarrow> string \<Rightarrow> string" where
  "quoted_text keyword body = keyword @ '' '' @ [CHR 0x27] @ body @ [CHR 0x27]"

definition time_literal :: "pushdown_libs \<Rightarrow> int \<Rightarrow> string option" where
  "time_literal libs micros =
     (if micros < 0 \<or> 86400000000 \<le> micros then None
      else (case pl_time libs (nat (micros div 1000000)) (nat ((micros mod 1000000) * 1000)) of
              None \<Rightarrow> None
            | Some time \<Rightarrow> Some (quoted_text ''TIME'' time)))"

definition timestamp_literal :: "pushdown_libs \<Rightarrow> int \<Rightarrow> int \<Rightarrow> string option \<Rightarrow> string option" where
  "timestamp_literal libs value nanos_per_unit timezone =
     (let total_nanos = value * nanos_per_unit in
      case pl_timestamp libs (total_nanos div 1000000000) (nat (total_nanos mod 1000000000)) of
        None \<Rightarrow> None
      | Some formatted \<Rightarrow>
          (case timezone of
             None \<Rightarrow> Some (quoted_text ''DATETIME'' formatted)
           | Some zone \<Rightarrow>
               if zone = ''UTC'' \<or> zone = ''+00:00''
               then Some (quoted_text ''TIMESTAMP'' (formatted @ ''+00'')) else None))"

definition equivalent_timezone :: "string option \<Rightarrow> string option \<Rightarrow> bool" where
  "equivalent_timezone expected actual \<longleftrightarrow>
     expected = actual \<or> (expected = Some ''UTC'' \<and> actual = Some ''+00:00'') \<or>
     (expected = Some ''+00:00'' \<and> actual = Some ''UTC'')"

text \<open>\<open>f64::is_finite\<close> on the bits of the float: the exponent is not all ones.\<close>

definition is_finite :: "64 word \<Rightarrow> bool" where
  "is_finite v \<longleftrightarrow> (unat v div 2 ^ 52) mod 2048 \<noteq> 2047"

definition literal :: "pushdown_libs \<Rightarrow> expr \<Rightarrow> data_type \<Rightarrow> string option" where
  "literal libs expression expected =
     (case expression of
        LiteralExpr value \<Rightarrow>
          (case expected of
             BooleanType \<Rightarrow>
               (case value of BooleanValue (Some v) \<Rightarrow> Some (if v then ''TRUE'' else ''FALSE'') | _ \<Rightarrow> None)
           | Int64Type \<Rightarrow> integer_literal value
           | Float64Type \<Rightarrow>
               (case value of Float64Value (Some v) \<Rightarrow> if is_finite v then Some (pl_float libs v) else None | _ \<Rightarrow> None)
           | Utf8Type \<Rightarrow>
               (case value of
                  Utf8Value (Some v) \<Rightarrow> string_literal v | Utf8ViewValue (Some v) \<Rightarrow> string_literal v
                | LargeUtf8Value (Some v) \<Rightarrow> string_literal v | _ \<Rightarrow> None)
           | BinaryType \<Rightarrow>
               (case value of
                  BinaryValue (Some v) \<Rightarrow> Some (binary_literal v) | BinaryViewValue (Some v) \<Rightarrow> Some (binary_literal v)
                | LargeBinaryValue (Some v) \<Rightarrow> Some (binary_literal v) | _ \<Rightarrow> None)
           | Date32Type \<Rightarrow>
               (case value of
                  Date32Value (Some days) \<Rightarrow> map_option (quoted_text ''DATE'') (pl_date libs days) | _ \<Rightarrow> None)
           | Time64Type Microsecond \<Rightarrow>
               (case value of Time64MicrosecondValue (Some v) \<Rightarrow> time_literal libs v | _ \<Rightarrow> None)
           | TimestampType Microsecond timezone \<Rightarrow>
               (case value of
                  TimestampMicrosecondValue (Some v) literal_timezone \<Rightarrow>
                    if equivalent_timezone timezone literal_timezone then timestamp_literal libs v 1000 timezone else None
                | _ \<Rightarrow> None)
           | TimestampType Nanosecond timezone \<Rightarrow>
               (case value of
                  TimestampNanosecondValue (Some v) literal_timezone \<Rightarrow>
                    if equivalent_timezone timezone literal_timezone then timestamp_literal libs v 1 timezone else None
                | _ \<Rightarrow> None)
           | Decimal128Type precision scale \<Rightarrow>
               (case value of
                  Decimal128Value (Some v) literal_precision literal_scale \<Rightarrow>
                    if precision = literal_precision \<and> scale = literal_scale
                    then map_option (quoted_text ''NUMERIC'') (scaled_decimal_string (show_int v) scale) else None
                | _ \<Rightarrow> None)
           | Decimal256Type precision scale \<Rightarrow>
               (case value of
                  Decimal256Value (Some v) literal_precision literal_scale \<Rightarrow>
                    if precision = literal_precision \<and> scale = literal_scale
                    then map_option (quoted_text ''BIGNUMERIC'') (scaled_decimal_string (show_int v) scale) else None
                | _ \<Rightarrow> None)
           | _ \<Rightarrow> None)
      | _ \<Rightarrow> None)"

section \<open>Leaves\<close>

definition comparison_symbol :: "operator \<Rightarrow> string option" where
  "comparison_symbol operator =
     (case operator of
        EqOp \<Rightarrow> Some ''='' | NotEqOp \<Rightarrow> Some ''!='' | LtOp \<Rightarrow> Some ''<'' | LtEqOp \<Rightarrow> Some ''<=''
      | GtOp \<Rightarrow> Some ''>'' | GtEqOp \<Rightarrow> Some ''>='' | _ \<Rightarrow> None)"

definition reverse_comparison :: "operator \<Rightarrow> operator option" where
  "reverse_comparison operator =
     (case operator of
        EqOp \<Rightarrow> Some EqOp | NotEqOp \<Rightarrow> Some NotEqOp | LtOp \<Rightarrow> Some GtOp | LtEqOp \<Rightarrow> Some GtEqOp
      | GtOp \<Rightarrow> Some LtOp | GtEqOp \<Rightarrow> Some LtEqOp | _ \<Rightarrow> None)"

definition translate_comparison ::
  "pushdown_libs \<Rightarrow> schema_field list \<Rightarrow> expr \<Rightarrow> operator \<Rightarrow> expr \<Rightarrow> string option" where
  "translate_comparison libs schema left operator right =
     (case comparison_symbol operator of
        None \<Rightarrow> None
      | Some symbol \<Rightarrow>
          (case resolve_column schema left of
             Some column \<Rightarrow>
               map_option (\<lambda>l. rc_sql column @ '' '' @ symbol @ '' '' @ l) (literal libs right (rc_type column))
           | None \<Rightarrow>
               (case resolve_column schema right of
                  None \<Rightarrow> None
                | Some column \<Rightarrow>
                    (case reverse_comparison operator of
                       None \<Rightarrow> None
                     | Some reversed \<Rightarrow>
                         (case comparison_symbol reversed of
                            None \<Rightarrow> None
                          | Some symbol \<Rightarrow>
                              map_option (\<lambda>l. rc_sql column @ '' '' @ symbol @ '' '' @ l)
                                (literal libs left (rc_type column)))))))"

fun collect_options :: "'a option list \<Rightarrow> 'a list option" where
  "collect_options [] = Some []"
| "collect_options (None # xs) = None"
| "collect_options (Some x # xs) = map_option ((#) x) (collect_options xs)"

definition translate_leaf :: "pushdown_libs \<Rightarrow> schema_field list \<Rightarrow> expr \<Rightarrow> string option" where
  "translate_leaf libs schema expression =
     (case expression of
        BinaryExpr left operator right \<Rightarrow> translate_comparison libs schema left operator right
      | IsNullExpr child \<Rightarrow> map_option (\<lambda>c. rc_sql c @ '' IS NULL'') (resolve_column schema child)
      | IsNotNullExpr child \<Rightarrow> map_option (\<lambda>c. rc_sql c @ '' IS NOT NULL'') (resolve_column schema child)
      | InListExpr child values negated \<Rightarrow>
          if values = [] then None
          else (case resolve_column schema child of
                  None \<Rightarrow> None
                | Some column \<Rightarrow>
                    map_option (\<lambda>ls. rc_sql column @ (if negated then '' NOT'' else []) @ '' IN ('' @ join_with '', '' ls @ '')'')
                      (collect_options (map (\<lambda>v. literal libs v (rc_type column)) values)))
      | BetweenExpr child negated low high \<Rightarrow>
          (case resolve_column schema child of
             None \<Rightarrow> None
           | Some column \<Rightarrow>
               (case literal libs low (rc_type column) of
                  None \<Rightarrow> None
                | Some l \<Rightarrow>
                    map_option (\<lambda>h. rc_sql column @ (if negated then '' NOT'' else []) @ '' BETWEEN '' @ l @ '' AND '' @ h)
                      (literal libs high (rc_type column))))
      | _ \<Rightarrow> None)"

section \<open>The work list\<close>

datatype translation = Expression expr | Text string

text \<open>A boolean node pops itself and pushes at most four entries of smaller weight.\<close>

fun translation_weight :: "translation \<Rightarrow> nat" where
  "translation_weight (Text t) = 1"
| "translation_weight (Expression e) = 4 * size e + 1"

text \<open>The pending translations, the next one to pop first.\<close>

function translate_loop ::
  "pushdown_libs \<Rightarrow> schema_field list \<Rightarrow> translation list \<Rightarrow> string \<Rightarrow> string option" where
  "translate_loop libs schema [] sql = Some sql"
| "translate_loop libs schema (Text text # pending) sql = translate_loop libs schema pending (sql @ text)"
| "translate_loop libs schema (Expression expression # pending) sql =
     (case expression of
        BinaryExpr left AndOp right \<Rightarrow>
          translate_loop libs schema
            (Expression left # Text '' AND '' # Expression right # Text '')'' # pending) (sql @ ''('')
      | BinaryExpr left OrOp right \<Rightarrow>
          translate_loop libs schema
            (Expression left # Text '' OR '' # Expression right # Text '')'' # pending) (sql @ ''('')
      | NotExpr child \<Rightarrow> translate_loop libs schema (Expression child # Text '')'' # pending) (sql @ ''(NOT '')
      | _ \<Rightarrow>
          (case translate_leaf libs schema expression of
             None \<Rightarrow> None
           | Some leaf \<Rightarrow> translate_loop libs schema pending (sql @ leaf)))"
  by pat_completeness auto

termination
  by (relation "measure (\<lambda>(libs, schema, pending, sql). sum_list (map translation_weight pending))") auto

definition translate :: "pushdown_libs \<Rightarrow> schema_field list \<Rightarrow> expr \<Rightarrow> string option" where
  "translate libs schema expression = translate_loop libs schema [Expression expression] []"

datatype pushdown_support = Exact | Unsupported

definition support :: "pushdown_libs \<Rightarrow> schema_field list \<Rightarrow> expr \<Rightarrow> pushdown_support" where
  "support libs schema expression = (if translate libs schema expression \<noteq> None then Exact else Unsupported)"

definition row_restriction ::
  "pushdown_libs \<Rightarrow> schema_field list \<Rightarrow> expr list \<Rightarrow> string option \<Rightarrow> string option" where
  "row_restriction libs schema filters explicit =
     (let restrictions = map (\<lambda>f. ''('' @ f @ '')'') (List.map_filter (translate libs schema) filters);
          restrictions = restrictions @
            (case explicit of None \<Rightarrow> [] | Some e \<Rightarrow> if e = [] then [] else [''('' @ e @ '')'']) in
      if restrictions = [] then None else Some (join_with '' AND '' restrictions))"

end
