(* ===== verification/Pushdown_Grammar.thy ===== *)
theory Pushdown_Grammar
  imports Pushdown_Text
begin

text \<open>
  The grammar of row restrictions, as far as \<open>bigquery/pushdown.rs\<close> writes them: conjunctions,
  disjunctions and negations are parenthesised, a leaf compares a path with literals. The parser is the
  reference of what the service reads; printing a restriction and parsing it gives it back.
\<close>

section \<open>The grammar\<close>

datatype literal_token = LWord string | LString string | LTyped string string

datatype restriction =
    RAnd restriction restriction
  | ROr restriction restriction
  | RNot restriction
  | RCompare "string list" string literal_token
  | RNull "string list" bool
  | RIn "string list" bool "literal_token list"
  | RBetween "string list" bool literal_token literal_token

fun lit_tokens :: "literal_token \<Rightarrow> token list" where
  "lit_tokens (LWord w) = [TWord w]"
| "lit_tokens (LString s) = [TString s]"
| "lit_tokens (LTyped k s) = [TWord k, TString s]"

fun path_tokens :: "string list \<Rightarrow> token list" where
  "path_tokens [] = []"
| "path_tokens [p] = [TIdent p]"
| "path_tokens (p # q # ps) = TIdent p # TWord ''.'' # path_tokens (q # ps)"

fun list_tokens :: "literal_token list \<Rightarrow> token list" where
  "list_tokens [] = []"
| "list_tokens [l] = lit_tokens l @ [TPunct CHR '')'']"
| "list_tokens (l # m # ls) = lit_tokens l @ TPunct CHR '','' # list_tokens (m # ls)"

definition not_tokens :: "bool \<Rightarrow> token list" where
  "not_tokens negated = (if negated then [TWord ''NOT''] else [])"

fun tokens_of :: "restriction \<Rightarrow> token list" where
  "tokens_of (RAnd a b) = TPunct CHR ''('' # tokens_of a @ TWord ''AND'' # tokens_of b @ [TPunct CHR '')'']"
| "tokens_of (ROr a b) = TPunct CHR ''('' # tokens_of a @ TWord ''OR'' # tokens_of b @ [TPunct CHR '')'']"
| "tokens_of (RNot a) = TPunct CHR ''('' # TWord ''NOT'' # tokens_of a @ [TPunct CHR '')'']"
| "tokens_of (RCompare p symbol l) = path_tokens p @ TOp symbol # lit_tokens l"
| "tokens_of (RNull p positive) = path_tokens p @ TWord ''IS'' # not_tokens (\<not> positive) @ [TWord ''NULL'']"
| "tokens_of (RIn p negated ls) =
     path_tokens p @ not_tokens negated @ TWord ''IN'' # TPunct CHR ''('' # list_tokens ls"
| "tokens_of (RBetween p negated l h) =
     path_tokens p @ not_tokens negated @ TWord ''BETWEEN'' # lit_tokens l @ TWord ''AND'' # lit_tokens h"

subsection \<open>The parser\<close>

fun parse_path :: "token list \<Rightarrow> (string list \<times> token list) option" where
  "parse_path (TIdent a # TWord w # ts) =
     (if w = ''.'' then map_option (\<lambda>(p, r). (a # p, r)) (parse_path ts) else Some ([a], TWord w # ts))"
| "parse_path (TIdent a # ts) = Some ([a], ts)"
| "parse_path ts = None"

fun parse_literal :: "token list \<Rightarrow> (literal_token \<times> token list) option" where
  "parse_literal (TString s # ts) = Some (LString s, ts)"
| "parse_literal (TWord k # TString s # ts) = Some (LTyped k s, ts)"
| "parse_literal (TWord w # ts) = Some (LWord w, ts)"
| "parse_literal ts = None"

fun parse_literals :: "nat \<Rightarrow> token list \<Rightarrow> (literal_token list \<times> token list) option" where
  "parse_literals 0 ts = None"
| "parse_literals (Suc n) ts =
     (case parse_literal ts of
        Some (l, TPunct c # ts) \<Rightarrow>
          if c = CHR '','' then map_option (\<lambda>(ls, r). (l # ls, r)) (parse_literals n ts)
          else if c = CHR '')'' then Some ([l], ts) else None
      | _ \<Rightarrow> None)"

definition parse_range :: "string list \<Rightarrow> bool \<Rightarrow> token list \<Rightarrow> (restriction \<times> token list) option" where
  "parse_range p negated ts =
     (case ts of
        TWord w # ts \<Rightarrow>
          if w = ''IN'' then
            (case ts of
               TPunct c # ts \<Rightarrow>
                 if c = CHR ''('' then map_option (\<lambda>(ls, r). (RIn p negated ls, r)) (parse_literals (length ts) ts) else None
             | _ \<Rightarrow> None)
          else if w = ''BETWEEN'' then
            (case parse_literal ts of
               Some (l, TWord a # ts) \<Rightarrow>
                 if a = ''AND'' then map_option (\<lambda>(h, r). (RBetween p negated l h, r)) (parse_literal ts) else None
             | _ \<Rightarrow> None)
          else None
      | _ \<Rightarrow> None)"

definition parse_leaf :: "token list \<Rightarrow> (restriction \<times> token list) option" where
  "parse_leaf ts =
     (case parse_path ts of
        None \<Rightarrow> None
      | Some (p, TOp symbol # ts) \<Rightarrow> map_option (\<lambda>(l, r). (RCompare p symbol l, r)) (parse_literal ts)
      | Some (p, TWord w # ts) \<Rightarrow>
          if w = ''IS'' then
            (case ts of
               TWord v # ts \<Rightarrow>
                 if v = ''NULL'' then Some (RNull p True, ts)
                 else if v = ''NOT'' then
                   (case ts of TWord u # ts \<Rightarrow> if u = ''NULL'' then Some (RNull p False, ts) else None | _ \<Rightarrow> None)
                 else None
             | _ \<Rightarrow> None)
          else if w = ''NOT'' then parse_range p True ts
          else parse_range p False (TWord w # ts)
      | _ \<Rightarrow> None)"

text \<open>One unit of fuel for every level of parentheses.\<close>

fun parse_restriction :: "nat \<Rightarrow> token list \<Rightarrow> (restriction \<times> token list) option" where
  "parse_restriction 0 ts = None"
| "parse_restriction (Suc n) ts =
     (case ts of
        TPunct c # ts \<Rightarrow>
          if c \<noteq> CHR ''('' then None
          else (case ts of
              TWord w # ts2 \<Rightarrow>
                if w = ''NOT'' then
                  (case parse_restriction n ts2 of
                     Some (a, TPunct d # r) \<Rightarrow> if d = CHR '')'' then Some (RNot a, r) else None
                   | _ \<Rightarrow> None)
                else None
            | _ \<Rightarrow>
                (case parse_restriction n ts of
                   Some (a, TPunct d # r) \<Rightarrow> if d = CHR '')'' then Some (a, r) else None
                 | Some (a, TWord w # ts) \<Rightarrow>
                     (case parse_restriction n ts of
                        Some (b, TPunct d # r) \<Rightarrow>
                          if d \<noteq> CHR '')'' then None
                          else if w = ''AND'' then Some (RAnd a b, r)
                          else if w = ''OR'' then Some (ROr a b, r) else None
                      | _ \<Rightarrow> None)
                 | _ \<Rightarrow> None))
      | _ \<Rightarrow> parse_leaf ts)"

definition read_restriction :: "string \<Rightarrow> restriction option" where
  "read_restriction text =
     (case sql_lex text of
        None \<Rightarrow> None
      | Some ts \<Rightarrow> (case parse_restriction (length ts) ts of Some (r, []) \<Rightarrow> Some r | _ \<Rightarrow> None))"

subsection \<open>Printing and parsing\<close>

definition not_string :: "token list \<Rightarrow> bool" where
  "not_string ts \<longleftrightarrow> (case ts of TString _ # _ \<Rightarrow> False | _ \<Rightarrow> True)"

lemma not_string_simps [simp]:
  "not_string []" "not_string (TWord w # ts)" "not_string (TPunct c # ts)" "\<not> not_string (TString s # ts)"
  by (simp_all add: not_string_def)

lemma parse_literal_tokens: "not_string rest \<Longrightarrow> parse_literal (lit_tokens l @ rest) = Some (l, rest)"
  by (cases l; cases rest rule: list.exhaust; cases "hd rest") (auto simp: not_string_def)

definition after_path :: "token list \<Rightarrow> bool" where
  "after_path ts \<longleftrightarrow> (case ts of TWord w # _ \<Rightarrow> w \<noteq> ''.'' | _ \<Rightarrow> True)"

lemma parse_path_tokens: "p \<noteq> [] \<Longrightarrow> after_path rest \<Longrightarrow> parse_path (path_tokens p @ rest) = Some (p, rest)"
proof (induction p rule: path_tokens.induct)
  case (2 p)
  then show ?case by (cases rest; cases "hd rest") (auto simp: after_path_def)
qed simp_all

lemma lit_tokens_nonempty: "0 < length (lit_tokens l)"
  by (cases l) simp_all

lemma parse_literals_tokens:
  "ls \<noteq> [] \<Longrightarrow> length ls \<le> n \<Longrightarrow> parse_literals n (list_tokens ls @ rest) = Some (ls, rest)"
proof (induction ls arbitrary: n rule: list_tokens.induct)
  case (2 l)
  then show ?case by (cases n) (simp_all add: parse_literal_tokens)
next
  case (3 l m ls)
  then show ?case by (cases n) (simp_all add: parse_literal_tokens)
qed simp

lemma list_tokens_length: "length ls \<le> length (list_tokens ls)"
proof (induction ls rule: list_tokens.induct)
  case (3 l m ls)
  then show ?case using lit_tokens_nonempty [of l] by simp
qed simp_all

fun restriction_ok :: "restriction \<Rightarrow> bool" where
  "restriction_ok (RAnd a b) \<longleftrightarrow> restriction_ok a \<and> restriction_ok b"
| "restriction_ok (ROr a b) \<longleftrightarrow> restriction_ok a \<and> restriction_ok b"
| "restriction_ok (RNot a) \<longleftrightarrow> restriction_ok a"
| "restriction_ok (RCompare p symbol l) \<longleftrightarrow> p \<noteq> []"
| "restriction_ok (RNull p positive) \<longleftrightarrow> p \<noteq> []"
| "restriction_ok (RIn p negated ls) \<longleftrightarrow> p \<noteq> [] \<and> ls \<noteq> []"
| "restriction_ok (RBetween p negated l h) \<longleftrightarrow> p \<noteq> []"

fun levels :: "restriction \<Rightarrow> nat" where
  "levels (RAnd a b) = Suc (max (levels a) (levels b))"
| "levels (ROr a b) = Suc (max (levels a) (levels b))"
| "levels (RNot a) = Suc (levels a)"
| "levels _ = 1"


lemma levels_length: "levels r \<le> length (tokens_of r)"
proof (induction r)
  case (RCompare p symbol l)
  then show ?case by simp
qed simp_all

fun leaf_restriction :: "restriction \<Rightarrow> bool" where
  "leaf_restriction (RAnd a b) \<longleftrightarrow> False"
| "leaf_restriction (ROr a b) \<longleftrightarrow> False"
| "leaf_restriction (RNot a) \<longleftrightarrow> False"
| "leaf_restriction _ \<longleftrightarrow> True"

lemma path_starts: "p \<noteq> [] \<Longrightarrow> \<exists>i us. path_tokens p @ ts = TIdent i # us"
  by (cases p rule: path_tokens.cases) auto

lemma leaf_starts: "leaf_restriction r \<Longrightarrow> restriction_ok r \<Longrightarrow> \<exists>i ts. tokens_of r = TIdent i # ts"
  by (cases r) (auto intro: path_starts)

lemma restriction_starts:
  assumes "restriction_ok r"
  obtains (punct) ts where "tokens_of r = TPunct CHR ''('' # ts" | (ident) i ts where "tokens_of r = TIdent i # ts"
  using assms leaf_starts [of r] by (cases r) auto

lemma after_path_simps [simp]:
  "after_path (TOp s # ts)" "after_path (TWord w # ts) \<longleftrightarrow> w \<noteq> ''.''"
  by (simp_all add: after_path_def)

lemma parse_range_tokens:
  "restriction_ok (RIn p negated ls) \<Longrightarrow> not_string rest \<Longrightarrow>
     parse_range p negated (TWord ''IN'' # TPunct CHR ''('' # list_tokens ls @ rest) = Some (RIn p negated ls, rest)"
  "not_string rest \<Longrightarrow>
     parse_range p negated (TWord ''BETWEEN'' # lit_tokens l @ TWord ''AND'' # lit_tokens h @ rest) =
       Some (RBetween p negated l h, rest)"
proof -
  assume a: "restriction_ok (RIn p negated ls)"
  have le: "length ls \<le> length (list_tokens ls @ rest)" using list_tokens_length [of ls] by simp
  show "parse_range p negated (TWord ''IN'' # TPunct CHR ''('' # list_tokens ls @ rest) = Some (RIn p negated ls, rest)"
    using a parse_literals_tokens [OF _ le, of rest] by (simp add: parse_range_def)
next
  assume "not_string rest"
  then show "parse_range p negated (TWord ''BETWEEN'' # lit_tokens l @ TWord ''AND'' # lit_tokens h @ rest) =
       Some (RBetween p negated l h, rest)"
    by (simp add: parse_range_def parse_literal_tokens)
qed

lemma parse_leaf_tokens:
  assumes "leaf_restriction r" "restriction_ok r" "not_string rest"
  shows "parse_leaf (tokens_of r @ rest) = Some (r, rest)"
proof (cases r)
  case (RCompare p symbol l)
  then show ?thesis using assms by (simp add: parse_leaf_def parse_path_tokens parse_literal_tokens)
next
  case (RNull p positive)
  then show ?thesis using assms by (cases positive) (simp_all add: parse_leaf_def parse_path_tokens not_tokens_def)
next
  case (RIn p negated ls)
  then show ?thesis using assms parse_range_tokens(1) [of p negated ls rest]
    by (cases negated) (simp_all add: parse_leaf_def parse_path_tokens not_tokens_def)
next
  case (RBetween p negated l h)
  then show ?thesis using assms parse_range_tokens(2) [of rest p negated l h]
    by (cases negated) (simp_all add: parse_leaf_def parse_path_tokens not_tokens_def)
qed (use assms in simp_all)

lemma parse_restriction_leaf:
  assumes "leaf_restriction r" "restriction_ok r" "not_string rest" "0 < n"
  shows "parse_restriction n (tokens_of r @ rest) = Some (r, rest)"
proof -
  obtain m where n: "n = Suc m" using assms(4) by (cases n) auto
  obtain i ts where "tokens_of r = TIdent i # ts" using leaf_starts [OF assms(1,2)] by blast
  then show ?thesis using parse_leaf_tokens [OF assms(1-3)] by (simp add: n)
qed

lemma parse_restriction_tokens:
  assumes "restriction_ok r" "levels r \<le> n" "not_string rest"
  shows "parse_restriction n (tokens_of r @ rest) = Some (r, rest)"
  using assms
proof (induction r arbitrary: n rest)
  case (RAnd a b)
  obtain m where n: "n = Suc m" "levels a \<le> m" "levels b \<le> m" using RAnd.prems(2) by (cases n) auto
  have ok: "restriction_ok a" "restriction_ok b" using RAnd.prems(1) by auto
  have pa: "parse_restriction m (tokens_of a @ TWord ''AND'' # tokens_of b @ TPunct CHR '')'' # rest) =
      Some (a, TWord ''AND'' # tokens_of b @ TPunct CHR '')'' # rest)"
    using RAnd.IH(1) [OF ok(1) n(2)] by simp
  have pb: "parse_restriction m (tokens_of b @ TPunct CHR '')'' # rest) = Some (b, TPunct CHR '')'' # rest)"
    using RAnd.IH(2) [OF ok(2) n(3)] by simp
  show ?case by (rule restriction_starts [OF ok(1)]) (use pa pb n(1) in simp_all)
next
  case (ROr a b)
  obtain m where n: "n = Suc m" "levels a \<le> m" "levels b \<le> m" using ROr.prems(2) by (cases n) auto
  have ok: "restriction_ok a" "restriction_ok b" using ROr.prems(1) by auto
  have pa: "parse_restriction m (tokens_of a @ TWord ''OR'' # tokens_of b @ TPunct CHR '')'' # rest) =
      Some (a, TWord ''OR'' # tokens_of b @ TPunct CHR '')'' # rest)"
    using ROr.IH(1) [OF ok(1) n(2)] by simp
  have pb: "parse_restriction m (tokens_of b @ TPunct CHR '')'' # rest) = Some (b, TPunct CHR '')'' # rest)"
    using ROr.IH(2) [OF ok(2) n(3)] by simp
  show ?case by (rule restriction_starts [OF ok(1)]) (use pa pb n(1) in simp_all)
next
  case (RNot a)
  obtain m where n: "n = Suc m" "levels a \<le> m" using RNot.prems(2) by (cases n) auto
  have "restriction_ok a" using RNot.prems(1) by simp
  then show ?case using RNot.IH [of m "TPunct CHR '')'' # rest"] n by simp
qed (rule parse_restriction_leaf; simp)+

lemma read_restriction_tokens:
  assumes "sql_lex text = Some (tokens_of r)" "restriction_ok r"
  shows "read_restriction text = Some r"
  using parse_restriction_tokens [OF assms(2) levels_length, of "[]"] assms(1) by (simp add: read_restriction_def)

end
