(* ===== verification/Pushdown_Leaves.thy ===== *)
theory Pushdown_Leaves
  imports Pushdown Pushdown_Grammar
begin

text \<open>
  A pushed-down filter means what the filter means (\<open>bigquery/pushdown.rs\<close>): the text of \<open>translate\<close> is
  read by the service as a restriction that has the truth value of the engine's filter in every row, in
  three-valued logic. The engine does not check a filter again that was pushed down as exact, so this is
  what makes the answer of a query right.
\<close>

section \<open>The work list is a recursion\<close>

fun filter_text :: "pushdown_libs \<Rightarrow> schema_field list \<Rightarrow> expr \<Rightarrow> string option" where
  "filter_text libs schema (BinaryExpr left operator right) =
     (if operator = AndOp \<or> operator = OrOp then
        (case filter_text libs schema left of
           None \<Rightarrow> None
         | Some l \<Rightarrow>
             map_option (\<lambda>r. ''('' @ l @ (if operator = AndOp then '' AND '' else '' OR '') @ r @ '')'')
               (filter_text libs schema right))
      else translate_leaf libs schema (BinaryExpr left operator right))"
| "filter_text libs schema (NotExpr child) =
     map_option (\<lambda>c. ''(NOT '' @ c @ '')'') (filter_text libs schema child)"
| "filter_text libs schema expression = translate_leaf libs schema expression"

fun pending_text :: "pushdown_libs \<Rightarrow> schema_field list \<Rightarrow> translation \<Rightarrow> string option" where
  "pending_text libs schema (Text t) = Some t"
| "pending_text libs schema (Expression e) = filter_text libs schema e"

lemma collect_options_Cons:
  "collect_options (x # xs) =
     (case x of None \<Rightarrow> None | Some y \<Rightarrow> map_option ((#) y) (collect_options xs))"
  by (cases x) simp_all

lemma translate_loop_recursion:
  "translate_loop libs schema pending sql =
     map_option (\<lambda>ts. sql @ concat ts) (collect_options (map (pending_text libs schema) pending))"
proof (induction libs schema pending sql rule: translate_loop.induct)
  case (3 libs schema expression pending sql)
  show ?case
  proof (cases expression)
    case (BinaryExpr left operator right)
    then show ?thesis using 3
      by (cases operator) (auto simp: collect_options_Cons option.map_comp comp_def split: option.splits)
  next
    case (NotExpr child)
    then show ?thesis using 3 by (auto simp: collect_options_Cons option.map_comp comp_def split: option.splits)
  qed (use 3 in \<open>auto simp: collect_options_Cons option.map_comp comp_def split: option.splits\<close>)
qed (auto simp: collect_options_Cons option.map_comp comp_def)

lemma translate_filter_text: "translate libs schema expression = filter_text libs schema expression"
  by (auto simp: translate_def translate_loop_recursion collect_options_Cons split: option.splits)

text \<open>
  The translation of a filter, which the code does with an explicit work list so that deep
  filters cannot overflow the stack, is the direct recursion over the filter: it always returns, it is
  refused exactly when some leaf is, and the text is that of the recursion.
\<close>

theorem translate_is_the_recursion: "translate libs schema expression = filter_text libs schema expression"
  by (rule translate_filter_text)

section \<open>The column a name means\<close>

text \<open>The field at a path: a top-level column, then members of structs.\<close>

fun field_at :: "schema_field list \<Rightarrow> string list \<Rightarrow> schema_field option" where
  "field_at members [] = None"
| "field_at members [name] = field_named members name"
| "field_at members (name # next # path) =
     (case field_named members name of
        None \<Rightarrow> None
      | Some field \<Rightarrow> (case field_type field of StructType inner \<Rightarrow> field_at inner (next # path) | _ \<Rightarrow> None))"

definition readable_path :: "schema_field list \<Rightarrow> string list \<Rightarrow> bool" where
  "readable_path schema path \<longleftrightarrow> (case field_at schema path of None \<Rightarrow> False | Some field \<Rightarrow> supported_field field)"

text \<open>A whole name wins over its reading as a dotted path; a bare table name may be the name of a struct.\<close>

definition name_reading :: "schema_field list \<Rightarrow> string \<Rightarrow> string list" where
  "name_reading schema name = (if field_named schema name \<noteq> None then [name] else split_on CHR ''.'' name)"

definition column_path :: "schema_field list \<Rightarrow> expr \<Rightarrow> string list option" where
  "column_path schema expression =
     (case expression of
        ColumnExpr relation name \<Rightarrow>
          find (readable_path schema)
            (if field_named schema name \<noteq> None then [[name]]
             else (case relation of Some (BareTable table) \<Rightarrow> [name_reading schema (table @ ''.'' @ name)] | _ \<Rightarrow> [])
               @ [name_reading schema name])
      | _ \<Rightarrow> None)"

definition path_type :: "schema_field list \<Rightarrow> string list \<Rightarrow> data_type" where
  "path_type schema path = (case field_at schema path of Some field \<Rightarrow> field_type field | None \<Rightarrow> OtherType [])"

definition path_text :: "string list \<Rightarrow> string" where
  "path_text path = join_with ''.'' (map quote_identifier path)"

definition path_column :: "schema_field list \<Rightarrow> string list \<Rightarrow> resolved_column" where
  "path_column schema path = \<lparr>rc_sql = path_text path, rc_type = path_type schema path\<rparr>"

lemma resolve_parts_field_at:
  "resolve_parts field quoted parts =
     (if parts = [] then Some (field, quoted)
      else case field_type field of
          StructType inner \<Rightarrow> map_option (\<lambda>f. (f, quoted @ map quote_identifier parts)) (field_at inner parts)
        | _ \<Rightarrow> None)"
proof (induction field quoted parts rule: resolve_parts.induct)
  case (2 field quoted part parts)
  then show ?case by (cases parts) (auto split: data_type.splits option.splits)
qed simp

lemma resolve_column_path_reading:
  "resolve_column_path schema name =
     (if readable_path schema (name_reading schema name) then Some (path_column schema (name_reading schema name)) else None)"
proof (cases "field_named schema name")
  case (Some field)
  then show ?thesis
    by (simp add: resolve_column_path_def name_reading_def readable_path_def path_column_def path_text_def path_type_def)
next
  case None
  obtain first parts where s: "split_on CHR ''.'' name = first # parts" by (cases "split_on CHR ''.'' name") auto
  show ?thesis
    using None
    by (cases parts) (auto simp: resolve_column_path_def name_reading_def readable_path_def path_column_def path_text_def
        path_type_def s resolve_parts_field_at split: option.splits data_type.splits)
qed

lemma resolve_column_reading: "resolve_column schema e = map_option (path_column schema) (column_path schema e)"
proof (cases e)
  case (ColumnExpr relation name)
  show ?thesis
  proof (cases "field_named schema name")
    case None
    show ?thesis
    proof (cases relation)
      case (Some table)
      then show ?thesis using None ColumnExpr
        by (cases table) (simp_all add: resolve_column_def column_path_def resolve_column_path_reading)
    qed (use None ColumnExpr in \<open>simp add: resolve_column_def column_path_def resolve_column_path_reading\<close>)
  next
    case (Some field)
    then show ?thesis using ColumnExpr
      by (simp add: resolve_column_def column_path_def readable_path_def path_column_def path_text_def path_type_def)
  qed
qed (simp_all add: resolve_column_def column_path_def)

lemma column_path_Some:
  "column_path schema e = Some path \<Longrightarrow> path \<noteq> [] \<and> readable_path schema path"
  by (auto simp: column_path_def readable_path_def find_Some_iff name_reading_def split: expr.splits if_splits option.splits)

section \<open>Values and comparisons\<close>

text \<open>
  The values of rows and literals, on both sides. A decimal is a numerator and a number of decimal
  places, a time the microseconds of the day, a timestamp its nanoseconds after the epoch and whether it
  is an instant or a civil time.
\<close>

datatype sql_value =
    VBool bool | VInt int | VFloat "64 word" | VText string | VBytes string | VDate int | VTime int
  | VTimestamp int bool | VDecimal "int \<times> nat"

type_synonym row = "string list \<Rightarrow> sql_value option"

record comparisons =
  cmp_equal :: "sql_value \<Rightarrow> sql_value \<Rightarrow> bool"
  cmp_less :: "sql_value \<Rightarrow> sql_value \<Rightarrow> bool"

text \<open>
  Engine and service need not agree on floats that are not a number or a negative zero: the engine orders
  them by the total order of IEEE 754, the service compares them as numbers.
\<close>

definition ordinary :: "sql_value \<Rightarrow> bool" where
  "ordinary v = (case v of VFloat w \<Rightarrow> is_finite w \<and> w \<noteq> 0x8000000000000000 | _ \<Rightarrow> True)"

definition ordinary_row :: "row \<Rightarrow> bool" where
  "ordinary_row row \<longleftrightarrow> (\<forall>path v. row path = Some v \<longrightarrow> ordinary v)"

definition agree :: "comparisons \<Rightarrow> comparisons \<Rightarrow> bool" where
  "agree c d \<longleftrightarrow>
     (\<forall>v w. ordinary v \<and> ordinary w \<longrightarrow>
        cmp_equal c v w = cmp_equal c w v \<and> cmp_equal c v w = cmp_equal d v w \<and> cmp_less c v w = cmp_less d v w)"

text \<open>Three-valued logic, \<open>None\<close> the unknown.\<close>

definition not3 :: "bool option \<Rightarrow> bool option" where
  "not3 a = map_option Not a"

definition and3 :: "bool option \<Rightarrow> bool option \<Rightarrow> bool option" where
  "and3 a b = (if a = Some False \<or> b = Some False then Some False else if a = None \<or> b = None then None else Some True)"

definition or3 :: "bool option \<Rightarrow> bool option \<Rightarrow> bool option" where
  "or3 a b = (if a = Some True \<or> b = Some True then Some True else if a = None \<or> b = None then None else Some False)"

definition negate3 :: "bool \<Rightarrow> bool option \<Rightarrow> bool option" where
  "negate3 negated a = (if negated then not3 a else a)"

definition compare_by :: "(sql_value \<Rightarrow> sql_value \<Rightarrow> bool) \<Rightarrow> sql_value option \<Rightarrow> sql_value option \<Rightarrow> bool option" where
  "compare_by f a b = (case (a, b) of (Some v, Some w) \<Rightarrow> Some (f v w) | _ \<Rightarrow> None)"

definition in3 :: "comparisons \<Rightarrow> sql_value option \<Rightarrow> sql_value option list \<Rightarrow> bool option" where
  "in3 c a bs = foldr or3 (map (compare_by (cmp_equal c) a) bs) (Some False)"

definition at_most :: "comparisons \<Rightarrow> sql_value \<Rightarrow> sql_value \<Rightarrow> bool" where
  "at_most c v w \<longleftrightarrow> cmp_less c v w \<or> cmp_equal c v w"

definition between3 :: "comparisons \<Rightarrow> sql_value option \<Rightarrow> sql_value option \<Rightarrow> sql_value option \<Rightarrow> bool option" where
  "between3 c a low high = and3 (compare_by (at_most c) low a) (compare_by (at_most c) a high)"

definition operator_meaning :: "comparisons \<Rightarrow> operator \<Rightarrow> (sql_value \<Rightarrow> sql_value \<Rightarrow> bool) option" where
  "operator_meaning c operator =
     (case operator of
        EqOp \<Rightarrow> Some (cmp_equal c) | NotEqOp \<Rightarrow> Some (\<lambda>v w. \<not> cmp_equal c v w)
      | LtOp \<Rightarrow> Some (cmp_less c) | LtEqOp \<Rightarrow> Some (at_most c)
      | GtOp \<Rightarrow> Some (\<lambda>v w. cmp_less c w v) | GtEqOp \<Rightarrow> Some (\<lambda>v w. at_most c w v) | _ \<Rightarrow> None)"

definition symbol_meaning :: "comparisons \<Rightarrow> string \<Rightarrow> (sql_value \<Rightarrow> sql_value \<Rightarrow> bool) option" where
  "symbol_meaning c symbol =
     (if symbol = ''='' then Some (cmp_equal c) else if symbol = ''!='' then Some (\<lambda>v w. \<not> cmp_equal c v w)
      else if symbol = ''<'' then Some (cmp_less c) else if symbol = ''<='' then Some (at_most c)
      else if symbol = ''>'' then Some (\<lambda>v w. cmp_less c w v)
      else if symbol = ''>='' then Some (\<lambda>v w. at_most c w v) else None)"

definition compare3 ::
  "(sql_value \<Rightarrow> sql_value \<Rightarrow> bool) option \<Rightarrow> sql_value option \<Rightarrow> sql_value option \<Rightarrow> bool option" where
  "compare3 meaning a b = (case meaning of None \<Rightarrow> None | Some f \<Rightarrow> compare_by f a b)"

section \<open>What the engine means\<close>

fun scalar_meaning :: "scalar_value \<Rightarrow> sql_value option" where
  "scalar_meaning (BooleanValue v) = map_option VBool v"
| "scalar_meaning (Int8Value v) = map_option VInt v"
| "scalar_meaning (Int16Value v) = map_option VInt v"
| "scalar_meaning (Int32Value v) = map_option VInt v"
| "scalar_meaning (Int64Value v) = map_option VInt v"
| "scalar_meaning (UInt8Value v) = map_option (VInt \<circ> int) v"
| "scalar_meaning (UInt16Value v) = map_option (VInt \<circ> int) v"
| "scalar_meaning (UInt32Value v) = map_option (VInt \<circ> int) v"
| "scalar_meaning (UInt64Value v) = map_option (VInt \<circ> int) v"
| "scalar_meaning (Float64Value v) = map_option VFloat v"
| "scalar_meaning (Utf8Value v) = map_option VText v"
| "scalar_meaning (Utf8ViewValue v) = map_option VText v"
| "scalar_meaning (LargeUtf8Value v) = map_option VText v"
| "scalar_meaning (BinaryValue v) = map_option VBytes v"
| "scalar_meaning (BinaryViewValue v) = map_option VBytes v"
| "scalar_meaning (LargeBinaryValue v) = map_option VBytes v"
| "scalar_meaning (Date32Value v) = map_option VDate v"
| "scalar_meaning (Time64MicrosecondValue v) = map_option VTime v"
| "scalar_meaning (TimestampMicrosecondValue v zone) = map_option (\<lambda>t. VTimestamp (t * 1000) (zone \<noteq> None)) v"
| "scalar_meaning (TimestampNanosecondValue v zone) = map_option (\<lambda>t. VTimestamp t (zone \<noteq> None)) v"
| "scalar_meaning (Decimal128Value v precision scale) = map_option (\<lambda>i. VDecimal (i, nat scale)) v"
| "scalar_meaning (Decimal256Value v precision scale) = map_option (\<lambda>i. VDecimal (i, nat scale)) v"
| "scalar_meaning (OtherValue t) = None"

fun operand :: "schema_field list \<Rightarrow> row \<Rightarrow> expr \<Rightarrow> sql_value option" where
  "operand schema row (LiteralExpr value) = scalar_meaning value"
| "operand schema row expression = Option.bind (column_path schema expression) row"

fun filter_meaning :: "comparisons \<Rightarrow> schema_field list \<Rightarrow> row \<Rightarrow> expr \<Rightarrow> bool option" where
  "filter_meaning c schema row (BinaryExpr left operator right) =
     (if operator = AndOp then and3 (filter_meaning c schema row left) (filter_meaning c schema row right)
      else if operator = OrOp then or3 (filter_meaning c schema row left) (filter_meaning c schema row right)
      else compare3 (operator_meaning c operator) (operand schema row left) (operand schema row right))"
| "filter_meaning c schema row (NotExpr child) = not3 (filter_meaning c schema row child)"
| "filter_meaning c schema row (IsNullExpr child) = Some (operand schema row child = None)"
| "filter_meaning c schema row (IsNotNullExpr child) = Some (operand schema row child \<noteq> None)"
| "filter_meaning c schema row (InListExpr child values negated) =
     negate3 negated (in3 c (operand schema row child) (map (operand schema row) values))"
| "filter_meaning c schema row (BetweenExpr child negated low high) =
     negate3 negated (between3 c (operand schema row child) (operand schema row low) (operand schema row high))"
| "filter_meaning c schema row expression = None"

section \<open>What the service reads\<close>

text \<open>How the service reads the texts of floats, dates, times and timestamps.\<close>

record service_readings =
  sr_float :: "string \<Rightarrow> 64 word option"
  sr_date :: "string \<Rightarrow> int option"
  sr_time :: "string \<Rightarrow> (nat \<times> nat) option"
  sr_timestamp :: "string \<Rightarrow> (int \<times> nat) option"

text \<open>The service has dates and times of the years 1 to 9999 only.\<close>

definition service_days :: "int \<Rightarrow> bool" where
  "service_days d \<longleftrightarrow> - 719162 \<le> d \<and> d \<le> 2932896"

definition service_seconds :: "int \<Rightarrow> bool" where
  "service_seconds s \<longleftrightarrow> - 62135596800 \<le> s \<and> s \<le> 253402300799"

definition reads_back :: "pushdown_libs \<Rightarrow> service_readings \<Rightarrow> bool" where
  "reads_back libs service \<longleftrightarrow>
     (\<forall>v. is_finite v \<longrightarrow> list_all word_char (pl_float libs v) \<and> pl_float libs v \<noteq> []) \<and>
     (\<forall>v. is_finite v \<and> v \<noteq> 0x8000000000000000 \<longrightarrow> sr_float service (pl_float libs v) = Some v) \<and>
     (\<forall>d t. pl_date libs d = Some t \<longrightarrow> plain_quoted t \<and> (service_days d \<longrightarrow> sr_date service t = Some d)) \<and>
     (\<forall>s n t. pl_time libs s n = Some t \<longrightarrow> plain_quoted t \<and> (n mod 1000 = 0 \<longrightarrow> sr_time service t = Some (s, n))) \<and>
     (\<forall>s n t. pl_timestamp libs s n = Some t \<longrightarrow>
        plain_quoted t \<and> (service_seconds s \<longrightarrow> sr_timestamp service t = Some (s, n)))"

definition instant_nanos :: "int \<times> nat \<Rightarrow> int" where
  "instant_nanos p = fst p * 1000000000 + int (snd p)"

definition without_zone :: "string \<Rightarrow> string option" where
  "without_zone t = (if drop (length t - 3) t = ''+00'' then Some (take (length t - 3) t) else None)"

fun literal_meaning :: "service_readings \<Rightarrow> data_type \<Rightarrow> literal_token \<Rightarrow> sql_value option" where
  "literal_meaning service type (LWord w) =
     (if type = BooleanType then (if w = ''TRUE'' then Some (VBool True) else if w = ''FALSE'' then Some (VBool False) else None)
      else if type = Float64Type then map_option VFloat (sr_float service w)
      else Some (VInt (fst (read_decimal w))))"
| "literal_meaning service type (LString s) = Some (VText s)"
| "literal_meaning service type (LTyped keyword s) =
     (if keyword = ''b'' then Some (VBytes s)
      else if keyword = ''DATE'' then map_option VDate (sr_date service s)
      else if keyword = ''TIME'' then map_option (\<lambda>(s, n). VTime (int s * 1000000 + int (n div 1000))) (sr_time service s)
      else if keyword = ''DATETIME'' then map_option (\<lambda>p. VTimestamp (instant_nanos p) False) (sr_timestamp service s)
      else if keyword = ''TIMESTAMP'' then
        map_option (\<lambda>p. VTimestamp (instant_nanos p) True) (Option.bind (without_zone s) (sr_timestamp service))
      else if keyword = ''NUMERIC'' \<or> keyword = ''BIGNUMERIC'' then Some (VDecimal (read_decimal s))
      else None)"

fun restriction_meaning :: "service_readings \<Rightarrow> comparisons \<Rightarrow> schema_field list \<Rightarrow> row \<Rightarrow> restriction \<Rightarrow> bool option" where
  "restriction_meaning service c schema row (RAnd a b) =
     and3 (restriction_meaning service c schema row a) (restriction_meaning service c schema row b)"
| "restriction_meaning service c schema row (ROr a b) =
     or3 (restriction_meaning service c schema row a) (restriction_meaning service c schema row b)"
| "restriction_meaning service c schema row (RNot a) = not3 (restriction_meaning service c schema row a)"
| "restriction_meaning service c schema row (RCompare path symbol l) =
     compare3 (symbol_meaning c symbol) (row path) (literal_meaning service (path_type schema path) l)"
| "restriction_meaning service c schema row (RNull path positive) =
     Some ((row path = None) = positive)"
| "restriction_meaning service c schema row (RIn path negated ls) =
     negate3 negated (in3 c (row path) (map (literal_meaning service (path_type schema path)) ls))"
| "restriction_meaning service c schema row (RBetween path negated l h) =
     negate3 negated (between3 c (row path) (literal_meaning service (path_type schema path) l)
       (literal_meaning service (path_type schema path) h))"

section \<open>Literals are read back\<close>

definition plain_literal :: "scalar_value \<Rightarrow> bool" where
  "plain_literal value \<longleftrightarrow>
     (case value of
        Float64Value (Some w) \<Rightarrow> w \<noteq> 0x8000000000000000
      | Date32Value (Some d) \<Rightarrow> service_days d
      | TimestampMicrosecondValue (Some v) _ \<Rightarrow> service_seconds (v * 1000 div 1000000000)
      | TimestampNanosecondValue (Some v) _ \<Rightarrow> service_seconds (v div 1000000000)
      | _ \<Rightarrow> True)"

definition reads_as :: "service_readings \<Rightarrow> data_type \<Rightarrow> string \<Rightarrow> scalar_value \<Rightarrow> bool" where
  "reads_as service type t value \<longleftrightarrow>
     (\<exists>tok. lexes t (lit_tokens tok) \<and>
        (plain_literal value \<longrightarrow>
           (\<exists>v. scalar_meaning value = Some v \<and> literal_meaning service type tok = Some v \<and> ordinary v)))"

lemma reads_asI:
  assumes "lexes t (lit_tokens tok)" "scalar_meaning value = Some v" "ordinary v"
    and "plain_literal value \<Longrightarrow> literal_meaning service type tok = Some v"
  shows "reads_as service type t value"
  using assms by (auto simp: reads_as_def)

lemma digit_word: "is_ascii_digit c \<Longrightarrow> word_char c"
  by (simp add: word_char_def is_ascii_alphanumeric_def)

lemma show_int_nonempty: "show_int i \<noteq> []"
  by (simp add: show_int_def)

lemma lexes_show_int: "lexes (show_int i) [TWord (show_int i)]"
proof (rule lexes_word [OF _ show_int_nonempty])
  show "list_all word_char (show_int i)"
    by (rule list.pred_mono_strong [OF show_int_digits]) (auto dest: digit_word simp: word_char_def)
qed

lemma read_show_int: "read_decimal (show_int i) = (i, 0)"
  using scaled_decimal_read [of 0 i] by (simp add: scaled_decimal_string_def)

lemma show_nat_int: "show_nat n = show_int (int n)"
  by (simp add: show_int_def)

lemma integer_literal_meaning:
  "integer_literal value = Some t \<Longrightarrow> \<exists>i. scalar_meaning value = Some (VInt i) \<and> t = show_int i"
  by (auto simp: integer_literal_def show_nat_int split: scalar_value.splits option.splits if_splits)

lemma lexes_typed:
  assumes "list_all word_char keyword" "keyword \<noteq> []" "\<And>rest. unquote CHR 0x27 (body @ CHR 0x27 # rest) = Some (v, rest)"
  shows "lexes (quoted_text keyword body) [TWord keyword, TString v]"
proof -
  have "lexes_free ('' '' @ [CHR 0x27] @ body @ [CHR 0x27]) ([] @ [TString v])"
    by (rule lexes_free_append [OF lexes_space lexes_quoted]) (rule assms(3))
  then have "lexes_free (keyword @ '' '' @ [CHR 0x27] @ body @ [CHR 0x27]) ([TWord keyword] @ [TString v])"
    using lexes_append_lexes_free [OF lexes_word [OF assms(1,2)]] breaks_space by simp
  then show ?thesis by (simp add: quoted_text_def lexes_freeI)
qed

lemma lexes_typed_plain:
  "list_all word_char keyword \<Longrightarrow> keyword \<noteq> [] \<Longrightarrow> plain_quoted body \<Longrightarrow>
     lexes (quoted_text keyword body) (lit_tokens (LTyped keyword body))"
  using lexes_typed unquote_plain by simp

lemma keyword_words:
  "list_all word_char ''DATE''" "list_all word_char ''TIME''" "list_all word_char ''DATETIME''"
  "list_all word_char ''TIMESTAMP''" "list_all word_char ''NUMERIC''" "list_all word_char ''BIGNUMERIC''"
  "list_all word_char ''TRUE''" "list_all word_char ''FALSE''" "list_all word_char ''b''"
  by (simp_all add: word_char_def ascii_defs)

lemma lexes_string_literal: "string_literal s = Some t \<Longrightarrow> lexes t (lit_tokens (LString s))"
  using lexes_quoted [OF unquote_string] by (auto simp: string_literal_def intro: lexes_freeI)

lemma lexes_binary_literal: "lexes (binary_literal s) (lit_tokens (LTyped ''b'' s))"
proof -
  let ?q = "[CHR 0x27] @ concat (map hex_byte s) @ [CHR 0x27]"
  have "lexes_free ?q [TString s]" by (rule lexes_quoted) (rule unquote_binary)
  then have "lexes_free (''b'' @ ?q) ([TWord ''b''] @ [TString s])"
    by (intro lexes_append_lexes_free lexes_word)
      (simp_all add: keyword_words breaks_def word_char_def op_char_def ascii_defs)
  then show ?thesis by (simp add: binary_literal_def lexes_freeI)
qed

lemma lexes_decimal:
  assumes "scaled_decimal_string (show_int i) scale = Some t" "keyword \<in> {''NUMERIC'', ''BIGNUMERIC''}"
  shows "lexes (quoted_text keyword t) (lit_tokens (LTyped keyword t))"
proof (rule lexes_typed_plain)
  show "plain_quoted t"
    using scaled_decimal_chars [OF assms(1)] by (auto simp: plain_quoted_def list_all_iff ascii_defs)
qed (use assms(2) keyword_words in auto)

lemma decimal_meaning:
  assumes "scaled_decimal_string (show_int i) scale = Some t"
  shows "read_decimal t = (i, nat scale)"
  using assms scaled_decimal_read [of scale i] by (auto split: if_splits)

lemma keyword_unequal:
  "''DATE'' \<noteq> ''b''" "''TIME'' \<noteq> ''b''" "''TIME'' \<noteq> ''DATE''" "''DATETIME'' \<noteq> ''b''" "''DATETIME'' \<noteq> ''DATE''"
  "''DATETIME'' \<noteq> ''TIME''" "''TIMESTAMP'' \<noteq> ''b''" "''TIMESTAMP'' \<noteq> ''DATE''" "''TIMESTAMP'' \<noteq> ''TIME''"
  "''TIMESTAMP'' \<noteq> ''DATETIME''"
  by simp_all

lemma time_literal_reads:
  assumes "reads_back libs service" "time_literal libs micros = Some t"
  shows "reads_as service type t (Time64MicrosecondValue (Some micros))"
proof -
  obtain time where t: "0 \<le> micros" "pl_time libs (nat (micros div 1000000)) (nat (micros mod 1000000 * 1000)) = Some time"
    "t = quoted_text ''TIME'' time"
    using assms(2) by (auto simp: time_literal_def split: if_splits option.splits)
  have whole: "nat (micros mod 1000000 * 1000) mod 1000 = 0" by (simp add: nat_mult_distrib)
  have service: "plain_quoted time" "sr_time service time = Some (nat (micros div 1000000), nat (micros mod 1000000 * 1000))"
    using assms(1) t(2) whole by (auto simp: reads_back_def)
  have "int (nat (micros div 1000000)) * 1000000 + int (nat (micros mod 1000000 * 1000) div 1000) = micros"
  proof -
    have "0 \<le> micros div 1000000" using t(1) by (simp add: pos_imp_zdiv_nonneg_iff)
    then show ?thesis using t(1) by (simp add: nat_mult_distrib)
  qed
  then show ?thesis
    unfolding t(3) using service
    by (intro reads_asI [OF lexes_typed_plain, where v = "VTime micros"])
      (simp_all add: word_char_def ascii_defs keyword_unequal ordinary_def)
qed

lemma plain_quoted_append: "plain_quoted (s @ t) \<longleftrightarrow> plain_quoted s \<and> plain_quoted t"
  by (simp add: plain_quoted_def)

lemma timestamp_literal_reads:
  assumes "reads_back libs service" "timestamp_literal libs value unit zone = Some t"
    and "scalar_meaning scalar = Some (VTimestamp (value * unit) (zone \<noteq> None))"
    and "plain_literal scalar \<Longrightarrow> service_seconds (value * unit div 1000000000)"
  shows "reads_as service type t scalar"
proof -
  let ?n = "value * unit"
  obtain f where f: "pl_timestamp libs (?n div 1000000000) (nat (?n mod 1000000000)) = Some f"
    using assms(2) by (auto simp: timestamp_literal_def Let_def split: option.splits)
  have service: "plain_quoted f"
    "plain_literal scalar \<Longrightarrow> sr_timestamp service f = Some (?n div 1000000000, nat (?n mod 1000000000))"
    using assms(1,4) f by (auto simp: reads_back_def)
  have nanos: "instant_nanos (?n div 1000000000, nat (?n mod 1000000000)) = ?n" by (simp add: instant_nanos_def)
  show ?thesis
  proof (cases zone)
    case None
    then have t: "t = quoted_text ''DATETIME'' f" using assms(2) f by (simp add: timestamp_literal_def Let_def)
    show ?thesis unfolding t using service nanos assms(3) None
      by (intro reads_asI [OF lexes_typed_plain, where v = "VTimestamp ?n False"])
        (simp_all add: word_char_def ascii_defs keyword_unequal ordinary_def)
  next
    case (Some z)
    then have t: "t = quoted_text ''TIMESTAMP'' (f @ ''+00'')"
      using assms(2) f by (auto simp: timestamp_literal_def Let_def split: if_splits)
    have z: "without_zone (f @ ''+00'') = Some f" by (simp add: without_zone_def)
    have p: "plain_quoted (f @ ''+00'')" using service(1) by (simp add: plain_quoted_append plain_quoted_def)
    show ?thesis unfolding t using service nanos assms(3) Some z p
      by (intro reads_asI [OF lexes_typed_plain, where v = "VTimestamp ?n True"])
        (simp_all add: word_char_def ascii_defs keyword_unequal ordinary_def)
  qed
qed

lemma date_literal_reads:
  assumes "reads_back libs service" "pl_date libs days = Some d"
  shows "reads_as service type (quoted_text ''DATE'' d) (Date32Value (Some days))"
proof -
  have "plain_quoted d" "plain_literal (Date32Value (Some days)) \<Longrightarrow> sr_date service d = Some days"
    using assms by (auto simp: reads_back_def plain_literal_def)
  then show ?thesis
    by (intro reads_asI [OF lexes_typed_plain, where v = "VDate days"])
      (simp_all add: word_char_def ascii_defs keyword_unequal ordinary_def)
qed

lemma decimal_literal_reads:
  assumes "scaled_decimal_string (show_int i) scale = Some t" "keyword \<in> {''NUMERIC'', ''BIGNUMERIC''}"
    and "scalar_meaning scalar = Some (VDecimal (i, nat scale))"
  shows "reads_as service type (quoted_text keyword t) scalar"
  using assms(2,3) decimal_meaning [OF assms(1)]
  by (intro reads_asI [OF lexes_decimal [OF assms(1,2)], where v = "VDecimal (i, nat scale)"]) (auto simp: ordinary_def)

lemma float_literal_reads:
  assumes "reads_back libs service" "is_finite v"
  shows "reads_as service Float64Type (pl_float libs v) (Float64Value (Some v))"
proof -
  have "lexes (pl_float libs v) (lit_tokens (LWord (pl_float libs v)))"
    using assms lexes_word by (simp add: reads_back_def)
  moreover have "literal_meaning service Float64Type (LWord (pl_float libs v)) = Some (VFloat v)" if "plain_literal (Float64Value (Some v))"
    using that assms by (simp add: reads_back_def plain_literal_def)
  moreover have "ordinary (VFloat v)" if "plain_literal (Float64Value (Some v))"
    using that assms by (simp add: ordinary_def plain_literal_def)
  ultimately show ?thesis unfolding reads_as_def by (intro exI [of _ "LWord (pl_float libs v)"]) auto
qed

lemma integer_literal_reads:
  assumes "integer_literal value = Some t"
  shows "reads_as service Int64Type t value"
proof -
  obtain i where i: "scalar_meaning value = Some (VInt i)" "t = show_int i" using integer_literal_meaning [OF assms] by blast
  show ?thesis
    by (rule reads_asI [where tok = "LWord t" and v = "VInt i"])
      (simp_all add: i lexes_show_int read_show_int ordinary_def)
qed

lemma boolean_literal_reads: "reads_as service BooleanType (if b then ''TRUE'' else ''FALSE'') (BooleanValue (Some b))"
  by (rule reads_asI [where tok = "LWord (if b then ''TRUE'' else ''FALSE'')" and v = "VBool b"])
    (cases b; simp add: ordinary_def; intro lexes_word keyword_words; simp)+

lemma text_literal_reads:
  "string_literal s = Some t \<Longrightarrow> scalar_meaning value = Some (VText s) \<Longrightarrow> reads_as service type t value"
  "scalar_meaning value = Some (VBytes s) \<Longrightarrow> reads_as service type (binary_literal s) value"
proof -
  assume "string_literal s = Some t" "scalar_meaning value = Some (VText s)"
  then show "reads_as service type t value"
    by (intro reads_asI [OF lexes_string_literal, where v = "VText s"]) (simp_all add: ordinary_def)
next
  assume "scalar_meaning value = Some (VBytes s)"
  then show "reads_as service type (binary_literal s) value"
    by (intro reads_asI [OF lexes_binary_literal, where v = "VBytes s"]) (simp_all add: ordinary_def)
qed

lemma equivalent_timezone_some: "equivalent_timezone a b \<Longrightarrow> a = None \<longleftrightarrow> b = None"
  by (auto simp: equivalent_timezone_def)

lemma timestamp_scalar_reads:
  assumes "reads_back libs service" "equivalent_timezone zone literal_zone"
  shows "timestamp_literal libs v 1000 zone = Some t \<Longrightarrow> reads_as service type t (TimestampMicrosecondValue (Some v) literal_zone)"
    and "timestamp_literal libs v 1 zone = Some t \<Longrightarrow> reads_as service type t (TimestampNanosecondValue (Some v) literal_zone)"
  by (erule timestamp_literal_reads [OF assms(1)], use equivalent_timezone_some [OF assms(2)] in \<open>simp_all add: plain_literal_def\<close>)+

lemma literal_reads:
  assumes "reads_back libs service" "literal libs e type = Some t"
  shows "\<exists>value. e = LiteralExpr value \<and> reads_as service type t value"
proof -
  obtain scalar where e: "e = LiteralExpr scalar" using assms(2) by (cases e) (simp_all add: literal_def)
  note l = assms(2) [unfolded e literal_def, simplified]
  have "reads_as service type t scalar"
  proof (cases type)
    case BooleanType
    then obtain b where "scalar = BooleanValue (Some b)" "t = (if b then ''TRUE'' else ''FALSE'')"
      using l by (auto split: scalar_value.splits option.splits)
    then show ?thesis using boolean_literal_reads BooleanType by simp
  next
    case Float64Type
    then show ?thesis using l float_literal_reads [OF assms(1)] by (auto split: scalar_value.splits option.splits if_splits)
  next
    case (Time64Type u)
    then show ?thesis using l time_literal_reads [OF assms(1)]
      by (cases u) (auto split: scalar_value.splits option.splits)
  next
    case (TimestampType u zone)
    then show ?thesis using l timestamp_scalar_reads [OF assms(1)]
      by (cases u) (auto split: scalar_value.splits option.splits if_splits)
  qed (use l in \<open>auto split: scalar_value.splits option.splits if_splits
      intro: integer_literal_reads text_literal_reads date_literal_reads [OF assms(1)] decimal_literal_reads\<close>)
  then show ?thesis using e by blast
qed

section \<open>Leaves\<close>

text \<open>A text lexes as a restriction whose meaning is that of the filter, whatever the row.\<close>

fun plain_filter :: "expr \<Rightarrow> bool" where
  "plain_filter (LiteralExpr value) \<longleftrightarrow> plain_literal value"
| "plain_filter (BinaryExpr left operator right) \<longleftrightarrow> plain_filter left \<and> plain_filter right"
| "plain_filter (NotExpr child) \<longleftrightarrow> plain_filter child"
| "plain_filter (IsNullExpr child) \<longleftrightarrow> plain_filter child"
| "plain_filter (IsNotNullExpr child) \<longleftrightarrow> plain_filter child"
| "plain_filter (InListExpr child values negated) \<longleftrightarrow> plain_filter child \<and> list_all plain_filter values"
| "plain_filter (BetweenExpr child negated low high) \<longleftrightarrow> plain_filter child \<and> plain_filter low \<and> plain_filter high"
| "plain_filter _ \<longleftrightarrow> True"

definition same_meaning ::
  "service_readings \<Rightarrow> comparisons \<Rightarrow> comparisons \<Rightarrow> schema_field list \<Rightarrow> restriction \<Rightarrow> expr \<Rightarrow> bool" where
  "same_meaning service c d schema r e \<longleftrightarrow>
     (\<forall>row. ordinary_row row \<longrightarrow> restriction_meaning service d schema row r = filter_meaning c schema row e)"

definition pushes ::
  "service_readings \<Rightarrow> comparisons \<Rightarrow> comparisons \<Rightarrow> schema_field list \<Rightarrow> string \<Rightarrow> expr \<Rightarrow> bool" where
  "pushes service c d schema t e \<longleftrightarrow>
     (\<exists>r. lexes t (tokens_of r) \<and> restriction_ok r \<and> (plain_filter e \<longrightarrow> same_meaning service c d schema r e))"

text \<open>The operand of a literal and the token the service reads have one ordinary value.\<close>

definition literal_agrees :: "service_readings \<Rightarrow> data_type \<Rightarrow> expr \<Rightarrow> literal_token \<Rightarrow> bool" where
  "literal_agrees service type e tok \<longleftrightarrow>
     (plain_filter e \<longrightarrow>
        (\<exists>v. ordinary v \<and> literal_meaning service type tok = Some v \<and> (\<forall>schema row. operand schema row e = Some v)))"

lemma literal_agrees_obtain:
  assumes "reads_back libs service" "literal libs e type = Some t"
  obtains tok where "lexes t (lit_tokens tok)" "literal_agrees service type e tok"
  using literal_reads [OF assms] by (auto simp: reads_as_def literal_agrees_def)

lemma column_operand:
  "column_path schema e = Some path \<Longrightarrow> operand schema row e = row path"
  by (cases e) (simp_all add: column_path_def)

lemma lexes_path: "path \<noteq> [] \<Longrightarrow> lexes_free (path_text path) (path_tokens path)"
proof (induction path rule: path_tokens.induct)
  case (3 p q ps)
  have dot: "lexes ''.'' [TWord ''.'']" by (rule lexes_word) (simp_all add: word_char_def)
  have b: "breaks (path_text (q # ps))" "path_text (q # ps) \<noteq> []"
    by (cases ps; simp add: path_text_def quote_identifier_def breaks_def word_char_def op_char_def ascii_defs)+
  have "lexes_free (''.'' @ path_text (q # ps)) ([TWord ''.''] @ path_tokens (q # ps))"
    by (rule lexes_append_lexes_free [OF dot b]) (use 3 in simp)
  then have "lexes_free (quote_identifier p @ ''.'' @ path_text (q # ps)) ([TIdent p] @ [TWord ''.''] @ path_tokens (q # ps))"
    by (rule lexes_free_append [OF lexes_identifier])
  then show ?case by (simp add: path_text_def)
qed (simp_all add: path_text_def lexes_identifier)

lemma lexes_then: "lexes s ts \<Longrightarrow> lexes t us \<Longrightarrow> lexes (s @ '' '' @ t) (ts @ us)"
  using lexes_append [OF _ _ _ lexes_append_free [OF lexes_space]] breaks_space by simp

lemma lexes_list:
  assumes "list_all2 (\<lambda>l tok. lexes l (lit_tokens tok)) ls toks" "toks \<noteq> []"
  shows "lexes_free (join_with '', '' ls @ '')'') (list_tokens toks)"
  using assms
proof (induction toks arbitrary: ls rule: list_tokens.induct)
  case (2 tok)
  then obtain l where l: "ls = [l]" "lexes l (lit_tokens tok)" by (auto simp: list_all2_Cons2)
  show ?case using lexes_append_lexes_free [OF l(2) _ _ lexes_punct [of "CHR '')''"]] l(1) breaks_punct by simp
next
  case (3 tok tok' toks)
  then obtain l l' ls' where l: "ls = l # l' # ls'" "lexes l (lit_tokens tok)"
    "list_all2 (\<lambda>l tok. lexes l (lit_tokens tok)) (l' # ls') (tok' # toks)" by (auto simp: list_all2_Cons2)
  let ?rest = "join_with '', '' (l' # ls') @ '')''"
  have "lexes_free ('' '' @ ?rest) ([] @ list_tokens (tok' # toks))"
    by (rule lexes_free_append [OF lexes_space 3(1) [OF l(3)]]) simp
  then have "lexes_free ([CHR '',''] @ '' '' @ ?rest) ([TPunct CHR '',''] @ list_tokens (tok' # toks))"
    by (intro lexes_free_append lexes_punct) simp_all
  then have "lexes_free (l @ [CHR '',''] @ '' '' @ ?rest) (lit_tokens tok @ [TPunct CHR '',''] @ list_tokens (tok' # toks))"
    by (intro lexes_append_lexes_free [OF l(2)]) (simp_all add: breaks_punct)
  then show ?case using l(1) by simp
qed simp

lemma sql_words:
  "lexes ''IS'' [TWord ''IS'']" "lexes ''NOT'' [TWord ''NOT'']" "lexes ''NULL'' [TWord ''NULL'']"
  "lexes ''IN'' [TWord ''IN'']" "lexes ''BETWEEN'' [TWord ''BETWEEN'']" "lexes ''AND'' [TWord ''AND'']"
  "lexes ''OR'' [TWord ''OR'']"
  by (rule lexes_word; simp add: word_char_def ascii_defs)+

lemma comparison_symbol_lexes: "comparison_symbol op = Some sg \<Longrightarrow> lexes sg [TOp sg]"
  by (rule lexes_op) (auto simp: comparison_symbol_def op_char_def split: operator.splits)

definition usual :: "sql_value option \<Rightarrow> bool" where
  "usual a \<longleftrightarrow> (\<forall>v. a = Some v \<longrightarrow> ordinary v)"

lemma usual_simps [simp]: "usual (Some v) \<longleftrightarrow> ordinary v" "usual None" "ordinary_row row \<Longrightarrow> usual (row path)"
  by (simp_all add: usual_def ordinary_row_def)

lemma compare3_agree:
  assumes "agree c d" "comparison_symbol op = Some sg" "usual a" "usual b"
  shows "compare3 (symbol_meaning d sg) a b = compare3 (operator_meaning c op) a b"
  using assms
  by (cases op; cases a; cases b)
    (auto simp: comparison_symbol_def symbol_meaning_def operator_meaning_def compare3_def compare_by_def agree_def at_most_def)

lemma compare3_reverse:
  assumes "agree c d" "reverse_comparison op = Some op'" "usual a" "usual b"
  shows "compare3 (operator_meaning c op') a b = compare3 (operator_meaning c op) b a"
  using assms
  by (cases op; cases a; cases b)
    (auto simp: reverse_comparison_def operator_meaning_def compare3_def compare_by_def agree_def at_most_def)

lemma comparison_not_logical: "comparison_symbol op = Some sg \<Longrightarrow> op \<noteq> AndOp \<and> op \<noteq> OrOp"
  by (auto simp: comparison_symbol_def)

lemma comparison_pushes:
  assumes "reads_back libs service" "agree c d" "translate_comparison libs schema left op right = Some t"
  shows "pushes service c d schema t (BinaryExpr left op right)"
proof -
  obtain sg where sg: "comparison_symbol op = Some sg"
    using assms(3) by (auto simp: translate_comparison_def split: option.splits)
  note logical = comparison_not_logical [OF sg]
  have spells: "lexes (path_text p @ '' '' @ s @ '' '' @ l) (path_tokens p @ TOp s # lit_tokens tok)"
    if "p \<noteq> []" "comparison_symbol o' = Some s" "lexes l (lit_tokens tok)" for p s l tok o'
    using lexes_then [OF lexes_freeI [OF lexes_path [OF that(1)]] lexes_then [OF comparison_symbol_lexes [OF that(2)] that(3)]]
    by simp
  show ?thesis
  proof (cases "column_path schema left")
    case (Some p)
    then obtain l where l: "literal libs right (path_type schema p) = Some l" "t = path_text p @ '' '' @ sg @ '' '' @ l"
      using assms(3) sg by (auto simp: translate_comparison_def resolve_column_reading path_column_def)
    obtain tok where tok: "lexes l (lit_tokens tok)" "literal_agrees service (path_type schema p) right tok"
      using literal_agrees_obtain [OF assms(1) l(1)] .
    have "same_meaning service c d schema (RCompare p sg tok) (BinaryExpr left op right)"
      if "plain_filter (BinaryExpr left op right)"
      using tok(2) that compare3_agree [OF assms(2) sg] logical column_operand [OF Some]
      by (auto simp: same_meaning_def literal_agrees_def)
    then show ?thesis using spells [OF _ sg tok(1)] column_path_Some [OF Some] l(2)
      unfolding pushes_def by (intro exI [of _ "RCompare p sg tok"]) auto
  next
    case None
    then obtain p op' sg' l where l: "column_path schema right = Some p" "reverse_comparison op = Some op'"
      "comparison_symbol op' = Some sg'" "literal libs left (path_type schema p) = Some l"
      "t = path_text p @ '' '' @ sg' @ '' '' @ l"
      using assms(3) sg by (auto simp: translate_comparison_def resolve_column_reading path_column_def split: option.splits)
    obtain tok where tok: "lexes l (lit_tokens tok)" "literal_agrees service (path_type schema p) left tok"
      using literal_agrees_obtain [OF assms(1) l(4)] .
    have "same_meaning service c d schema (RCompare p sg' tok) (BinaryExpr left op right)"
      if "plain_filter (BinaryExpr left op right)"
      using tok(2) that compare3_agree [OF assms(2) l(3)] compare3_reverse [OF assms(2) l(2)] logical column_operand [OF l(1)]
      by (auto simp: same_meaning_def literal_agrees_def)
    then show ?thesis using spells [OF _ l(3) tok(1)] column_path_Some [OF l(1)] l(5)
      unfolding pushes_def by (intro exI [of _ "RCompare p sg' tok"]) auto
  qed
qed

lemma null_pushes:
  assumes "column_path schema child = Some p"
  shows "pushes service c d schema (path_text p @ '' IS NULL'') (IsNullExpr child)"
    and "pushes service c d schema (path_text p @ '' IS NOT NULL'') (IsNotNullExpr child)"
proof -
  have p: "p \<noteq> []" using column_path_Some [OF assms] by simp
  note path = lexes_freeI [OF lexes_path [OF p]]
  have "same_meaning service c d schema (RNull p True) (IsNullExpr child)"
    "same_meaning service c d schema (RNull p False) (IsNotNullExpr child)"
    using column_operand [OF assms] by (auto simp: same_meaning_def)
  moreover have "lexes (path_text p @ '' IS NULL'') (tokens_of (RNull p True))"
    "lexes (path_text p @ '' IS NOT NULL'') (tokens_of (RNull p False))"
    using lexes_then [OF path lexes_then [OF sql_words(1,3)]]
      lexes_then [OF path lexes_then [OF sql_words(1) lexes_then [OF sql_words(2,3)]]]
    by (simp_all add: not_tokens_def)
  ultimately show "pushes service c d schema (path_text p @ '' IS NULL'') (IsNullExpr child)"
    "pushes service c d schema (path_text p @ '' IS NOT NULL'') (IsNotNullExpr child)"
    using p unfolding pushes_def by (metis restriction_ok.simps(5))+
qed

text \<open>A negatable predicate: the path, an optional \<open>NOT\<close> and the rest.\<close>

lemma lexes_predicate:
  assumes "p \<noteq> []" "lexes w ts"
  shows "lexes (path_text p @ (if negated then '' NOT'' else []) @ '' '' @ w) (path_tokens p @ not_tokens negated @ ts)"
  using lexes_then [OF lexes_freeI [OF lexes_path [OF assms(1)]] assms(2)]
    lexes_then [OF lexes_freeI [OF lexes_path [OF assms(1)]] lexes_then [OF sql_words(2) assms(2)]]
  by (cases negated) (simp_all add: not_tokens_def)

lemma compare_by_agree:
  assumes "agree c d" "usual a" "usual b"
  shows "compare_by (cmp_equal d) a b = compare_by (cmp_equal c) a b"
    and "compare_by (at_most d) a b = compare_by (at_most c) a b"
  using assms by (cases a; cases b; auto simp: compare_by_def agree_def at_most_def)+

lemma in3_agree:
  assumes "agree c d" "usual a" "list_all usual bs"
  shows "in3 d a bs = in3 c a bs"
  using assms(3) compare_by_agree(1) [OF assms(1,2)] by (induction bs) (simp_all add: in3_def)

lemma between3_agree:
  "agree c d \<Longrightarrow> usual a \<Longrightarrow> usual l \<Longrightarrow> usual h \<Longrightarrow> between3 d a l h = between3 c a l h"
  by (simp add: between3_def compare_by_agree)

lemma literals_agree:
  assumes "reads_back libs service" "collect_options (map (\<lambda>v. literal libs v type) es) = Some ls"
  shows "\<exists>toks. list_all2 (\<lambda>l tok. lexes l (lit_tokens tok)) ls toks \<and> list_all2 (literal_agrees service type) es toks"
  using assms(2)
proof (induction es arbitrary: ls)
  case (Cons e es)
  obtain l ls' where l: "literal libs e type = Some l" "collect_options (map (\<lambda>v. literal libs v type) es) = Some ls'"
    "ls = l # ls'" using Cons.prems by (auto simp: collect_options_Cons split: option.splits)
  obtain tok where tok: "lexes l (lit_tokens tok)" "literal_agrees service type e tok"
    using literal_agrees_obtain [OF assms(1) l(1)] .
  obtain toks where "list_all2 (\<lambda>l tok. lexes l (lit_tokens tok)) ls' toks" "list_all2 (literal_agrees service type) es toks"
    using Cons.IH [OF l(2)] by blast
  then show ?case using tok l(3) by (intro exI [of _ "tok # toks"]) simp
qed simp

lemma agreeing_operands:
  assumes "list_all2 (literal_agrees service type) es toks" "list_all plain_filter es"
  shows "map (operand schema row) es = map (literal_meaning service type) toks \<and>
    list_all usual (map (literal_meaning service type) toks)"
  using assms by (induction rule: list_all2_induct) (auto simp: literal_agrees_def)

lemma in_list_pushes:
  assumes "reads_back libs service" "agree c d" "column_path schema child = Some p" "es \<noteq> []"
    and "collect_options (map (\<lambda>v. literal libs v (path_type schema p)) es) = Some ls"
  shows "pushes service c d schema
    (path_text p @ (if negated then '' NOT'' else []) @ '' IN ('' @ join_with '', '' ls @ '')'') (InListExpr child es negated)"
proof -
  obtain toks where toks: "list_all2 (\<lambda>l tok. lexes l (lit_tokens tok)) ls toks"
    "list_all2 (literal_agrees service (path_type schema p)) es toks"
    using literals_agree [OF assms(1,5)] by blast
  have ne: "toks \<noteq> []" "p \<noteq> []" using toks(2) assms(4) column_path_Some [OF assms(3)] by auto
  have "lexes_free (''('' @ join_with '', '' ls @ '')'') ([TPunct CHR ''(''] @ list_tokens toks)"
    using lexes_free_append [OF lexes_punct lexes_list [OF toks(1) ne(1)], of "CHR ''(''"] by simp
  then have "lexes (''IN'' @ '' '' @ ''('' @ join_with '', '' ls @ '')'') ([TWord ''IN''] @ [TPunct CHR ''(''] @ list_tokens toks)"
    by (intro lexes_then sql_words lexes_freeI)
  then have "lexes (path_text p @ (if negated then '' NOT'' else []) @ '' IN ('' @ join_with '', '' ls @ '')'')
      (tokens_of (RIn p negated toks))"
    using lexes_predicate [OF ne(2)] by simp
  moreover have "same_meaning service c d schema (RIn p negated toks) (InListExpr child es negated)"
    if "plain_filter (InListExpr child es negated)"
    using that agreeing_operands [OF toks(2)] in3_agree [OF assms(2)] column_operand [OF assms(3)]
    by (simp add: same_meaning_def del: list.pred_map)
  ultimately show ?thesis using ne unfolding pushes_def by (intro exI [of _ "RIn p negated toks"]) simp
qed

lemma between_pushes:
  assumes "reads_back libs service" "agree c d" "column_path schema child = Some p"
    and "literal libs low (path_type schema p) = Some l" "literal libs high (path_type schema p) = Some h"
  shows "pushes service c d schema
    (path_text p @ (if negated then '' NOT'' else []) @ '' BETWEEN '' @ l @ '' AND '' @ h) (BetweenExpr child negated low high)"
proof -
  obtain lt ht where toks: "lexes l (lit_tokens lt)" "literal_agrees service (path_type schema p) low lt"
    "lexes h (lit_tokens ht)" "literal_agrees service (path_type schema p) high ht"
    using literal_agrees_obtain [OF assms(1,4)] literal_agrees_obtain [OF assms(1,5)] by metis
  have p: "p \<noteq> []" using column_path_Some [OF assms(3)] by simp
  have "lexes (path_text p @ (if negated then '' NOT'' else []) @ '' BETWEEN '' @ l @ '' AND '' @ h)
      (tokens_of (RBetween p negated lt ht))"
    using lexes_predicate [OF p lexes_then [OF sql_words(5) lexes_then [OF toks(1) lexes_then [OF sql_words(6) toks(3)]]]]
    by simp
  moreover have "same_meaning service c d schema (RBetween p negated lt ht) (BetweenExpr child negated low high)"
    if "plain_filter (BetweenExpr child negated low high)"
    using that toks(2,4) between3_agree [OF assms(2)] column_operand [OF assms(3)]
    by (auto simp: same_meaning_def literal_agrees_def)
  ultimately show ?thesis using p unfolding pushes_def by (intro exI [of _ "RBetween p negated lt ht"]) simp
qed

lemma leaf_pushes:
  assumes "reads_back libs service" "agree c d" "translate_leaf libs schema e = Some t"
  shows "pushes service c d schema t e"
proof (cases e)
  case (BinaryExpr left op right)
  then show ?thesis using assms comparison_pushes by (simp add: translate_leaf_def)
next
  case (IsNullExpr child)
  then show ?thesis using assms(3) null_pushes(1)
    by (auto simp: translate_leaf_def resolve_column_reading path_column_def)
next
  case (IsNotNullExpr child)
  then show ?thesis using assms(3) null_pushes(2)
    by (auto simp: translate_leaf_def resolve_column_reading path_column_def)
next
  case (InListExpr child es negated)
  then have "es \<noteq> []" using assms(3) by (auto simp: translate_leaf_def)
  moreover obtain p ls where "column_path schema child = Some p"
    "collect_options (map (\<lambda>v. literal libs v (path_type schema p)) es) = Some ls"
    "t = path_text p @ (if negated then '' NOT'' else []) @ '' IN ('' @ join_with '', '' ls @ '')''"
    using assms(3) InListExpr calculation
    by (auto simp: translate_leaf_def resolve_column_reading path_column_def simp del: if_split split: option.splits)
  ultimately show ?thesis using in_list_pushes [OF assms(1,2)] InListExpr by simp
next
  case (BetweenExpr child negated low high)
  then obtain p l h where "column_path schema child = Some p" "literal libs low (path_type schema p) = Some l"
    "literal libs high (path_type schema p) = Some h"
    "t = path_text p @ (if negated then '' NOT'' else []) @ '' BETWEEN '' @ l @ '' AND '' @ h"
    using assms(3) by (auto simp: translate_leaf_def resolve_column_reading path_column_def split: option.splits)
  then show ?thesis using between_pushes [OF assms(1,2)] BetweenExpr by simp
qed (use assms(3) in \<open>simp_all add: translate_leaf_def\<close>)

end
