(* ===== verification/Pushdown_Exact.thy ===== *)
theory Pushdown_Exact
  imports Pushdown_Leaves
begin

text \<open>
  A pushed-down filter means what the filter means: the composition. \<open>Pushdown_Leaves\<close> gives the meaning
  of rows, literals and leaves on both sides; here the boolean structure and the conjunction
  that \<open>row_restriction\<close> (\<open>bigquery/pushdown.rs\<close>) sends to the service.
\<close>

section \<open>Filters\<close>

lemma parenthesised:
  assumes "lexes s ts"
  shows "lexes_free (''('' @ s @ '')'') (TPunct CHR ''('' # ts @ [TPunct CHR '')''])"
proof -
  have "lexes_free (s @ '')'') (ts @ [TPunct CHR '')''])"
    by (intro lexes_append_lexes_free [OF assms] lexes_punct) (simp_all add: breaks_punct)
  then have "lexes_free (''('' @ s @ '')'') ([TPunct CHR ''(''] @ ts @ [TPunct CHR '')''])"
    by (rule lexes_free_append [OF lexes_punct, rotated]) simp
  then show ?thesis by simp
qed

lemma connective_pushes:
  assumes "pushes service c d schema l left" "pushes service c d schema r right"
    and "op = AndOp \<and> w = ''AND'' \<or> op = OrOp \<and> w = ''OR''"
  shows "pushes service c d schema (''('' @ l @ '' '' @ w @ '' '' @ r @ '')'') (BinaryExpr left op right)"
proof -
  obtain a b where ab: "lexes l (tokens_of a)" "restriction_ok a" "plain_filter left \<longrightarrow> same_meaning service c d schema a left"
    "lexes r (tokens_of b)" "restriction_ok b" "plain_filter right \<longrightarrow> same_meaning service c d schema b right"
    using assms(1,2) by (auto simp: pushes_def)
  have w: "lexes w [TWord w]" using assms(3) sql_words(6,7) by auto
  have "lexes_free (''('' @ (l @ '' '' @ w @ '' '' @ r) @ '')'')
      (TPunct CHR ''('' # (tokens_of a @ [TWord w] @ tokens_of b) @ [TPunct CHR '')''])"
    by (intro parenthesised lexes_then ab w)
  then have spells: "lexes (''('' @ l @ '' '' @ w @ '' '' @ r @ '')'')
      (TPunct CHR ''('' # tokens_of a @ TWord w # tokens_of b @ [TPunct CHR '')''])"
    by (simp add: lexes_freeI)
  show ?thesis
  proof (cases "op = AndOp")
    case True
    then show ?thesis using ab spells assms(3)
      unfolding pushes_def by (intro exI [of _ "RAnd a b"]) (auto simp: same_meaning_def)
  next
    case False
    then show ?thesis using ab spells assms(3)
      unfolding pushes_def by (intro exI [of _ "ROr a b"]) (auto simp: same_meaning_def)
  qed
qed

lemma not_pushes:
  assumes "pushes service c d schema t child"
  shows "pushes service c d schema (''(NOT '' @ t @ '')'') (NotExpr child)"
proof -
  obtain a where a: "lexes t (tokens_of a)" "restriction_ok a" "plain_filter child \<longrightarrow> same_meaning service c d schema a child"
    using assms by (auto simp: pushes_def)
  have "lexes_free (''('' @ (''NOT'' @ '' '' @ t) @ '')'') (TPunct CHR ''('' # ([TWord ''NOT''] @ tokens_of a) @ [TPunct CHR '')''])"
    by (intro parenthesised lexes_then a sql_words)
  then have "lexes (''(NOT '' @ t @ '')'') (tokens_of (RNot a))" by (simp add: lexes_freeI)
  then show ?thesis using a unfolding pushes_def by (intro exI [of _ "RNot a"]) (auto simp: same_meaning_def)
qed

lemma filter_pushes:
  assumes "reads_back libs service" "agree c d" "filter_text libs schema e = Some t"
  shows "pushes service c d schema t e"
  using assms(1,3)
proof (induction libs schema e arbitrary: t rule: filter_text.induct)
  case (1 libs schema left operator right)
  show ?case
  proof (cases "operator = AndOp \<or> operator = OrOp")
    case True
    then obtain l r where lr: "filter_text libs schema left = Some l" "filter_text libs schema right = Some r"
      "t = ''('' @ l @ '' '' @ (if operator = AndOp then ''AND'' else ''OR'') @ '' '' @ r @ '')''"
      using 1(4) by (auto split: option.splits)
    have "pushes service c d schema l left" "pushes service c d schema r right"
      using 1(1) [OF True 1(3) lr(1)] 1(2) [OF True lr(1) 1(3) lr(2)] by blast+
    then show ?thesis unfolding lr(3) by (rule connective_pushes) (use True in auto)
  next
    case False
    then show ?thesis using 1(4) leaf_pushes [OF 1(3) assms(2)] by simp
  qed
qed (use leaf_pushes [OF _ assms(2)] not_pushes in auto)

section \<open>The conjunction of a scan\<close>

fun parse_conjunction :: "nat \<Rightarrow> token list \<Rightarrow> restriction list option" where
  "parse_conjunction 0 ts = None"
| "parse_conjunction (Suc n) ts =
     (case parse_restriction (length ts) ts of
        Some (r, []) \<Rightarrow> Some [r]
      | Some (r, TWord w # ts) \<Rightarrow> if w = ''AND'' then map_option ((#) r) (parse_conjunction n ts) else None
      | _ \<Rightarrow> None)"

text \<open>The conjuncts the service reads in a row restriction.\<close>

definition read_conjunction :: "string \<Rightarrow> restriction list option" where
  "read_conjunction t = (case sql_lex t of None \<Rightarrow> None | Some ts \<Rightarrow> parse_conjunction (length ts) ts)"

definition group_tokens :: "restriction \<Rightarrow> token list" where
  "group_tokens r = TPunct CHR ''('' # tokens_of r @ [TPunct CHR '')'']"

fun conjunction_tokens :: "restriction list \<Rightarrow> token list" where
  "conjunction_tokens [] = []"
| "conjunction_tokens [r] = group_tokens r"
| "conjunction_tokens (r # q # rs) = group_tokens r @ TWord ''AND'' # conjunction_tokens (q # rs)"

lemma parse_group:
  assumes "restriction_ok r" "length (group_tokens r) \<le> n"
  shows "parse_restriction n (group_tokens r @ rest) = Some (r, rest)"
proof -
  obtain m where n: "n = Suc m" "levels r \<le> m"
    using assms(2) levels_length [of r] by (cases n) (auto simp: group_tokens_def)
  have "parse_restriction m (tokens_of r @ TPunct CHR '')'' # rest) = Some (r, TPunct CHR '')'' # rest)"
    by (rule parse_restriction_tokens [OF assms(1) n(2)]) simp
  then show ?thesis by - (rule restriction_starts [OF assms(1)], simp_all add: n(1) group_tokens_def)
qed

lemma parse_conjunction_tokens:
  "list_all restriction_ok rs \<Longrightarrow> rs \<noteq> [] \<Longrightarrow> length rs \<le> n \<Longrightarrow> parse_conjunction n (conjunction_tokens rs) = Some rs"
proof (induction rs arbitrary: n rule: conjunction_tokens.induct)
  case (2 r)
  then show ?case using parse_group [of r _ "[]"] by (cases n) simp_all
next
  case (3 r q rs)
  then show ?case using parse_group [of r _ "TWord ''AND'' # conjunction_tokens (q # rs)"]
    by (cases n) (simp_all del: parse_restriction.simps)
qed simp

lemma conjunction_tokens_length: "length rs \<le> length (conjunction_tokens rs)"
  by (induction rs rule: conjunction_tokens.induct) (simp_all add: group_tokens_def)

lemma lexes_conjunction:
  assumes "list_all2 (\<lambda>t r. lexes t (tokens_of r)) ts rs" "rs \<noteq> []"
  shows "lexes (join_with '' AND '' (map (\<lambda>f. ''('' @ f @ '')'') ts)) (conjunction_tokens rs)"
  using assms
proof (induction rs arbitrary: ts rule: conjunction_tokens.induct)
  case (2 r)
  then show ?case using parenthesised by (auto simp: list_all2_Cons2 group_tokens_def intro: lexes_freeI)
next
  case (3 r q rs)
  then obtain t t' ts' where t: "ts = t # t' # ts'" "lexes t (tokens_of r)"
    "list_all2 (\<lambda>t r. lexes t (tokens_of r)) (t' # ts') (q # rs)" by (auto simp: list_all2_Cons2)
  let ?rest = "join_with '' AND '' (map (\<lambda>f. ''('' @ f @ '')'') (t' # ts'))"
  have "lexes ((''('' @ t @ '')'') @ '' '' @ ''AND'' @ '' '' @ ?rest)
      (group_tokens r @ [TWord ''AND''] @ conjunction_tokens (q # rs))"
    unfolding group_tokens_def
    by (intro lexes_then lexes_freeI [OF parenthesised] t sql_words 3(1) [OF t(3)]) simp
  then show ?case using t(1) by simp
qed simp

lemma read_conjunction_tokens:
  assumes "list_all2 (\<lambda>t r. lexes t (tokens_of r) \<and> restriction_ok r) ts rs" "rs \<noteq> []"
  shows "read_conjunction (join_with '' AND '' (map (\<lambda>f. ''('' @ f @ '')'') ts)) = Some rs"
proof -
  have "list_all2 (\<lambda>t r. lexes t (tokens_of r)) ts rs" by (rule list_all2_mono [OF assms(1)]) simp
  note l = lexes_whole [OF lexes_conjunction [OF this assms(2)]]
  have "list_all restriction_ok rs" using assms(1) by (auto simp: list_all2_conv_all_nth list_all_length)
  then show ?thesis
    using l parse_conjunction_tokens [OF _ assms(2) conjunction_tokens_length] by (simp add: read_conjunction_def)
qed

lemma support_Exact [simp]: "support libs schema f = Exact \<longleftrightarrow> translate libs schema f \<noteq> None"
  by (simp add: support_def)

lemma pushed_filters:
  assumes "reads_back libs service" "agree c d" "list_all plain_filter filters"
  shows "\<exists>rs. list_all2 (\<lambda>t r. lexes t (tokens_of r) \<and> restriction_ok r) (List.map_filter (translate libs schema) filters) rs \<and>
    list_all2 (same_meaning service c d schema) rs (filter (\<lambda>f. support libs schema f = Exact) filters)"
  using assms(3)
proof (induction filters)
  case (Cons f fs)
  then obtain rs where rs:
    "list_all2 (\<lambda>t r. lexes t (tokens_of r) \<and> restriction_ok r) (List.map_filter (translate libs schema) fs) rs"
    "list_all2 (same_meaning service c d schema) rs (filter (\<lambda>f. support libs schema f = Exact) fs)" by auto
  show ?case
  proof (cases "translate libs schema f")
    case None
    then show ?thesis using rs by auto
  next
    case (Some t)
    then obtain r where "lexes t (tokens_of r)" "restriction_ok r" "same_meaning service c d schema r f"
      using filter_pushes [OF assms(1,2)] Cons.prems by (fastforce simp: pushes_def translate_filter_text)
    then show ?thesis using rs Some by (intro exI [of _ "r # rs"]) simp
  qed
qed simp


subsection \<open>A concrete scan\<close>

definition demo_float :: "64 word \<Rightarrow> string" where
  "demo_float v = show_int (uint v)"

definition demo_time :: "nat \<Rightarrow> nat \<Rightarrow> string option" where
  "demo_time s n = (if n < 1000000000 then Some (show_int (int (s * 1000000000 + n))) else None)"

definition demo_timestamp :: "int \<Rightarrow> nat \<Rightarrow> string option" where
  "demo_timestamp s n = (if n < 1000000000 then Some (show_int (s * 1000000000 + int n)) else None)"

definition demo_date :: "int \<Rightarrow> string option" where
  "demo_date d = Some (show_int d)"

definition demo_libs :: pushdown_libs where
  "demo_libs = \<lparr>pl_float = demo_float, pl_date = demo_date, pl_time = demo_time, pl_timestamp = demo_timestamp\<rparr>"

definition demo_number :: "string \<Rightarrow> int" where
  "demo_number t = fst (read_decimal t)"

definition demo_service :: service_readings where
  "demo_service = \<lparr>sr_float = (\<lambda>t. Some (word_of_int (demo_number t))), sr_date = (\<lambda>t. Some (demo_number t)),
     sr_time = (\<lambda>t. Some (nat (demo_number t div 1000000000), nat (demo_number t mod 1000000000))),
     sr_timestamp = (\<lambda>t. Some (demo_number t div 1000000000, nat (demo_number t mod 1000000000)))\<rparr>"

definition demo_order :: comparisons where
  "demo_order = \<lparr>cmp_equal = (=), cmp_less = (\<lambda>v w. case (v, w) of (VInt a, VInt b) \<Rightarrow> a < b | _ \<Rightarrow> False)\<rparr>"

lemma demo_reads_back: "reads_back demo_libs demo_service"
proof -
  have words: "list_all word_char (show_int i)" for i
    by (rule list.pred_mono_strong [OF show_int_digits]) (auto dest: digit_word simp: word_char_def)
  have plain: "plain_quoted (show_int i)" for i
    using show_int_digits [of i] by (auto simp: plain_quoted_def list_all_iff ascii_defs)
  show ?thesis
    by (auto simp: reads_back_def demo_libs_def demo_float_def demo_date_def demo_time_def demo_timestamp_def demo_service_def demo_number_def words plain read_show_int show_int_nonempty
        nat_div_distrib nat_mod_distrib zdiv_int)
qed

lemma demo_agree: "agree demo_order demo_order"
  by (auto simp: agree_def demo_order_def)

definition demo_fields :: "schema_field list" where
  "demo_fields = [SchemaField ''id'' Int64Type [], SchemaField ''na`me'' Utf8Type [],
     SchemaField ''nested'' (StructType [SchemaField ''value'' Int64Type []]) []]"

text \<open>A literal on the left, a name with a quote, a struct member and a filter that is not supported.\<close>

definition demo_filters :: "expr list" where
  "demo_filters =
     [BinaryExpr (BinaryExpr (LiteralExpr (Int64Value (Some (- 5)))) LtOp (ColumnExpr None ''id'')) OrOp
        (NotExpr (BinaryExpr (ColumnExpr None ''na`me'') EqOp (LiteralExpr (Utf8Value (Some (''it'' @ [CHR 0x27] @ ''s'')))))),
      OtherExpr ''abs(id) = 1'',
      InListExpr (ColumnExpr (Some (BareTable ''nested'')) ''value'') [LiteralExpr (Int32Value (Some 1)), LiteralExpr (Int32Value (Some 2))] True]"

definition demo_text :: string where
  "demo_text = ''((`id` > -5 OR (NOT `na'' @ [CHR 0x5C, CHR 0x60] @ ''me` = '' @ [CHR 0x27] @ ''it'' @ [CHR 0x5C, CHR 0x27] @
     ''s'' @ [CHR 0x27] @ ''))) AND (`nested`.`value` NOT IN (1, 2))''"

lemma demo_restriction: "row_restriction demo_libs demo_fields demo_filters None = Some demo_text"
  by code_simp

lemma demo_plain: "list_all plain_filter demo_filters"
  by code_simp

lemma demo_pushed: "filter (\<lambda>f. support demo_libs demo_fields f = Exact) demo_filters = [demo_filters ! 0, demo_filters ! 2]"
  by code_simp


text \<open>
  Without the assumption on floats the two sides differ. In a row whose float is NaN, the engine's order,
  which puts NaN above every number, accepts \<open>x > 1\<close>, and the service, which compares nothing with NaN,
  does not; the filter is still pushed down as exact.
\<close>

definition float_filter :: expr where
  "float_filter = BinaryExpr (ColumnExpr None ''x'') GtOp (LiteralExpr (Float64Value (Some 0x3FF0000000000000)))"

lemma nan_rows_differ:
  assumes "cmp_less engine (VFloat 0x3FF0000000000000) (VFloat 0x7FF8000000000000)"
    and "\<not> cmp_less sql (VFloat 0x3FF0000000000000) (VFloat 0x7FF8000000000000)"
    and "literal_meaning service Float64Type l = Some (VFloat 0x3FF0000000000000)"
  shows "support demo_libs [SchemaField ''x'' Float64Type []] float_filter = Exact \<and>
    filter_meaning engine [SchemaField ''x'' Float64Type []] (\<lambda>_. Some (VFloat 0x7FF8000000000000)) float_filter = Some True \<and>
    restriction_meaning service sql [SchemaField ''x'' Float64Type []] (\<lambda>_. Some (VFloat 0x7FF8000000000000))
      (RCompare [''x''] ''>'' l) = Some False"
proof -
  have column: "column_path [SchemaField ''x'' Float64Type []] (ColumnExpr None ''x'') = Some [''x'']"
    "path_type [SchemaField ''x'' Float64Type []] [''x''] = Float64Type"
    by (simp_all add: column_path_def path_type_def readable_path_def field_named_def supported_field_def)
  have finite: "is_finite 0x3FF0000000000000" by (simp add: is_finite_def)
  show ?thesis
    using assms column finite
    by (simp add: float_filter_def translate_filter_text translate_leaf_def translate_comparison_def comparison_symbol_def
        resolve_column_reading path_column_def literal_def operator_meaning_def symbol_meaning_def compare3_def compare_by_def)
qed

end
