(* ===== verification/Snapshot_Pin.thy ===== *)
theory Snapshot_Pin
  imports Silk_Prelude
begin

text \<open>
  The snapshot a BigQuery query reads at (\<open>bigquery/snapshot.rs\<close>). When the user names none, the program asks
  the server for its clock: the \<open>Date\<close> header of a small request, less one second and less the time the
  request took. All sessions of the query then read the table as it was at that instant.

  The HTTP transport, the clocks and chrono's parsers are fields of the environment; \<open>'w\<close> is the state of
  the world they act on.
\<close>

section \<open>Snapshots\<close>

record pinned_snapshot =
  ps_seconds :: int
  ps_nanos :: int

datatype timestamp_error = TimestampError

definition pinned_snapshot_new :: "int \<Rightarrow> int \<Rightarrow> (timestamp_error, pinned_snapshot) result" where
  "pinned_snapshot_new seconds nanos =
     (if \<not> (- 62135596800 \<le> seconds \<and> seconds \<le> 253402300799) \<or> \<not> (0 \<le> nanos \<and> nanos < 1000000000)
      then Inl TimestampError else Inr \<lparr>ps_seconds = seconds, ps_nanos = nanos\<rparr>)"

text \<open>The parser of RFC 3339 gives the seconds and nanoseconds of an instant.\<close>

definition snapshot_from_rfc3339 ::
  "(string \<Rightarrow> (int \<times> nat) option) \<Rightarrow> string \<Rightarrow> (timestamp_error, pinned_snapshot) result" where
  "snapshot_from_rfc3339 parse_instant value =
     (case parse_instant value of
        None \<Rightarrow> Inl TimestampError
      | Some (seconds, nanos) \<Rightarrow>
          if int nanos \<le> 2147483647 then pinned_snapshot_new seconds (int nanos) else Inl TimestampError)"

definition timestamp_i64_min :: int where "timestamp_i64_min = - 9223372036854775808"
definition timestamp_i64_max :: int where "timestamp_i64_max = 9223372036854775807"

definition snapshot_checked_sub :: "pinned_snapshot \<Rightarrow> duration \<Rightarrow> (timestamp_error, pinned_snapshot) result" where
  "snapshot_checked_sub snapshot duration =
     (let total_nanos = ps_seconds snapshot * 1000000000 + ps_nanos snapshot - int duration;
          seconds = total_nanos div 1000000000; nanos = total_nanos mod 1000000000 in
      if timestamp_i64_min \<le> seconds \<and> seconds \<le> timestamp_i64_max then pinned_snapshot_new seconds nanos else Inl TimestampError)"

section \<open>The server clock\<close>

datatype server_clock_error_kind = UntrustedEndpoint | ServerClockTransport | MissingDate | InvalidDate | ClockNotMonotonic

record 'e server_clock_error =
  sce_kind :: server_clock_error_kind
  sce_transport :: "'e option"

definition server_clock_error_new :: "server_clock_error_kind \<Rightarrow> 'e server_clock_error" where
  "server_clock_error_new kind = \<lparr>sce_kind = kind, sce_transport = None\<rparr>"

definition server_clock_error_transport :: "'e \<Rightarrow> 'e server_clock_error" where
  "server_clock_error_transport error = \<lparr>sce_kind = ServerClockTransport, sce_transport = Some error\<rparr>"

definition date_is_unusable :: "'e server_clock_error \<Rightarrow> bool" where
  "date_is_unusable error \<longleftrightarrow> sce_kind error = MissingDate \<or> sce_kind error = InvalidDate"

definition retryable_http_status :: "nat \<Rightarrow> bool" where
  "retryable_http_status status \<longleftrightarrow> status \<in> {408, 429, 500, 502, 503, 504}"

text \<open>
  The date parser takes the bytes of a header (\<open>None\<close> when they are no text or no HTTP date) and gives the
  seconds after the epoch and the nanoseconds of the second.
\<close>

definition snapshot_from_headers ::
  "(string \<Rightarrow> (int \<times> nat) option) \<Rightarrow> string list \<Rightarrow> duration \<Rightarrow> duration \<Rightarrow>
   ('e server_clock_error, pinned_snapshot) result" where
  "snapshot_from_headers parse_date dates started received =
     (case checked_sub received started of
        None \<Rightarrow> Inl (server_clock_error_new ClockNotMonotonic)
      | Some uncertainty \<Rightarrow>
          (case dates of
             [date] \<Rightarrow>
               (case parse_date date of
                  None \<Rightarrow> Inl (server_clock_error_new InvalidDate)
                | Some (seconds, nanos) \<Rightarrow>
                    (case pinned_snapshot_new seconds (int nanos) of
                       Inl _ \<Rightarrow> Inl (server_clock_error_new InvalidDate)
                     | Inr server \<Rightarrow>
                         (case snapshot_checked_sub server (saturating_add duration_max (from_secs 1) uncertainty) of
                            Inl _ \<Rightarrow> Inl (server_clock_error_new InvalidDate)
                          | Inr snapshot \<Rightarrow> Inr snapshot)))
           | _ \<Rightarrow> Inl (server_clock_error_new (if dates = [] then MissingDate else InvalidDate))))"

record http_response =
  http_status :: nat
  http_dates :: "string list"

record ('w, 'r, 'e) probe_env =
  pe_request :: "string \<Rightarrow> 'e + 'r"
  pe_execute :: "'r \<Rightarrow> nat \<Rightarrow> 'w \<Rightarrow> ('e + http_response) \<times> 'w"
  pe_retryable :: "'e \<Rightarrow> bool"
  pe_clock :: "'w \<Rightarrow> duration \<times> 'w"
  pe_sleep :: "duration \<Rightarrow> 'w \<Rightarrow> 'w"
  pe_encode :: "string \<Rightarrow> string"
  pe_date :: "string \<Rightarrow> (int \<times> nat) option"

definition server_clock_attempts :: nat where
  "server_clock_attempts = 4"

definition server_clock_delay :: "nat \<Rightarrow> duration" where
  "server_clock_delay attempt = saturating_mul duration_max (from_millis 100) attempt"

definition clock_path :: "('w, 'r, 'e) probe_env \<Rightarrow> string \<Rightarrow> string" where
  "clock_path env project = ''bigquery/v2/projects/'' @ pe_encode env project @ ''/datasets?maxResults=1''"

text \<open>One pass of the loop: the answer (\<open>Inl\<close>), or the world in which the next attempt starts.\<close>

definition pin_pass ::
  "('w, 'r, 'e) probe_env \<Rightarrow> string \<Rightarrow> nat \<Rightarrow> 'w \<Rightarrow> (('e server_clock_error, pinned_snapshot) result \<times> 'w) + 'w" where
  "pin_pass env path attempt w =
     (case pe_request env path of
        Inl error \<Rightarrow> Inl (Inl (server_clock_error_transport error), w)
      | Inr request \<Rightarrow>
          (let (started, w) = pe_clock env w in
           case pe_execute env request attempt w of
             (Inr response, w) \<Rightarrow>
               (let (received, w) = pe_clock env w in
                case snapshot_from_headers (pe_date env) (http_dates response) started received of
                  Inr snapshot \<Rightarrow> Inl (Inr snapshot, w)
                | Inl error \<Rightarrow>
                    if date_is_unusable error \<and> retryable_http_status (http_status response) \<and>
                       attempt < server_clock_attempts
                    then Inr (pe_sleep env (server_clock_delay attempt) w)
                    else Inl (Inl error, w))
           | (Inl error, w) \<Rightarrow>
               if pe_retryable env error \<and> attempt < server_clock_attempts
               then Inr (pe_sleep env (server_clock_delay attempt) w)
               else Inl (Inl (server_clock_error_transport error), w)))"

lemma pin_pass_continues: "pin_pass env path attempt w = Inr w' \<Longrightarrow> attempt < server_clock_attempts"
  by (auto simp: pin_pass_def split: sum.splits prod.splits if_splits)

function pin_loop ::
  "('w, 'r, 'e) probe_env \<Rightarrow> string \<Rightarrow> nat \<Rightarrow> 'w \<Rightarrow> ('e server_clock_error, pinned_snapshot) result \<times> 'w" where
  "pin_loop env path attempt w =
     (case pin_pass env path attempt w of
        Inl answer \<Rightarrow> answer
      | Inr w \<Rightarrow> pin_loop env path (attempt + 1) w)"
  by pat_completeness auto

termination
  by (relation "measure (\<lambda>(env, path, attempt, w). server_clock_attempts - attempt)")
    (auto dest: pin_pass_continues)

declare pin_loop.simps [simp del]

record endpoint_set =
  es_storage :: string
  es_bigquery :: string
  es_universe_domain :: string
  es_explicit_override :: bool

definition endpoint_is_trusted :: "endpoint_set \<Rightarrow> bool" where
  "endpoint_is_trusted endpoints =
     (if es_explicit_override endpoints then es_storage endpoints = es_bigquery endpoints
      else es_storage endpoints = ''https://bigquerystorage.'' @ es_universe_domain endpoints @ ''/'' \<and>
           es_bigquery endpoints = ''https://bigquery.'' @ es_universe_domain endpoints @ ''/'')"

text \<open>\<open>base\<close> is the base URL of the REST transport the probe is given.\<close>

definition server_clock_probe_new :: "string \<Rightarrow> endpoint_set \<Rightarrow> ('e server_clock_error, bool) result" where
  "server_clock_probe_new base endpoints =
     (let trusted = (base = es_bigquery endpoints \<and> endpoint_is_trusted endpoints) in
      if \<not> trusted then Inl (server_clock_error_new UntrustedEndpoint) else Inr trusted)"

definition pin_snapshot ::
  "('w, 'r, 'e) probe_env \<Rightarrow> bool \<Rightarrow> string \<Rightarrow> 'w \<Rightarrow> ('e server_clock_error, pinned_snapshot) result \<times> 'w" where
  "pin_snapshot env trusted session_project w =
     (if \<not> trusted then (Inl (server_clock_error_new UntrustedEndpoint), w)
      else pin_loop env (clock_path env session_project) 1 w)"

section \<open>Snapshots are subtracted exactly\<close>

definition instant :: "pinned_snapshot \<Rightarrow> int" where
  "instant s = ps_seconds s * 1000000000 + ps_nanos s"

definition in_protobuf_range :: "int \<Rightarrow> bool" where
  "in_protobuf_range t \<longleftrightarrow> - 62135596800000000000 \<le> t \<and> t < 253402300800000000000"

definition snapshot_ok :: "pinned_snapshot \<Rightarrow> bool" where
  "snapshot_ok s \<longleftrightarrow> 0 \<le> ps_nanos s \<and> ps_nanos s < 1000000000 \<and> in_protobuf_range (instant s)"

lemma pinned_snapshot_new_Inr:
  "pinned_snapshot_new seconds nanos = Inr s \<longleftrightarrow>
     s = \<lparr>ps_seconds = seconds, ps_nanos = nanos\<rparr> \<and> 0 \<le> nanos \<and> nanos < 1000000000 \<and>
     in_protobuf_range (seconds * 1000000000 + nanos)"
  by (auto simp: pinned_snapshot_new_def in_protobuf_range_def)

lemma le_div_iff_int:
  assumes "0 < (k :: int)"
  shows "a \<le> t div k \<longleftrightarrow> a * k \<le> t"
proof
  assume "a \<le> t div k"
  then have "a * k \<le> t div k * k" using assms by simp
  also have "\<dots> \<le> t" using assms by (simp add: div_mult_mod_eq minus_mod_eq_div_mult [symmetric])
  finally show "a * k \<le> t" .
next
  assume "a * k \<le> t"
  from zdiv_mono1 [OF this assms] show "a \<le> t div k" using assms by simp
qed

lemma snapshot_checked_sub_exact:
  "snapshot_checked_sub s d =
     (if in_protobuf_range (instant s - int d)
      then Inr \<lparr>ps_seconds = (instant s - int d) div 1000000000, ps_nanos = (instant s - int d) mod 1000000000\<rparr>
      else Inl TimestampError)"
proof -
  define t where "t = instant s - int d"
  have range: "in_protobuf_range t \<longleftrightarrow> - 62135596800 \<le> t div 1000000000 \<and> t div 1000000000 \<le> 253402300799"
    using le_div_iff_int [of 1000000000 "- 62135596800" t] le_div_iff_int [of 1000000000 253402300800 t]
    by (simp add: in_protobuf_range_def not_le [symmetric]) linarith
  have "snapshot_checked_sub s d =
      (if timestamp_i64_min \<le> t div 1000000000 \<and> t div 1000000000 \<le> timestamp_i64_max
       then pinned_snapshot_new (t div 1000000000) (t mod 1000000000) else Inl TimestampError)"
    by (simp add: snapshot_checked_sub_def Let_def t_def instant_def)
  also have "\<dots> = (if in_protobuf_range t
      then Inr \<lparr>ps_seconds = t div 1000000000, ps_nanos = t mod 1000000000\<rparr> else Inl TimestampError)"
    unfolding range by (auto simp: pinned_snapshot_new_def timestamp_i64_min_def timestamp_i64_max_def)
  finally show ?thesis by (simp add: t_def)
qed

lemma snapshot_checked_sub_Inr:
  "snapshot_checked_sub s d = Inr s' \<Longrightarrow> instant s' = instant s - int d \<and> snapshot_ok s'"
  by (auto simp: snapshot_checked_sub_exact snapshot_ok_def instant_def split: if_splits)

lemma snapshot_from_headers_Inr:
  assumes "snapshot_from_headers parse_date dates started received = Inr s"
  shows "\<exists>d seconds nanos. dates = [d] \<and> parse_date d = Some (seconds, nanos) \<and> started \<le> received \<and> snapshot_ok s \<and>
    instant s = seconds * 1000000000 + int nanos - 1000000000 - int (received - started)"
proof -
  obtain d seconds nanos server where d: "started \<le> received" "dates = [d]" "parse_date d = Some (seconds, nanos)"
    "pinned_snapshot_new seconds (int nanos) = Inr server"
    "snapshot_checked_sub server (saturating_add duration_max (from_secs 1) (received - started)) = Inr s"
    using assms
    by (auto simp: snapshot_from_headers_def checked_sub_def split: if_splits list.splits option.splits sum.splits prod.splits)
  let ?sum = "from_secs 1 + (received - started)"
  have server: "instant server = seconds * 1000000000 + int nanos" "in_protobuf_range (instant server)"
    using d(4) by (auto simp: pinned_snapshot_new_Inr instant_def)
  note sub = snapshot_checked_sub_Inr [OF d(5)]
  have "?sum \<le> duration_max"
  proof (rule ccontr)
    assume "\<not> ?sum \<le> duration_max"
    then have "saturating_add duration_max (from_secs 1) (received - started) = duration_max"
      by (simp add: saturating_add_def)
    then have "instant s = instant server - int duration_max" using sub by simp
    moreover have "in_protobuf_range (instant s)" using sub unfolding snapshot_ok_def by blast
    ultimately show False using server(2) by (simp add: in_protobuf_range_def duration_max_def umax_def)
  qed
  then have "instant s = instant server - int ?sum" using sub by (simp add: saturating_add_def)
  then show ?thesis using d server(1) sub by (auto simp: from_secs_def)
qed

section \<open>What the probe guarantees\<close>

text \<open>
  A server that tells the truth: \<open>now\<close> is its clock in the states of the world and never goes back, the
  monotonic clock runs at the same rate (\<open>skew\<close> apart), and a \<open>Date\<close> header is the whole second of some
  moment of the request.
\<close>

definition probe_honest :: "('w, 'r, 'e) probe_env \<Rightarrow> ('w \<Rightarrow> int) \<Rightarrow> int \<Rightarrow> bool" where
  "probe_honest env now skew \<longleftrightarrow>
     (\<forall>w t w'. pe_clock env w = (t, w') \<longrightarrow> now w \<le> int t + skew \<and> int t + skew \<le> now w') \<and>
     (\<forall>r a w x w'. pe_execute env r a w = (x, w') \<longrightarrow> now w \<le> now w') \<and>
     (\<forall>r a w response w' d seconds nanos.
        pe_execute env r a w = (Inr response, w') \<and> d \<in> set (http_dates response) \<and> pe_date env d = Some (seconds, nanos) \<longrightarrow>
        nanos = 0 \<and> (\<exists>t. now w \<le> t \<and> t \<le> now w' \<and> seconds = t div 1000000000)) \<and>
     (\<forall>d w. now w \<le> now (pe_sleep env d w))"

definition past_snapshot :: "('w \<Rightarrow> int) \<Rightarrow> 'w \<Rightarrow> 'w \<Rightarrow> pinned_snapshot \<Rightarrow> bool" where
  "past_snapshot now w w' s \<longleftrightarrow>
     snapshot_ok s \<and> instant s + 1000000000 \<le> now w' \<and> now w - 2000000000 - (now w' - now w) < instant s"

lemma past_snapshot_earlier: "past_snapshot now v w' s \<Longrightarrow> now w \<le> now v \<Longrightarrow> past_snapshot now w w' s"
  by (simp add: past_snapshot_def)

lemma one_request_is_past:
  assumes "probe_honest env now skew" "pe_clock env w = (started, w1)" "pe_execute env r a w1 = (Inr response, w2)"
    and "pe_clock env w2 = (received, w3)"
    and "snapshot_from_headers (pe_date env) (http_dates response) started received = Inr s"
  shows "past_snapshot now w w3 s"
proof -
  obtain d seconds nanos where d: "http_dates response = [d]" "pe_date env d = Some (seconds, nanos)" "started \<le> received"
    "snapshot_ok s" "instant s = seconds * 1000000000 + int nanos - 1000000000 - int (received - started)"
    using snapshot_from_headers_Inr [OF assms(5)] by blast
  have start: "now w \<le> int started + skew" "int started + skew \<le> now w1"
    and finish: "now w2 \<le> int received + skew" "int received + skew \<le> now w3"
    using assms(1,2,4) unfolding probe_honest_def by blast+
  obtain t where t: "nanos = 0" "now w1 \<le> t" "t \<le> now w2" "seconds = t div 1000000000"
    using assms(1,3) d(1,2) unfolding probe_honest_def by (metis list.set_intros(1))
  have "seconds * 1000000000 \<le> t" "t < seconds * 1000000000 + 1000000000"
    using t(4) by (simp_all add: minus_mod_eq_div_mult [symmetric])
  then show ?thesis
    using start finish t(1-3) d(3-5) unfolding past_snapshot_def by (simp add: of_nat_diff)
qed

lemma pin_pass_snapshot:
  fixes env :: "('w, 'r, 'e) probe_env"
  assumes "pin_pass env path attempt w = Inl (Inr s, w')"
  shows "\<exists>request started w1 response w2 received. pe_clock env w = (started, w1) \<and>
    pe_execute env request attempt w1 = (Inr response, w2) \<and> pe_clock env w2 = (received, w') \<and>
    (snapshot_from_headers (pe_date env) (http_dates response) started received :: ('e server_clock_error, _) result) = Inr s"
  using assms by (auto simp: pin_pass_def split: sum.splits prod.splits if_splits)

lemma pin_pass_past:
  assumes "probe_honest env now skew" "pin_pass env path attempt w = Inl (Inr s, w')"
  shows "past_snapshot now w w' s"
  using pin_pass_snapshot [OF assms(2)] one_request_is_past [OF assms(1)] by blast

lemma pin_pass_next:
  assumes "pin_pass env path attempt w = Inr w'"
  shows "\<exists>request started w1 x w2. pe_clock env w = (started, w1) \<and> pe_execute env request attempt w1 = (x, w2) \<and>
    (w' = pe_sleep env (server_clock_delay attempt) w2 \<or>
     (\<exists>received w3. pe_clock env w2 = (received, w3) \<and> w' = pe_sleep env (server_clock_delay attempt) w3))"
  using assms by (auto simp: pin_pass_def split: sum.splits prod.splits if_splits) blast+

lemma honest_clock: "probe_honest env now skew \<Longrightarrow> pe_clock env v = (t, v') \<Longrightarrow> now v \<le> now v'"
  unfolding probe_honest_def by (elim conjE) (meson order.trans)

lemma honest_execute: "probe_honest env now skew \<Longrightarrow> pe_execute env r a v = (x, v') \<Longrightarrow> now v \<le> now v'"
  unfolding probe_honest_def by (elim conjE) meson

lemma honest_sleep: "probe_honest env now skew \<Longrightarrow> now v \<le> now (pe_sleep env d v)"
  unfolding probe_honest_def by (elim conjE) meson

lemma pin_pass_later:
  assumes "probe_honest env now skew" "pin_pass env path attempt w = Inr w'"
  shows "now w \<le> now w'"
proof -
  obtain request started w1 x w2 where w: "pe_clock env w = (started, w1)" "pe_execute env request attempt w1 = (x, w2)"
    "w' = pe_sleep env (server_clock_delay attempt) w2 \<or>
     (\<exists>received w3. pe_clock env w2 = (received, w3) \<and> w' = pe_sleep env (server_clock_delay attempt) w3)"
    using pin_pass_next [OF assms(2)] by blast
  have "now w2 \<le> now w'"
    using w(3) honest_clock [OF assms(1)] honest_sleep [OF assms(1)] order.trans by metis
  moreover have "now w \<le> now w1" "now w1 \<le> now w2"
    by (rule honest_clock [OF assms(1) w(1)], rule honest_execute [OF assms(1) w(2)])
  ultimately show ?thesis by simp
qed

lemma pin_loop_past:
  assumes "probe_honest env now skew" "pin_loop env path attempt w = (Inr s, w')"
  shows "past_snapshot now w w' s"
  using assms
proof (induction env path attempt w rule: pin_loop.induct)
  case (1 env path attempt w)
  note step = 1(3) [unfolded pin_loop.simps [of env path attempt w]]
  show ?case
  proof (cases "pin_pass env path attempt w")
    case (Inl answer)
    then have "pin_pass env path attempt w = Inl (Inr s, w')" using step by simp
    then show ?thesis by (rule pin_pass_past [OF 1(2)])
  next
    case (Inr v)
    have "past_snapshot now v w' s" by (rule 1(1) [OF Inr 1(2)]) (use step Inr in simp)
    then show ?thesis by (rule past_snapshot_earlier) (rule pin_pass_later [OF 1(2) Inr])
  qed
qed

text \<open>At most four requests, and sleeps of 100, 200 and 300 milliseconds between them.\<close>

definition probe_counts :: "('w, 'r, 'e) probe_env \<Rightarrow> ('w \<Rightarrow> nat) \<Rightarrow> ('w \<Rightarrow> duration) \<Rightarrow> bool" where
  "probe_counts env requests slept \<longleftrightarrow>
     (\<forall>w t w'. pe_clock env w = (t, w') \<longrightarrow> requests w' = requests w \<and> slept w' = slept w) \<and>
     (\<forall>r a w x w'. pe_execute env r a w = (x, w') \<longrightarrow> requests w' = requests w + 1 \<and> slept w' = slept w) \<and>
     (\<forall>d w. requests (pe_sleep env d w) = requests w \<and> slept (pe_sleep env d w) = slept w + d)"

fun delays_from :: "nat \<Rightarrow> duration" where
  "delays_from 0 = 0"
| "delays_from (Suc k) = server_clock_delay (3 - k) + delays_from k"

lemma pin_pass_counts:
  assumes "probe_counts env requests slept"
  shows "pin_pass env path attempt w = Inl (r, w') \<Longrightarrow> requests w' \<le> requests w + 1 \<and> slept w' = slept w"
    and "pin_pass env path attempt w = Inr v \<Longrightarrow>
      requests v = requests w + 1 \<and> slept v = slept w + server_clock_delay attempt"
proof -
  have counts: "pe_clock env w = (t, w') \<Longrightarrow> requests w' = requests w \<and> slept w' = slept w"
    "pe_execute env q a w = (x, w') \<Longrightarrow> requests w' = requests w + 1 \<and> slept w' = slept w"
    "requests (pe_sleep env d w) = requests w \<and> slept (pe_sleep env d w) = slept w + d" for w t w' q a x d
    using assms unfolding probe_counts_def by (elim conjE; meson)+
  show "pin_pass env path attempt w = Inl (r, w') \<Longrightarrow> requests w' \<le> requests w + 1 \<and> slept w' = slept w"
    by (auto simp: pin_pass_def split: sum.splits prod.splits if_splits dest!: counts(1,2))
  show "pin_pass env path attempt w = Inr v \<Longrightarrow>
      requests v = requests w + 1 \<and> slept v = slept w + server_clock_delay attempt"
    by (auto simp: pin_pass_def counts(3) split: sum.splits prod.splits if_splits dest!: counts(1,2))
qed

lemma pin_loop_counts:
  assumes "probe_counts env requests slept" "pin_loop env path (4 - k) w = (r, w')" "k < 4"
  shows "requests w' \<le> requests w + k + 1 \<and> slept w' \<le> slept w + delays_from k"
  using assms(2,3)
proof (induction k arbitrary: w)
  case 0
  then show ?case using pin_pass_counts(1) [OF assms(1)] pin_pass_continues [of env path 4]
    by (subst (asm) pin_loop.simps) (fastforce simp: server_clock_attempts_def split: sum.splits)
next
  case (Suc k)
  note step = Suc.prems(1) [unfolded pin_loop.simps [of env path "4 - Suc k" w]]
  show ?case
  proof (cases "pin_pass env path (4 - Suc k) w")
    case (Inl answer)
    then show ?thesis using step pin_pass_counts(1) [OF assms(1)] by (fastforce simp: le_Suc_eq)
  next
    case (Inr v)
    have "4 - Suc k + 1 = 4 - k" using Suc.prems(2) by simp
    then have "pin_loop env path (4 - k) v = (r, w')" using step Inr by simp
    then show ?thesis using Suc.IH [of v] Suc.prems(2) pin_pass_counts(2) [OF assms(1) Inr] by simp
  qed
qed

lemma probe_is_bounded:
  assumes "probe_counts env requests slept" "pin_snapshot env trusted project w = (r, w')"
  shows "requests w' \<le> requests w + 4 \<and> slept w' \<le> slept w + from_millis 600"
proof (cases trusted)
  case True
  then have "pin_loop env (clock_path env project) (4 - 3) w = (r, w')" using assms(2) by (simp add: pin_snapshot_def)
  moreover have "delays_from 3 = from_millis 600"
    by (simp add: numeral_3_eq_3 server_clock_delay_def saturating_mul_def from_millis_def duration_max_def umax_def)
  ultimately show ?thesis using pin_loop_counts [OF assms(1), where k = 3] by fastforce
qed (use assms(2) in \<open>simp add: pin_snapshot_def\<close>)

text \<open>
  C23: The snapshot pinned from the server's clock lies in the past of the server, so a session can be
  created at it and sees every row committed well before. If the server answers with its own time and the clocks run at
  the same rate, the instant is at least one second before the end of the probe, less than two seconds plus
  the duration of the probe before its start, and a valid protobuf timestamp, however often the request was repeated.
\<close>

theorem pinned_snapshot_is_past:
  assumes "probe_honest env now skew" "pin_snapshot env trusted project w = (Inr s, w')"
  shows "snapshot_ok s \<and> instant s + 1000000000 \<le> now w' \<and>
    now w - 2000000000 - (now w' - now w) < instant s"
  using pin_loop_past [OF assms(1)] assms(2) by (auto simp: pin_snapshot_def past_snapshot_def split: if_splits)

text \<open>
  A world that is a clock: a request takes 0.3 seconds, the first answer is a 503 without a date; a date
  is written in unary.
\<close>

definition demo_probe :: "(nat, unit, unit) probe_env" where
  "demo_probe = \<lparr>pe_request = (\<lambda>path. Inr ()),
     pe_execute = (\<lambda>r a w. (Inr \<lparr>http_status = (if a = 1 then 503 else 200),
         http_dates = (if a = 1 then [] else [replicate (w div 1000000000) CHR ''I''])\<rparr>, w + 300000000)),
     pe_retryable = (\<lambda>e. True), pe_clock = (\<lambda>w. (w, w)), pe_sleep = (\<lambda>d w. w + d), pe_encode = (\<lambda>p. p),
     pe_date = (\<lambda>d. Some (int (length d), 0))\<rparr>"

lemma demo_probe_honest: "probe_honest demo_probe int 0"
proof -
  have "\<exists>t. int w \<le> t \<and> t \<le> int w + 300000000 \<and> int (w div 1000000000) = t div 1000000000" for w :: nat
    by (rule exI [of _ "int w"]) (simp add: zdiv_int)
  then show ?thesis unfolding probe_honest_def demo_probe_def by (auto split: if_splits)
qed

lemma demo_pinned:
  "pin_snapshot demo_probe True ''p'' 10000000000 = (Inr \<lparr>ps_seconds = 8, ps_nanos = 700000000\<rparr>, 10700000000)"
  by (simp add: pin_snapshot_def pin_loop.simps pin_pass_def demo_probe_def snapshot_from_headers_def checked_sub_def
      date_is_unusable_def server_clock_error_new_def retryable_http_status_def server_clock_attempts_def
      server_clock_delay_def saturating_mul_def saturating_add_def from_millis_def from_secs_def duration_max_def umax_def
      pinned_snapshot_new_def snapshot_checked_sub_def timestamp_i64_min_def timestamp_i64_max_def)

theorem pinned_snapshot_is_past_witness:
  "snapshot_ok \<lparr>ps_seconds = 8, ps_nanos = 700000000\<rparr> \<and> instant \<lparr>ps_seconds = 8, ps_nanos = 700000000\<rparr> + 1000000000 \<le> 10700000000 \<and>
    10000000000 - 2000000000 - (10700000000 - 10000000000) < instant \<lparr>ps_seconds = 8, ps_nanos = 700000000\<rparr>"
  using pinned_snapshot_is_past [OF demo_probe_honest demo_pinned] by simp

end
