(* ===== verification/Table_Reference.thy ===== *)
theory Table_Reference
  imports Snapshot_Pin
begin

text \<open>
  References to BigQuery tables (\<open>bigquery/reference.rs\<close>): what the user writes is accepted in one canonical
  spelling only, and the resource name made of it names exactly one table.

  The \<open>url\<close> crate, percent decoding, the general categories of Unicode and chrono's parser are parameters.
\<close>

section \<open>The parser\<close>

record bqs_url =
  bu_scheme :: string
  bu_has_host :: bool
  bu_username :: string
  bu_has_password :: bool
  bu_has_fragment :: bool
  bu_text :: string
  bu_path :: string
  bu_query :: "string option"
  bu_query_pairs :: "(string \<times> string) list"

datatype general_category =
    UppercaseLetter | LowercaseLetter | TitlecaseLetter | ModifierLetter | OtherLetter
  | NonspacingMark | SpacingMark | EnclosingMark | DecimalNumber | LetterNumber | OtherNumber
  | ConnectorPunctuation | DashPunctuation | SpaceSeparator | OtherCategory

text \<open>\<open>rl_categories\<close> are the categories of the characters of a text, in order.\<close>

record reference_libs =
  rl_parse_url :: "string \<Rightarrow> bqs_url option"
  rl_decode :: "string \<Rightarrow> string option"
  rl_categories :: "string \<Rightarrow> general_category list"
  rl_instant :: "string \<Rightarrow> (int \<times> nat) option"

datatype reference_error =
    RefSyntax | UnknownParameter | DuplicateParameter | InvalidProject | InvalidDataset | InvalidTable
  | UnsupportedTableDecorator | InvalidSnapshot | InvalidLocation

record table_resource =
  tr_project_id :: string
  tr_dataset_id :: string
  tr_table_id :: string
  tr_resource :: string

record bigquery_reference =
  br_table :: table_resource
  br_snapshot :: "pinned_snapshot option"
  br_expected_location :: "string option"

fun valid_percent_encoding :: "string \<Rightarrow> bool" where
  "valid_percent_encoding [] = True"
| "valid_percent_encoding (c # cs) =
     (if c = CHR ''%'' then
        (case cs of
           a # b # rest \<Rightarrow> is_ascii_hexdigit a \<and> is_ascii_hexdigit b \<and> valid_percent_encoding rest
         | _ \<Rightarrow> False)
      else valid_percent_encoding cs)"

definition valid_project_text :: "string \<Rightarrow> bool" where
  "valid_project_text value \<longleftrightarrow>
     value \<noteq> [] \<and> length value \<le> 255 \<and> list_all is_ascii value \<and>
     list_all (\<lambda>c. is_ascii_alphanumeric c \<or> c \<in> {CHR ''-'', CHR ''.'', CHR '':''}) value"

definition validate_project :: "string \<Rightarrow> (reference_error, unit) result" where
  "validate_project value = (if valid_project_text value then Inr () else Inl InvalidProject)"

definition validate_dataset :: "string \<Rightarrow> (reference_error, unit) result" where
  "validate_dataset value =
     (if value \<noteq> [] \<and> length value \<le> 1024 \<and> list_all (\<lambda>c. is_ascii_alphanumeric c \<or> c = CHR ''_'') value
      then Inr () else Inl InvalidDataset)"

definition table_category :: "general_category \<Rightarrow> bool" where
  "table_category c \<longleftrightarrow>
     (case c of
        UppercaseLetter \<Rightarrow> True | LowercaseLetter \<Rightarrow> True | TitlecaseLetter \<Rightarrow> True | ModifierLetter \<Rightarrow> True
      | OtherLetter \<Rightarrow> True | NonspacingMark \<Rightarrow> True | SpacingMark \<Rightarrow> True | EnclosingMark \<Rightarrow> True
      | DecimalNumber \<Rightarrow> True | LetterNumber \<Rightarrow> True | OtherNumber \<Rightarrow> True | ConnectorPunctuation \<Rightarrow> True
      | DashPunctuation \<Rightarrow> True | SpaceSeparator \<Rightarrow> True | OtherCategory \<Rightarrow> False)"

definition validate_table :: "reference_libs \<Rightarrow> string \<Rightarrow> (reference_error, unit) result" where
  "validate_table libs value =
     (if CHR ''$'' \<in> set value \<or> CHR ''@'' \<in> set value then Inl UnsupportedTableDecorator
      else if value \<noteq> [] \<and> length value \<le> 1024 \<and> list_all table_category (rl_categories libs value) then Inr ()
      else Inl InvalidTable)"

definition valid_location :: "string \<Rightarrow> bool" where
  "valid_location value \<longleftrightarrow>
     value \<noteq> [] \<and> length value \<le> 128 \<and> list_all is_ascii value \<and>
     list_all (\<lambda>c. is_ascii_alphanumeric c \<or> c = CHR ''-'') value"

definition table_resource_new ::
  "reference_libs \<Rightarrow> string \<Rightarrow> string \<Rightarrow> string \<Rightarrow> (reference_error, table_resource) result" where
  "table_resource_new libs project dataset table =
     res_bind (validate_project project) (\<lambda>_.
     res_bind (validate_dataset dataset) (\<lambda>_.
     res_bind (validate_table libs table) (\<lambda>_.
       Inr \<lparr>tr_project_id = project, tr_dataset_id = dataset, tr_table_id = table,
            tr_resource = ''projects/'' @ project @ ''/datasets/'' @ dataset @ ''/tables/'' @ table\<rparr>)))"

fun decode_components :: "reference_libs \<Rightarrow> string list \<Rightarrow> (reference_error, string list) result" where
  "decode_components libs [] = Inr []"
| "decode_components libs (part # parts) =
     res_bind (ok_or RefSyntax (rl_decode libs part)) (\<lambda>value.
     res_bind (decode_components libs parts) (\<lambda>decoded. Inr (value # decoded)))"

fun collect_parameters ::
  "(string \<times> string) list \<Rightarrow> (string \<rightharpoonup> string) \<Rightarrow> (reference_error, string \<rightharpoonup> string) result" where
  "collect_parameters [] parameters = Inr parameters"
| "collect_parameters ((name, value) # pairs) parameters =
     (if name \<noteq> ''snapshot'' \<and> name \<noteq> ''location'' then Inl UnknownParameter
      else if parameters name \<noteq> None then Inl DuplicateParameter
      else collect_parameters pairs (parameters(name \<mapsto> value)))"

definition raw_path_of :: "string \<Rightarrow> string" where
  "raw_path_of input =
     (let body = drop (length ''bqs:///'') input in
      case split_once_on CHR ''?'' body of None \<Rightarrow> body | Some (path, _) \<Rightarrow> path)"

text \<open>The two \<open>let ... else\<close> checks of the path.\<close>

definition resource_path :: "string list \<Rightarrow> (string \<times> string \<times> string) option" where
  "resource_path decoded =
     (case decoded of
        [projects, project, datasets, dataset, tables, table] \<Rightarrow>
          if projects \<noteq> ''projects'' \<or> datasets \<noteq> ''datasets'' \<or> tables \<noteq> ''tables'' then None
          else Some (project, dataset, table)
      | _ \<Rightarrow> None)"

definition reference_with_parameters ::
  "reference_libs \<Rightarrow> table_resource \<Rightarrow> bqs_url \<Rightarrow> (reference_error, bigquery_reference) result" where
  "reference_with_parameters libs table url =
     (if bu_query url = Some [] then Inl RefSyntax
      else res_bind (collect_parameters (bu_query_pairs url) Map.empty) (\<lambda>parameters.
        res_bind
          (case parameters ''snapshot'' of
             None \<Rightarrow> Inr None
           | Some value \<Rightarrow>
               (case snapshot_from_rfc3339 (rl_instant libs) value of
                  Inl _ \<Rightarrow> Inl InvalidSnapshot | Inr snapshot \<Rightarrow> Inr (Some snapshot)))
          (\<lambda>snapshot.
            let expected_location = parameters ''location'' in
            if (case expected_location of None \<Rightarrow> False | Some location \<Rightarrow> \<not> valid_location location)
            then Inl InvalidLocation
            else Inr \<lparr>br_table = table, br_snapshot = snapshot, br_expected_location = expected_location\<rparr>)))"

definition reference_parse :: "reference_libs \<Rightarrow> string \<Rightarrow> (reference_error, bigquery_reference) result" where
  "reference_parse libs input =
     (if \<not> starts_with input ''bqs:///'' \<or> \<not> valid_percent_encoding input \<or> CHR ''#'' \<in> set input then Inl RefSyntax
      else res_bind (ok_or RefSyntax (rl_parse_url libs input)) (\<lambda>url.
        if bu_scheme url \<noteq> ''bqs'' \<or> bu_has_host url \<or> bu_username url \<noteq> [] \<or> bu_has_password url \<or>
           bu_has_fragment url \<or> bu_text url \<noteq> input then Inl RefSyntax
        else (let raw_path = raw_path_of input in
          if raw_path = [] \<or> last raw_path = CHR ''/'' \<or> bu_path url \<noteq> ''/'' @ raw_path then Inl RefSyntax
          else res_bind (decode_components libs (split_on CHR ''/'' raw_path)) (\<lambda>decoded.
            res_bind (ok_or RefSyntax (resource_path decoded)) (\<lambda>(project, dataset, table).
            res_bind (table_resource_new libs project dataset table) (\<lambda>table.
              reference_with_parameters libs table url))))))"

section \<open>A resource names one table\<close>

text \<open>A slash is a character of the category "other punctuation", whatever is around it.\<close>

definition categories_see_slash :: "reference_libs \<Rightarrow> bool" where
  "categories_see_slash libs \<longleftrightarrow> (\<forall>s. CHR ''/'' \<in> set s \<longrightarrow> OtherCategory \<in> set (rl_categories libs s))"

lemma project_no_slash: "valid_project_text p \<Longrightarrow> CHR ''/'' \<notin> set p"
  by (auto simp: valid_project_text_def list_all_iff ascii_defs)

lemma dataset_no_slash: "validate_dataset d = Inr u \<Longrightarrow> CHR ''/'' \<notin> set d"
  by (auto simp: validate_dataset_def list_all_iff ascii_defs split: if_splits)

lemma table_no_slash: "categories_see_slash libs \<Longrightarrow> validate_table libs t = Inr u \<Longrightarrow> CHR ''/'' \<notin> set t"
  by (fastforce simp: validate_table_def categories_see_slash_def list_all_iff table_category_def split: if_splits)

lemma table_resource_new_Inr:
  "table_resource_new libs p d t = Inr r \<longleftrightarrow>
     valid_project_text p \<and> validate_dataset d = Inr () \<and> validate_table libs t = Inr () \<and>
     r = \<lparr>tr_project_id = p, tr_dataset_id = d, tr_table_id = t,
          tr_resource = ''projects/'' @ p @ ''/datasets/'' @ d @ ''/tables/'' @ t\<rparr>"
  by (auto simp: table_resource_new_def validate_project_def res_bind_Inr_conv split: if_splits)

lemma resource_parts:
  assumes "categories_see_slash libs" "table_resource_new libs p d t = Inr r"
  shows "split_on CHR ''/'' (tr_resource r) = [''projects'', p, ''datasets'', d, ''tables'', t]"
proof -
  have free: "CHR ''/'' \<notin> set p" "CHR ''/'' \<notin> set d" "CHR ''/'' \<notin> set t"
    using assms project_no_slash dataset_no_slash table_no_slash by (auto simp: table_resource_new_Inr)
  have "tr_resource r = join_with ''/'' [''projects'', p, ''datasets'', d, ''tables'', t]"
    using assms(2) by (simp add: table_resource_new_Inr)
  moreover have "split_on CHR ''/'' (join_with ''/'' [''projects'', p, ''datasets'', d, ''tables'', t]) =
      [''projects'', p, ''datasets'', d, ''tables'', t]"
    by (rule split_on_join) (use free in auto)
  ultimately show ?thesis by simp
qed

lemma collect_parameters_Inr:
  assumes "collect_parameters pairs parameters = Inr result"
  shows "result = parameters ++ map_of pairs \<and> distinct (map fst pairs) \<and>
    fst ` set pairs \<subseteq> {''snapshot'', ''location''} \<and> fst ` set pairs \<inter> dom parameters = {}"
  using assms
proof (induction pairs parameters rule: collect_parameters.induct)
  case (2 name v pairs parameters)
  from 2(2) have c: "name = ''snapshot'' \<or> name = ''location''" "parameters name = None"
    "collect_parameters pairs (parameters(name \<mapsto> v)) = Inr result" by (auto split: if_splits)
  have cond: "\<not> (name \<noteq> ''snapshot'' \<and> name \<noteq> ''location'')" "\<not> parameters name \<noteq> None" using c(1,2) by auto
  note ih = 2(1) [OF cond c(3)]
  have fresh: "name \<notin> fst ` set pairs" using ih by auto
  then have "map_of pairs name = None" by (simp add: map_of_eq_None_iff)
  then have "parameters(name \<mapsto> v) ++ map_of pairs = parameters ++ map_of ((name, v) # pairs)"
    by (auto simp: map_add_def fun_eq_iff split: option.splits)
  then have "result = parameters ++ map_of ((name, v) # pairs)" by (rule trans [OF conjunct1 [OF ih]])
  moreover have "distinct (map fst ((name, v) # pairs))" "fst ` set ((name, v) # pairs) \<subseteq> {''snapshot'', ''location''}"
    "fst ` set ((name, v) # pairs) \<inter> dom parameters = {}" using ih fresh c(1,2) by auto
  ultimately show ?case by blast
qed simp

lemma snapshot_from_rfc3339_Inr: "snapshot_from_rfc3339 f v = Inr s \<Longrightarrow> snapshot_ok s"
  by (auto simp: snapshot_from_rfc3339_def pinned_snapshot_new_Inr snapshot_ok_def instant_def split: option.splits if_splits)

lemma resource_path_Some:
  "resource_path decoded = Some (p, d, t) \<longleftrightarrow> decoded = [''projects'', p, ''datasets'', d, ''tables'', t]"
  by (auto simp: resource_path_def split: list.splits if_splits)

lemma reference_with_parameters_Inr:
  assumes "reference_with_parameters libs table url = Inr r"
  shows "br_table r = table \<and>
    (\<exists>parameters. collect_parameters (bu_query_pairs url) Map.empty = Inr parameters \<and>
      br_expected_location r = parameters ''location'' \<and>
      (case parameters ''snapshot'' of
         None \<Rightarrow> br_snapshot r = None
       | Some v \<Rightarrow> (\<exists>s. snapshot_from_rfc3339 (rl_instant libs) v = Inr s \<and> br_snapshot r = Some s)) \<and>
      (\<forall>l. br_expected_location r = Some l \<longrightarrow> valid_location l))"
  using assms
  by (auto simp: reference_with_parameters_def Let_def res_bind_Inr_conv split: if_splits option.splits sum.splits)

lemma reference_parse_Inr:
  assumes "reference_parse libs input = Inr r"
  shows "\<exists>url p d t. rl_parse_url libs input = Some url \<and> bu_text url = input \<and>
    bu_path url = ''/'' @ raw_path_of input \<and>
    decode_components libs (split_on CHR ''/'' (raw_path_of input)) = Inr [''projects'', p, ''datasets'', d, ''tables'', t] \<and>
    table_resource_new libs p d t = Inr (br_table r) \<and>
    reference_with_parameters libs (br_table r) url = Inr r"
  using assms reference_with_parameters_Inr
  by (auto simp: reference_parse_def Let_def res_bind_Inr_conv ok_or_Inr_conv resource_path_Some split: if_splits prod.splits)


text \<open>A library for one input.\<close>

definition demo_reference :: string where
  "demo_reference = ''bqs:///projects/p/datasets/d/tables/t?location=EU''"

definition demo_reference_libs :: reference_libs where
  "demo_reference_libs = \<lparr>rl_parse_url = (\<lambda>s. Some \<lparr>bu_scheme = ''bqs'', bu_has_host = False, bu_username = [],
       bu_has_password = False, bu_has_fragment = False, bu_text = s, bu_path = ''/'' @ raw_path_of s,
       bu_query = Some ''location=EU'', bu_query_pairs = [(''location'', ''EU'')]\<rparr>),
     rl_decode = Some,
     rl_categories = map (\<lambda>c. if is_ascii_lowercase c then LowercaseLetter else OtherCategory),
     rl_instant = (\<lambda>s. None)\<rparr>"

lemma demo_categories: "categories_see_slash demo_reference_libs"
proof -
  let ?f = "\<lambda>c. if is_ascii_lowercase c then LowercaseLetter else OtherCategory"
  have "OtherCategory \<in> set (map ?f s)" if "CHR ''/'' \<in> set s" for s
    using imageI [OF that, of ?f] by (simp add: is_ascii_lowercase_def byte_nat_def)
  then show ?thesis by (simp add: categories_see_slash_def demo_reference_libs_def)
qed

definition demo_parsed :: bigquery_reference where
  "demo_parsed = \<lparr>br_table = \<lparr>tr_project_id = ''p'', tr_dataset_id = ''d'', tr_table_id = ''t'',
       tr_resource = ''projects/p/datasets/d/tables/t''\<rparr>, br_snapshot = None, br_expected_location = Some ''EU''\<rparr>"

lemma demo_reference_parsed: "reference_parse demo_reference_libs demo_reference = Inr demo_parsed"
  by code_simp


end
