(* ===== verification/Read_Session.thy ===== *)
theory Read_Session
  imports Table_Reference Retry_Classify
begin

text \<open>
  Read sessions (\<open>bigquery/session.rs\<close>): what a session is asked for, how the answer of the service is
  checked against it, the identity of a source, and the creation with retries. The retry policy, budget and
  classification are those of the \<open>Retry\<close> theories.

  The RPC, the clock, the sleeper and the jitter are fields of the environment; SHA-256 and the decoder of
  Arrow schemas are parameters.
\<close>

section \<open>The identity of a source\<close>

text \<open>\<open>to_be_bytes\<close> of an integer of \<open>n\<close> bytes.\<close>

fun be_bytes :: "nat \<Rightarrow> nat \<Rightarrow> string" where
  "be_bytes 0 x = []"
| "be_bytes (Suc n) x = char_of (x div 256 ^ n mod 256) # be_bytes n x"

definition hash_field :: "string \<Rightarrow> string" where
  "hash_field value = be_bytes 8 (length value) @ value"

definition i64_bytes :: "int \<Rightarrow> string" where
  "i64_bytes x = be_bytes 8 (nat (x mod 2 ^ 64))"

definition i32_bytes :: "int \<Rightarrow> string" where
  "i32_bytes x = be_bytes 4 (nat (x mod 2 ^ 32))"

text \<open>The bytes the digest is updated with, in order.\<close>

definition source_fields ::
  "bigquery_reference \<Rightarrow> pinned_snapshot \<Rightarrow> string list \<Rightarrow> string option \<Rightarrow> string list" where
  "source_fields reference snapshot selected_fields row_restriction =
     [''silk-bqs-source-v1'', tr_resource (br_table reference), i64_bytes (ps_seconds snapshot),
      i32_bytes (ps_nanos snapshot)] @ selected_fields @
     [case row_restriction of None \<Rightarrow> [] | Some restriction \<Rightarrow> restriction]"

definition source_identity_new ::
  "(string \<Rightarrow> string) \<Rightarrow> bigquery_reference \<Rightarrow> pinned_snapshot \<Rightarrow> string list \<Rightarrow> string option \<Rightarrow> string" where
  "source_identity_new sha256 reference snapshot selected_fields row_restriction =
     sha256 (concat (map hash_field (source_fields reference snapshot selected_fields row_restriction)))"

section \<open>Specifications\<close>

datatype session_purpose = Discovery | Execution

datatype arrow_wire_compression = WireLz4 | WireZstd | WireNone

datatype response_compression = ResponseLz4 | ResponseNone

datatype picos_timestamp_precision = Micros | Nanos | Picos

record read_session_spec =
  sp_purpose :: session_purpose
  sp_table_resource :: string
  sp_owner_project :: string
  sp_expected_location :: "string option"
  sp_snapshot :: pinned_snapshot
  sp_selected_fields :: "string list"
  sp_row_restriction :: "string option"
  sp_arrow_wire_compression :: arrow_wire_compression
  sp_response_compression :: response_compression
  sp_picos_timestamp_precision :: picos_timestamp_precision
  sp_max_stream_count :: int
  sp_identity :: string

datatype read_session_spec_error =
    InvalidOwner | InvalidStreamCount | LocationMismatch | InvalidSelectedField | RestrictionTooLarge
  | CompressionConflict

definition max_row_restriction_bytes :: nat where
  "max_row_restriction_bytes = 1048576"

text \<open>\<open>trim\<close> removes Unicode white space; \<open>blank\<close> says that nothing is left.\<close>

definition spec_new ::
  "(string \<Rightarrow> string) \<Rightarrow> (string \<Rightarrow> bool) \<Rightarrow> session_purpose \<Rightarrow> bigquery_reference \<Rightarrow> pinned_snapshot \<Rightarrow> string \<Rightarrow>
   string option \<Rightarrow> string list \<Rightarrow> string option \<Rightarrow> arrow_wire_compression \<Rightarrow> response_compression \<Rightarrow>
   picos_timestamp_precision \<Rightarrow> int \<Rightarrow> (read_session_spec_error, read_session_spec) result" where
  "spec_new sha256 blank purpose reference snapshot owner_project expected_location selected_fields row_restriction
     wire response picos max_stream_count =
     (if \<not> valid_project_text owner_project then Inl InvalidOwner
      else if max_stream_count \<le> 0 then Inl InvalidStreamCount
      else if list_ex blank selected_fields then Inl InvalidSelectedField
      else if (case row_restriction of None \<Rightarrow> False | Some r \<Rightarrow> length r > max_row_restriction_bytes)
      then Inl RestrictionTooLarge
      else if wire \<noteq> WireNone \<and> response \<noteq> ResponseNone then Inl CompressionConflict
      else (let row_restriction = (if row_restriction = Some [] then None else row_restriction) in
        Inr \<lparr>sp_purpose = purpose, sp_table_resource = tr_resource (br_table reference), sp_owner_project = owner_project,
             sp_expected_location = expected_location, sp_snapshot = snapshot, sp_selected_fields = selected_fields,
             sp_row_restriction = row_restriction, sp_arrow_wire_compression = wire, sp_response_compression = response,
             sp_picos_timestamp_precision = picos, sp_max_stream_count = max_stream_count,
             sp_identity = source_identity_new sha256 reference snapshot selected_fields row_restriction\<rparr>))"

definition spec_discovery ::
  "(string \<Rightarrow> string) \<Rightarrow> (string \<Rightarrow> bool) \<Rightarrow> bigquery_reference \<Rightarrow> pinned_snapshot \<Rightarrow> string \<Rightarrow>
   (read_session_spec_error, read_session_spec) result" where
  "spec_discovery sha256 blank reference snapshot owner_project =
     spec_new sha256 blank Discovery reference snapshot owner_project (br_expected_location reference) [] None
       WireNone ResponseNone Micros 1"

definition spec_execution ::
  "(string \<Rightarrow> string) \<Rightarrow> (string \<Rightarrow> bool) \<Rightarrow> bigquery_reference \<Rightarrow> pinned_snapshot \<Rightarrow> string \<Rightarrow> string \<Rightarrow> string list \<Rightarrow>
   string option \<Rightarrow> nat \<Rightarrow> arrow_wire_compression \<Rightarrow> response_compression \<Rightarrow> picos_timestamp_precision \<Rightarrow>
   (read_session_spec_error, read_session_spec) result" where
  "spec_execution sha256 blank reference snapshot owner_project discovered_location selected_fields row_restriction
     max_stream_count wire response picos =
     (if (case br_expected_location reference of None \<Rightarrow> False | Some expected \<Rightarrow> expected \<noteq> discovered_location)
      then Inl LocationMismatch
      else if int max_stream_count > 2147483647 then Inl InvalidStreamCount
      else spec_new sha256 blank Execution reference snapshot owner_project (Some discovered_location) selected_fields
             row_restriction wire response picos (int max_stream_count))"

section \<open>Requests and responses\<close>

text \<open>The protobuf messages, with the numbers of their enumerations.\<close>

datatype serialization_options = ArrowOptions int int | OtherOptions string

record read_options =
  ro_selected_fields :: "string list"
  ro_row_restriction :: string
  ro_sample_percentage :: "string option"
  ro_response_compression_codec :: "int option"
  ro_serialization :: "serialization_options option"

record create_request =
  cr_parent :: string
  cr_data_format :: int
  cr_table :: string
  cr_snapshot_time :: "(int \<times> int) option"
  cr_read_options :: read_options
  cr_max_stream_count :: int
  cr_preferred_min_stream_count :: int

definition snapshot_to_proto :: "pinned_snapshot \<Rightarrow> int \<times> int" where
  "snapshot_to_proto s = (ps_seconds s, ps_nanos s)"

definition data_format_arrow :: int where
  "data_format_arrow = 2"

definition create_request_of :: "read_session_spec \<Rightarrow> create_request" where
  "create_request_of spec =
     (let buffer_compression = (case sp_arrow_wire_compression spec of WireNone \<Rightarrow> 0 | WireLz4 \<Rightarrow> 1 | WireZstd \<Rightarrow> 2);
          picos = (case sp_picos_timestamp_precision spec of Micros \<Rightarrow> 1 | Nanos \<Rightarrow> 2 | Picos \<Rightarrow> 3);
          codec = (case sp_response_compression spec of ResponseNone \<Rightarrow> None | ResponseLz4 \<Rightarrow> Some 2) in
      \<lparr>cr_parent = ''projects/'' @ sp_owner_project spec, cr_data_format = data_format_arrow,
       cr_table = sp_table_resource spec, cr_snapshot_time = Some (snapshot_to_proto (sp_snapshot spec)),
       cr_read_options = \<lparr>ro_selected_fields = sp_selected_fields spec,
         ro_row_restriction = (case sp_row_restriction spec of None \<Rightarrow> [] | Some r \<Rightarrow> r),
         ro_sample_percentage = None, ro_response_compression_codec = codec,
         ro_serialization = Some (ArrowOptions buffer_compression picos)\<rparr>,
       cr_max_stream_count = sp_max_stream_count spec, cr_preferred_min_stream_count = 0\<rparr>)"

datatype session_schema_message = ArrowSchemaMessage string | OtherSchemaMessage string

record read_session =
  se_name :: string
  se_expire_time :: "(int \<times> int) option"
  se_data_format :: int
  se_schema :: "session_schema_message option"
  se_table :: string
  se_snapshot_time :: "(int \<times> int) option option"
  se_read_options :: "read_options option"
  se_streams :: "string list"
  se_estimated_total_bytes_scanned :: int
  se_estimated_total_physical_file_size :: int
  se_estimated_row_count :: int

datatype read_session_error_kind =
    SessionTransport | SourceMismatch | MissingArrowSchema | InvalidArrowSchema | InvalidExpiration
  | InvalidSessionName | InvalidStreams | InvalidEstimates | SessionClockNotMonotonic | InvalidRetryPolicy

record session_name =
  sn_value :: string
  sn_location :: string

record 's session_lease =
  sl_name :: session_name
  sl_streams :: "string list"
  sl_schema :: 's
  sl_conservative_deadline :: duration
  sl_source_identity :: string
  sl_estimated_row_count :: "nat option"
  sl_estimated_total_bytes_scanned :: nat
  sl_estimated_total_physical_file_size :: nat

definition guaranteed_session_lifetime :: duration where
  "guaranteed_session_lifetime = from_secs (6 * 60 * 60)"

definition ascii_control :: "char \<Rightarrow> bool" where
  "ascii_control c \<longleftrightarrow> byte_nat c < 32 \<or> byte_nat c = 127"

definition is_ascii_whitespace :: "char \<Rightarrow> bool" where
  "is_ascii_whitespace c \<longleftrightarrow> byte_nat c \<in> {9, 10, 12, 13, 32}"

definition valid_resource_id :: "string \<Rightarrow> bool" where
  "valid_resource_id value \<longleftrightarrow>
     value \<noteq> [] \<and> list_all is_ascii value \<and>
     list_all (\<lambda>c. \<not> is_ascii_whitespace c \<and> \<not> ascii_control c \<and> c \<noteq> CHR ''/'') value"

definition validate_session_name :: "string \<Rightarrow> string \<Rightarrow> string option \<Rightarrow> (read_session_error_kind, session_name) result" where
  "validate_session_name value owner_project expected_location =
     (case split_on CHR ''/'' value of
        [projects, project, locations, location, sessions, session] \<Rightarrow>
          if projects \<noteq> ''projects'' \<or> locations \<noteq> ''locations'' \<or> sessions \<noteq> ''sessions'' then Inl InvalidSessionName
          else if project \<noteq> owner_project \<or>
             (case expected_location of None \<Rightarrow> False | Some expected \<Rightarrow> expected \<noteq> location) \<or>
             \<not> valid_resource_id location \<or> \<not> valid_resource_id session then Inl InvalidSessionName
          else Inr \<lparr>sn_value = value, sn_location = location\<rparr>
      | _ \<Rightarrow> Inl InvalidSessionName)"

text \<open>The loop over the streams: \<open>seen\<close> holds the names before.\<close>

fun validate_streams :: "string \<Rightarrow> string list \<Rightarrow> string set \<Rightarrow> (read_session_error_kind, string list) result" where
  "validate_streams pre [] seen = Inr []"
| "validate_streams pre (stream # streams) seen =
     (case strip_prefix pre stream of
        None \<Rightarrow> Inl InvalidStreams
      | Some ident \<Rightarrow>
          if \<not> valid_resource_id ident \<or> stream \<in> seen then Inl InvalidStreams
          else res_bind (validate_streams pre streams (insert stream seen)) (\<lambda>rest. Inr (stream # rest)))"

definition validate_source :: "read_session_spec \<Rightarrow> read_session \<Rightarrow> bool" where
  "validate_source spec session \<longleftrightarrow>
     se_data_format session = data_format_arrow \<and> se_table session = sp_table_resource spec \<and>
     Option.bind (se_snapshot_time session) id = Some (snapshot_to_proto (sp_snapshot spec)) \<and>
     (case se_read_options session of None \<Rightarrow> True | Some actual \<Rightarrow> cr_read_options (create_request_of spec) = actual)"

definition validate_response ::
  "(string \<Rightarrow> 's option) \<Rightarrow> read_session_spec \<Rightarrow> read_session \<Rightarrow> duration \<Rightarrow> (read_session_error_kind, 's session_lease) result" where
  "validate_response decode_schema spec session start =
     (if \<not> validate_source spec session then Inl SourceMismatch
      else res_bind
        (case se_schema session of
           Some (ArrowSchemaMessage bytes) \<Rightarrow> if bytes \<noteq> [] then Inr bytes else Inl MissingArrowSchema
         | _ \<Rightarrow> Inl MissingArrowSchema) (\<lambda>serialized_schema.
      res_bind (ok_or InvalidArrowSchema (decode_schema serialized_schema)) (\<lambda>schema.
      res_bind (ok_or InvalidExpiration (se_expire_time session)) (\<lambda>(seconds, nanos).
      res_bind (case pinned_snapshot_new seconds nanos of Inl _ \<Rightarrow> Inl InvalidExpiration | Inr _ \<Rightarrow> Inr ()) (\<lambda>_.
      res_bind (validate_session_name (se_name session) (sp_owner_project spec) (sp_expected_location spec)) (\<lambda>name.
        if int (length (se_streams session)) > sp_max_stream_count spec then Inl InvalidStreams
        else res_bind (validate_streams (se_name session @ ''/streams/'') (se_streams session) {}) (\<lambda>streams.
          if se_estimated_total_bytes_scanned session < 0 \<or> se_estimated_total_physical_file_size session < 0 \<or>
             se_estimated_row_count session < 0 then Inl InvalidEstimates
          else res_bind (ok_or InvalidExpiration (checked_add duration_max start guaranteed_session_lifetime)) (\<lambda>deadline.
            Inr \<lparr>sl_name = name, sl_streams = streams, sl_schema = schema, sl_conservative_deadline = deadline,
                 sl_source_identity = sp_identity spec,
                 sl_estimated_row_count =
                   (if se_estimated_row_count session > 0 then Some (nat (se_estimated_row_count session)) else None),
                 sl_estimated_total_bytes_scanned = nat (se_estimated_total_bytes_scanned session),
                 sl_estimated_total_physical_file_size = nat (se_estimated_total_physical_file_size session)\<rparr>))))))))"

section \<open>Creating a session with retries\<close>

datatype transport_failure =
    StatusFailure grpc_status | CredentialFailure bool | ConfigFailure | ConnectFailure | MetadataFailure

record read_session_error =
  rse_kind :: read_session_error_kind
  rse_transport :: "transport_failure option"

definition session_error_new :: "read_session_error_kind \<Rightarrow> read_session_error" where
  "session_error_new kind = \<lparr>rse_kind = kind, rse_transport = None\<rparr>"

definition session_error_transport :: "transport_failure \<Rightarrow> read_session_error" where
  "session_error_transport failure = \<lparr>rse_kind = SessionTransport, rse_transport = Some failure\<rparr>"

definition session_retry_decision :: "detail_decoders \<Rightarrow> read_session_error \<Rightarrow> retry_decision" where
  "session_retry_decision dec error =
     (case rse_transport error of
        Some (StatusFailure status) \<Rightarrow> classify_create_read_session dec (CreateStatus status)
      | Some (CredentialFailure retryable) \<Rightarrow>
          classify_create_read_session dec (if retryable then CreateTransientCredentials else CreateCredentials)
      | _ \<Rightarrow> classify_create_read_session dec CreateLocalResource)"

record ('w, 's) session_env =
  sv_clock :: "'w \<Rightarrow> duration \<times> 'w"
  sv_create :: "create_request \<Rightarrow> nat \<Rightarrow> 'w \<Rightarrow> (transport_failure + read_session) \<times> 'w"
  sv_sample :: "'w \<Rightarrow> nat \<times> 'w"
  sv_sleep :: "duration \<Rightarrow> 'w \<Rightarrow> 'w"
  sv_schema :: "string \<Rightarrow> 's option"
  sv_decoders :: detail_decoders
  sv_unary_timeout :: duration

definition session_create ::
  "('w, 's) session_env \<Rightarrow> read_session_spec \<Rightarrow> nat \<Rightarrow> 'w \<Rightarrow> (read_session_error, 's session_lease) result \<times> 'w" where
  "session_create env spec attempt w =
     (let (start, w) = sv_clock env w in
      case sv_create env (create_request_of spec) attempt w of
        (Inl failure, w) \<Rightarrow> (Inl (session_error_transport failure), w)
      | (Inr session, w) \<Rightarrow>
          (let (received, w) = sv_clock env w in
           if received < start then (Inl (session_error_new SessionClockNotMonotonic), w)
           else (case validate_response (sv_schema env) spec session start of
                   Inl kind \<Rightarrow> (Inl (session_error_new kind), w)
                 | Inr lease \<Rightarrow> (Inr lease, w))))"

text \<open>
  What follows a failed attempt: the error to return (\<open>Inl\<close>), or the next attempt and the observation
  it follows. The \<open>expect\<close> on the delay of a retry decision is the last branch.
\<close>

definition after_failure ::
  "('w, 's) session_env \<Rightarrow> retry_budget \<Rightarrow> backoff_policy \<Rightarrow> duration \<Rightarrow> nat \<Rightarrow> read_session_error \<Rightarrow> 'w \<Rightarrow>
   (read_session_error, duration \<times> nat) result option \<times> 'w" where
  "after_failure env budget backoff previous attempt error w =
     (let decision = session_retry_decision (sv_decoders env) error in
      if \<not> is_retry decision then (Some (Inl error), w)
      else (let (now, w) = sv_clock env w; (sample, w) = sv_sample env w in
        case full_jitter backoff attempt sample of
          Inl _ \<Rightarrow> (Some (Inl (session_error_new InvalidRetryPolicy)), w)
        | Inr delay \<Rightarrow>
            (case decision_delay decision delay of
               None \<Rightarrow> (None, w)
             | Some retry_delay \<Rightarrow>
                 (case plan_retry budget previous now attempt retry_delay of
                    Inl _ \<Rightarrow> (Some (Inl error), w)
                  | Inr plan \<Rightarrow>
                      (Some (Inr (now, plan_attempt plan)),
                       if plan_delay plan \<noteq> 0 then sv_sleep env (plan_delay plan) w else w)))))"

lemma plan_retry_next_attempt:
  "plan_retry b prev now completed proposed = Inr plan \<Longrightarrow> plan_attempt plan = Suc completed \<and> Suc completed \<le> max_attempts b"
  by (auto simp: plan_retry_def Let_def res_bind_Inr_conv ok_or_Inr_conv checked_add_Some split: if_splits)

lemma after_failure_next:
  "after_failure env budget backoff previous attempt error w = (Some (Inr (now, attempt')), w') \<Longrightarrow>
     attempt' = Suc attempt \<and> attempt' \<le> max_attempts budget"
  by (auto simp: after_failure_def Let_def split: if_splits prod.splits sum.splits option.splits
      dest!: plan_retry_next_attempt)

text \<open>A panic of the loop is \<open>None\<close>.\<close>

function create_loop ::
  "('w, 's) session_env \<Rightarrow> read_session_spec \<Rightarrow> retry_budget \<Rightarrow> backoff_policy \<Rightarrow> duration \<Rightarrow> nat \<Rightarrow> 'w \<Rightarrow>
   (read_session_error, 's session_lease) result option \<times> 'w" where
  "create_loop env spec budget backoff previous attempt w =
     (case session_create env spec attempt w of
        (Inr lease, w) \<Rightarrow> (Some (Inr lease), w)
      | (Inl error, w) \<Rightarrow>
          (case after_failure env budget backoff previous attempt error w of
             (None, w) \<Rightarrow> (None, w)
           | (Some (Inl error), w) \<Rightarrow> (Some (Inl error), w)
           | (Some (Inr (now, attempt)), w) \<Rightarrow> create_loop env spec budget backoff now attempt w))"
  by pat_completeness auto

termination
  by (relation "measure (\<lambda>(env, spec, budget, backoff, previous, attempt, w). max_attempts budget - attempt)")
    (auto dest!: after_failure_next [OF sym])

declare create_loop.simps [simp del]

definition create_with_retry ::
  "('w, 's) session_env \<Rightarrow> read_session_spec \<Rightarrow> retry_budget \<Rightarrow> backoff_policy \<Rightarrow> 'w \<Rightarrow>
   (read_session_error, 's session_lease) result option \<times> 'w" where
  "create_with_retry env spec budget backoff w =
     (let (previous, w) = sv_clock env w in create_loop env spec budget backoff previous 1 w)"

definition open_session ::
  "('w, 's) session_env \<Rightarrow> read_session_spec \<Rightarrow> 'w \<Rightarrow> (read_session_error, 's session_lease) result option \<times> 'w" where
  "open_session env spec w =
     (let (start, w) = sv_clock env w in
      case create_read_session_budget start (sv_unary_timeout env) of
        Inl _ \<Rightarrow> (Some (Inl (session_error_new InvalidRetryPolicy)), w)
      | Inr budget \<Rightarrow> create_with_retry env spec budget create_read_session_policy w)"

section \<open>Byte strings of fixed width\<close>

lemma be_bytes_length [simp]: "length (be_bytes n x) = n"
  by (induction n) simp_all

definition be_value :: "string \<Rightarrow> nat" where
  "be_value bs = foldl (\<lambda>a c. 256 * a + of_char c) 0 bs"

lemma be_value_bytes: "be_value (be_bytes n x) = x mod 256 ^ n"
proof -
  have "foldl (\<lambda>a c. 256 * a + of_char c) a (be_bytes n x) = a * 256 ^ n + x mod 256 ^ n" for a
  proof (induction n arbitrary: a)
    case (Suc n)
    have "x mod (256 ^ n * 256) = 256 ^ n * (x div 256 ^ n mod 256) + x mod 256 ^ n" by (rule mod_mult2_eq)
    then show ?case using Suc by (simp add: algebra_simps)
  qed simp
  then show ?thesis by (simp add: be_value_def)
qed

lemma be_bytes_inject: "x < 256 ^ n \<Longrightarrow> y < 256 ^ n \<Longrightarrow> be_bytes n x = be_bytes n y \<Longrightarrow> x = y"
  using be_value_bytes by (metis mod_less)

lemma i64_bytes_inject:
  assumes "- 62135596800 \<le> x" "x \<le> 253402300799" "- 62135596800 \<le> y" "y \<le> 253402300799" "i64_bytes x = i64_bytes y"
  shows "x = y"
proof -
  have "nat (z mod 2 ^ 64) < 256 ^ 8" for z :: int by (simp add: nat_less_iff)
  then have "nat (x mod 2 ^ 64) = nat (y mod 2 ^ 64)"
    using assms(5) be_bytes_inject unfolding i64_bytes_def by blast
  then have "x mod 2 ^ 64 = y mod 2 ^ 64" by (simp add: eq_nat_nat_iff)
  then have "(x + 62135596800) mod 2 ^ 64 = (y + 62135596800) mod 2 ^ 64" by (rule mod_add_cong) simp
  then show ?thesis using assms(1-4) by simp
qed

lemma i32_bytes_inject:
  assumes "0 \<le> x" "x < 1000000000" "0 \<le> y" "y < 1000000000" "i32_bytes x = i32_bytes y"
  shows "x = y"
proof -
  have "nat (z mod 2 ^ 32) < 256 ^ 4" for z :: int by (simp add: nat_less_iff)
  then have "nat (x mod 2 ^ 32) = nat (y mod 2 ^ 32)"
    using assms(5) be_bytes_inject unfolding i32_bytes_def by blast
  then show ?thesis using assms(1-4) by simp
qed

lemma hash_field_append:
  assumes "length v < 2 ^ 64" "length w < 2 ^ 64" "hash_field v @ r = hash_field w @ s"
  shows "v = w \<and> r = s"
proof -
  have "be_bytes 8 (length v) = be_bytes 8 (length w)" "v @ r = w @ s"
    using assms(3) by (simp_all add: hash_field_def append_eq_append_conv)
  moreover have "length v = length w"
    by (rule be_bytes_inject [OF _ _ calculation(1)]) (use assms(1,2) in simp_all)
  ultimately show ?thesis by simp
qed

lemma hash_field_nonempty: "hash_field v \<noteq> []"
proof -
  have "length (hash_field v) = 8 + length v" by (simp add: hash_field_def)
  then show ?thesis by auto
qed

lemma hash_fields_inject:
  assumes "\<forall>v \<in> set vs. length v < 2 ^ 64" "\<forall>w \<in> set ws. length w < 2 ^ 64"
    and "concat (map hash_field vs) = concat (map hash_field ws)"
  shows "vs = ws"
  using assms
proof (induction vs arbitrary: ws)
  case Nil
  then show ?case by (cases ws) (auto simp: hash_field_nonempty)
next
  case (Cons v vs)
  have "ws \<noteq> []" using Cons.prems(3) hash_field_nonempty [of v] by auto
  then obtain w ws' where ws: "ws = w # ws'" by (cases ws) auto
  have fields: "hash_field v @ concat (map hash_field vs) = hash_field w @ concat (map hash_field ws')"
    using Cons.prems(3) ws by simp
  have "v = w \<and> concat (map hash_field vs) = concat (map hash_field ws')"
    by (rule hash_field_append [OF _ _ fields]) (use Cons.prems(1,2) ws in simp_all)
  then show ?case using Cons.IH [of ws'] Cons.prems(1,2) ws by simp
qed

section \<open>What the checks accept\<close>

lemma validate_streams_Inr:
  "validate_streams pre streams seen = Inr out \<longleftrightarrow>
     out = streams \<and> distinct streams \<and> set streams \<inter> seen = {} \<and>
     (\<forall>s \<in> set streams. \<exists>i. s = pre @ i \<and> valid_resource_id i)"
proof (induction streams arbitrary: seen out)
  case (Cons s streams)
  show ?case
  proof (cases "strip_prefix pre s")
    case None
    then have "\<nexists>i. s = pre @ i" by (metis option.distinct(1) strip_prefix_Some)
    then show ?thesis using None by auto
  next
    case (Some i)
    then have s: "s = pre @ i" by (simp add: strip_prefix_Some)
    show ?thesis using Some s Cons.IH by (auto simp: res_bind_Inr_conv)
  qed
qed auto

definition name_parts :: "string \<Rightarrow> string \<Rightarrow> string \<Rightarrow> string list" where
  "name_parts project location session = [''projects'', project, ''locations'', location, ''sessions'', session]"

lemma validate_session_name_Inr:
  "validate_session_name value project expected = Inr n \<longleftrightarrow>
     (\<exists>location session. split_on CHR ''/'' value = name_parts project location session \<and>
        (expected = None \<or> expected = Some location) \<and> valid_resource_id location \<and> valid_resource_id session \<and>
        n = \<lparr>sn_value = value, sn_location = location\<rparr>)"
  by (auto simp: validate_session_name_def name_parts_def split: list.splits if_splits option.splits)

text \<open>The answer of the service is the session that was asked for.\<close>

definition session_answers :: "read_session_spec \<Rightarrow> read_session \<Rightarrow> string \<Rightarrow> bool" where
  "session_answers spec session location \<longleftrightarrow>
     se_data_format session = 2 \<and> se_table session = sp_table_resource spec \<and>
     se_snapshot_time session = Some (Some (ps_seconds (sp_snapshot spec), ps_nanos (sp_snapshot spec))) \<and>
     (se_read_options session = None \<or> se_read_options session = Some (cr_read_options (create_request_of spec))) \<and>
     (\<exists>seconds nanos. se_expire_time session = Some (seconds, nanos) \<and> is_ok (pinned_snapshot_new seconds nanos)) \<and>
     (\<exists>ident. split_on CHR ''/'' (se_name session) = name_parts (sp_owner_project spec) location ident \<and> valid_resource_id ident) \<and>
     valid_resource_id location \<and> (sp_expected_location spec = None \<or> sp_expected_location spec = Some location) \<and>
     int (length (se_streams session)) \<le> sp_max_stream_count spec \<and> distinct (se_streams session) \<and>
     (\<forall>s \<in> set (se_streams session). \<exists>i. s = se_name session @ ''/streams/'' @ i \<and> valid_resource_id i) \<and>
     0 \<le> se_estimated_total_bytes_scanned session \<and> 0 \<le> se_estimated_total_physical_file_size session \<and>
     0 \<le> se_estimated_row_count session"

definition lease_of :: "read_session_spec \<Rightarrow> read_session \<Rightarrow> string \<Rightarrow> 's \<Rightarrow> duration \<Rightarrow> 's session_lease" where
  "lease_of spec session location schema start =
     \<lparr>sl_name = \<lparr>sn_value = se_name session, sn_location = location\<rparr>, sl_streams = se_streams session, sl_schema = schema,
      sl_conservative_deadline = start + guaranteed_session_lifetime, sl_source_identity = sp_identity spec,
      sl_estimated_row_count =
        (if se_estimated_row_count session > 0 then Some (nat (se_estimated_row_count session)) else None),
      sl_estimated_total_bytes_scanned = nat (se_estimated_total_bytes_scanned session),
      sl_estimated_total_physical_file_size = nat (se_estimated_total_physical_file_size session)\<rparr>"

lemma validate_source_conv:
  "validate_source spec session \<longleftrightarrow>
     se_data_format session = 2 \<and> se_table session = sp_table_resource spec \<and>
     se_snapshot_time session = Some (Some (ps_seconds (sp_snapshot spec), ps_nanos (sp_snapshot spec))) \<and>
     (se_read_options session = None \<or> se_read_options session = Some (cr_read_options (create_request_of spec)))"
  by (cases "se_snapshot_time session"; cases "se_read_options session")
    (auto simp: validate_source_def data_format_arrow_def snapshot_to_proto_def)

lemma validate_response_Inr:
  "validate_response decode_schema spec session start = Inr lease \<longleftrightarrow>
     (\<exists>location bytes schema. session_answers spec session location \<and>
        se_schema session = Some (ArrowSchemaMessage bytes) \<and> bytes \<noteq> [] \<and> decode_schema bytes = Some schema \<and>
        start + guaranteed_session_lifetime \<le> duration_max \<and> lease = lease_of spec session location schema start)"
proof -
  have schema: "(case se_schema session of
           Some (ArrowSchemaMessage bytes) \<Rightarrow> if bytes \<noteq> [] then Inr bytes else Inl MissingArrowSchema
         | _ \<Rightarrow> Inl MissingArrowSchema) = Inr b \<longleftrightarrow> se_schema session = Some (ArrowSchemaMessage b) \<and> b \<noteq> []" for b
    by (auto split: option.splits session_schema_message.splits)
  have time: "(case pinned_snapshot_new seconds nanos of Inl _ \<Rightarrow> Inl InvalidExpiration | Inr _ \<Rightarrow> Inr ()) = Inr u \<longleftrightarrow>
      is_ok (pinned_snapshot_new seconds nanos)" for seconds nanos u
    by (auto simp: is_ok_conv split: sum.splits)
  show ?thesis
    by (auto simp: validate_response_def res_bind_Inr_conv ok_or_Inr_conv schema time validate_source_conv session_answers_def
        validate_session_name_Inr validate_streams_Inr checked_add_Some lease_of_def split: if_splits prod.splits)
qed

lemma decision_delay_retry: "is_retry decision \<Longrightarrow> decision_delay decision delay \<noteq> None"
  by (cases "(decision, delay)" rule: decision_delay.cases) (simp_all add: is_retry_def)

lemma after_failure_no_panic: "after_failure env budget backoff previous attempt error w \<noteq> (None, w')"
  by (auto simp: after_failure_def Let_def decision_delay_retry split: prod.splits sum.splits option.splits if_splits
      dest: decision_delay_retry)

text \<open>A lease that one call of the service justifies: its clock was read before the call.\<close>

definition justified_lease :: "('w, 's) session_env \<Rightarrow> read_session_spec \<Rightarrow> 's session_lease \<Rightarrow> bool" where
  "justified_lease env spec lease \<longleftrightarrow>
     (\<exists>w1 start w2 attempt session w3 location bytes schema.
        sv_clock env w1 = (start, w2) \<and> sv_create env (create_request_of spec) attempt w2 = (Inr session, w3) \<and>
        session_answers spec session location \<and> se_schema session = Some (ArrowSchemaMessage bytes) \<and>
        sv_schema env bytes = Some schema \<and> lease = lease_of spec session location schema start)"

lemma session_create_lease:
  assumes "session_create env spec attempt w = (Inr lease, w')"
  shows "justified_lease env spec lease"
proof -
  obtain start w2 where clock: "sv_clock env w = (start, w2)" by fastforce
  obtain x w3 where call: "sv_create env (create_request_of spec) attempt w2 = (x, w3)" by fastforce
  obtain received w4 where clock': "sv_clock env w3 = (received, w4)" by fastforce
  obtain session where x: "x = Inr session" using assms clock call by (cases x) (simp_all add: session_create_def)
  have "validate_response (sv_schema env) spec session start = Inr lease"
    using assms clock call clock' x by (auto simp: session_create_def split: if_splits sum.splits)
  then show ?thesis using clock call x unfolding validate_response_Inr justified_lease_def by blast
qed

lemma create_loop_result:
  assumes "create_loop env spec budget backoff previous attempt w = (r, w')"
  shows "\<exists>x. r = Some x \<and> (\<forall>lease. x = Inr lease \<longrightarrow> justified_lease env spec lease)"
  using assms
proof (induction env spec budget backoff previous attempt w rule: create_loop.induct)
  case (1 env spec budget backoff previous attempt w)
  obtain a w1 where a: "session_create env spec attempt w = (a, w1)" by fastforce
  note step = 1(2) [unfolded create_loop.simps [of env spec budget backoff previous attempt w] a prod.case]
  show ?case
  proof (cases a)
    case (Inr lease)
    then show ?thesis using step a session_create_lease by auto
  next
    case (Inl error)
    obtain b w2 where b: "after_failure env budget backoff previous attempt error w1 = (b, w2)" by fastforce
    then obtain y where y: "b = Some y" by (cases b) (auto simp: after_failure_no_panic)
    show ?thesis
    proof (cases y)
      case (Inl e)
      then show ?thesis using step b y \<open>a = Inl error\<close> by auto
    next
      case (Inr z)
      obtain now attempt' where z: "z = (now, attempt')" by fastforce
      have "create_loop env spec budget backoff now attempt' w2 = (r, w')"
        using step b y \<open>a = Inl error\<close> Inr z by simp
      then show ?thesis using 1(1) [OF a [symmetric] Inl b [symmetric] y Inr z [symmetric]] z by simp
    qed
  qed
qed

lemma session_retry_kinds:
  "is_retry (session_retry_decision dec error) \<longleftrightarrow>
     rse_transport error = Some (CredentialFailure True) \<or>
     (\<exists>status. rse_transport error = Some (StatusFailure status) \<and> is_ok (status_details_parse dec status) \<and>
        status_code status \<in> {DeadlineExceeded, Unavailable})"
  by (auto simp: session_retry_decision_def classify_create_status_retry split: option.splits transport_failure.splits)

lemma create_budget:
  assumes "create_read_session_budget start timeout = Inr budget"
  shows "budget_ok budget" "effective_deadline budget = start + from_secs 600" "attempt_timeout budget = timeout"
  using budget_new_Inr [OF assms [unfolded create_read_session_budget_def]]
  by (simp_all add: effective_deadline_def create_read_session_retry_window_def)

lemma after_failure_retry:
  assumes "budget_ok budget" "after_failure env budget backoff previous attempt error w = (Some (Inr (now, attempt')), w')"
  shows "is_retry (session_retry_decision (sv_decoders env) error) \<and>
    (\<exists>w1 sample w2 delay d r. sv_clock env w = (now, w1) \<and> sv_sample env w1 = (sample, w2) \<and>
       w' = (if d \<noteq> 0 then sv_sleep env d w2 else w2) \<and> previous \<le> now \<and> attempt' = Suc attempt \<and>
       now + attempt_timeout budget \<le> effective_deadline budget \<and>
       decision_delay (session_retry_decision (sv_decoders env) error) delay = Some r \<and>
       spec_delay (effective_deadline budget - attempt_timeout budget - now) r = Some d)"
proof -
  have retry: "is_retry (session_retry_decision (sv_decoders env) error)"
  proof (rule ccontr)
    assume "\<not> is_retry (session_retry_decision (sv_decoders env) error)"
    then show False using assms(2) by (simp add: after_failure_def)
  qed
  obtain now' w1 where clock: "sv_clock env w = (now', w1)" by fastforce
  obtain sample w2 where sample: "sv_sample env w1 = (sample, w2)" by fastforce
  note step = assms(2) [unfolded after_failure_def Let_def clock sample prod.case]
  obtain delay where delay: "full_jitter backoff attempt sample = Inr delay"
    using step retry by (cases "full_jitter backoff attempt sample") simp_all
  obtain r where r: "decision_delay (session_retry_decision (sv_decoders env) error) delay = Some r"
    using decision_delay_retry [OF retry] by blast
  obtain plan where plan: "plan_retry budget previous now' attempt r = Inr plan"
    using step retry delay r by (cases "plan_retry budget previous now' attempt r") simp_all
  have out: "now = now'" "attempt' = plan_attempt plan"
    "w' = (if plan_delay plan \<noteq> 0 then sv_sleep env (plan_delay plan) w2 else w2)"
    using step retry delay r plan by simp_all
  note p = plan [unfolded plan_retry_Inr_iff [OF assms(1)]]
  then obtain d where d: "spec_delay (effective_deadline budget - attempt_timeout budget - now') r = Some d" "plan_delay plan = d"
    "plan_attempt plan = Suc attempt" by auto
  have "w' = (if d \<noteq> 0 then sv_sleep env d w2 else w2)" "attempt' = Suc attempt" using out(2,3) d(2,3) by simp_all
  moreover have "previous \<le> now" "now + attempt_timeout budget \<le> effective_deadline budget" using p out(1) by simp_all
  ultimately show ?thesis using retry clock sample r out(1) d(1) by blast
qed

lemma decision_delay_server:
  "decision_delay decision delay = Some r \<Longrightarrow> spec_delay room r = Some d \<Longrightarrow> delay_of_decision decision = Some server \<Longrightarrow> server \<le> d"
  by (cases "(decision, delay)" rule: decision_delay.cases) (auto simp: spec_delay_def split: if_splits)


text \<open>
  C21: Opening a session always returns, without a panic, whatever the service, the clock and the
  retries do; and a lease it returns is one that a call of the service justifies: the request of this very
  specification was sent, the answer is the table at the snapshot with the options asked for, its streams are
  distinct and belong to it, and the lease is taken to end six hours after a clock reading made before
  the call, so never after the lifetime the service guarantees.
\<close>

theorem opened_session_is_the_one_asked_for:
  "\<exists>x w'. open_session env spec w = (Some x, w') \<and> (\<forall>lease. x = Inr lease \<longrightarrow> justified_lease env spec lease)"
proof -
  obtain start w1 where clock: "sv_clock env w = (start, w1)" by fastforce
  show ?thesis
  proof (cases "create_read_session_budget start (sv_unary_timeout env)")
    case (Inl e)
    then show ?thesis using clock by (simp add: open_session_def)
  next
    case (Inr budget)
    obtain previous w2 where clock': "sv_clock env w1 = (previous, w2)" by fastforce
    obtain r w' where loop: "create_loop env spec budget create_read_session_policy previous 1 w2 = (r, w')" by fastforce
    show ?thesis using create_loop_result [OF loop] clock clock' Inr loop
      by (auto simp: open_session_def create_with_retry_def)
  qed
qed

text \<open>
  C22: The answer of the service is accepted exactly when it is the session that was asked for: Arrow
  data of the same table at the same snapshot with the same read options, a valid expiry, a name under the
  owner's project in the expected location, at most as many streams as asked for, all different and of this session, no
  negative estimate, and a schema that decodes; the lease then holds exactly what the answer says.
\<close>

theorem session_accepted_exactly:
  "validate_response decode_schema spec session start = Inr lease \<longleftrightarrow>
     (\<exists>location bytes schema. session_answers spec session location \<and>
        se_schema session = Some (ArrowSchemaMessage bytes) \<and> bytes \<noteq> [] \<and> decode_schema bytes = Some schema \<and>
        start + guaranteed_session_lifetime \<le> duration_max \<and> lease = lease_of spec session location schema start)"
  by (rule validate_response_Inr)

definition spec_bytes :: "read_session_spec \<Rightarrow> string" where
  "spec_bytes spec = concat (map hash_field
     ([''silk-bqs-source-v1'', sp_table_resource spec, i64_bytes (ps_seconds (sp_snapshot spec)),
       i32_bytes (ps_nanos (sp_snapshot spec))] @ sp_selected_fields spec @
      [case sp_row_restriction spec of None \<Rightarrow> [] | Some r \<Rightarrow> r]))"

lemma spec_new_Inr:
  assumes "spec_new sha256 blank purpose reference snapshot owner expected selected restriction wire response picos count = Inr spec"
  shows "sp_identity spec = sha256 (spec_bytes spec) \<and> sp_table_resource spec = tr_resource (br_table reference) \<and>
    sp_snapshot spec = snapshot \<and> sp_selected_fields spec = selected \<and> sp_row_restriction spec \<noteq> Some [] \<and>
    (\<forall>r. sp_row_restriction spec = Some r \<longrightarrow> length r \<le> max_row_restriction_bytes) \<and> 0 < sp_max_stream_count spec \<and>
    (wire = WireNone \<or> response = ResponseNone)"
  using assms
  by (auto simp: spec_new_def Let_def spec_bytes_def source_identity_new_def source_fields_def not_less split: if_splits)

definition same_source :: "read_session_spec \<Rightarrow> read_session_spec \<Rightarrow> bool" where
  "same_source a b \<longleftrightarrow>
     sp_table_resource a = sp_table_resource b \<and> sp_snapshot a = sp_snapshot b \<and>
     sp_selected_fields a = sp_selected_fields b \<and> sp_row_restriction a = sp_row_restriction b"

definition sized :: "read_session_spec \<Rightarrow> bool" where
  "sized spec \<longleftrightarrow> length (sp_table_resource spec) < 2 ^ 64 \<and> list_all (\<lambda>f. length f < 2 ^ 64) (sp_selected_fields spec)"

lemma spec_bytes_inject:
  assumes "spec_bytes a = spec_bytes b" "sized a" "sized b" "snapshot_ok (sp_snapshot a)" "snapshot_ok (sp_snapshot b)"
    and "sp_row_restriction a \<noteq> Some []" "sp_row_restriction b \<noteq> Some []"
    and "\<forall>r. sp_row_restriction a = Some r \<longrightarrow> length r \<le> max_row_restriction_bytes"
    and "\<forall>r. sp_row_restriction b = Some r \<longrightarrow> length r \<le> max_row_restriction_bytes"
  shows "same_source a b"
proof -
  let ?f = "\<lambda>s. [''silk-bqs-source-v1'', sp_table_resource s, i64_bytes (ps_seconds (sp_snapshot s)),
       i32_bytes (ps_nanos (sp_snapshot s))] @ sp_selected_fields s @
      [case sp_row_restriction s of None \<Rightarrow> [] | Some r \<Rightarrow> r]"
  have small: "\<forall>v \<in> set (?f s). length v < 2 ^ 64"
    if "sized s" "\<forall>r. sp_row_restriction s = Some r \<longrightarrow> length r \<le> max_row_restriction_bytes" for s
    using that by (auto simp: sized_def list_all_iff i64_bytes_def i32_bytes_def max_row_restriction_bytes_def
        split: option.splits)
  have "?f a = ?f b"
    by (rule hash_fields_inject [OF small small]) (use assms in \<open>simp_all add: spec_bytes_def\<close>)
  then have eq: "sp_table_resource a = sp_table_resource b"
    "i64_bytes (ps_seconds (sp_snapshot a)) = i64_bytes (ps_seconds (sp_snapshot b))"
    "i32_bytes (ps_nanos (sp_snapshot a)) = i32_bytes (ps_nanos (sp_snapshot b))"
    "sp_selected_fields a = sp_selected_fields b"
    "(case sp_row_restriction a of None \<Rightarrow> [] | Some r \<Rightarrow> r) = (case sp_row_restriction b of None \<Rightarrow> [] | Some r \<Rightarrow> r)"
    by simp_all
  have seconds: "- 62135596800 \<le> ps_seconds s \<and> ps_seconds s \<le> 253402300799" if "snapshot_ok s" for s
    using that by (auto simp: snapshot_ok_def in_protobuf_range_def instant_def)
  have "ps_seconds (sp_snapshot a) = ps_seconds (sp_snapshot b)"
    using i64_bytes_inject eq(2) seconds assms(4,5) by blast
  moreover have "ps_nanos (sp_snapshot a) = ps_nanos (sp_snapshot b)"
    using i32_bytes_inject eq(3) assms(4,5) by (auto simp: snapshot_ok_def)
  moreover have "sp_row_restriction a = sp_row_restriction b"
    using eq(5) assms(6,7) by (auto split: option.splits)
  ultimately show ?thesis using eq(1,4) by (simp add: same_source_def)
qed

text \<open>
  C25: The identity of a source tells sources apart. For two specifications that were accepted, the
  bytes that are hashed are equal only if both read the same table at the same snapshot with the same fields and the
  same row restriction: every part is framed by its length, so no part can take over bytes of the next. So the
  identities agree exactly when the sources do, unless SHA-256 collides on these two inputs.
\<close>

theorem source_identity_tells_sources_apart:
  assumes "spec_new sha256 blank purpose reference snapshot owner expected selected restriction wire response picos count = Inr a"
    and "spec_new sha256 blank purpose' reference' snapshot' owner' expected' selected' restriction' wire' response' picos' count' = Inr b"
    and "snapshot_ok snapshot" "snapshot_ok snapshot'" "sized a" "sized b"
    and "sha256 (spec_bytes a) = sha256 (spec_bytes b) \<Longrightarrow> spec_bytes a = spec_bytes b"
  shows "sp_identity a = sp_identity b \<longleftrightarrow> same_source a b"
proof
  note a = spec_new_Inr [OF assms(1)] and b = spec_new_Inr [OF assms(2)]
  assume "sp_identity a = sp_identity b"
  then have "sha256 (spec_bytes a) = sha256 (spec_bytes b)" using a b by simp
  then have "spec_bytes a = spec_bytes b" by (rule assms(7))
  then show "same_source a b"
    by (rule spec_bytes_inject) (use a b assms(3-6) in simp_all)
next
  note a = spec_new_Inr [OF assms(1)] and b = spec_new_Inr [OF assms(2)]
  assume "same_source a b"
  then have "spec_bytes a = spec_bytes b" by (simp add: spec_bytes_def same_source_def)
  then show "sp_identity a = sp_identity b" using a b by simp
qed

section \<open>Concrete sources\<close>

definition demo_source :: bigquery_reference where
  "demo_source = \<lparr>br_table = \<lparr>tr_project_id = ''p'', tr_dataset_id = ''d'', tr_table_id = ''t'',
       tr_resource = ''projects/p/datasets/d/tables/t''\<rparr>, br_snapshot = None, br_expected_location = None\<rparr>"

definition demo_instant :: pinned_snapshot where
  "demo_instant = \<lparr>ps_seconds = 1700000000, ps_nanos = 5\<rparr>"

definition demo_spec :: "string list \<Rightarrow> string option \<Rightarrow> read_session_spec" where
  "demo_spec selected restriction =
     \<lparr>sp_purpose = Execution, sp_table_resource = ''projects/p/datasets/d/tables/t'', sp_owner_project = ''p'',
      sp_expected_location = Some ''EU'', sp_snapshot = demo_instant, sp_selected_fields = selected,
      sp_row_restriction = restriction, sp_arrow_wire_compression = WireLz4, sp_response_compression = ResponseNone,
      sp_picos_timestamp_precision = Micros, sp_max_stream_count = 2,
      sp_identity = source_identity_new (\<lambda>bytes. bytes) demo_source demo_instant selected restriction\<rparr>"

lemma demo_spec_new:
  "list_all (\<lambda>f. f \<noteq> []) selected \<Longrightarrow> restriction \<noteq> Some [] \<Longrightarrow>
     (\<forall>r. restriction = Some r \<longrightarrow> length r \<le> max_row_restriction_bytes) \<Longrightarrow>
     spec_new (\<lambda>bytes. bytes) (\<lambda>f. f = []) Execution demo_source demo_instant ''p'' (Some ''EU'') selected restriction
       WireLz4 ResponseNone Micros 2 = Inr (demo_spec selected restriction)"
  by (auto simp: spec_new_def demo_spec_def demo_source_def valid_project_text_def ascii_defs list_ex_iff list_all_iff
      split: option.splits)

text \<open>A field and a restriction are not mistaken for two fields.\<close>

theorem source_identity_tells_sources_apart_witness:
  "sp_identity (demo_spec [''a''] (Some ''b'')) \<noteq> sp_identity (demo_spec [''a'', ''b''] None)"
proof -
  have a: "spec_new (\<lambda>bytes. bytes) (\<lambda>f. f = []) Execution demo_source demo_instant ''p'' (Some ''EU'') [''a''] (Some ''b'')
       WireLz4 ResponseNone Micros 2 = Inr (demo_spec [''a''] (Some ''b''))"
    by (rule demo_spec_new) (simp_all add: max_row_restriction_bytes_def)
  have b: "spec_new (\<lambda>bytes. bytes) (\<lambda>f. f = []) Execution demo_source demo_instant ''p'' (Some ''EU'') [''a'', ''b''] None
       WireLz4 ResponseNone Micros 2 = Inr (demo_spec [''a'', ''b''] None)"
    by (rule demo_spec_new) simp_all
  have ok: "snapshot_ok demo_instant" by (simp add: snapshot_ok_def demo_instant_def in_protobuf_range_def instant_def)
  have sized: "sized (demo_spec [''a''] (Some ''b''))" "sized (demo_spec [''a'', ''b''] None)"
    by (simp_all add: sized_def demo_spec_def)
  have "\<not> same_source (demo_spec [''a''] (Some ''b'')) (demo_spec [''a'', ''b''] None)"
    by (simp add: same_source_def demo_spec_def)
  then show ?thesis using source_identity_tells_sources_apart [OF a b ok ok sized] by simp
qed

text \<open>A world that is a clock; a request takes a second, the first one finds the service unavailable.\<close>

definition demo_answer :: read_session where
  "demo_answer = \<lparr>se_name = ''projects/p/locations/EU/sessions/s'', se_expire_time = Some (1700021600, 0),
     se_data_format = 2, se_schema = Some (ArrowSchemaMessage ''x''), se_table = ''projects/p/datasets/d/tables/t'',
     se_snapshot_time = Some (Some (1700000000, 5)), se_read_options = None,
     se_streams = [''projects/p/locations/EU/sessions/s/streams/0'', ''projects/p/locations/EU/sessions/s/streams/1''],
     se_estimated_total_bytes_scanned = 10, se_estimated_total_physical_file_size = 20, se_estimated_row_count = 0\<rparr>"

definition unavailable :: grpc_status where
  "unavailable = \<lparr>status_code = Unavailable, status_details = [], status_sources = []\<rparr>"

definition demo_session_env :: "(nat, string) session_env" where
  "demo_session_env = \<lparr>sv_clock = (\<lambda>w. (w, w)),
     sv_create = (\<lambda>r a w. (if a = 1 then Inl (StatusFailure unavailable) else Inr demo_answer, w + 1000000000)),
     sv_sample = (\<lambda>w. (umax 64, w)), sv_sleep = (\<lambda>d w. w + d), sv_schema = Some,
     sv_decoders = sample_decoders, sv_unary_timeout = from_secs 60\<rparr>"

lemma demo_after_failure:
  "after_failure demo_session_env session_budget create_read_session_policy 0 1
     (session_error_transport (StatusFailure unavailable)) 1000000000 =
   (Some (Inr (1000000000, 2)), 1100000000)"
proof -
  have c: "session_retry_decision sample_decoders (session_error_transport (StatusFailure unavailable)) =
      Retry CreateReadSession GrpcUnavailable None"
    by (simp add: session_retry_decision_def session_error_transport_def classify_create_status_def
        status_details_parse_def unavailable_def)
  have j: "full_jitter create_read_session_policy 1 (umax 64) = Inr 100000000"
    by (simp add: full_jitter_def delay_cap_def create_read_session_policy_def checked_mul_def duration_from_nanos_def duration_defs)
  have p: "plan_retry session_budget 0 1000000000 1 (Backoff 100000000) =
      Inr \<lparr>plan_scope = CreateReadSession, plan_attempt = 2, plan_delay = 100000000, plan_attempt_timeout = from_secs 60,
        plan_attempt_deadline = 61100000000\<rparr>"
    by (simp add: plan_retry_def session_budget_def effective_deadline_def duration_defs checked_add_def checked_sub_def Let_def)
  have e: "sv_clock demo_session_env w = (w, w)" "sv_sample demo_session_env w = (umax 64, w)"
    "sv_sleep demo_session_env d w = w + d" "sv_decoders demo_session_env = sample_decoders" for w d
    by (simp_all add: demo_session_env_def)
  show ?thesis
    unfolding after_failure_def Let_def e prod.case c j sum.case decision_delay.simps option.case p by simp
qed


lemma demo_answers: "session_answers (demo_spec [''a''] None) demo_answer ''EU''"
  by (auto simp: session_answers_def demo_spec_def demo_answer_def demo_instant_def name_parts_def is_ok_conv
      pinned_snapshot_new_Inr in_protobuf_range_def valid_resource_id_def is_ascii_whitespace_def ascii_control_def ascii_defs)

lemma demo_lease:
  "session_create demo_session_env (demo_spec [''a''] None) 2 1100000000 =
     (Inr (lease_of (demo_spec [''a''] None) demo_answer ''EU'' ''x'' 1100000000), 2100000000)"
proof -
  have "validate_response (Some :: string \<Rightarrow> string option) (demo_spec [''a''] None) demo_answer 1100000000 =
      Inr (lease_of (demo_spec [''a''] None) demo_answer ''EU'' ''x'' 1100000000)"
    unfolding validate_response_Inr
    by (intro exI [of _ "''EU''"] exI [of _ "''x''"] conjI demo_answers)
      (simp_all add: demo_answer_def guaranteed_session_lifetime_def duration_defs)
  then show ?thesis by (simp add: session_create_def demo_session_env_def)
qed

lemma demo_opened:
  "open_session demo_session_env (demo_spec [''a''] None) 0 =
     (Some (Inr (lease_of (demo_spec [''a''] None) demo_answer ''EU'' ''x'' 1100000000)), 2100000000)"
proof -
  have first: "session_create demo_session_env (demo_spec [''a''] None) 1 0 =
      (Inl (session_error_transport (StatusFailure unavailable)), 1000000000)"
    by (simp add: session_create_def demo_session_env_def)
  have env: "sv_clock demo_session_env w = (w, w)" "sv_unary_timeout demo_session_env = from_secs 60" for w
    by (simp_all add: demo_session_env_def)
  show ?thesis
    unfolding open_session_def create_with_retry_def Let_def env prod.case session_budget_created sum.case
      create_loop.simps [of _ _ _ _ _ 1] first demo_after_failure option.case
      create_loop.simps [of _ _ _ _ _ 2] demo_lease ..
qed

theorem opened_session_is_the_one_asked_for_witness:
  "justified_lease demo_session_env (demo_spec [''a''] None)
     (lease_of (demo_spec [''a''] None) demo_answer ''EU'' ''x'' 1100000000)"
  using opened_session_is_the_one_asked_for [of demo_session_env "demo_spec [''a''] None" 0] unfolding demo_opened by blast

end
