(* ===== verification/Arrow_Layout.thy ===== *)
theory Arrow_Layout
  imports Silk_Prelude "HOL-Library.Multiset"
begin

text \<open>
  Reading Arrow IPC files (\<open>crates/silk-chiffon-format-arrow/src/input/mod.rs\<close>): the layout of a file, the blocks a byte-range
  partition owns, and the reader that turns them into batches within a memory reservation.

  The object store, the memory pool and the decoders of the \<open>arrow\<close> crate are parameters; \<open>'w\<close> is the state
  of the world that store and pool act on, \<open>'e\<close> their errors.
\<close>

section \<open>Effects\<close>

definition io_bind ::
  "('w \<Rightarrow> ('e + 'a) \<times> 'w) \<Rightarrow> ('a \<Rightarrow> 'w \<Rightarrow> ('e + 'b) \<times> 'w) \<Rightarrow> 'w \<Rightarrow> ('e + 'b) \<times> 'w" where
  "io_bind m f w = (case m w of (Inl e, w) \<Rightarrow> (Inl e, w) | (Inr x, w) \<Rightarrow> f x w)"

definition io_lift :: "'e + 'a \<Rightarrow> 'w \<Rightarrow> ('e + 'a) \<times> 'w" where
  "io_lift r w = (r, w)"

lemma io_bind_Inr: "io_bind m f w = (Inr y, w') \<longleftrightarrow> (\<exists>x v. m w = (Inr x, v) \<and> f x v = (Inr y, w'))"
  by (auto simp: io_bind_def split: prod.splits sum.splits)

lemma io_lift_Inr: "io_lift r w = (Inr y, w') \<longleftrightarrow> r = Inr y \<and> w' = w"
  by (auto simp: io_lift_def)

lemma io_bind_cong: "m w = m' w \<Longrightarrow> (\<And>x v. m w = (Inr x, v) \<Longrightarrow> f x v = f' x v) \<Longrightarrow> io_bind m f w = io_bind m' f' w"
  by (auto simp: io_bind_def split: prod.splits sum.splits)

section \<open>Blocks and layouts\<close>

record block =
  bk_offset :: int
  bk_metadata_length :: int
  bk_body_length :: int

record ipc_object =
  om_location :: string
  om_size :: nat
  om_last_modified :: int
  om_e_tag :: "string option"
  om_version :: "string option"

record ('s, 'v) footer =
  ft_schema :: "'s option"
  ft_version :: 'v
  ft_dictionaries :: "block list option"
  ft_record_batches :: "block list option"

record ('s, 'v) file_layout =
  fl_schema :: 's
  fl_version :: 'v
  fl_dictionaries :: "block list"
  fl_record_batches :: "block list"

datatype 'e arrow_error =
    External 'e
  | ShorterThanTrailer | TrailerLength | FooterLengthInvalid | FooterTooLarge | FooterWithoutSchema
  | NegativeOffset | NegativeMetadata | NegativeBody | BlockRangeOverflow | BlockOutOfRange
  | BlockLengthOverflow | SchemaMismatch | SizeOverflow | EndsInHeader | EndsAfterMarker | HeaderLength
  | EndsInMetadata | EndsInBody | StreamRangeOverflow | MessageTooLarge | EndsBeforeSchema | RangeOnStream
  | SampleOverflow | ScalingOverflow | EstimateTooLarge

definition max_ipc_safety_bytes :: nat where
  "max_ipc_safety_bytes = 512 * 1024 * 1024"

text \<open>The reservations of the memory pool that the readers hold.\<close>

datatype consumer = LayoutMemory | ReaderMemory | StreamMemory | SamplingMemory

record ('w, 'e) reader_env =
  re_get_range :: "string \<Rightarrow> nat \<Rightarrow> nat \<Rightarrow> 'w \<Rightarrow> ('e + string) \<times> 'w"
  re_resize :: "consumer \<Rightarrow> nat \<Rightarrow> 'w \<Rightarrow> ('e + unit) \<times> 'w"
  re_free :: "consumer \<Rightarrow> 'w \<Rightarrow> 'w"

definition external :: "('e + 'a) \<times> 'w \<Rightarrow> ('e arrow_error + 'a) \<times> 'w" where
  "external r = (case r of (Inl e, w) \<Rightarrow> (Inl (External e), w) | (Inr x, w) \<Rightarrow> (Inr x, w))"

definition get_range :: "('w, 'e) reader_env \<Rightarrow> string \<Rightarrow> nat \<Rightarrow> nat \<Rightarrow> 'w \<Rightarrow> ('e arrow_error + string) \<times> 'w" where
  "get_range env location start stop w = external (re_get_range env location start stop w)"

definition try_resize :: "('w, 'e) reader_env \<Rightarrow> consumer \<Rightarrow> nat \<Rightarrow> 'w \<Rightarrow> ('e arrow_error + unit) \<times> 'w" where
  "try_resize env consumer bytes w = external (re_resize env consumer bytes w)"

text \<open>\<open>try_from\<close> of a signed integer.\<close>

definition unsigned :: "'e arrow_error \<Rightarrow> int \<Rightarrow> ('e arrow_error, nat) result" where
  "unsigned error i = (if i < 0 then Inl error else Inr (nat i))"

fun validate_blocks :: "ipc_object \<Rightarrow> block list \<Rightarrow> ('e arrow_error, unit) result" where
  "validate_blocks object [] = Inr ()"
| "validate_blocks object (block # blocks) =
     res_bind (unsigned NegativeOffset (bk_offset block)) (\<lambda>offset.
     res_bind (unsigned NegativeMetadata (bk_metadata_length block)) (\<lambda>metadata.
     res_bind (unsigned NegativeBody (bk_body_length block)) (\<lambda>body.
     res_bind (ok_or BlockRangeOverflow
                 (Option.bind (checked_add (umax 64) offset metadata) (\<lambda>e. checked_add (umax 64) e body))) (\<lambda>stop.
       if stop > om_size object then Inl BlockOutOfRange else validate_blocks object blocks))))"

definition block_size :: "block \<Rightarrow> ('e arrow_error, nat) result" where
  "block_size block =
     res_bind (unsigned NegativeMetadata (bk_metadata_length block)) (\<lambda>metadata.
     res_bind (unsigned NegativeBody (bk_body_length block)) (\<lambda>body.
       ok_or BlockLengthOverflow (checked_add (umax 64) metadata body)))"

definition read_block :: "('w, 'e) reader_env \<Rightarrow> string \<Rightarrow> block \<Rightarrow> 'w \<Rightarrow> ('e arrow_error + string) \<times> 'w" where
  "read_block env location block =
     io_bind (io_lift (unsigned NegativeOffset (bk_offset block))) (\<lambda>start.
     io_bind (io_lift (block_size block)) (\<lambda>length.
       get_range env location start (start + length)))"

definition free_on_error ::
  "('w, 'e) reader_env \<Rightarrow> consumer \<Rightarrow> ('w \<Rightarrow> ('e arrow_error + 'a) \<times> 'w) \<Rightarrow> 'w \<Rightarrow> ('e arrow_error + 'a) \<times> 'w" where
  "free_on_error env consumer m w =
     (case m w of (Inl error, w) \<Rightarrow> (Inl error, re_free env consumer w) | (Inr x, w) \<Rightarrow> (Inr x, w))"

record ('s, 'v, 'e) footer_ops =
  fo_length :: "string \<Rightarrow> 'e + nat"
  fo_parse :: "string \<Rightarrow> 'e + ('s, 'v) footer"

definition external_value :: "'e + 'a \<Rightarrow> 'w \<Rightarrow> ('e arrow_error + 'a) \<times> 'w" where
  "external_value r w = external (r, w)"

definition layout_of_footer :: "ipc_object \<Rightarrow> ('s, 'v) footer \<Rightarrow> ('e arrow_error, ('s, 'v) file_layout) result" where
  "layout_of_footer object footer =
     res_bind (ok_or FooterWithoutSchema (ft_schema footer)) (\<lambda>schema.
       let dictionaries = (case ft_dictionaries footer of None \<Rightarrow> [] | Some bs \<Rightarrow> bs);
           record_batches = (case ft_record_batches footer of None \<Rightarrow> [] | Some bs \<Rightarrow> bs) in
       res_bind (validate_blocks object (dictionaries @ record_batches)) (\<lambda>_.
         Inr \<lparr>fl_schema = schema, fl_version = ft_version footer, fl_dictionaries = dictionaries,
              fl_record_batches = record_batches\<rparr>))"

definition read_footer ::
  "('w, 'e) reader_env \<Rightarrow> ('s, 'v, 'e) footer_ops \<Rightarrow> ipc_object \<Rightarrow> nat \<Rightarrow> 'w \<Rightarrow> ('e arrow_error + ('s, 'v) file_layout) \<times> 'w" where
  "read_footer env ops object footer_len =
     io_bind (try_resize env LayoutMemory footer_len) (\<lambda>_.
     io_bind (get_range env (om_location object) (om_size object - 10 - footer_len) (om_size object - 10)) (\<lambda>bytes.
     io_bind (external_value (fo_parse ops bytes)) (\<lambda>footer.
       io_lift (layout_of_footer object footer))))"

text \<open>A reservation is dropped with the function when no layout is left to hold it.\<close>

definition read_file_layout ::
  "('w, 'e) reader_env \<Rightarrow> ('s, 'v, 'e) footer_ops \<Rightarrow> ipc_object \<Rightarrow> 'w \<Rightarrow> ('e arrow_error + ('s, 'v) file_layout) \<times> 'w" where
  "read_file_layout env ops object =
     (if om_size object < 10 then io_lift (Inl ShorterThanTrailer)
      else io_bind (get_range env (om_location object) (om_size object - 10) (om_size object)) (\<lambda>trailer.
        if length trailer \<noteq> 10 then io_lift (Inl TrailerLength)
        else io_bind (external_value (fo_length ops trailer)) (\<lambda>footer_len.
          if footer_len + 10 > om_size object then io_lift (Inl FooterLengthInvalid)
          else if footer_len > max_ipc_safety_bytes then io_lift (Inl FooterTooLarge)
          else free_on_error env LayoutMemory (read_footer env ops object footer_len))))"

section \<open>Reading a file\<close>

record ('s, 'v, 'd, 'b, 'e) decoder_ops =
  dc_new :: "'s \<Rightarrow> 'v \<Rightarrow> 'd"
  dc_project :: "nat list \<Rightarrow> 'd \<Rightarrow> 'd"
  dc_dictionary :: "'d \<Rightarrow> block \<Rightarrow> string \<Rightarrow> 'e + 'd"
  dc_batch :: "'d \<Rightarrow> block \<Rightarrow> string \<Rightarrow> 'e + 'b option"
  dc_memory :: "'b \<Rightarrow> nat"
  dc_same_schema :: "'s \<Rightarrow> 's \<Rightarrow> bool"

record file_range =
  fr_start :: int
  fr_end :: int

record partitioned_file =
  pf_meta :: ipc_object
  pf_range :: "file_range option"

definition owns_block :: "file_range option \<Rightarrow> block \<Rightarrow> bool" where
  "owns_block part block \<longleftrightarrow>
     (case part of None \<Rightarrow> True | Some r \<Rightarrow> fr_start r \<le> bk_offset block \<and> bk_offset block < fr_end r)"

definition blocks_of :: "partitioned_file \<Rightarrow> ('s, 'v) file_layout \<Rightarrow> block list" where
  "blocks_of file layout = filter (owns_block (pf_range file)) (fl_record_batches layout)"

fun read_dictionaries ::
  "('w, 'e) reader_env \<Rightarrow> ('s, 'v, 'd, 'b, 'e) decoder_ops \<Rightarrow> string \<Rightarrow> 'd \<Rightarrow> nat \<Rightarrow> block list \<Rightarrow> 'w \<Rightarrow>
   ('e arrow_error + 'd \<times> nat) \<times> 'w" where
  "read_dictionaries env ops location decoder bytes [] w = (Inr (decoder, bytes), w)"
| "read_dictionaries env ops location decoder bytes (block # blocks) w =
     io_bind (io_lift (block_size block)) (\<lambda>size.
     io_bind (io_lift (ok_or SizeOverflow (checked_add (umax 64) bytes size))) (\<lambda>bytes.
     io_bind (try_resize env ReaderMemory bytes) (\<lambda>_.
     io_bind (read_block env location block) (\<lambda>data.
     io_bind (external_value (dc_dictionary ops decoder block data)) (\<lambda>decoder.
       read_dictionaries env ops location decoder bytes blocks))))) w"

text \<open>One turn of the loop over the record batches: the batch it yields, if the block holds one.\<close>

definition read_batch ::
  "('w, 'e) reader_env \<Rightarrow> ('s, 'v, 'd, 'b, 'e) decoder_ops \<Rightarrow> string \<Rightarrow> 'd \<Rightarrow> nat \<Rightarrow> block \<Rightarrow> 'w \<Rightarrow>
   ('e arrow_error + 'b option) \<times> 'w" where
  "read_batch env ops location decoder dictionary_bytes block =
     io_bind (io_lift (block_size block)) (\<lambda>size.
     io_bind (io_lift (ok_or SizeOverflow (checked_add (umax 64) dictionary_bytes size))) (\<lambda>total.
     io_bind (try_resize env ReaderMemory total) (\<lambda>_.
     io_bind (read_block env location block) (\<lambda>data.
     io_bind (external_value (dc_batch ops decoder block data)) (\<lambda>batch.
       case batch of
         None \<Rightarrow> io_lift (Inr None)
       | Some b \<Rightarrow>
           io_bind (io_lift (ok_or SizeOverflow (checked_add (umax 64) dictionary_bytes (dc_memory ops b)))) (\<lambda>total.
           io_bind (try_resize env ReaderMemory total) (\<lambda>_. io_lift (Inr (Some b)))))))))"

text \<open>The stream: the batches yielded, and the error that ended it, if any.\<close>

fun read_batches ::
  "('w, 'e) reader_env \<Rightarrow> ('s, 'v, 'd, 'b, 'e) decoder_ops \<Rightarrow> string \<Rightarrow> 'd \<Rightarrow> nat \<Rightarrow> block list \<Rightarrow> 'w \<Rightarrow>
   'b list \<times> 'e arrow_error option \<times> 'w" where
  "read_batches env ops location decoder dictionary_bytes [] w = ([], None, w)"
| "read_batches env ops location decoder dictionary_bytes (block # blocks) w =
     (case read_batch env ops location decoder dictionary_bytes block w of
        (Inl error, w) \<Rightarrow> ([], Some error, w)
      | (Inr batch, w) \<Rightarrow>
          let yielded = (case batch of None \<Rightarrow> [] | Some b \<Rightarrow> [b]) in
          (case try_resize env ReaderMemory dictionary_bytes w of
             (Inl error, w) \<Rightarrow> (yielded, Some error, w)
           | (Inr _, w) \<Rightarrow>
               (let (rest, error, w) = read_batches env ops location decoder dictionary_bytes blocks w in
                (yielded @ rest, error, w))))"

definition file_stream ::
  "('w, 'e) reader_env \<Rightarrow> ('s, 'v, 'd, 'b, 'e) decoder_ops \<Rightarrow> string \<Rightarrow> nat list option \<Rightarrow> ('s, 'v) file_layout \<Rightarrow>
   block list \<Rightarrow> 'w \<Rightarrow> 'b list \<times> 'e arrow_error option \<times> 'w" where
  "file_stream env ops location projection layout blocks w =
     (let decoder = dc_new ops (fl_schema layout) (fl_version layout);
          decoder = (case projection of None \<Rightarrow> decoder | Some p \<Rightarrow> dc_project ops p decoder);
          (yielded, error, w) =
            (case read_dictionaries env ops location decoder 0 (fl_dictionaries layout) w of
               (Inl error, w) \<Rightarrow> ([], Some error, w)
             | (Inr (decoder, bytes), w) \<Rightarrow> read_batches env ops location decoder bytes blocks w)
      in (yielded, error, re_free env ReaderMemory w))"

text \<open>
  The layout of an open file is shared by its leases: \<open>cell\<close> is the one a lease of the file already holds.
  The answer is an error, or the run of the stream to its end: the batches yielded, and the error that ended it.
\<close>

definition open_layout ::
  "('w, 'e) reader_env \<Rightarrow> ('s, 'v, 'e) footer_ops \<Rightarrow> ipc_object \<Rightarrow> ('s, 'v) file_layout option \<Rightarrow>
   'w \<Rightarrow> ('e arrow_error + ('s, 'v) file_layout) \<times> 'w" where
  "open_layout env fops object cell =
     (case cell of None \<Rightarrow> read_file_layout env fops object | Some layout \<Rightarrow> io_lift (Inr layout))"

definition open_ipc_file ::
  "('w, 'e) reader_env \<Rightarrow> ('s, 'v, 'e) footer_ops \<Rightarrow> ('s, 'v, 'd, 'b, 'e) decoder_ops \<Rightarrow> partitioned_file \<Rightarrow> nat list option \<Rightarrow>
   's \<Rightarrow> ('s, 'v) file_layout option \<Rightarrow> 'w \<Rightarrow> ('e arrow_error + ('b list \<times> 'e arrow_error option)) \<times> 'w" where
  "open_ipc_file env fops ops file projection expected_schema cell =
     io_bind (open_layout env fops (pf_meta file) cell) (\<lambda>layout w.
       if \<not> dc_same_schema ops expected_schema (fl_schema layout) then (Inl SchemaMismatch, w)
       else (case file_stream env ops (om_location (pf_meta file)) projection layout (blocks_of file layout) w of
               (batches, error, w) \<Rightarrow> (Inr (batches, error), w)))"

section \<open>Accepted blocks\<close>

definition block_inside :: "nat \<Rightarrow> block \<Rightarrow> bool" where
  "block_inside bound block \<longleftrightarrow>
     0 \<le> bk_offset block \<and> 0 \<le> bk_metadata_length block \<and> 0 \<le> bk_body_length block \<and>
     nat (bk_offset block + bk_metadata_length block + bk_body_length block) \<le> bound \<and>
     nat (bk_offset block + bk_metadata_length block + bk_body_length block) \<le> umax 64"

definition block_length :: "block \<Rightarrow> nat" where
  "block_length block = nat (bk_metadata_length block) + nat (bk_body_length block)"

lemma unsigned_Inr: "unsigned error i = Inr n \<longleftrightarrow> 0 \<le> i \<and> n = nat i"
  by (auto simp: unsigned_def)

lemma checked_add_Some_iff: "checked_add bound m n = Some k \<longleftrightarrow> m + n \<le> bound \<and> k = m + n"
  by (auto simp: checked_add_def)

lemma validate_blocks_Inr:
  "validate_blocks object blocks = Inr () \<longleftrightarrow> (\<forall>b\<in>set blocks. block_inside (om_size object) b)"
proof (induction blocks)
  case (Cons b bs)
  show ?case
    by (auto simp: res_bind_Inr_conv unsigned_Inr ok_or_Inr_conv Cons.IH bind_eq_Some_conv checked_add_Some_iff
        block_inside_def nat_add_distrib)
qed simp

lemma block_size_inside: "block_inside bound b \<Longrightarrow> block_size b = Inr (block_length b)"
  by (auto simp: block_size_def block_inside_def block_length_def unsigned_def checked_add_def nat_add_distrib)

lemma io_bind_lift [simp]: "io_bind (io_lift (Inr x)) f = f x"
  by (rule ext) (simp add: io_bind_def io_lift_def)

lemma unsigned_inside: "block_inside bound b \<Longrightarrow> unsigned error (bk_offset b) = Inr (nat (bk_offset b))"
  by (simp add: unsigned_def block_inside_def)

lemma read_block_inside:
  "block_inside bound b \<Longrightarrow>
   read_block env location b = get_range env location (nat (bk_offset b)) (nat (bk_offset b) + block_length b)"
  by (simp add: read_block_def block_size_inside unsigned_inside)

lemma block_inside_stop: "block_inside bound b \<Longrightarrow> nat (bk_offset b) + block_length b \<le> bound"
  by (auto simp: block_inside_def block_length_def nat_add_distrib)

definition layout_inside :: "nat \<Rightarrow> ('s, 'v) file_layout \<Rightarrow> bool" where
  "layout_inside bound layout \<longleftrightarrow>
     (\<forall>b\<in>set (fl_dictionaries layout @ fl_record_batches layout). block_inside bound b)"

lemma layout_of_footer_inside: "layout_of_footer object footer = Inr layout \<Longrightarrow> layout_inside (om_size object) layout"
  by (auto simp: layout_of_footer_def res_bind_Inr_conv validate_blocks_Inr layout_inside_def Let_def split: option.splits)

lemma free_on_error_Inr: "free_on_error env c m w = (Inr x, w') \<longleftrightarrow> m w = (Inr x, w')"
  by (auto simp: free_on_error_def split: prod.splits sum.splits)

lemma read_footer_inside:
  "read_footer env ops object n w = (Inr layout, w') \<Longrightarrow> layout_inside (om_size object) layout"
  by (auto simp: read_footer_def io_bind_Inr io_lift_Inr intro: layout_of_footer_inside)

lemma read_file_layout_inside:
  assumes "read_file_layout env ops object w = (Inr layout, w')"
  shows "layout_inside (om_size object) layout"
  using assms
  by (auto simp: read_file_layout_def io_bind_Inr io_lift_Inr free_on_error_Inr split: if_splits dest: read_footer_inside)

lemma layout_blocks_inside:
  assumes "layout_inside bound layout"
  shows "b \<in> set (fl_dictionaries layout) \<Longrightarrow> block_inside bound b" and "b \<in> set (blocks_of file layout) \<Longrightarrow> block_inside bound b"
  using assms by (auto simp: layout_inside_def blocks_of_def)

section \<open>What is read of the object\<close>

text \<open>
  A range the reader may ask for: inside the object, and no longer than the ten bytes of the trailer or than
  what one of its reservations holds at that moment.
\<close>

definition within :: "(consumer \<Rightarrow> 'w \<Rightarrow> nat) \<Rightarrow> nat \<Rightarrow> nat \<Rightarrow> nat \<Rightarrow> 'w \<Rightarrow> bool" where
  "within reserved bound start stop w \<longleftrightarrow>
     start \<le> stop \<and> stop \<le> bound \<and>
     (stop - start \<le> 10 \<or> stop - start \<le> reserved LayoutMemory w \<or> stop - start \<le> reserved ReaderMemory w)"

definition resize_reserves :: "(consumer \<Rightarrow> 'w \<Rightarrow> nat) \<Rightarrow> ('w, 'e) reader_env \<Rightarrow> bool" where
  "resize_reserves reserved env \<longleftrightarrow> (\<forall>c n w w'. re_resize env c n w = (Inr (), w') \<longrightarrow> n \<le> reserved c w')"

definition same_within ::
  "(consumer \<Rightarrow> 'w \<Rightarrow> nat) \<Rightarrow> ipc_object \<Rightarrow> ('w, 'e) reader_env \<Rightarrow> ('w, 'e) reader_env \<Rightarrow> bool" where
  "same_within reserved object env env' \<longleftrightarrow>
     re_resize env = re_resize env' \<and> re_free env = re_free env' \<and>
     (\<forall>start stop w. within reserved (om_size object) start stop w \<longrightarrow>
        re_get_range env (om_location object) start stop w = re_get_range env' (om_location object) start stop w)"

lemma same_within_get:
  "same_within reserved object env env' \<Longrightarrow> within reserved (om_size object) start stop w \<Longrightarrow>
   get_range env (om_location object) start stop w = get_range env' (om_location object) start stop w"
  by (simp add: same_within_def get_range_def)

lemma same_within_resize: "same_within reserved object env env' \<Longrightarrow> try_resize env = try_resize env'"
  by (intro ext) (simp add: same_within_def try_resize_def)

lemma same_within_free: "same_within reserved object env env' \<Longrightarrow> re_free env = re_free env'"
  by (simp add: same_within_def)

lemma resize_reservesD:
  "resize_reserves reserved env \<Longrightarrow> try_resize env c n w = (Inr u, w') \<Longrightarrow> n \<le> reserved c w'"
  by (auto simp: resize_reserves_def try_resize_def external_def split: prod.splits sum.splits)

lemma within_reserved:
  "start \<le> stop \<Longrightarrow> stop \<le> bound \<Longrightarrow> stop - start \<le> n \<Longrightarrow> n \<le> reserved c w \<Longrightarrow> c = LayoutMemory \<or> c = ReaderMemory \<Longrightarrow>
   within reserved bound start stop w"
  by (auto simp: within_def)

lemma read_footer_same:
  assumes same: "same_within reserved object env env'" and reserves: "resize_reserves reserved env"
    and short: "footer_len + 10 \<le> om_size object"
  shows "read_footer env ops object footer_len w = read_footer env' ops object footer_len w"
  unfolding read_footer_def same_within_resize [OF same, symmetric]
proof (intro io_bind_cong)
  fix u v
  assume resized: "try_resize env LayoutMemory footer_len w = (Inr u, v)"
  have "within reserved (om_size object) (om_size object - 10 - footer_len) (om_size object - 10) v"
    using short resize_reservesD [OF reserves resized] by (intro within_reserved) auto
  then show "get_range env (om_location object) (om_size object - 10 - footer_len) (om_size object - 10) v =
    get_range env' (om_location object) (om_size object - 10 - footer_len) (om_size object - 10) v"
    by (rule same_within_get [OF same])
qed simp_all

lemma read_file_layout_same:
  assumes same: "same_within reserved object env env'" and reserves: "resize_reserves reserved env"
  shows "read_file_layout env ops object w = read_file_layout env' ops object w"
proof (cases "om_size object < 10")
  case False
  have "within reserved (om_size object) (om_size object - 10) (om_size object) w"
    using False by (simp add: within_def)
  from same_within_get [OF same this]
  have trailer: "get_range env (om_location object) (om_size object - 10) (om_size object) w =
    get_range env' (om_location object) (om_size object - 10) (om_size object) w" .
  have footer: "free_on_error env LayoutMemory (read_footer env ops object n) v =
    free_on_error env' LayoutMemory (read_footer env' ops object n) v" if "\<not> om_size object < n + 10" for n v
    unfolding free_on_error_def same_within_free [OF same] using that by (simp add: read_footer_same [OF same reserves])
  show ?thesis
    unfolding read_file_layout_def using False
    by (auto intro!: io_bind_cong trailer simp: footer)
qed (simp add: read_file_layout_def)

text \<open>One block: its memory is reserved before its bytes are asked for.\<close>

lemma reserved_block_same:
  assumes same: "same_within reserved object env env'" and reserves: "resize_reserves reserved env"
    and inside: "block_inside (om_size object) block" and room: "block_length block \<le> n"
    and resized: "try_resize env ReaderMemory n w = (Inr u, v)"
  shows "read_block env (om_location object) block v = read_block env' (om_location object) block v"
proof -
  have "within reserved (om_size object) (nat (bk_offset block)) (nat (bk_offset block) + block_length block) v"
    using resize_reservesD [OF reserves resized] room block_inside_stop [OF inside] by (intro within_reserved) auto
  then show ?thesis
    by (simp add: read_block_inside [OF inside] same_within_get [OF same])
qed

lemma size_total_Inr:
  assumes "block_inside bound block" and "io_lift (block_size block) w = (Inr m, w')"
    and "io_lift (ok_or SizeOverflow (checked_add (umax 64) bytes m)) v = (Inr n, v')"
  shows "block_length block \<le> n"
  using assms by (auto simp: io_lift_Inr block_size_inside ok_or_Inr_conv checked_add_Some_iff)

lemma read_dictionaries_same:
  assumes same: "same_within reserved object env env'" and reserves: "resize_reserves reserved env"
    and inside: "\<forall>b\<in>set blocks. block_inside (om_size object) b"
  shows "read_dictionaries env ops (om_location object) decoder bytes blocks w =
    read_dictionaries env' ops (om_location object) decoder bytes blocks w"
  using inside
proof (induction blocks arbitrary: decoder bytes w)
  case (Cons block blocks)
  from Cons.prems have block: "block_inside (om_size object) block" by simp
  show ?case
    unfolding read_dictionaries.simps same_within_resize [OF same, symmetric]
    by (intro io_bind_cong refl reserved_block_same [OF same reserves block] size_total_Inr [OF block]) (use Cons in auto)
qed simp

lemma read_batch_same:
  assumes same: "same_within reserved object env env'" and reserves: "resize_reserves reserved env"
    and block: "block_inside (om_size object) block"
  shows "read_batch env ops (om_location object) decoder bytes block w =
    read_batch env' ops (om_location object) decoder bytes block w"
  unfolding read_batch_def same_within_resize [OF same, symmetric]
  by (intro io_bind_cong refl reserved_block_same [OF same reserves block] size_total_Inr [OF block])

lemma read_batches_same:
  assumes same: "same_within reserved object env env'" and reserves: "resize_reserves reserved env"
    and inside: "\<forall>b\<in>set blocks. block_inside (om_size object) b"
  shows "read_batches env ops (om_location object) decoder bytes blocks w =
    read_batches env' ops (om_location object) decoder bytes blocks w"
  using inside
proof (induction blocks arbitrary: w)
  case (Cons block blocks)
  from Cons have rest: "read_batches env ops (om_location object) decoder bytes blocks v =
    read_batches env' ops (om_location object) decoder bytes blocks v" for v by simp
  from Cons.prems have block: "block_inside (om_size object) block" by simp
  show ?case
    unfolding read_batches.simps rest same_within_resize [OF same] read_batch_same [OF same reserves block] ..
qed simp

lemma file_stream_same:
  assumes "same_within reserved object env env'" and "resize_reserves reserved env"
    and "layout_inside (om_size object) layout" and "set blocks \<subseteq> set (fl_record_batches layout)"
  shows "file_stream env ops (om_location object) projection layout blocks w =
    file_stream env' ops (om_location object) projection layout blocks w"
proof -
  have dictionaries: "\<forall>b\<in>set (fl_dictionaries layout). block_inside (om_size object) b"
    and batches: "\<forall>b\<in>set blocks. block_inside (om_size object) b"
    using assms(3,4) by (auto simp: layout_inside_def)
  show ?thesis
    unfolding file_stream_def read_dictionaries_same [OF assms(1,2) dictionaries]
      read_batches_same [OF assms(1,2) batches] same_within_free [OF assms(1)] ..
qed

lemma open_layout_inside:
  assumes "open_layout env fops object cell w = (Inr layout, w')"
    and "\<forall>layout. cell = Some layout \<longrightarrow> layout_inside (om_size object) layout"
  shows "layout_inside (om_size object) layout"
  using assms by (auto simp: open_layout_def io_lift_Inr split: option.splits intro: read_file_layout_inside)

lemma open_file_same:
  assumes same: "same_within reserved (pf_meta file) env env'" and reserves: "resize_reserves reserved env"
    and cell: "\<forall>layout. cell = Some layout \<longrightarrow> layout_inside (om_size (pf_meta file)) layout"
  shows "open_ipc_file env fops ops file projection schema cell w = open_ipc_file env' fops ops file projection schema cell w"
  unfolding open_ipc_file_def
proof (intro io_bind_cong)
  show "open_layout env fops (pf_meta file) cell w = open_layout env' fops (pf_meta file) cell w"
    by (simp add: open_layout_def read_file_layout_same [OF same reserves] split: option.splits)
next
  fix layout v
  assume "open_layout env fops (pf_meta file) cell w = (Inr layout, v)"
  from file_stream_same [OF same reserves open_layout_inside [OF this cell], of "blocks_of file layout"]
  have stream: "file_stream env ops (om_location (pf_meta file)) projection layout (blocks_of file layout) v =
    file_stream env' ops (om_location (pf_meta file)) projection layout (blocks_of file layout) v"
    by (simp add: blocks_of_def)
  show "(if \<not> dc_same_schema ops schema (fl_schema layout) then (Inl SchemaMismatch, v)
      else (case file_stream env ops (om_location (pf_meta file)) projection layout (blocks_of file layout) v of
              (batches, error, w) \<Rightarrow> (Inr (batches, error), w))) =
    (if \<not> dc_same_schema ops schema (fl_schema layout) then (Inl SchemaMismatch, v)
      else (case file_stream env' ops (om_location (pf_meta file)) projection layout (blocks_of file layout) v of
              (batches, error, w) \<Rightarrow> (Inr (batches, error), w)))"
    unfolding stream ..
qed

section \<open>Reading an object that is there\<close>

text \<open>The store answers with the object's bytes, and the pool grants what is asked.\<close>

definition serves :: "string \<Rightarrow> string \<Rightarrow> ('w, 'e) reader_env \<Rightarrow> bool" where
  "serves location contents env \<longleftrightarrow>
     (\<forall>start stop w. start \<le> stop \<longrightarrow> stop \<le> length contents \<longrightarrow>
        fst (re_get_range env location start stop w) = Inr (take (stop - start) (drop start contents))) \<and>
     (\<forall>c n w. fst (re_resize env c n w) = Inr ())"

definition block_data :: "string \<Rightarrow> block \<Rightarrow> string" where
  "block_data contents block = take (block_length block) (drop (nat (bk_offset block)) contents)"

text \<open>
  Against such a store a computation has one answer, whatever the state of the world: \<open>answers m r\<close>.
\<close>

definition answers :: "('w \<Rightarrow> 'a \<times> 'w) \<Rightarrow> 'a \<Rightarrow> bool" where
  "answers m r \<longleftrightarrow> (\<forall>w. fst (m w) = r)"

definition steady :: "('w \<Rightarrow> 'a \<times> 'w) \<Rightarrow> bool" where
  "steady m \<longleftrightarrow> (\<exists>r. answers m r)"

lemma steadyI [intro]: "answers m r \<Longrightarrow> steady m"
  by (auto simp: steady_def)

lemma steady_answers: "steady m \<Longrightarrow> m w = (r, w') \<Longrightarrow> answers m r"
  by (metis steady_def answers_def fst_conv)

lemma answersD: "answers m r \<Longrightarrow> m w = (x, w') \<Longrightarrow> x = r"
  by (metis answers_def fst_conv)

lemma answersE:
  assumes "answers m r"
  obtains w' where "m w = (r, w')"
  using assms by (metis answers_def prod.collapse)

lemma answers_lift: "answers (io_lift r) r"
  by (simp add: answers_def io_lift_def)

lemma steady_external: "steady (external_value r)"
  by (rule steadyI [where r = "case r of Inl e \<Rightarrow> Inl (External e) | Inr x \<Rightarrow> Inr x"])
    (simp add: answers_def external_value_def external_def split: sum.split)

lemma fst_external: "fst r = Inr x \<Longrightarrow> fst (external r) = Inr x"
  by (cases r) (simp add: external_def)

lemma answers_resize: "serves location contents env \<Longrightarrow> answers (try_resize env c n) (Inr ())"
  by (simp add: answers_def serves_def try_resize_def fst_external)

lemma answers_get:
  "serves location contents env \<Longrightarrow> start \<le> stop \<Longrightarrow> stop \<le> length contents \<Longrightarrow>
   answers (get_range env location start stop) (Inr (take (stop - start) (drop start contents)))"
  by (simp add: answers_def serves_def get_range_def fst_external)

lemma answers_bind_Inr: "answers m (Inr x) \<Longrightarrow> answers (f x) s \<Longrightarrow> answers (io_bind m f) s"
  by (auto simp: answers_def io_bind_def split: prod.splits sum.splits) (metis Inl_Inr_False fst_conv, metis fst_conv Inr_inject)

lemma answers_bind_Inl: "answers m (Inl e) \<Longrightarrow> answers (io_bind m f) (Inl e)"
  by (auto simp: answers_def io_bind_def split: prod.splits sum.splits)
    (metis fst_conv Inl_inject, metis Inl_Inr_False fst_conv)

lemma steady_bind:
  assumes "steady m" and "\<And>x. answers m (Inr x) \<Longrightarrow> steady (f x)"
  shows "steady (io_bind m f)"
proof -
  from assms(1) obtain r where r: "answers m r" unfolding steady_def ..
  show ?thesis
  proof (cases r)
    case (Inr x)
    with r assms(2) obtain s where "answers (f x) s" unfolding steady_def by blast
    with r Inr show ?thesis by (blast intro: answers_bind_Inr)
  qed (use r in \<open>blast intro: answers_bind_Inl\<close>)
qed

lemma block_inside_read:
  assumes "serves location contents env" and "block_inside (length contents) block"
  shows "answers (read_block env location block) (Inr (block_data contents block))"
  using answers_get [OF assms(1), of "nat (bk_offset block)" "nat (bk_offset block) + block_length block"]
    block_inside_stop [OF assms(2)]
  by (simp add: read_block_inside [OF assms(2)] block_data_def)

lemma steady_free_on_error:
  assumes "steady m"
  shows "steady (free_on_error env c m)"
proof -
  from assms obtain r where "answers m r" unfolding steady_def ..
  then have "answers (free_on_error env c m) r"
    by (auto simp: answers_def free_on_error_def split: prod.split sum.split) (metis fst_conv)+
  then show ?thesis ..
qed

lemma read_footer_steady:
  assumes "serves (om_location object) contents env" and "om_size object = length contents"
    and "footer_len + 10 \<le> om_size object"
  shows "steady (read_footer env ops object footer_len)"
  unfolding read_footer_def
proof (intro steady_bind)
  show "steady (get_range env (om_location object) (om_size object - 10 - footer_len) (om_size object - 10))"
    using assms(2,3) by (intro steadyI [OF answers_get [OF assms(1)]]) auto
qed (blast intro: answers_resize [OF assms(1)] answers_lift steady_external)+

lemma read_file_layout_steady:
  assumes "serves (om_location object) contents env" and "om_size object = length contents"
  shows "steady (read_file_layout env ops object)"
proof -
  have "steady (get_range env (om_location object) (om_size object - 10) (om_size object))"
    using assms(2) by (intro steadyI [OF answers_get [OF assms(1)]]) auto
  moreover have "steady (io_lift r :: 'w \<Rightarrow> ('e arrow_error + ('s, 'v) file_layout) \<times> 'w)" for r
    by (rule steadyI [OF answers_lift])
  ultimately show ?thesis
    unfolding read_file_layout_def
    by (auto intro!: steady_bind steady_external steady_free_on_error read_footer_steady [OF assms])
qed

lemma external_value_Inr: "external_value r v = (Inr x, v') \<longleftrightarrow> r = Inr x \<and> v' = v"
  by (auto simp: external_value_def external_def split: sum.splits)

lemma read_dictionaries_steady:
  assumes "serves location contents env" and "\<forall>b\<in>set blocks. block_inside (length contents) b"
  shows "steady (read_dictionaries env ops location decoder bytes blocks)"
  using assms(2)
proof (induction blocks arbitrary: decoder bytes)
  case Nil
  have "answers (read_dictionaries env ops location decoder bytes []) (Inr (decoder, bytes))"
    by (simp add: answers_def)
  then show ?case ..
next
  case (Cons b bs)
  from Cons have b: "block_inside (length contents) b" and rest: "steady (read_dictionaries env ops location d n bs)" for d n
    by auto
  have "read_dictionaries env ops location decoder bytes (b # bs) =
     io_bind (io_lift (block_size b)) (\<lambda>size.
     io_bind (io_lift (ok_or SizeOverflow (checked_add (umax 64) bytes size))) (\<lambda>bytes.
     io_bind (try_resize env ReaderMemory bytes) (\<lambda>_.
     io_bind (read_block env location b) (\<lambda>data.
     io_bind (external_value (dc_dictionary ops decoder b data)) (\<lambda>decoder.
       read_dictionaries env ops location decoder bytes bs)))))"
    by (rule ext) simp
  then show ?case
    by (auto intro!: steady_bind rest steady_external answers_resize [OF assms(1)] block_inside_read [OF assms(1) b]
        intro: answers_lift)
qed

lemma read_batch_steady:
  assumes "serves location contents env" and "block_inside (length contents) b"
  shows "steady (read_batch env ops location decoder bytes b)"
  unfolding read_batch_def
  by (intro steady_bind steady_external steadyI [OF answers_lift] steadyI [OF answers_resize [OF assms(1)]]
      steadyI [OF block_inside_read [OF assms]])
    (auto split: option.split intro!: steady_bind steadyI [OF answers_lift] steadyI [OF answers_resize [OF assms(1)]])

lemma read_batch_decodes:
  assumes "serves location contents env" and "block_inside (length contents) b"
    and "answers (read_batch env ops location decoder bytes b) (Inr y)"
  shows "\<exists>x. dc_batch ops decoder b (block_data contents b) = Inr x"
proof -
  obtain w' where run: "read_batch env ops location decoder bytes b undefined = (Inr y, w')"
    using answersE [OF assms(3)] .
  have data: "read_block env location b v = (Inr d, v') \<Longrightarrow> d = block_data contents b" for d v v'
    using answersD [OF block_inside_read [OF assms(1,2)]] by fastforce
  show ?thesis
    using run unfolding read_batch_def by (auto simp: io_bind_Inr external_value_Inr dest!: data)
qed

lemma read_batches_all:
  assumes "serves location contents env" and "\<forall>b\<in>set blocks. answers (read_batch env ops location decoder bytes b) (Inr (f b))"
  shows "\<exists>w'. read_batches env ops location decoder bytes blocks w =
    (concat (map (\<lambda>b. case f b of None \<Rightarrow> [] | Some x \<Rightarrow> [x]) blocks), None, w')"
  using assms(2)
proof (induction blocks arbitrary: w)
  case (Cons b bs)
  obtain v where v: "read_batch env ops location decoder bytes b w = (Inr (f b), v)"
    using Cons.prems answersE by (metis list.set_intros(1))
  obtain u where u: "try_resize env ReaderMemory bytes v = (Inr (), u)"
    using answersE [OF answers_resize [OF assms(1)]] .
  from Cons obtain w' where "read_batches env ops location decoder bytes bs u =
    (concat (map (\<lambda>b. case f b of None \<Rightarrow> [] | Some x \<Rightarrow> [x]) bs), None, w')" by auto
  with v u show ?case by simp
qed simp

lemma read_batches_none:
  assumes "serves location contents env" and "\<forall>b\<in>set blocks. block_inside (length contents) b"
    and "read_batches env ops location decoder bytes blocks w = (ys, None, w')"
  shows "\<exists>f. \<forall>b\<in>set blocks. answers (read_batch env ops location decoder bytes b) (Inr (f b))"
proof -
  have "\<forall>b\<in>set blocks. \<exists>y. answers (read_batch env ops location decoder bytes b) (Inr y)"
    using assms(2,3)
  proof (induction blocks arbitrary: w ys w')
    case (Cons b bs)
    obtain r v where v: "read_batch env ops location decoder bytes b w = (r, v)" by fastforce
    from Cons.prems(1) have "answers (read_batch env ops location decoder bytes b) r"
      by (intro steady_answers [OF read_batch_steady [OF assms(1)] v]) simp
    moreover obtain y where y: "r = Inr y" using Cons.prems(2) v by (cases r) auto
    moreover obtain u where u: "try_resize env ReaderMemory bytes v = (Inr (), u)"
      using answersE [OF answers_resize [OF assms(1)]] .
    obtain zs e v' where rest: "read_batches env ops location decoder bytes bs u = (zs, e, v')" by (rule prod_cases3)
    moreover have "e = None" using Cons.prems(2) v y u rest by simp
    ultimately show ?case using Cons.IH [of u zs v'] Cons.prems(1) by (auto simp: y)
  qed simp
  then show ?thesis by (rule bchoice)
qed

section \<open>Partitions\<close>

fun tiles :: "int \<Rightarrow> int \<Rightarrow> file_range list \<Rightarrow> bool" where
  "tiles lo hi [] \<longleftrightarrow> lo = hi"
| "tiles lo hi (r # rs) \<longleftrightarrow> fr_start r = lo \<and> lo \<le> fr_end r \<and> tiles (fr_end r) hi rs"

lemma tiles_ordered: "tiles lo hi rs \<Longrightarrow> lo \<le> hi"
  by (induction rs arbitrary: lo) force+

lemma tiles_own_each_block:
  "tiles lo hi rs \<Longrightarrow>
   mset (concat (map (\<lambda>r. concat (map f (filter (owns_block (Some r)) bs))) rs)) =
   mset (concat (map f (filter (\<lambda>b. lo \<le> bk_offset b \<and> bk_offset b < hi) bs)))"
proof (induction rs arbitrary: lo)
  case (Cons r rs)
  then have hi: "fr_end r \<le> hi" by (auto intro: tiles_ordered)
  have "mset (concat (map f (filter (\<lambda>b. lo \<le> bk_offset b \<and> bk_offset b < hi) bs))) =
    mset (concat (map f (filter (owns_block (Some r)) bs))) +
    mset (concat (map f (filter (\<lambda>b. fr_end r \<le> bk_offset b \<and> bk_offset b < hi) bs)))"
    using Cons.prems hi by (induction bs) (auto simp: owns_block_def)
  with Cons show ?case by simp
next
  case Nil
  then have "filter (\<lambda>b. lo \<le> bk_offset b \<and> bk_offset b < hi) bs = []" by (simp add: filter_empty_conv)
  then show ?case by simp
qed

lemma file_stream_partition:
  assumes serves: "serves location contents env" and inside: "layout_inside (length contents) layout"
    and whole: "file_stream env ops location projection layout (fl_record_batches layout) w = (batches, None, w')"
  shows "\<exists>decoder bytes f.
    (\<forall>b\<in>set (fl_record_batches layout). answers (read_batch env ops location decoder bytes b) (Inr (f b))) \<and>
    batches = concat (map (\<lambda>b. case f b of None \<Rightarrow> [] | Some x \<Rightarrow> [x]) (fl_record_batches layout)) \<and>
    (\<forall>blocks v. set blocks \<subseteq> set (fl_record_batches layout) \<longrightarrow>
      (\<exists>v'. file_stream env ops location projection layout blocks v =
        (concat (map (\<lambda>b. case f b of None \<Rightarrow> [] | Some x \<Rightarrow> [x]) blocks), None, v')))"
proof -
  define start where "start = (case projection of None \<Rightarrow> dc_new ops (fl_schema layout) (fl_version layout)
    | Some p \<Rightarrow> dc_project ops p (dc_new ops (fl_schema layout) (fl_version layout)))"
  let ?read = "read_dictionaries env ops location start 0 (fl_dictionaries layout)"
  have stream: "file_stream env ops location projection layout blocks v =
     (let (yielded, error, v) =
        (case ?read v of
           (Inl error, w) \<Rightarrow> ([], Some error, w)
         | (Inr (decoder, bytes), w) \<Rightarrow> read_batches env ops location decoder bytes blocks w)
      in (yielded, error, re_free env ReaderMemory v))" for blocks v
    by (simp add: file_stream_def start_def Let_def split: option.split)
  obtain decoder bytes v where v: "?read w = (Inr (decoder, bytes), v)"
    using whole by (cases "?read w") (auto simp: stream split: sum.splits)
  from whole v obtain u where run: "read_batches env ops location decoder bytes (fl_record_batches layout) v = (batches, None, u)"
    by (auto simp: stream split: prod.splits)
  have batches: "\<forall>b\<in>set (fl_record_batches layout). block_inside (length contents) b"
    and dictionaries: "\<forall>b\<in>set (fl_dictionaries layout). block_inside (length contents) b"
    using inside by (auto simp: layout_inside_def)
  from read_batches_none [OF serves batches run] obtain f where
    f: "\<forall>b\<in>set (fl_record_batches layout). answers (read_batch env ops location decoder bytes b) (Inr (f b))" ..
  have read: "answers ?read (Inr (decoder, bytes))"
    by (rule steady_answers [OF read_dictionaries_steady [OF serves dictionaries] v])
  have part: "\<exists>v'. file_stream env ops location projection layout blocks v =
        (concat (map (\<lambda>b. case f b of None \<Rightarrow> [] | Some x \<Rightarrow> [x]) blocks), None, v')"
    if "set blocks \<subseteq> set (fl_record_batches layout)" for blocks v
  proof -
    obtain v1 where "?read v = (Inr (decoder, bytes), v1)" using answersE [OF read] .
    moreover have "\<forall>b\<in>set blocks. answers (read_batch env ops location decoder bytes b) (Inr (f b))"
      using f that by blast
    ultimately show ?thesis using read_batches_all [OF serves, of blocks ops decoder bytes f v1] by (auto simp: stream)
  qed
  from part [of "fl_record_batches layout" w] whole
  have "batches = concat (map (\<lambda>b. case f b of None \<Rightarrow> [] | Some x \<Rightarrow> [x]) (fl_record_batches layout))" by auto
  with f part show ?thesis by blast
qed

text \<open>An owned block starts inside the object when it holds anything.\<close>

lemma block_starts_inside:
  assumes "block_inside (length contents) b" and "block_data contents b \<noteq> []"
  shows "0 \<le> bk_offset b \<and> bk_offset b < int (length contents)"
proof -
  have "nat (bk_offset b) < length contents"
    using assms(2) by (auto simp: block_data_def)
  then show ?thesis using assms(1) by (auto simp: block_inside_def)
qed

text \<open>
  C16: Whatever the bytes of an Arrow file say, its reader asks the store only for ranges inside the object
  that are no longer than the ten bytes of the trailer or than what one of its memory reservations holds at
  that moment: a store that answers anything at all to other requests gives the same layout, the same
  batches and the same errors.
\<close>

theorem open_file_reads_within:
  assumes "same_within reserved (pf_meta file) env env'" and "resize_reserves reserved env"
    and "\<forall>layout. cell = Some layout \<longrightarrow> layout_inside (om_size (pf_meta file)) layout"
  shows "open_ipc_file env fops ops file projection schema cell w = open_ipc_file env' fops ops file projection schema cell w"
  by (rule open_file_same [OF assms])

text \<open>
  C12: Splitting a file into byte ranges changes nothing but the place where a batch is read. When a whole
  file can be read, and the ranges of its partitions lie end to end over the object, then every partition
  can be read, in any state of the world, and together they yield exactly the batches of the file, none lost
  and none twice.
\<close>

theorem partitions_read_every_batch_once:
  assumes serves: "serves (om_location object) contents env" and stored: "om_size object = length contents"
    and refuses: "\<And>d b y. dc_batch ops d b [] \<noteq> Inr y"
    and tiles: "tiles 0 (int (length contents)) ranges"
    and whole: "open_ipc_file env fops ops \<lparr>pf_meta = object, pf_range = None\<rparr> projection schema None w = (Inr (batches, None), w')"
  shows "\<exists>parts.
    list_all2 (\<lambda>r part. \<forall>v. \<exists>v'.
      open_ipc_file env fops ops \<lparr>pf_meta = object, pf_range = Some r\<rparr> projection schema None v = (Inr (part, None), v')) ranges parts \<and>
    mset (concat parts) = mset batches"
proof -
  have steady: "steady (open_layout env fops object None)"
    by (simp add: open_layout_def read_file_layout_steady [OF serves stored])
  obtain layout u where opened: "open_layout env fops object None w = (Inr layout, u)"
    and same: "dc_same_schema ops schema (fl_schema layout)"
    and stream: "file_stream env ops (om_location object) projection layout (fl_record_batches layout) u = (batches, None, w')"
    using whole by (auto simp: open_ipc_file_def io_bind_Inr blocks_of_def owns_block_def split: if_splits prod.splits)
  have inside: "layout_inside (length contents) layout"
    using open_layout_inside [OF opened] by (simp add: stored)
  obtain decoder bytes f where
    read: "\<forall>b\<in>set (fl_record_batches layout). answers (read_batch env ops (om_location object) decoder bytes b) (Inr (f b))"
    and all: "batches = concat (map (\<lambda>b. case f b of None \<Rightarrow> [] | Some x \<Rightarrow> [x]) (fl_record_batches layout))"
    and part: "\<forall>blocks v. set blocks \<subseteq> set (fl_record_batches layout) \<longrightarrow>
      (\<exists>v'. file_stream env ops (om_location object) projection layout blocks v =
        (concat (map (\<lambda>b. case f b of None \<Rightarrow> [] | Some x \<Rightarrow> [x]) blocks), None, v'))"
    using file_stream_partition [OF serves inside stream] by blast
  define yielded where "yielded = (\<lambda>b. case f b of None \<Rightarrow> [] | Some x \<Rightarrow> [x])"
  define piece where "piece r = concat (map yielded (filter (owns_block (Some r)) (fl_record_batches layout)))" for r
  have opens: "\<exists>v'. open_ipc_file env fops ops \<lparr>pf_meta = object, pf_range = Some r\<rparr> projection schema None v = (Inr (piece r, None), v')"
    for r v
  proof -
    obtain v1 where "open_layout env fops object None v = (Inr layout, v1)"
      using answersE [OF steady_answers [OF steady opened]] .
    moreover obtain v2 where "file_stream env ops (om_location object) projection layout
        (filter (owns_block (Some r)) (fl_record_batches layout)) v1 = (piece r, None, v2)"
      using part [rule_format, of "filter (owns_block (Some r)) (fl_record_batches layout)" v1]
      by (auto simp: piece_def yielded_def)
    ultimately show ?thesis using same by (simp add: open_ipc_file_def io_bind_def blocks_of_def)
  qed
  have "0 \<le> bk_offset b \<and> bk_offset b < int (length contents)" if b: "b \<in> set (fl_record_batches layout)" for b
  proof -
    have "block_inside (length contents) b" using inside b by (simp add: layout_inside_def)
    moreover from read_batch_decodes [OF serves this read [rule_format, OF b]] refuses have "block_data contents b \<noteq> []" by metis
    ultimately show ?thesis by (rule block_starts_inside)
  qed
  then have "filter (\<lambda>b. 0 \<le> bk_offset b \<and> bk_offset b < int (length contents)) (fl_record_batches layout) = fl_record_batches layout"
    by (simp add: filter_id_conv)
  with tiles_own_each_block [OF tiles, of yielded "fl_record_batches layout"]
  have "mset (concat (map piece ranges)) = mset batches"
    by (simp add: all piece_def [abs_def] yielded_def)
  with opens show ?thesis
    by (intro exI [of _ "map piece ranges"]) (simp add: list_all2_map2 list.rel_refl)
qed

section \<open>A small file\<close>

definition small_object :: ipc_object where
  "small_object = \<lparr>om_location = ''a'', om_size = 17, om_last_modified = 0, om_e_tag = None, om_version = None\<rparr>"

definition small_bytes :: string where
  "small_bytes = replicate 17 CHR ''x''"

definition small_env :: "(consumer \<Rightarrow> nat, unit) reader_env" where
  "small_env = \<lparr>re_get_range = \<lambda>_ start stop w. (Inr (take (stop - start) (drop start small_bytes)), w),
     re_resize = \<lambda>c n w. (Inr (), w(c := n)), re_free = \<lambda>c w. w(c := 0)\<rparr>"

text \<open>The same store, which refuses a range that the reader should not ask for.\<close>

definition strict_env :: "(consumer \<Rightarrow> nat, unit) reader_env" where
  "strict_env = small_env\<lparr>re_get_range := \<lambda>_ start stop w.
     (if within (\<lambda>c w. w c) 17 start stop w then Inr (take (stop - start) (drop start small_bytes)) else Inl (), w)\<rparr>"

definition small_footer_ops :: "(unit, unit, unit) footer_ops" where
  "small_footer_ops = \<lparr>fo_length = \<lambda>_. Inr 2,
     fo_parse = \<lambda>_. Inr \<lparr>ft_schema = Some (), ft_version = (), ft_dictionaries = None,
       ft_record_batches = Some [\<lparr>bk_offset = 0, bk_metadata_length = 1, bk_body_length = 2\<rparr>,
         \<lparr>bk_offset = 3, bk_metadata_length = 1, bk_body_length = 1\<rparr>]\<rparr>\<rparr>"

definition small_decoder_ops :: "(unit, unit, unit, nat, unit) decoder_ops" where
  "small_decoder_ops = \<lparr>dc_new = \<lambda>_ _. (), dc_project = \<lambda>_ d. d, dc_dictionary = \<lambda>d _ _. Inr d,
     dc_batch = \<lambda>_ _ bytes. if bytes = [] then Inl () else Inr (Some (length bytes)), dc_memory = \<lambda>b. b,
     dc_same_schema = \<lambda>_ _. True\<rparr>"

lemma small_serves: "serves (om_location small_object) small_bytes small_env"
  by (simp add: serves_def small_env_def)

lemma small_whole:
  "open_ipc_file small_env small_footer_ops small_decoder_ops \<lparr>pf_meta = small_object, pf_range = None\<rparr> None () None (\<lambda>_. 0) =
   (Inr ([3, 2], None), (\<lambda>_. 0)(LayoutMemory := 2))"
  by (simp add: open_ipc_file_def open_layout_def read_file_layout_def read_footer_def file_stream_def read_batch_def
      io_bind_def io_lift_def get_range_def try_resize_def external_def external_value_def small_env_def small_object_def
      small_footer_ops_def small_decoder_ops_def small_bytes_def free_on_error_def layout_of_footer_def blocks_of_def
      owns_block_def block_size_def read_block_def unsigned_def checked_add_def ok_or_def max_ipc_safety_bytes_def umax_def fun_eq_iff)

theorem partitions_read_every_batch_once_witness:
  "\<exists>parts.
    list_all2 (\<lambda>r part. \<forall>v. \<exists>v'.
      open_ipc_file small_env small_footer_ops small_decoder_ops \<lparr>pf_meta = small_object, pf_range = Some r\<rparr> None () None v =
        (Inr (part, None), v'))
      [\<lparr>fr_start = 0, fr_end = 2\<rparr>, \<lparr>fr_start = 2, fr_end = 17\<rparr>] parts \<and>
    mset (concat parts) = mset [3, 2]"
  by (rule partitions_read_every_batch_once [OF small_serves _ _ _ small_whole])
    (simp_all add: small_object_def small_bytes_def small_decoder_ops_def)

theorem open_file_reads_within_witness:
  "open_ipc_file small_env small_footer_ops small_decoder_ops \<lparr>pf_meta = small_object, pf_range = None\<rparr> None () None (\<lambda>_. 0) =
   open_ipc_file strict_env small_footer_ops small_decoder_ops \<lparr>pf_meta = small_object, pf_range = None\<rparr> None () None (\<lambda>_. 0)"
  by (rule open_file_reads_within [where reserved = "\<lambda>c w. w c"])
    (simp_all add: same_within_def resize_reserves_def strict_env_def small_env_def small_object_def)

end
