(* ===== verification/Arrow_Stream.thy ===== *)
theory Arrow_Stream
  imports Arrow_Layout
begin

text \<open>
  Arrow IPC streams (\<open>crates/silk-chiffon-format-arrow/src/input/mod.rs\<close>): the message frames of a stream object,
  the schema found in its first messages, and the reader that decodes the bytes of a stream as they arrive.

  The decoder of the \<open>arrow\<close> crate is a parameter; so is the flatbuffer of a message, of which the code reads the
  length of the body.
\<close>

section \<open>Message frames\<close>

datatype stream_message_read = StreamEnd | StreamMessage string nat | SafetyBoundExceeded

definition le_value :: "string \<Rightarrow> nat" where
  "le_value bytes = foldr (\<lambda>b n. of_char b + 256 * n) bytes 0"

record ('e) message_ops =
  mo_body_length :: "string \<Rightarrow> 'e + int"

text \<open>A four-byte little-endian number of the object.\<close>

definition read_u32 :: "('w, 'e) reader_env \<Rightarrow> ipc_object \<Rightarrow> nat \<Rightarrow> 'w \<Rightarrow> ('e arrow_error + nat) \<times> 'w" where
  "read_u32 env object offset =
     io_bind (get_range env (om_location object) offset (offset + 4)) (\<lambda>bytes.
       io_lift (if length bytes = 4 then Inr (le_value bytes) else Inl HeaderLength))"

definition read_message_header ::
  "('w, 'e) reader_env \<Rightarrow> ipc_object \<Rightarrow> nat \<Rightarrow> 'w \<Rightarrow> ('e arrow_error + nat \<times> nat) \<times> 'w" where
  "read_message_header env object offset =
     io_bind (read_u32 env object offset) (\<lambda>first.
       if first = umax 32
       then (if om_size object - offset < 8 then io_lift (Inl EndsAfterMarker)
             else io_bind (read_u32 env object (offset + 4)) (\<lambda>n. io_lift (Inr (8, n))))
       else io_lift (Inr (4, first)))"

definition read_message_body ::
  "('w, 'e) reader_env \<Rightarrow> 'e message_ops \<Rightarrow> ipc_object \<Rightarrow> nat \<Rightarrow> nat \<Rightarrow> nat \<Rightarrow> 'w \<Rightarrow>
   ('e arrow_error + stream_message_read) \<times> 'w" where
  "read_message_body env ops object offset header_len metadata_len =
     io_bind (io_lift (ok_or StreamRangeOverflow (checked_add (umax 64) offset header_len))) (\<lambda>metadata_start.
     io_bind (io_lift (ok_or StreamRangeOverflow (checked_add (umax 64) metadata_start metadata_len))) (\<lambda>metadata_end.
       if metadata_end > om_size object then io_lift (Inl EndsInMetadata)
       else if metadata_len > max_ipc_safety_bytes then io_lift (Inr SafetyBoundExceeded)
       else io_bind (get_range env (om_location object) metadata_start metadata_end) (\<lambda>metadata.
         io_bind (external_value (mo_body_length ops metadata)) (\<lambda>body.
         io_bind (io_lift (unsigned NegativeBody body)) (\<lambda>body_len.
         io_bind (io_lift (ok_or StreamRangeOverflow (checked_add (umax 64) metadata_end body_len))) (\<lambda>stop.
           if stop > om_size object then io_lift (Inl EndsInBody)
           else if stop - offset > max_ipc_safety_bytes then io_lift (Inr SafetyBoundExceeded)
           else io_bind (get_range env (om_location object) offset stop) (\<lambda>bytes.
             io_lift (Inr (StreamMessage bytes stop)))))))))"

definition read_stream_message ::
  "('w, 'e) reader_env \<Rightarrow> 'e message_ops \<Rightarrow> ipc_object \<Rightarrow> nat \<Rightarrow> 'w \<Rightarrow> ('e arrow_error + stream_message_read) \<times> 'w" where
  "read_stream_message env ops object offset =
     (if offset = om_size object then io_lift (Inr StreamEnd)
      else if om_size object - offset < 4 then io_lift (Inl EndsInHeader)
      else io_bind (read_message_header env object offset) (\<lambda>(header_len, metadata_len).
        if metadata_len = 0
        then io_bind (get_range env (om_location object) offset (offset + header_len)) (\<lambda>bytes.
               io_lift (Inr (StreamMessage bytes (offset + header_len))))
        else read_message_body env ops object offset header_len metadata_len))"

lemma read_message_header_Inr:
  assumes "read_message_header env object offset w = (Inr (header_len, metadata_len), w')" and "4 \<le> om_size object - offset"
  shows "4 \<le> header_len" and "offset + header_len \<le> om_size object"
  using assms by (auto simp: read_message_header_def io_bind_Inr io_lift_Inr split: if_splits)

lemma read_message_body_Inr:
  assumes "read_message_body env ops object offset header_len metadata_len w = (Inr (StreamMessage bytes stop), w')"
  shows "offset + header_len + metadata_len \<le> stop" and "stop \<le> om_size object" and "stop - offset \<le> max_ipc_safety_bytes"
  using assms
  by (auto simp: read_message_body_def io_bind_Inr io_lift_Inr ok_or_Inr_conv checked_add_Some_iff split: if_splits)

lemma read_stream_message_Inr:
  assumes "read_stream_message env ops object offset w = (Inr (StreamMessage bytes stop), w')"
  shows "offset + 4 \<le> stop \<and> stop \<le> om_size object \<and> stop - offset \<le> max_ipc_safety_bytes"
proof -
  from assms obtain v header_len metadata_len where room: "4 \<le> om_size object - offset"
    and header: "read_message_header env object offset w = (Inr (header_len, metadata_len), v)"
    by (auto simp: read_stream_message_def io_bind_Inr io_lift_Inr split: if_splits)
  have "header_len \<le> 8"
    using header by (auto simp: read_message_header_def io_bind_Inr io_lift_Inr split: if_splits)
  then show ?thesis
    using assms read_message_header_Inr [OF header room] header room
    by (auto simp: read_stream_message_def io_bind_def io_lift_Inr max_ipc_safety_bytes_def
        split: if_splits prod.splits sum.splits dest: read_message_body_Inr)
qed

section \<open>The schema of a stream\<close>

record ('d, 's, 'b, 'e) stream_decoder =
  sd_new :: 'd
  sd_decode :: "'d \<Rightarrow> string \<Rightarrow> 'e + 'd \<times> string \<times> 'b option"
  sd_schema :: "'d \<Rightarrow> 's option"
  sd_finish :: "'d \<Rightarrow> 'e + unit"
  sd_project :: "nat list \<Rightarrow> 'b \<Rightarrow> 'e + 'b"
  sd_memory :: "'b \<Rightarrow> nat"
  sd_same_schema :: "'s \<Rightarrow> 's \<Rightarrow> bool"

function infer_from ::
  "('w, 'e) reader_env \<Rightarrow> 'e message_ops \<Rightarrow> ('d, 's, 'b, 'e) stream_decoder \<Rightarrow> ipc_object \<Rightarrow> 'd \<Rightarrow> nat \<Rightarrow> 'w \<Rightarrow>
   ('e arrow_error + 's) \<times> 'w" where
  "infer_from env ops decoder_ops object decoder offset w =
     (case read_stream_message env ops object offset w of
        (Inl error, w) \<Rightarrow> (Inl error, w)
      | (Inr StreamEnd, w) \<Rightarrow> (Inl EndsBeforeSchema, w)
      | (Inr SafetyBoundExceeded, w) \<Rightarrow> (Inl MessageTooLarge, w)
      | (Inr (StreamMessage bytes stop), w) \<Rightarrow>
          (case sd_decode decoder_ops decoder bytes of
             Inl error \<Rightarrow> (Inl (External error), w)
           | Inr (decoder, _, _) \<Rightarrow>
               (case sd_schema decoder_ops decoder of
                  Some schema \<Rightarrow> (Inr schema, w)
                | None \<Rightarrow> infer_from env ops decoder_ops object decoder stop w)))"
  by pat_completeness auto

termination
  by (relation "measure (\<lambda>(env, ops, dops, object, decoder, offset, w). om_size object - offset)")
    (auto dest!: read_stream_message_Inr [OF sym])

definition infer_stream_schema ::
  "('w, 'e) reader_env \<Rightarrow> 'e message_ops \<Rightarrow> ('d, 's, 'b, 'e) stream_decoder \<Rightarrow> ipc_object \<Rightarrow> 'w \<Rightarrow> ('e arrow_error + 's) \<times> 'w" where
  "infer_stream_schema env ops decoder_ops object = infer_from env ops decoder_ops object (sd_new decoder_ops) 0"

declare infer_from.simps [simp del]

section \<open>Reading a stream\<close>

text \<open>
  The schema the decoder has found is checked once, before anything is yielded; \<open>checked\<close> is whether it was.
\<close>

definition check_schema ::
  "('d, 's, 'b, 'e) stream_decoder \<Rightarrow> 's \<Rightarrow> bool \<Rightarrow> 'd \<Rightarrow> ('e arrow_error, bool) result" where
  "check_schema ops expected checked decoder =
     (if checked then Inr True
      else case sd_schema ops decoder of
             None \<Rightarrow> Inr False
           | Some schema \<Rightarrow> if sd_same_schema ops expected schema then Inr True else Inl SchemaMismatch)"

definition project_ipc_batch ::
  "('d, 's, 'b, 'e) stream_decoder \<Rightarrow> nat list option \<Rightarrow> 'b \<Rightarrow> 'w \<Rightarrow> ('e arrow_error + 'b) \<times> 'w" where
  "project_ipc_batch ops projection batch =
     (case projection of None \<Rightarrow> io_lift (Inr batch) | Some p \<Rightarrow> external_value (sd_project ops p batch))"

text \<open>
  One decoded batch: what is yielded, and the error that stops the stream before or after it. \<open>held\<close> is the
  size of the reservation and \<open>rest\<close> the number of bytes still to be decoded.
\<close>

definition yield_batch ::
  "('w, 'e) reader_env \<Rightarrow> ('d, 's, 'b, 'e) stream_decoder \<Rightarrow> nat list option \<Rightarrow> nat \<Rightarrow> nat \<Rightarrow> 'b \<Rightarrow> 'w \<Rightarrow>
   'b list \<times> 'e arrow_error option \<times> 'w" where
  "yield_batch env ops projection held rest batch w =
     (case io_bind (project_ipc_batch ops projection batch) (\<lambda>batch.
           io_bind (io_lift (ok_or SizeOverflow (checked_add (umax 64) held (sd_memory ops batch)))) (\<lambda>n.
           io_bind (try_resize env StreamMemory n) (\<lambda>_. io_lift (Inr batch)))) w of
        (Inl error, w) \<Rightarrow> ([], Some error, w)
      | (Inr batch, w) \<Rightarrow>
          (case try_resize env StreamMemory rest w of
             (Inl error, w) \<Rightarrow> ([batch], Some error, w)
           | (Inr _, w) \<Rightarrow> ([batch], None, w)))"

text \<open>
  The loop over the bytes of a chunk. It runs until the decoder has taken them all; that it does is the
  decoder's doing, so the result is \<open>None\<close> when it never does.
\<close>

partial_function (option) decode_chunk ::
  "('w, 'e) reader_env \<Rightarrow> ('d, 's, 'b, 'e) stream_decoder \<Rightarrow> 's \<Rightarrow> nat list option \<Rightarrow> bool \<Rightarrow> 'd \<Rightarrow> nat \<Rightarrow> string \<Rightarrow> 'w \<Rightarrow>
   ('b list \<times> ('e arrow_error + bool \<times> 'd) \<times> 'w) option" where
  "decode_chunk env ops expected projection checked decoder held buffer w =
     (if buffer = [] then Some ([], Inr (checked, decoder), w)
      else case sd_decode ops decoder buffer of
        Inl error \<Rightarrow> Some ([], Inl (External error), w)
      | Inr (decoder, buffer, batch) \<Rightarrow>
          (case check_schema ops expected checked decoder of
             Inl error \<Rightarrow> Some ([], Inl error, w)
           | Inr checked \<Rightarrow>
               (case batch of
                  None \<Rightarrow> decode_chunk env ops expected projection checked decoder held buffer w
                | Some batch \<Rightarrow>
                    (case yield_batch env ops projection held (length buffer) batch w of
                       (yielded, Some error, w) \<Rightarrow> Some (yielded, Inl error, w)
                     | (yielded, None, w) \<Rightarrow>
                         Option.bind (decode_chunk env ops expected projection checked decoder (length buffer) buffer w)
                           (\<lambda>(more, result, w). Some (yielded @ more, result, w))))))"

text \<open>The loop over the chunks of the object, as the store delivers them.\<close>

fun read_chunks ::
  "('w, 'e) reader_env \<Rightarrow> ('d, 's, 'b, 'e) stream_decoder \<Rightarrow> 's \<Rightarrow> nat list option \<Rightarrow> bool \<Rightarrow> 'd \<Rightarrow> ('e + string) list \<Rightarrow> 'w \<Rightarrow>
   ('b list \<times> 'e arrow_error option \<times> 'w) option" where
  "read_chunks env ops expected projection checked decoder [] w =
     Some ([], case sd_finish ops decoder of Inl error \<Rightarrow> Some (External error) | Inr _ \<Rightarrow> None, w)"
| "read_chunks env ops expected projection checked decoder (Inl error # chunks) w = Some ([], Some (External error), w)"
| "read_chunks env ops expected projection checked decoder (Inr chunk # chunks) w =
     (case try_resize env StreamMemory (length chunk) w of
        (Inl error, w) \<Rightarrow> Some ([], Some error, w)
      | (Inr _, w) \<Rightarrow>
          Option.bind (decode_chunk env ops expected projection checked decoder (length chunk) chunk w)
            (\<lambda>(yielded, result, w).
               case result of
                 Inl error \<Rightarrow> Some (yielded, Some error, w)
               | Inr (checked, decoder) \<Rightarrow>
                   Option.bind (read_chunks env ops expected projection checked decoder chunks (re_free env StreamMemory w))
                     (\<lambda>(more, error, w). Some (yielded @ more, error, w))))"

text \<open>\<open>get\<close> is the request for the whole object. The reservation goes with the stream, however it ends.\<close>

definition open_ipc_stream ::
  "('w, 'e) reader_env \<Rightarrow> ('d, 's, 'b, 'e) stream_decoder \<Rightarrow> (string \<Rightarrow> 'w \<Rightarrow> ('e + ('e + string) list) \<times> 'w) \<Rightarrow>
   partitioned_file \<Rightarrow> nat list option \<Rightarrow> 's \<Rightarrow> 'w \<Rightarrow> (('e arrow_error + 'b list \<times> 'e arrow_error option) \<times> 'w) option" where
  "open_ipc_stream env ops get file projection expected w =
     (if pf_range file \<noteq> None then Some (Inl RangeOnStream, w)
      else case external (get (om_location (pf_meta file)) w) of
        (Inl error, w) \<Rightarrow> Some (Inl error, w)
      | (Inr chunks, w) \<Rightarrow>
          Option.bind (read_chunks env ops expected projection False (sd_new ops) chunks w)
            (\<lambda>(yielded, error, w). Some (Inr (yielded, error), re_free env StreamMemory w)))"

section \<open>Frames and their bytes\<close>

text \<open>A message of a stream, with or without the continuation marker of the newer format.\<close>

record stream_frame =
  sf_marked :: bool
  sf_metadata :: string
  sf_body :: string

definition le_bytes :: "nat \<Rightarrow> string" where
  "le_bytes n = [char_of n, char_of (n div 256), char_of (n div 65536), char_of (n div 16777216)]"

definition frame_bytes :: "stream_frame \<Rightarrow> string" where
  "frame_bytes frame =
     (if sf_marked frame then le_bytes (umax 32) else []) @ le_bytes (length (sf_metadata frame)) @
     sf_metadata frame @ sf_body frame"

definition frame_ok :: "'e message_ops \<Rightarrow> stream_frame \<Rightarrow> bool" where
  "frame_ok ops frame \<longleftrightarrow>
     length (frame_bytes frame) \<le> max_ipc_safety_bytes \<and>
     (if sf_metadata frame = [] then sf_body frame = []
      else mo_body_length ops (sf_metadata frame) = Inr (int (length (sf_body frame))))"

lemma le_value_bytes:
  assumes "n \<le> umax 32"
  shows "le_value (le_bytes n) = n"
proof -
  define a b c where "a = n div 256" and "b = a div 256" and "c = b div 256"
  have "n div 65536 = b" and "n div 16777216 = c"
    by (simp_all add: a_def b_def c_def div_mult2_eq [symmetric])
  moreover have "c < 256" using assms by (simp add: umax_def c_def b_def a_def div_mult2_eq [symmetric])
  ultimately have "le_value (le_bytes n) = n mod 256 + 256 * (a mod 256 + 256 * (b mod 256 + 256 * c))"
    by (simp add: le_value_def le_bytes_def a_def)
  also have "\<dots> = n"
    using mult_div_mod_eq [of 256 n] mult_div_mod_eq [of 256 a] mult_div_mod_eq [of 256 b]
    by (simp add: a_def [symmetric] b_def [symmetric] c_def [symmetric])
  finally show ?thesis .
qed

lemma length_le_bytes [simp]: "length (le_bytes n) = 4"
  by (simp add: le_bytes_def)

lemma length_frame_bytes:
  "length (frame_bytes frame) =
    (if sf_marked frame then 8 else 4) + length (sf_metadata frame) + length (sf_body frame)"
  by (simp add: frame_bytes_def)

lemma answers_u32:
  assumes "serves (om_location object) contents env" and "contents = before @ le_bytes n @ after" and "n \<le> umax 32"
  shows "answers (read_u32 env object (length before)) (Inr n)"
proof -
  have "answers (get_range env (om_location object) (length before) (length before + 4)) (Inr (le_bytes n))"
    using answers_get [OF assms(1), of "length before" "length before + 4"] assms(2) by simp
  then show ?thesis
    unfolding read_u32_def by (rule answers_bind_Inr) (use le_value_bytes [OF assms(3)] answers_lift in simp)
qed

lemma answers_header:
  assumes serves: "serves (om_location object) contents env" and stored: "om_size object = length contents"
    and here: "contents = before @ frame_bytes frame @ after" and ok: "frame_ok ops frame"
  shows "answers (read_message_header env object (length before))
    (Inr (if sf_marked frame then 8 else 4, length (sf_metadata frame)))"
proof -
  have small: "length (sf_metadata frame) < umax 32"
    using ok by (auto simp: frame_ok_def length_frame_bytes umax_def max_ipc_safety_bytes_def split: if_splits)
  show ?thesis
  proof (cases "sf_marked frame")
    case False
    have "contents = before @ le_bytes (length (sf_metadata frame)) @ sf_metadata frame @ sf_body frame @ after"
      using False here by (simp add: frame_bytes_def)
    from answers_u32 [OF serves this] small False show ?thesis
      unfolding read_message_header_def by (intro answers_bind_Inr) (auto intro: answers_lift)
  next
    case True
    have first: "contents = before @ le_bytes (umax 32) @ le_bytes (length (sf_metadata frame)) @ sf_metadata frame @ sf_body frame @ after"
      using True here by (simp add: frame_bytes_def)
    have second: "contents = (before @ le_bytes (umax 32)) @ le_bytes (length (sf_metadata frame)) @ sf_metadata frame @ sf_body frame @ after"
      using first by simp
    have room: "8 \<le> om_size object - length before" using first by (simp add: stored)
    have length2: "length (before @ le_bytes (umax 32)) = length before + 4" by simp
    have "answers (read_u32 env object (length before + 4)) (Inr (length (sf_metadata frame)))"
      using answers_u32 [OF serves second, unfolded length2] small by simp
    then have "answers (io_bind (read_u32 env object (length before + 4)) (\<lambda>n. io_lift (Inr (8, n))))
      (Inr (8, length (sf_metadata frame)))"
      by (rule answers_bind_Inr) (rule answers_lift)
    then show ?thesis
      unfolding read_message_header_def using room True
      by (intro answers_bind_Inr [OF answers_u32 [OF serves first]]) auto
  qed
qed

lemma answers_metadata_end:
  assumes serves: "serves (om_location object) contents env" and stored: "om_size object = length contents"
    and bounded: "length contents \<le> umax 64"
    and here: "contents = before @ frame_bytes frame @ after" and ok: "frame_ok ops frame" and some: "sf_metadata frame \<noteq> []"
  shows "answers (read_message_body env ops object (length before) (if sf_marked frame then 8 else 4) (length (sf_metadata frame)))
    (Inr (StreamMessage (frame_bytes frame) (length before + length (frame_bytes frame))))"
proof -
  define h :: nat where "h = (if sf_marked frame then 8 else 4)"
  let ?start = "length before + h"
  let ?stop = "?start + length (sf_metadata frame)"
  let ?final = "?stop + length (sf_body frame)"
  have len: "length (frame_bytes frame) = h + length (sf_metadata frame) + length (sf_body frame)"
    by (simp add: length_frame_bytes h_def)
  have total: "length contents = length before + length (frame_bytes frame) + length after"
    by (simp add: here)
  have bytes: "take (length (sf_metadata frame)) (drop ?start contents) = sf_metadata frame"
    by (simp add: here frame_bytes_def h_def)
  have all: "take (length (frame_bytes frame)) (drop (length before) contents) = frame_bytes frame"
    by (simp add: here)
  have fits: "?final \<le> length contents" and small: "length (frame_bytes frame) \<le> max_ipc_safety_bytes"
    using total len ok by (simp_all add: frame_ok_def)
  have metadata: "answers (get_range env (om_location object) ?start ?stop) (Inr (sf_metadata frame))"
    using answers_get [OF serves, of ?start ?stop] fits bytes by simp
  have whole: "answers (get_range env (om_location object) (length before) ?final) (Inr (frame_bytes frame))"
    using answers_get [OF serves, of "length before" ?final] fits all len by (simp add: add.assoc)
  have body: "mo_body_length ops (sf_metadata frame) = Inr (int (length (sf_body frame)))"
    using ok some by (simp add: frame_ok_def)
  have adds: "checked_add (umax 64) (length before) h = Some ?start"
    "checked_add (umax 64) ?start (length (sf_metadata frame)) = Some ?stop"
    "checked_add (umax 64) ?stop (length (sf_body frame)) = Some ?final"
    using fits bounded by (simp_all only: checked_add_def) auto
  have external: "answers (external_value (Inr x)) (Inr x)" for x
    by (simp add: answers_def external_value_def external_def)
  have last: "answers (io_bind (get_range env (om_location object) (length before) ?final) (\<lambda>bytes.
      io_lift (Inr (StreamMessage bytes ?final)))) (Inr (StreamMessage (frame_bytes frame) (length before + length (frame_bytes frame))))"
    by (rule answers_bind_Inr [OF whole]) (simp add: len add.assoc answers_lift)
  have small_final: "?final - length before \<le> max_ipc_safety_bytes" and small_metadata: "length (sf_metadata frame) \<le> max_ipc_safety_bytes"
    using small len by simp_all
  have "answers (read_message_body env ops object (length before) h (length (sf_metadata frame)))
    (Inr (StreamMessage (frame_bytes frame) (length before + length (frame_bytes frame))))"
    unfolding read_message_body_def adds ok_or_simps io_bind_lift
    using fits stored small_final small_metadata
    by (auto simp: body adds unsigned_def ok_or_simps intro!: answers_bind_Inr [OF metadata] answers_bind_Inr [OF external] last)
  then show ?thesis unfolding h_def .
qed

lemma answers_frame:
  assumes serves: "serves (om_location object) contents env" and stored: "om_size object = length contents"
    and bounded: "length contents \<le> umax 64"
    and here: "contents = before @ frame_bytes frame @ after" and ok: "frame_ok ops frame"
  shows "answers (read_stream_message env ops object (length before))
    (Inr (StreamMessage (frame_bytes frame) (length before + length (frame_bytes frame))))"
proof -
  have room: "4 \<le> om_size object - length before" "length before \<noteq> om_size object"
    by (simp_all add: stored here length_frame_bytes)
  have body: "answers (if length (sf_metadata frame) = 0
      then io_bind (get_range env (om_location object) (length before) (length before + (if sf_marked frame then 8 else 4)))
             (\<lambda>bytes. io_lift (Inr (StreamMessage bytes (length before + (if sf_marked frame then 8 else 4)))))
      else read_message_body env ops object (length before) (if sf_marked frame then 8 else 4) (length (sf_metadata frame)))
    (Inr (StreamMessage (frame_bytes frame) (length before + length (frame_bytes frame))))"
  proof (cases "sf_metadata frame = []")
    case True
    with ok have len: "length (frame_bytes frame) = (if sf_marked frame then 8 else 4)"
      by (simp add: frame_ok_def length_frame_bytes)
    have "answers (get_range env (om_location object) (length before) (length before + length (frame_bytes frame)))
      (Inr (frame_bytes frame))"
      using answers_get [OF serves, of "length before" "length before + length (frame_bytes frame)"] by (simp add: here)
    with True show ?thesis
      unfolding len [symmetric] by (auto intro: answers_bind_Inr answers_lift)
  qed (use answers_metadata_end [OF serves stored bounded here ok] in simp)
  show ?thesis
    unfolding read_stream_message_def using room
    by (auto intro!: answers_bind_Inr [OF answers_header [OF serves stored here ok]] body)
qed

lemma answers_end:
  assumes "om_size object = length contents"
  shows "answers (read_stream_message env ops object (length contents)) (Inr StreamEnd)"
  unfolding read_stream_message_def using assms by (auto intro: answers_lift)

section \<open>The schema is the one the messages carry\<close>

text \<open>The messages are handed to the decoder one after the other until it has found a schema.\<close>

fun schema_of_messages ::
  "('d, 's, 'b, 'e) stream_decoder \<Rightarrow> 'd \<Rightarrow> string list \<Rightarrow> 'e arrow_error + 's" where
  "schema_of_messages ops decoder [] = Inl EndsBeforeSchema"
| "schema_of_messages ops decoder (message # messages) =
     (case sd_decode ops decoder message of
        Inl error \<Rightarrow> Inl (External error)
      | Inr (decoder, _, _) \<Rightarrow>
          (case sd_schema ops decoder of Some schema \<Rightarrow> Inr schema | None \<Rightarrow> schema_of_messages ops decoder messages))"

lemma infer_from_frames:
  assumes serves: "serves (om_location object) contents env" and stored: "om_size object = length contents"
    and bounded: "length contents \<le> umax 64"
    and here: "contents = before @ concat (map frame_bytes frames)" and ok: "\<forall>frame\<in>set frames. frame_ok ops frame"
  shows "fst (infer_from env ops decoder_ops object decoder (length before) w) =
    schema_of_messages decoder_ops decoder (map frame_bytes frames)"
  using here ok
proof (induction frames arbitrary: before decoder w)
  case Nil
  have "answers (read_stream_message env ops object (length before)) (Inr StreamEnd)"
    using answers_end [OF stored] Nil.prems(1) by simp
  then obtain v where "read_stream_message env ops object (length before) w = (Inr StreamEnd, v)"
    by (rule answersE)
  then show ?case by (simp add: infer_from.simps [of env ops decoder_ops object decoder "length before"])
next
  case (Cons frame frames)
  have "contents = before @ frame_bytes frame @ concat (map frame_bytes frames)"
    using Cons.prems(1) by simp
  moreover have "frame_ok ops frame" using Cons.prems(2) by simp
  ultimately obtain v where v: "read_stream_message env ops object (length before) w =
    (Inr (StreamMessage (frame_bytes frame) (length before + length (frame_bytes frame))), v)"
    using answersE [OF answers_frame [OF serves stored bounded]] by metis
  have rest: "fst (infer_from env ops decoder_ops object d (length before + length (frame_bytes frame)) v) =
    schema_of_messages decoder_ops d (map frame_bytes frames)" for d
    using Cons.IH [of "before @ frame_bytes frame"] Cons.prems by simp
  show ?case
    by (simp add: infer_from.simps [of env ops decoder_ops object decoder "length before"] v rest split: sum.split option.split prod.split)
qed

text \<open>
  C37: For a stored stream of well-formed messages, with or without continuation markers, inferring the
  schema ends and gives what the decoder finds when it is handed the messages one after the other, each
  exactly once and in order.
\<close>

theorem inferred_schema_is_the_streams:
  assumes "serves (om_location object) contents env" and "om_size object = length contents" and "length contents \<le> umax 64"
    and "contents = concat (map frame_bytes frames)" and "\<forall>frame\<in>set frames. frame_ok ops frame"
  shows "fst (infer_stream_schema env ops decoder_ops object w) =
    schema_of_messages decoder_ops (sd_new decoder_ops) (map frame_bytes frames)"
  using infer_from_frames [OF assms(1-3), of "[]" frames] assms(4,5) by (simp add: infer_stream_schema_def)

section \<open>What is read of a stream\<close>

definition same_bounded :: "ipc_object \<Rightarrow> ('w, 'e) reader_env \<Rightarrow> ('w, 'e) reader_env \<Rightarrow> bool" where
  "same_bounded object env env' \<longleftrightarrow>
     (\<forall>start stop w. start \<le> stop \<longrightarrow> stop \<le> om_size object \<longrightarrow> stop - start \<le> max_ipc_safety_bytes \<longrightarrow>
        re_get_range env (om_location object) start stop w = re_get_range env' (om_location object) start stop w)"

lemma same_bounded_get:
  "same_bounded object env env' \<Longrightarrow> start \<le> stop \<Longrightarrow> stop \<le> om_size object \<Longrightarrow> stop - start \<le> max_ipc_safety_bytes \<Longrightarrow>
   get_range env (om_location object) start stop w = get_range env' (om_location object) start stop w"
  by (simp add: same_bounded_def get_range_def)

lemma read_u32_same:
  "same_bounded object env env' \<Longrightarrow> offset + 4 \<le> om_size object \<Longrightarrow> read_u32 env object offset w = read_u32 env' object offset w"
  unfolding read_u32_def
  by (intro io_bind_cong same_bounded_get) (simp_all add: max_ipc_safety_bytes_def)

lemma read_message_header_same:
  assumes "same_bounded object env env'" and "4 \<le> om_size object - offset"
  shows "read_message_header env object offset w = read_message_header env' object offset w"
  unfolding read_message_header_def using assms(2)
  by (auto intro!: io_bind_cong read_u32_same [OF assms(1)])

lemma read_message_body_same:
  assumes "same_bounded object env env'"
  shows "read_message_body env ops object offset header_len metadata_len w =
    read_message_body env' ops object offset header_len metadata_len w"
  unfolding read_message_body_def
  by (auto intro!: io_bind_cong same_bounded_get [OF assms] simp: io_lift_Inr ok_or_Inr_conv checked_add_Some_iff)

lemma read_stream_message_same:
  assumes "same_bounded object env env'"
  shows "read_stream_message env ops object offset w = read_stream_message env' ops object offset w"
proof -
  have short: "h \<le> max_ipc_safety_bytes" if "read_message_header env object offset w = (Inr (h, m), v)" for h m v
    using that by (auto simp: read_message_header_def io_bind_Inr io_lift_Inr max_ipc_safety_bytes_def split: if_splits)
  show ?thesis
  proof (cases "offset \<noteq> om_size object \<and> 4 \<le> om_size object - offset")
    case True
    then have room: "4 \<le> om_size object - offset" by simp
    note inside = read_message_header_Inr [OF _ room]
    show ?thesis
      unfolding read_stream_message_def using True
      by (auto intro!: read_message_body_same [OF assms] io_bind_cong read_message_header_same [OF assms room]
          same_bounded_get [OF assms]) (blast dest: inside(2) short)+
  qed (auto simp: read_stream_message_def)
qed

lemma infer_from_same:
  assumes "same_bounded object env env'"
  shows "infer_from env ops decoder_ops object decoder offset w = infer_from env' ops decoder_ops object decoder offset w"
proof (induction "om_size object - offset" arbitrary: decoder offset w rule: less_induct)
  case less
  have "infer_from env ops decoder_ops object d stop v = infer_from env' ops decoder_ops object d stop v"
    if "read_stream_message env ops object offset w = (Inr (StreamMessage bytes stop), u)" for bytes stop u d v
    using read_stream_message_Inr [OF that] by (intro less) auto
  then show ?case
    unfolding infer_from.simps [of env ops decoder_ops object decoder offset]
      infer_from.simps [of env' ops decoder_ops object decoder offset] read_stream_message_same [OF assms, symmetric]
    by (auto split: prod.split sum.split option.split stream_message_read.split)
qed

text \<open>
  Whatever the bytes of an Arrow stream say, inferring its schema asks the store only for ranges inside
  the object of at most 512 MiB.
\<close>

theorem stream_reads_within:
  assumes "same_bounded object env env'"
  shows "infer_stream_schema env ops decoder_ops object w = infer_stream_schema env' ops decoder_ops object w"
  unfolding infer_stream_schema_def by (rule infer_from_same [OF assms])

section \<open>The stream reader\<close>

text \<open>What the decoder documents: it takes bytes of what it is given, and a batch comes after its schema.\<close>

definition takes_bytes :: "('d, 's, 'b, 'e) stream_decoder \<Rightarrow> bool" where
  "takes_bytes ops \<longleftrightarrow>
     (\<forall>d buffer d' rest batch. buffer \<noteq> [] \<longrightarrow> sd_decode ops d buffer = Inr (d', rest, batch) \<longrightarrow> length rest < length buffer)"

definition schema_first :: "('d, 's, 'b, 'e) stream_decoder \<Rightarrow> bool" where
  "schema_first ops \<longleftrightarrow>
     (\<forall>d buffer d' rest batch. sd_decode ops d buffer = Inr (d', rest, Some batch) \<longrightarrow> sd_schema ops d' \<noteq> None)"

definition foreign_schema :: "('d, 's, 'b, 'e) stream_decoder \<Rightarrow> 's \<Rightarrow> bool" where
  "foreign_schema ops expected \<longleftrightarrow> (\<forall>d schema. sd_schema ops d = Some schema \<longrightarrow> \<not> sd_same_schema ops expected schema)"

lemma takes_bytesD:
  "takes_bytes ops \<Longrightarrow> buffer \<noteq> [] \<Longrightarrow> sd_decode ops d buffer = Inr (d', rest, batch) \<Longrightarrow> length rest < length buffer"
  unfolding takes_bytes_def by blast

lemma decode_chunk_returns:
  assumes "takes_bytes ops"
  shows "\<exists>ys r w'. decode_chunk env ops expected projection checked decoder held buffer w = Some (ys, r, w')"
proof (induction "length buffer" arbitrary: buffer checked decoder held w rule: less_induct)
  case less
  have rest: "\<exists>ys r w'. decode_chunk env ops expected projection c d n rest v = Some (ys, r, w')"
    if "buffer \<noteq> []" and "sd_decode ops decoder buffer = Inr (d', rest, batch)" for c d d' n rest batch v
    by (rule less) (rule takes_bytesD [OF assms that])
  have yielded: "\<exists>ys r w'. Option.bind (decode_chunk env ops expected projection c d (length rest) rest v)
      (\<lambda>(more, result, w). Some (out @ more, result, w)) = Some (ys, r, w')"
    if "buffer \<noteq> []" and "sd_decode ops decoder buffer = Inr (d', rest, batch)" for c d d' rest batch v out
    using rest [OF that, of c d "length rest" v] by auto
  show ?case
    unfolding decode_chunk.simps [of env ops expected projection checked decoder held buffer]
    by (auto split: sum.split option.split prod.split simp del: bind_eq_Some_conv dest: rest yielded intro!: rest yielded)
qed

lemma read_chunks_returns:
  assumes "takes_bytes ops"
  shows "\<exists>ys r w'. read_chunks env ops expected projection checked decoder chunks w = Some (ys, r, w')"
proof (induction chunks arbitrary: checked decoder w)
  case (Cons chunk chunks)
  show ?case
  proof (cases chunk)
    case (Inr bytes)
    obtain sized v where v: "try_resize env StreamMemory (length bytes) w = (sized, v)" by fastforce
    obtain ys r u where u: "decode_chunk env ops expected projection checked decoder (length bytes) bytes v = Some (ys, r, u)"
      by (metis decode_chunk_returns [OF assms])
    have rest: "\<exists>ys e w'. read_chunks env ops expected projection c d chunks (re_free env StreamMemory u) = Some (ys, e, w')" for c d
      by (rule Cons.IH)
    show ?thesis
    proof (cases r)
      case (Inr out)
      obtain zs e w' where "read_chunks env ops expected projection (fst out) (snd out) chunks (re_free env StreamMemory u) =
          Some (zs, e, w')"
        by (metis rest)
      with v u Inr \<open>chunk = Inr bytes\<close> show ?thesis by (cases sized) (auto split: prod.splits)
    qed (use v u Inr in \<open>cases sized; auto\<close>)
  qed simp
qed simp

text \<open>
  Reading an Arrow stream ends when the decoder takes at least one byte of what it is given, whatever
  the store, the memory pool and the decoder answer.
\<close>

theorem open_stream_returns:
  assumes "takes_bytes ops"
  shows "\<exists>r w'. open_ipc_stream env ops get file projection expected w = Some (r, w')"
proof -
  obtain r v where v: "external (get (om_location (pf_meta file)) w) = (r, v)" by fastforce
  have "\<exists>ys e w'. read_chunks env ops expected projection False (sd_new ops) chunks v = Some (ys, e, w')" for chunks
    by (rule read_chunks_returns [OF assms])
  with v show ?thesis by (cases r) (auto simp: open_ipc_stream_def bind_eq_Some_conv)
qed

lemma check_schema_foreign:
  "foreign_schema ops expected \<Longrightarrow> check_schema ops expected False d = Inr c \<Longrightarrow> sd_schema ops d = None \<and> \<not> c"
  by (auto simp: check_schema_def foreign_schema_def split: option.splits if_splits)

lemma decode_chunk_foreign:
  assumes "takes_bytes ops" and "schema_first ops" and "foreign_schema ops expected"
    and "decode_chunk env ops expected projection False decoder held buffer w = Some (yielded, r, w')"
  shows "yielded = [] \<and> (\<forall>checked d. r = Inr (checked, d) \<longrightarrow> \<not> checked)"
  using assms(4)
proof (induction "length buffer" arbitrary: buffer decoder held w rule: less_induct)
  case less
  note step = decode_chunk.simps [of env ops expected projection False]
  show ?case
  proof (cases "buffer = []")
    case True
    with less.prems show ?thesis by (auto simp: decode_chunk.simps)
  next
    case False
    show ?thesis
    proof (cases "sd_decode ops decoder buffer")
      case (Inl e)
      with False less.prems show ?thesis by (auto simp: step)
    next
      case (Inr out)
      then obtain d rest batch where out: "sd_decode ops decoder buffer = Inr (d, rest, batch)" by (cases out) auto
      show ?thesis
      proof (cases "check_schema ops expected False d")
        case (Inl e)
        with False out less.prems show ?thesis by (auto simp: step)
      next
        case (Inr c)
        from check_schema_foreign [OF assms(3) Inr] have "sd_schema ops d = None" and c: "\<not> c" by auto
        with assms(2) out have "batch = None" unfolding schema_first_def by (cases batch) blast+
        with False out Inr c less.prems have "decode_chunk env ops expected projection False d held rest w = Some (yielded, r, w')"
          by (simp add: step [of decoder])
        then show ?thesis by (rule less.hyps [OF takes_bytesD [OF assms(1) False out]])
      qed
    qed
  qed
qed

lemma read_chunks_foreign:
  assumes "takes_bytes ops" and "schema_first ops" and "foreign_schema ops expected"
    and "read_chunks env ops expected projection False decoder chunks w = Some (yielded, e, w')"
  shows "yielded = []"
  using assms(4)
proof (induction chunks arbitrary: decoder w yielded)
  case (Cons chunk chunks)
  show ?case
  proof (cases chunk)
    case (Inl e)
    with Cons.prems show ?thesis by simp
  next
    case chunk: (Inr bytes)
    obtain sized v where v: "try_resize env StreamMemory (length bytes) w = (sized, v)" by fastforce
    obtain ys r u where u: "decode_chunk env ops expected projection False decoder (length bytes) bytes v = Some (ys, r, u)"
      by (metis decode_chunk_returns [OF assms(1)])
    from decode_chunk_foreign [OF assms(1-3) this] have ys: "ys = []" and c: "\<And>c d. r = Inr (c, d) \<Longrightarrow> \<not> c" by auto
    show ?thesis
    proof (cases sized)
      case (Inl e)
      with Cons.prems v show ?thesis by (simp add: chunk)
    next
      case sized: (Inr x)
      show ?thesis
      proof (cases r)
        case (Inr out)
        then obtain d where "r = Inr (False, d)" using c by (cases out) auto
        with v u ys sized chunk Cons.prems show ?thesis
          by (auto simp: bind_eq_Some_conv intro: Cons.IH)
      qed (use v u ys sized chunk Cons.prems in auto)
    qed
  qed
qed simp

text \<open>
  A stream whose schema is not the expected one yields no batch at all, however its bytes are cut into
  chunks.
\<close>

theorem foreign_stream_yields_nothing:
  assumes "takes_bytes ops" and "schema_first ops" and "foreign_schema ops expected"
    and "open_ipc_stream env ops get file projection expected w = Some (Inr (yielded, e), w')"
  shows "yielded = []"
proof -
  obtain r v where v: "external (get (om_location (pf_meta file)) w) = (r, v)" by fastforce
  then show ?thesis
    using assms(4) read_chunks_foreign [OF assms(1-3)]
    by (cases r) (auto simp: open_ipc_stream_def bind_eq_Some_conv split: if_splits)
qed

section \<open>A small stream\<close>

definition stream_object :: ipc_object where
  "stream_object = \<lparr>om_location = ''s'', om_size = 10, om_last_modified = 0, om_e_tag = None, om_version = None\<rparr>"

definition stream_frames :: "stream_frame list" where
  "stream_frames = [\<lparr>sf_marked = False, sf_metadata = ''mm'', sf_body = []\<rparr>, \<lparr>sf_marked = False, sf_metadata = [], sf_body = []\<rparr>]"

definition stream_env :: "(unit, unit) reader_env" where
  "stream_env = \<lparr>re_get_range = \<lambda>_ start stop w.
       (Inr (take (stop - start) (drop start (concat (map frame_bytes stream_frames)))), w),
     re_resize = \<lambda>_ _ w. (Inr (), w), re_free = \<lambda>_ w. w\<rparr>"

definition stream_ops :: "unit message_ops" where
  "stream_ops = \<lparr>mo_body_length = \<lambda>_. Inr 0\<rparr>"

text \<open>A decoder of one byte at a time: the schema is known after the first, every further byte is a batch.\<close>

definition byte_decoder :: "(nat, nat, char, unit) stream_decoder" where
  "byte_decoder = \<lparr>sd_new = 0,
     sd_decode = \<lambda>n buffer. Inr (Suc n, tl buffer, if n = 0 then None else Some (hd buffer)),
     sd_schema = \<lambda>n. if n = 0 then None else Some 7, sd_finish = \<lambda>_. Inr (), sd_project = \<lambda>_ b. Inr b,
     sd_memory = \<lambda>_. 1, sd_same_schema = (=)\<rparr>"

theorem inferred_schema_is_the_streams_witness:
  "fst (infer_stream_schema stream_env stream_ops byte_decoder stream_object ()) = Inr 7"
proof -
  have "fst (infer_stream_schema stream_env stream_ops byte_decoder stream_object ()) =
    schema_of_messages byte_decoder (sd_new byte_decoder) (map frame_bytes stream_frames)"
    by (rule inferred_schema_is_the_streams [where contents = "concat (map frame_bytes stream_frames)"])
      (simp_all add: serves_def stream_env_def stream_object_def stream_frames_def frame_bytes_def frame_ok_def
        stream_ops_def max_ipc_safety_bytes_def umax_def)
  then show ?thesis by (simp add: byte_decoder_def stream_frames_def)
qed

theorem stream_reads_within_witness:
  "infer_stream_schema stream_env stream_ops byte_decoder stream_object () =
   infer_stream_schema (stream_env\<lparr>re_get_range := \<lambda>location start stop w.
       if stop \<le> 10 then re_get_range stream_env location start stop w else (Inl (), w)\<rparr>)
     stream_ops byte_decoder stream_object ()"
  by (rule stream_reads_within) (simp add: same_bounded_def stream_object_def)

lemma byte_decoder_laws: "takes_bytes byte_decoder" "schema_first byte_decoder" "foreign_schema byte_decoder 8"
  by (simp_all add: takes_bytes_def schema_first_def foreign_schema_def byte_decoder_def)

theorem open_stream_returns_witness:
  "\<exists>r w'. open_ipc_stream stream_env byte_decoder (\<lambda>_ w. (Inr [Inr ''ab'', Inl ()], w))
     \<lparr>pf_meta = stream_object, pf_range = None\<rparr> None 7 () = Some (r, w')"
  by (rule open_stream_returns [OF byte_decoder_laws(1)])

lemma foreign_run:
  "open_ipc_stream stream_env byte_decoder (\<lambda>_ w. (Inr [Inr ''ab''], w)) \<lparr>pf_meta = stream_object, pf_range = None\<rparr> None 8 () =
   Some (Inr ([], Some SchemaMismatch), ())"
  by (simp add: open_ipc_stream_def external_def stream_env_def try_resize_def decode_chunk.simps byte_decoder_def check_schema_def
      stream_object_def)

theorem foreign_stream_yields_nothing_witness:
  "\<exists>yielded. fst (the (open_ipc_stream stream_env byte_decoder (\<lambda>_ w. (Inr [Inr ''ab''], w))
       \<lparr>pf_meta = stream_object, pf_range = None\<rparr> None 8 ())) = Inr (yielded, Some SchemaMismatch) \<and> yielded = []"
  using foreign_run foreign_stream_yields_nothing [OF byte_decoder_laws foreign_run] by simp

end
