(* ===== verification/Arrow_Scan.thy ===== *)
theory Arrow_Scan
  imports Arrow_Layout "HOL-Library.Product_Lexorder" "HOL-Library.List_Lexorder" "HOL-Library.Char_ord"
begin

text \<open>
  Planning a scan of Arrow inputs (\<open>crates/silk-chiffon-format-arrow/src/input/mod.rs\<close>): the distribution of
  whole files over the partitions of a query, and the leases that let the partitions of one file share its layout.
\<close>

section \<open>Whole files over partitions\<close>

definition file_size :: "partitioned_file \<Rightarrow> nat" where
  "file_size file = om_size (pf_meta file)"

text \<open>The largest file first; files of one size in the order of their paths.\<close>

definition scan_order :: "partitioned_file list \<Rightarrow> partitioned_file list" where
  "scan_order = sort_key (\<lambda>file. (- int (file_size file), om_location (pf_meta file)))"

definition group_key :: "(nat \<times> 'a list) list \<Rightarrow> nat \<Rightarrow> nat \<times> nat \<times> nat" where
  "group_key groups i = (fst (groups ! i), length (snd (groups ! i)), i)"

text \<open>The group with the least key; the caller has at least one.\<close>

definition least_group :: "(nat \<times> 'a list) list \<Rightarrow> nat" where
  "least_group groups = snd (snd (fold min (map (group_key groups) [0..<length groups]) (group_key groups 0)))"

definition place_file :: "partitioned_file \<Rightarrow> (nat \<times> partitioned_file list) list \<Rightarrow> (nat \<times> partitioned_file list) list" where
  "place_file file groups =
     (let i = least_group groups
      in groups[i := (min (umax 64) (fst (groups ! i) + file_size file), snd (groups ! i) @ [file])])"

definition repartition_whole_files :: "partitioned_file list list \<Rightarrow> nat \<Rightarrow> partitioned_file list list option" where
  "repartition_whole_files file_groups target_partitions =
     (let files = concat file_groups;
          group_count = min target_partitions (length files)
      in if group_count \<le> length file_groups then None
         else Some (map snd (fold place_file (scan_order files) (replicate group_count (0, [])))))"

lemma fold_min: "fold min xs (x::'a::linorder) \<in> insert x (set xs)"
proof (induction xs arbitrary: x)
  case (Cons y ys)
  from Cons [of "min y x"] show ?case by (auto simp: min_def split: if_splits)
qed simp

lemma fold_min_below: "fold min xs (x::'a::linorder) \<le> x"
proof (induction xs arbitrary: x)
  case (Cons y ys)
  from Cons [of "min y x"] show ?case by simp
qed simp

lemma fold_min_le: "y \<in> insert x (set xs) \<Longrightarrow> fold min xs (x::'a::linorder) \<le> y"
proof (induction xs arbitrary: x)
  case (Cons z zs)
  show ?case
  proof (cases "y \<in> set zs")
    case True
    then show ?thesis using Cons.IH [of "min z x"] by simp
  next
    case False
    with Cons.prems fold_min_below [of zs "min z x"] show ?thesis by auto
  qed
qed simp

lemma least_group_less: "groups \<noteq> [] \<Longrightarrow> least_group groups < length groups"
  using fold_min [of "map (group_key groups) [0..<length groups]" "group_key groups 0"]
  by (auto simp: least_group_def group_key_def)

lemma least_group_key:
  assumes "j < length groups"
  shows "group_key groups (least_group groups) \<le> group_key groups j"
proof -
  let ?m = "fold min (map (group_key groups) [0..<length groups]) (group_key groups 0)"
  have "?m \<in> insert (group_key groups 0) (set (map (group_key groups) [0..<length groups]))" by (rule fold_min)
  then obtain i where "?m = group_key groups i" by auto
  then have "group_key groups (least_group groups) = ?m"
    by (simp add: least_group_def group_key_def)
  also have "\<dots> \<le> group_key groups j" using assms by (intro fold_min_le) auto
  finally show ?thesis .
qed

lemma least_group_size: "j < length groups \<Longrightarrow> fst (groups ! least_group groups) \<le> fst (groups ! j)"
  using least_group_key by (fastforce simp: group_key_def)

lemma least_group_empty:
  "j < length groups \<Longrightarrow> groups ! j = (0, []) \<Longrightarrow> snd (groups ! least_group groups) = []"
  using least_group_key [of j groups] by (auto simp: group_key_def)

section \<open>The groups are balanced\<close>

text \<open>
  \<open>placed n limit files groups\<close>: \<open>n\<close> groups hold \<open>files\<close>, none is empty when there were files enough, and the
  recorded sizes are the sizes, at most \<open>limit\<close> apart.
\<close>

definition group_size :: "partitioned_file list \<Rightarrow> nat" where
  "group_size files = sum_list (map file_size files)"

definition placed :: "nat \<Rightarrow> nat \<Rightarrow> partitioned_file list \<Rightarrow> (nat \<times> partitioned_file list) list \<Rightarrow> bool" where
  "placed n limit files groups \<longleftrightarrow>
     length groups = n \<and> mset (concat (map snd groups)) = mset files \<and>
     length (filter (\<lambda>g. snd g \<noteq> []) groups) \<ge> min n (length files) \<and>
     (\<forall>g\<in>set groups. fst g = min (umax 64) (group_size (snd g))) \<and>
     (\<forall>g\<in>set groups. \<forall>h\<in>set groups. fst g \<le> fst h + limit)"

lemma placedD:
  assumes "placed n limit files groups"
  shows "length groups = n" and "mset (concat (map snd groups)) = mset files"
    and "min n (length files) \<le> length (filter (\<lambda>g. snd g \<noteq> []) groups)"
    and "\<forall>g\<in>set groups. fst g = min (umax 64) (group_size (snd g))"
    and "\<forall>g\<in>set groups. \<forall>h\<in>set groups. fst g \<le> fst h + limit"
proof -
  note parts = assms [unfolded placed_def]
  show "length groups = n" using parts by (rule conjunct1)
  show "mset (concat (map snd groups)) = mset files" using parts [THEN conjunct2] by (rule conjunct1)
  show "min n (length files) \<le> length (filter (\<lambda>g. snd g \<noteq> []) groups)"
    using parts [THEN conjunct2, THEN conjunct2] by (rule conjunct1)
  show "\<forall>g\<in>set groups. fst g = min (umax 64) (group_size (snd g))"
    using parts [THEN conjunct2, THEN conjunct2, THEN conjunct2] by (rule conjunct1)
  show "\<forall>g\<in>set groups. \<forall>h\<in>set groups. fst g \<le> fst h + limit"
    using parts [THEN conjunct2, THEN conjunct2, THEN conjunct2] by (rule conjunct2)
qed

lemma mset_concat_update:
  "i < length gs \<Longrightarrow> mset (concat (map snd (gs[i := (s, snd (gs ! i) @ [x])]))) = add_mset x (mset (concat (map snd gs)))"
proof (induction gs arbitrary: i)
  case (Cons g gs)
  then show ?case by (cases i) auto
qed simp

lemma filter_update_new:
  "i < length gs \<Longrightarrow> \<not> P (gs ! i) \<Longrightarrow> P g \<Longrightarrow> length (filter P (gs[i := g])) = Suc (length (filter P gs))"
proof (induction gs arbitrary: i)
  case (Cons h gs)
  then show ?case by (cases i) auto
qed simp

lemma filter_update_old:
  "i < length gs \<Longrightarrow> P g \<Longrightarrow> length (filter P gs) \<le> length (filter P (gs[i := g]))"
proof (induction gs arbitrary: i)
  case (Cons h gs)
  then show ?case by (cases i) (auto simp: le_SucI)
qed simp

lemma place_file_placed:
  assumes placed: "placed n limit files groups" and n: "0 < n" and small: "file_size file \<le> limit"
  shows "placed n limit (files @ [file]) (place_file file groups)"
proof -
  define i where "i = least_group groups"
  define g where "g = (min (umax 64) (fst (groups ! i) + file_size file), snd (groups ! i) @ [file])"
  have groups: "length groups = n" using placed by (simp add: placed_def)
  have i: "i < length groups" using groups n by (auto simp: i_def intro!: least_group_less)
  have old: "groups ! i \<in> set groups" using i by simp
  have g: "place_file file groups = groups[i := g]" by (simp add: place_file_def Let_def g_def i_def)
  have sizes: "fst h = min (umax 64) (group_size (snd h))" if "h \<in> set groups" for h
    using placed that by (simp add: placed_def)
  have least: "fst (groups ! i) \<le> fst h" if "h \<in> set groups" for h
    using that least_group_size by (auto simp: i_def in_set_conv_nth)
  have gaps: "fst h \<le> fst h' + limit" if "h \<in> set groups" "h' \<in> set groups" for h h'
    using placed that unfolding placed_def by blast
  have in_update: "h = g \<or> h \<in> set groups" if "h \<in> set (groups[i := g])" for h
    using set_update_subset_insert that by fast
  have grows: "fst (groups ! i) \<le> fst g"
    using sizes [OF old] by (auto simp: g_def)
  have "fst h \<le> fst h' + limit" if "h \<in> set (groups[i := g])" "h' \<in> set (groups[i := g])" for h h'
  proof -
    have "fst g \<le> fst (groups ! i) + limit" using small by (simp add: g_def)
    moreover have "fst h \<le> fst (groups ! i) + limit" if "h \<in> set groups" using gaps [OF that old] .
    ultimately have "fst h \<le> fst (groups ! i) + limit" using in_update [OF \<open>h \<in> _\<close>] by blast
    moreover have "fst (groups ! i) \<le> fst h'" using in_update [OF \<open>h' \<in> _\<close>] grows least by blast
    ultimately show ?thesis by simp
  qed
  moreover have "fst h = min (umax 64) (group_size (snd h))" if "h \<in> set (groups[i := g])" for h
    using in_update [OF that] sizes sizes [OF old] by (auto simp: g_def group_size_def)
  moreover have "min n (length (files @ [file])) \<le> length (filter (\<lambda>g. snd g \<noteq> []) (groups[i := g]))"
  proof (cases "snd (groups ! i) = []")
    case True
    then show ?thesis using placed filter_update_new [OF i, of "\<lambda>g. snd g \<noteq> []" g]
      by (auto simp: placed_def g_def)
  next
    case False
    have "snd h \<noteq> []" if h: "h \<in> set groups" for h
    proof
      assume "snd h = []"
      with sizes [OF h] have "h = (0, [])" by (cases h) (simp add: group_size_def)
      with h False show False using least_group_empty by (auto simp: i_def in_set_conv_nth)
    qed
    then have "filter (\<lambda>g. snd g \<noteq> []) groups = groups" by (simp add: filter_id_conv)
    with filter_update_old [OF i, of "\<lambda>g. snd g \<noteq> []" g] show ?thesis by (simp add: g_def groups)
  qed
  ultimately show ?thesis
    using placed mset_concat_update [OF i, of "fst g" "file"] groups
    by (auto simp: placed_def g) (simp add: g_def)
qed

lemma fold_place_placed:
  "0 < n \<Longrightarrow> \<forall>file\<in>set rest. file_size file \<le> limit \<Longrightarrow> placed n limit files groups \<Longrightarrow>
   placed n limit (files @ rest) (fold place_file rest groups)"
proof (induction rest arbitrary: files groups)
  case (Cons f rest)
  then have "placed n limit (files @ [f]) (place_file f groups)" by (intro place_file_placed) auto
  from Cons.IH [OF Cons.prems(1) _ this] Cons.prems show ?case by simp
qed simp

lemma placed_empty: "placed n limit [] (replicate n (0, []))"
  by (auto simp: placed_def group_size_def umax_def)

lemma sum_list_concat_le: "xs \<in> set xss \<Longrightarrow> sum_list (map f xs) \<le> (sum_list (map f (concat xss)) :: nat)"
  by (induction xss) auto

text \<open>
  C38: Distributing whole files over partitions loses and repeats no file, makes as many groups as asked for
  and as there are files, more than there were, and leaves none empty; as long as the sizes of all files fit
  64 bits, no group is heavier than any other by more than the largest file.
\<close>

theorem repartition_balances_whole_files:
  assumes "repartition_whole_files file_groups target = Some groups"
  shows "length groups = min target (length (concat file_groups)) \<and> length file_groups < length groups \<and>
    mset (concat groups) = mset (concat file_groups) \<and> [] \<notin> set groups \<and>
    (group_size (concat file_groups) \<le> umax 64 \<longrightarrow>
      (\<forall>g\<in>set groups. \<forall>h\<in>set groups. group_size g \<le> group_size h + Max (file_size ` set (concat file_groups))))"
proof -
  define files where "files = scan_order (concat file_groups)"
  define limit where "limit = Max (file_size ` set (concat file_groups))"
  define n where "n = min target (length (concat file_groups))"
  define gs where "gs = fold place_file files (replicate n (0, []))"
  have more: "length file_groups < n" and groups: "groups = map snd gs"
    using assms by (auto simp: repartition_whole_files_def files_def gs_def n_def Let_def split: if_splits)
  have files: "mset files = mset (concat file_groups)" and len: "length files = length (concat file_groups)"
    by (simp_all add: files_def scan_order_def)
  have "\<forall>f\<in>set files. file_size f \<le> limit"
    using mset_eq_setD [OF files] by (auto simp: limit_def)
  moreover have "0 < n" using more by simp
  ultimately have placed: "placed n limit files gs"
    unfolding gs_def using fold_place_placed [OF _ _ placed_empty] by simp
  note n = placedD(1) [OF placed] and kept = placedD(2) [OF placed] and used = placedD(3) [OF placed]
    and sizes = placedD(4) [OF placed] and gaps = placedD(5) [OF placed]
  have "n \<le> length files" by (simp add: n_def len)
  with used n have "length gs \<le> length (filter (\<lambda>g. snd g \<noteq> []) gs)" by simp
  then have "snd g \<noteq> []" if "g \<in> set gs" for g
    using length_filter_less [OF that, of "\<lambda>g. snd g \<noteq> []"] by auto
  then have nonempty: "[] \<notin> set groups" by (force simp: groups)
  have mset: "mset (concat groups) = mset (concat file_groups)"
    using kept files by (simp add: groups)
  have balanced: "\<forall>g\<in>set groups. \<forall>h\<in>set groups. group_size g \<le> group_size h + limit"
    if fits: "group_size (concat file_groups) \<le> umax 64"
  proof (intro ballI)
    fix g h
    assume g: "g \<in> set groups" and h: "h \<in> set groups"
    have total: "sum_list (map file_size (concat groups)) = sum_list (map file_size (concat file_groups))"
      using mset by (metis mset_map sum_mset_sum_list)
    have small: "group_size k \<le> umax 64" if "k \<in> set groups" for k
      using sum_list_concat_le [OF that, of file_size] fits unfolding total group_size_def by simp
    from g h obtain g' h' where "g' \<in> set gs" "snd g' = g" "h' \<in> set gs" "snd h' = h" by (auto simp: groups)
    moreover from this gaps have "fst g' \<le> fst h' + limit" by blast
    ultimately show "group_size g \<le> group_size h + limit" using sizes small [OF g] small [OF h] by auto
  qed
  have "length groups = n" by (simp add: groups n)
  then show ?thesis
    unfolding n_def [symmetric] limit_def [symmetric] using more mset nonempty balanced by blast
qed

section \<open>Leases\<close>

text \<open>
  What identifies an object; a modification time that does not fit 64 bits of nanoseconds is the largest one.
\<close>

record object_identity =
  oi_location :: string
  oi_size :: nat
  oi_last_modified :: int
  oi_e_tag :: "string option"
  oi_version :: "string option"

definition identity_from :: "ipc_object \<Rightarrow> object_identity" where
  "identity_from meta =
     \<lparr>oi_location = om_location meta, oi_size = om_size meta,
      oi_last_modified =
        (if - 9223372036854775808 \<le> om_last_modified meta \<and> om_last_modified meta \<le> 9223372036854775807
         then om_last_modified meta else 9223372036854775807),
      oi_e_tag = om_e_tag meta, oi_version = om_version meta\<rparr>"

text \<open>
  The cells that hold layouts live on a heap: their reference counts, their contents, and the weak references of
  the table. A cell is freed with its last lease; \<open>al_next\<close> is the address of the next cell.
\<close>

record 'l active_layouts =
  al_entries :: "object_identity \<Rightarrow> nat option"
  al_strong :: "nat \<Rightarrow> nat"
  al_cell :: "nat \<Rightarrow> 'l option"
  al_next :: nat

definition active_layouts_default :: "'l active_layouts" where
  "active_layouts_default = \<lparr>al_entries = (\<lambda>_. None), al_strong = (\<lambda>_. 0), al_cell = (\<lambda>_. None), al_next = 0\<rparr>"

definition lease :: "ipc_object \<Rightarrow> 'l active_layouts \<Rightarrow> nat \<times> 'l active_layouts" where
  "lease meta s =
     (let identity = identity_from meta;
          entries = (\<lambda>k. case al_entries s k of Some c \<Rightarrow> if al_strong s c > 0 then Some c else None | None \<Rightarrow> None)
      in case entries identity of
           Some c \<Rightarrow> (c, s\<lparr>al_entries := entries, al_strong := (al_strong s)(c := Suc (al_strong s c))\<rparr>)
         | None \<Rightarrow>
             let c = al_next s in
             (c, s\<lparr>al_entries := entries(identity \<mapsto> c), al_strong := (al_strong s)(c := 1),
                 al_cell := (al_cell s)(c := None), al_next := Suc c\<rparr>))"

text \<open>
  The events of a query: a file is leased, a lease is dropped, and the layout of a leased file is read. A cell that
  holds a layout is not read again.
\<close>

datatype 'l lease_event = Lease ipc_object | DropLease nat | InitLayout nat 'l

text \<open>A state of the table with the leases that are out: the object of each and its cell.\<close>

inductive lease_step ::
  "'l active_layouts \<times> (ipc_object \<times> nat) list \<Rightarrow> 'l lease_event \<Rightarrow> 'l active_layouts \<times> (ipc_object \<times> nat) list \<Rightarrow> bool" where
  leased: "lease meta s = (c, s') \<Longrightarrow> lease_step (s, out) (Lease meta) (s', (meta, c) # out)"
| dropped: "(meta, c) \<in> set out \<Longrightarrow>
    lease_step (s, out) (DropLease c) (s\<lparr>al_strong := (al_strong s)(c := al_strong s c - 1)\<rparr>, remove1 (meta, c) out)"
| inited: "(meta, c) \<in> set out \<Longrightarrow> al_cell s c = None \<Longrightarrow>
    lease_step (s, out) (InitLayout c l) (s\<lparr>al_cell := (al_cell s)(c \<mapsto> l)\<rparr>, out)"

inductive leases_reached :: "'l active_layouts \<times> (ipc_object \<times> nat) list \<Rightarrow> bool" where
  start: "leases_reached (active_layouts_default, [])"
| more: "leases_reached x \<Longrightarrow> lease_step x e y \<Longrightarrow> leases_reached y"

definition leases_ok :: "'l active_layouts \<Rightarrow> (ipc_object \<times> nat) list \<Rightarrow> bool" where
  "leases_ok s out \<longleftrightarrow>
     (\<forall>c. al_strong s c = count (mset (map snd out)) c) \<and>
     (\<forall>(meta, c)\<in>set out. al_entries s (identity_from meta) = Some c \<and> c < al_next s) \<and>
     (\<forall>k k' c. al_entries s k = Some c \<longrightarrow> al_entries s k' = Some c \<longrightarrow> k = k') \<and>
     (\<forall>k c. al_entries s k = Some c \<longrightarrow> c < al_next s)"

lemma count_out: "(meta, c) \<in> set out \<Longrightarrow> 0 < count (mset (map snd out)) c"
  by (force simp: count_greater_zero_iff)

lemma leases_okI:
  assumes "\<And>c. al_strong s c = count (mset (map snd out)) c"
    and "\<And>m c. (m, c) \<in> set out \<Longrightarrow> al_entries s (identity_from m) = Some c \<and> c < al_next s"
    and "\<And>k k' c. al_entries s k = Some c \<Longrightarrow> al_entries s k' = Some c \<Longrightarrow> k = k'"
    and "\<And>k c. al_entries s k = Some c \<Longrightarrow> c < al_next s"
  shows "leases_ok s out"
  using assms unfolding leases_ok_def by blast

lemma leases_okD:
  assumes "leases_ok s out"
  shows "al_strong s c = count (mset (map snd out)) c"
    and "(m, c) \<in> set out \<Longrightarrow> al_entries s (identity_from m) = Some c"
    and "(m, c) \<in> set out \<Longrightarrow> c < al_next s"
    and "al_entries s k = Some c \<Longrightarrow> al_entries s k' = Some c \<Longrightarrow> k = k'"
    and "al_entries s k = Some c \<Longrightarrow> c < al_next s"
  using assms unfolding leases_ok_def by blast+

lemma lease_ok:
  assumes ok: "leases_ok s out" and leased: "lease meta s = (c, s')"
  shows "leases_ok s' ((meta, c) # out)"
proof -
  define entries where "entries = (\<lambda>k. case al_entries s k of Some c \<Rightarrow> if al_strong s c > 0 then Some c else None | None \<Rightarrow> None)"
  have kept: "entries k = Some c \<longleftrightarrow> al_entries s k = Some c \<and> 0 < al_strong s c" for k c
    by (auto simp: entries_def split: option.splits if_splits)
  have one: "k = k'" if "entries k = Some c" "entries k' = Some c" for k k' c
    using that leases_okD(4) [OF ok] unfolding kept by blast
  have below: "d < al_next s" if "entries k = Some d" for k d
    using that leases_okD(5) [OF ok] unfolding kept by blast
  have held: "entries (identity_from m) = Some c" if "(m, c) \<in> set out" for m c
    using leases_okD(1,2) [OF ok] that count_out [OF that] by (simp add: kept)
  show ?thesis
  proof (cases "entries (identity_from meta)")
    case (Some d)
    with leased have c: "c = d" and s': "s' = s\<lparr>al_entries := entries, al_strong := (al_strong s)(d := Suc (al_strong s d))\<rparr>"
      by (auto simp: lease_def entries_def Let_def)
    show ?thesis
    proof (rule leases_okI)
      fix m e
      assume "(m, e) \<in> set ((meta, c) # out)"
      then show "al_entries s' (identity_from m) = Some e \<and> e < al_next s'"
        using Some held below [of "identity_from m" e] by (auto simp: c s')
    qed (use one below in \<open>auto simp: c s' leases_okD(1) [OF ok]\<close>)
  next
    case None
    with leased have c: "c = al_next s"
      and s': "s' = s\<lparr>al_entries := entries(identity_from meta \<mapsto> al_next s), al_strong := (al_strong s)(al_next s := 1),
          al_cell := (al_cell s)(al_next s := None), al_next := Suc (al_next s)\<rparr>"
      by (auto simp: lease_def entries_def Let_def)
    have fresh: "al_next s \<notin> set (map snd out)"
      using leases_okD(3) [OF ok] by fastforce
    show ?thesis
    proof (rule leases_okI)
      show "al_strong s' e = count (mset (map snd ((meta, c) # out))) e" for e
        using fresh leases_okD(1) [OF ok, of e] by (auto simp: c s' count_eq_zero_iff)
    next
      fix m e
      assume m: "(m, e) \<in> set ((meta, c) # out)"
      show "al_entries s' (identity_from m) = Some e \<and> e < al_next s'"
      proof (cases "(m, e) \<in> set out")
        case True
        from held [OF True] None have "identity_from m \<noteq> identity_from meta" by auto
        with held [OF True] leases_okD(3) [OF ok True] show ?thesis by (simp add: s')
      qed (use m in \<open>simp add: c s'\<close>)
    next
      fix k k' e
      assume "al_entries s' k = Some e" and "al_entries s' k' = Some e"
      then show "k = k'"
        using one below [of k e] below [of k' e] by (auto simp: s' split: if_splits)
    next
      fix k e
      assume "al_entries s' k = Some e"
      then show "e < al_next s'" using below [of k e] by (auto simp: s' split: if_splits)
    qed
  qed
qed

lemma lease_step_ok: "lease_step x e y \<Longrightarrow> leases_ok (fst x) (snd x) \<Longrightarrow> leases_ok (fst y) (snd y)"
proof (induction rule: lease_step.induct)
  case (leased meta s c s' out)
  then show ?case by (auto intro: lease_ok)
next
  case (dropped meta c out s)
  have "count (mset (map snd (remove1 (meta, c) out))) d =
      (if d = c then count (mset (map snd out)) d - 1 else count (mset (map snd out)) d)" for d
  proof -
    have "mset (map snd (remove1 (meta, c) out)) = mset (map snd out) - {#c#}"
      using dropped.hyps by (simp add: image_mset_Diff)
    then show ?thesis by simp
  qed
  moreover have "x \<in> set out" if "x \<in> set (remove1 (meta, c) out)" for x
    using that set_remove1_subset by fast
  ultimately show ?case using dropped.prems unfolding leases_ok_def by (simp del: mset_map mset_remove1)
next
  case (inited meta c out s l)
  then show ?case by (simp add: leases_ok_def)
qed

lemma reached_leases_ok: "leases_reached x \<Longrightarrow> leases_ok (fst x) (snd x)"
proof (induction rule: leases_reached.induct)
  case start
  show ?case by (simp add: leases_ok_def active_layouts_default_def)
qed (rule lease_step_ok)

lemma lease_keeps_cells:
  assumes "leases_ok s out" and "lease_step (s, out) e (s', out')" and "(meta, c) \<in> set out" and "al_cell s c = Some l"
  shows "al_cell s' c = Some l"
proof -
  have "c < al_next s" using assms(1,3) by (auto simp: leases_ok_def)
  with assms(2,4) show ?thesis
    by (cases rule: lease_step.cases) (auto simp: lease_def Let_def split: option.splits if_splits)
qed

lemma lease_prunes: "lease meta s = (c, s') \<Longrightarrow> al_entries s' k = Some d \<Longrightarrow> 0 < al_strong s' d"
  by (auto simp: lease_def Let_def split: option.splits if_splits)

text \<open>
  C39: In every state that leasing files, dropping leases and reading layouts can reach, two leases share a
  cell exactly when they are of the same object, and a layout that was read stays in its cell as long as a
  lease of it is out.
\<close>

theorem leases_share_one_layout:
  assumes "leases_reached (s, out)" and "(meta, c) \<in> set out"
  shows "(\<forall>(meta', c')\<in>set out. c = c' \<longleftrightarrow> identity_from meta = identity_from meta') \<and>
    (\<forall>l e s' out'. al_cell s c = Some l \<longrightarrow> lease_step (s, out) e (s', out') \<longrightarrow> al_cell s' c = Some l)"
proof (intro conjI allI impI)
  have ok: "leases_ok s out" using reached_leases_ok [OF assms(1)] by simp
  have "c = c' \<longleftrightarrow> identity_from meta = identity_from meta'" if "(meta', c') \<in> set out" for meta' c'
    using leases_okD(2,4) [OF ok] that assms(2) by (metis option.inject)
  then show "\<forall>(meta', c')\<in>set out. c = c' \<longleftrightarrow> identity_from meta = identity_from meta'" by blast
  show "al_cell s' c = Some l" if "al_cell s c = Some l" and "lease_step (s, out) e (s', out')" for l e s' out'
    using lease_keeps_cells [OF ok that(2) assms(2) that(1)] .
qed

section \<open>A small scan\<close>

definition scan_file :: "string \<Rightarrow> nat \<Rightarrow> partitioned_file" where
  "scan_file path bytes = \<lparr>pf_meta = \<lparr>om_location = path, om_size = bytes, om_last_modified = 0, om_e_tag = None,
     om_version = None\<rparr>, pf_range = None\<rparr>"

lemma cap_small: "n \<le> 1000 \<Longrightarrow> min (umax 64) n = n"
  by (simp add: umax_def)

lemma small_repartition:
  "repartition_whole_files [[scan_file ''a'' 1, scan_file ''b'' 5, scan_file ''c'' 3]] 2 =
   Some [[scan_file ''b'' 5], [scan_file ''c'' 3, scan_file ''a'' 1]]"
  by (simp add: repartition_whole_files_def scan_order_def scan_file_def place_file_def least_group_def group_key_def
      file_size_def sort_key_def cap_small upt_rec numeral_2_eq_2 min_less_iff_conj less_eq_prod_def less_prod_def Let_def
      min_def [of "(_ :: nat \<times> nat \<times> nat)"])

theorem repartition_balances_whole_files_witness:
  "group_size [scan_file ''b'' 5] \<le> group_size [scan_file ''c'' 3, scan_file ''a'' 1] + 5"
  using repartition_balances_whole_files [OF small_repartition]
  by (simp add: group_size_def scan_file_def file_size_def umax_def)

definition leased_meta :: ipc_object where
  "leased_meta = pf_meta (scan_file ''a'' 1)"

lemma one_leased:
  "leases_reached (snd (lease leased_meta (active_layouts_default :: nat active_layouts)), [(leased_meta, 0)])"
  by (rule leases_reached.more [OF leases_reached.start lease_step.leased [of leased_meta active_layouts_default 0]])
    (simp add: lease_def active_layouts_default_def Let_def)

theorem leases_share_one_layout_witness:
  "list_all (\<lambda>(meta', c'). 0 = c' \<longleftrightarrow> identity_from leased_meta = identity_from meta') [(leased_meta, 0 :: nat)]"
  using leases_share_one_layout [OF one_leased, of leased_meta 0] by simp

end
