(* ===== verification/Arrow_Sampling.thy ===== *)
theory Arrow_Sampling
  imports Arrow_Stream
begin

text \<open>
  The statistics of an Arrow input (\<open>crates/silk-chiffon-format-arrow/src/input/mod.rs\<close>): a sample of the
  representative file is decoded, and its counts are taken as they are, when the sample is the whole input, or
  scaled to the size of all the files.
\<close>

section \<open>Counting a sample\<close>

definition sample_rows :: nat where
  "sample_rows = 100000"

record 'b batch_ops =
  bo_rows :: "'b \<Rightarrow> nat"
  bo_memory :: "'b \<Rightarrow> nat"
  bo_columns :: "'b \<Rightarrow> nat list"

record sample =
  sa_rows :: nat
  sa_decoded :: nat
  sa_columns :: "nat list"

text \<open>The columns of a batch are added to the totals pairwise; the shorter list decides.\<close>

fun add_columns :: "nat list \<Rightarrow> nat list \<Rightarrow> ('e arrow_error, nat list) result" where
  "add_columns (t # ts) (c # cs) =
     res_bind (ok_or SampleOverflow (checked_add (umax 64) t c)) (\<lambda>t.
     res_bind (add_columns ts cs) (\<lambda>ts. Inr (t # ts)))"
| "add_columns ts cs = Inr ts"

definition record_sample :: "'b batch_ops \<Rightarrow> 'b \<Rightarrow> sample \<Rightarrow> ('e arrow_error, sample \<times> bool) result" where
  "record_sample ops batch s =
     res_bind (ok_or SampleOverflow (checked_add (umax 64) (sa_rows s) (bo_rows ops batch))) (\<lambda>n_rows.
     res_bind (ok_or SampleOverflow (checked_add (umax 64) (sa_decoded s) (bo_memory ops batch))) (\<lambda>decoded.
     res_bind (add_columns (sa_columns s) (bo_columns ops batch)) (\<lambda>columns.
       Inr (\<lparr>sa_rows = n_rows, sa_decoded = decoded, sa_columns = columns\<rparr>, sample_rows \<le> n_rows))))"

definition div_ceil :: "nat \<Rightarrow> nat \<Rightarrow> nat" where
  "div_ceil n d = (if n mod d = 0 then n div d else n div d + 1)"

definition scale :: "nat \<Rightarrow> nat \<Rightarrow> nat \<Rightarrow> ('e arrow_error, nat) result" where
  "scale s total_bytes represented =
     res_bind (ok_or ScalingOverflow (checked_mul (umax 128) s total_bytes)) (\<lambda>numerator.
       let estimate = div_ceil numerator represented in
       if estimate \<le> umax 64 then Inr estimate else Inl EstimateTooLarge)"

definition sample_estimate :: "nat \<Rightarrow> nat \<Rightarrow> nat \<Rightarrow> bool \<Rightarrow> ('e arrow_error, nat) result" where
  "sample_estimate s total_bytes represented exact = (if exact then Inr s else scale s total_bytes represented)"

datatype precision = Exact nat | Inexact nat

record statistics =
  ss_num_rows :: precision
  ss_total_byte_size :: precision
  ss_columns :: "precision list"

datatype sample_statistics_result = Available statistics | Unavailable

fun estimate_columns :: "(nat \<Rightarrow> ('e arrow_error, nat) result) \<Rightarrow> (nat \<Rightarrow> precision) \<Rightarrow> nat list \<Rightarrow>
  ('e arrow_error, precision list) result" where
  "estimate_columns estimate precision [] = Inr []"
| "estimate_columns estimate precision (c # cs) =
     res_bind (estimate c) (\<lambda>e. res_bind (estimate_columns estimate precision cs) (\<lambda>es. Inr (precision e # es)))"

definition statistics_of_sample :: "nat \<Rightarrow> bool \<Rightarrow> sample \<Rightarrow> nat \<Rightarrow> bool \<Rightarrow> ('e arrow_error, sample_statistics_result) result" where
  "statistics_of_sample selected_encoded_bytes single_object s represented reached_eof =
     (if sa_rows s = 0 \<or> represented = 0 then Inr Unavailable
      else let exact = (single_object \<and> reached_eof);
               estimate = (\<lambda>n. sample_estimate n selected_encoded_bytes represented exact);
               precision = (if exact then Exact else Inexact) in
        res_bind (estimate_columns estimate precision (sa_columns s)) (\<lambda>columns.
        res_bind (estimate (sa_rows s)) (\<lambda>n_rows.
        res_bind (estimate (sa_decoded s)) (\<lambda>decoded.
          Inr (Available \<lparr>ss_num_rows = precision n_rows, ss_total_byte_size = precision decoded, ss_columns = columns\<rparr>)))))"

section \<open>Sampling a file\<close>

datatype sample_reservation = Reserved nat | SampleBoundExceeded

text \<open>\<open>Reserved\<close> carries the size the reservation has afterwards.\<close>

definition reserve_sample_block ::
  "('w, 'e) reader_env \<Rightarrow> block \<Rightarrow> 'w \<Rightarrow> ('e arrow_error + sample_reservation) \<times> 'w" where
  "reserve_sample_block env block =
     io_bind (io_lift (unsigned NegativeMetadata (bk_metadata_length block))) (\<lambda>metadata.
     io_bind (io_lift (unsigned NegativeBody (bk_body_length block))) (\<lambda>body.
     io_bind (io_lift (ok_or SampleOverflow (checked_add (umax 64) metadata body))) (\<lambda>n.
       if n > max_ipc_safety_bytes then io_lift (Inr SampleBoundExceeded)
       else io_bind (try_resize env SamplingMemory n) (\<lambda>_. io_lift (Inr (Reserved n))))))"

definition io_free :: "('w, 'e) reader_env \<Rightarrow> consumer \<Rightarrow> 'w \<Rightarrow> ('e arrow_error + unit) \<times> 'w" where
  "io_free env consumer w = (Inr (), re_free env consumer w)"

text \<open>\<open>None\<close> stands for a sample that is not available because a block is too large to be read.\<close>

fun sample_dictionaries ::
  "('w, 'e) reader_env \<Rightarrow> ('s, 'v, 'd, 'b, 'e) decoder_ops \<Rightarrow> string \<Rightarrow> 'd \<Rightarrow> nat \<Rightarrow> block list \<Rightarrow> 'w \<Rightarrow>
   ('e arrow_error + ('d \<times> nat) option) \<times> 'w" where
  "sample_dictionaries env ops location decoder represented [] w = (Inr (Some (decoder, represented)), w)"
| "sample_dictionaries env ops location decoder represented (block # blocks) w =
     io_bind (reserve_sample_block env block) (\<lambda>reserved.
       case reserved of
         SampleBoundExceeded \<Rightarrow> io_lift (Inr None)
       | Reserved _ \<Rightarrow>
           io_bind (read_block env location block) (\<lambda>data.
           io_bind (io_lift (ok_or SampleOverflow (checked_add (umax 64) represented (length data)))) (\<lambda>represented.
           io_bind (external_value (dc_dictionary ops decoder block data)) (\<lambda>decoder.
           io_bind (io_free env SamplingMemory) (\<lambda>_.
             sample_dictionaries env ops location decoder represented blocks))))) w"

text \<open>One record batch: the sample after it, and whether the sample is large enough.\<close>

definition sample_block ::
  "('w, 'e) reader_env \<Rightarrow> ('s, 'v, 'd, 'b, 'e) decoder_ops \<Rightarrow> 'b batch_ops \<Rightarrow> string \<Rightarrow> 'd \<Rightarrow> nat \<Rightarrow> sample \<Rightarrow> block \<Rightarrow> 'w \<Rightarrow>
   ('e arrow_error + (sample \<times> nat \<times> bool) option) \<times> 'w" where
  "sample_block env ops bops location decoder represented s block =
     io_bind (reserve_sample_block env block) (\<lambda>reserved.
       case reserved of
         SampleBoundExceeded \<Rightarrow> io_lift (Inr None)
       | Reserved held \<Rightarrow>
           io_bind (read_block env location block) (\<lambda>data.
           io_bind (io_lift (ok_or SampleOverflow (checked_add (umax 64) represented (length data)))) (\<lambda>represented.
           io_bind (external_value (dc_batch ops decoder block data)) (\<lambda>batch.
             case batch of
               None \<Rightarrow> io_bind (io_free env SamplingMemory) (\<lambda>_. io_lift (Inr (Some (s, represented, False))))
             | Some b \<Rightarrow>
                 io_bind (io_lift (ok_or SampleOverflow (checked_add (umax 64) held (bo_memory bops b)))) (\<lambda>n.
                 io_bind (try_resize env SamplingMemory n) (\<lambda>_.
                 io_bind (io_lift (record_sample bops b s)) (\<lambda>(s, target_reached).
                 io_bind (io_free env SamplingMemory) (\<lambda>_.
                   io_lift (Inr (Some (s, represented, target_reached)))))))))))"

fun sample_blocks ::
  "('w, 'e) reader_env \<Rightarrow> ('s, 'v, 'd, 'b, 'e) decoder_ops \<Rightarrow> 'b batch_ops \<Rightarrow> string \<Rightarrow> 'd \<Rightarrow> nat \<Rightarrow> nat \<Rightarrow> nat \<Rightarrow> sample \<Rightarrow> bool \<Rightarrow>
   block list \<Rightarrow> 'w \<Rightarrow> ('e arrow_error + (sample \<times> nat \<times> bool) option) \<times> 'w" where
  "sample_blocks env ops bops location decoder n_blocks index represented s reached_eof [] w = (Inr (Some (s, represented, reached_eof)), w)"
| "sample_blocks env ops bops location decoder n_blocks index represented s reached_eof (block # blocks) w =
     io_bind (sample_block env ops bops location decoder represented s block) (\<lambda>step.
       case step of
         None \<Rightarrow> io_lift (Inr None)
       | Some (s, represented, target_reached) \<Rightarrow>
           let reached_eof = (if target_reached then index + 1 = n_blocks else reached_eof) in
           if sample_rows \<le> sa_rows s then io_lift (Inr (Some (s, represented, reached_eof)))
           else sample_blocks env ops bops location decoder n_blocks (index + 1) represented s reached_eof blocks) w"

definition free_after ::
  "('w, 'e) reader_env \<Rightarrow> consumer \<Rightarrow> ('w \<Rightarrow> ('e arrow_error + 'a) \<times> 'w) \<Rightarrow> 'w \<Rightarrow> ('e arrow_error + 'a) \<times> 'w" where
  "free_after env consumer m w = (fst (m w), re_free env consumer (snd (m w)))"

lemma free_after_Inr:
  "free_after env consumer m w = (Inr x, w') \<longleftrightarrow> (\<exists>v. m w = (Inr x, v) \<and> w' = re_free env consumer v)"
  by (cases "m w") (auto simp: free_after_def)

definition sample_file ::
  "('w, 'e) reader_env \<Rightarrow> ('s, 'v, 'e) footer_ops \<Rightarrow> ('s, 'v, 'd, 'b, 'e) decoder_ops \<Rightarrow> 'b batch_ops \<Rightarrow> ipc_object \<Rightarrow> sample \<Rightarrow>
   'w \<Rightarrow> ('e arrow_error + (sample \<times> nat \<times> bool) option) \<times> 'w" where
  "sample_file env fops ops bops object s =
     io_bind (read_file_layout env fops object) (\<lambda>layout.
       free_after env LayoutMemory
         (io_bind (sample_dictionaries env ops (om_location object) (dc_new ops (fl_schema layout) (fl_version layout)) 0
                     (fl_dictionaries layout)) (\<lambda>found.
            case found of
              None \<Rightarrow> io_lift (Inr None)
            | Some (decoder, represented) \<Rightarrow>
                sample_blocks env ops bops (om_location object) decoder (length (fl_record_batches layout)) 0 represented s True
                  (fl_record_batches layout))))"

section \<open>Sampling a stream\<close>

partial_function (option) decode_sample ::
  "('w, 'e) reader_env \<Rightarrow> ('d, 's, 'b, 'e) stream_decoder \<Rightarrow> 'b batch_ops \<Rightarrow> 'd \<Rightarrow> nat \<Rightarrow> sample \<Rightarrow> string \<Rightarrow> 'w \<Rightarrow>
   (('e arrow_error + 'd \<times> sample) \<times> 'w) option" where
  "decode_sample env ops bops decoder held s buffer w =
     (if buffer = [] then Some (Inr (decoder, s), w)
      else case sd_decode ops decoder buffer of
        Inl error \<Rightarrow> Some (Inl (External error), w)
      | Inr (decoder, buffer, None) \<Rightarrow> decode_sample env ops bops decoder held s buffer w
      | Inr (decoder, buffer, Some b) \<Rightarrow>
          (case io_bind (io_lift (ok_or SampleOverflow (checked_add (umax 64) held (bo_memory bops b)))) (\<lambda>n.
                io_bind (try_resize env SamplingMemory n) (\<lambda>_.
                io_bind (io_lift (record_sample bops b s)) (\<lambda>(s, _). io_lift (Inr (s, n))))) w of
             (Inl error, w) \<Rightarrow> Some (Inl error, w)
           | (Inr (s, held), w) \<Rightarrow> decode_sample env ops bops decoder held s buffer w))"

partial_function (option) sample_messages ::
  "('w, 'e) reader_env \<Rightarrow> 'e message_ops \<Rightarrow> ('d, 's, 'b, 'e) stream_decoder \<Rightarrow> 'b batch_ops \<Rightarrow> ipc_object \<Rightarrow> 'd \<Rightarrow> nat \<Rightarrow> nat \<Rightarrow> sample \<Rightarrow>
   'w \<Rightarrow> (('e arrow_error + ('d \<times> sample \<times> nat \<times> bool) option) \<times> 'w) option" where
  "sample_messages env mops ops bops object decoder offset represented s w =
     (case read_stream_message env mops object offset w of
        (Inl error, w) \<Rightarrow> Some (Inl error, w)
      | (Inr StreamEnd, w) \<Rightarrow> Some (Inr (Some (decoder, s, represented, True)), w)
      | (Inr SafetyBoundExceeded, w) \<Rightarrow> Some (Inr None, w)
      | (Inr (StreamMessage bytes stop), w) \<Rightarrow>
          (case io_bind (try_resize env SamplingMemory (length bytes)) (\<lambda>_.
                io_lift (ok_or SampleOverflow (checked_add (umax 64) represented (length bytes)))) w of
             (Inl error, w) \<Rightarrow> Some (Inl error, w)
           | (Inr represented, w) \<Rightarrow>
               Option.bind (decode_sample env ops bops decoder (length bytes) s bytes w) (\<lambda>(r, w).
                 case r of
                   Inl error \<Rightarrow> Some (Inl error, w)
                 | Inr (decoder, s) \<Rightarrow>
                     if sample_rows \<le> sa_rows s
                     then Some (Inr (Some (decoder, s, represented, om_size object \<le> stop)), re_free env SamplingMemory w)
                     else sample_messages env mops ops bops object decoder stop represented s (re_free env SamplingMemory w))))"

definition sample_stream ::
  "('w, 'e) reader_env \<Rightarrow> 'e message_ops \<Rightarrow> ('d, 's, 'b, 'e) stream_decoder \<Rightarrow> 'b batch_ops \<Rightarrow> ipc_object \<Rightarrow> sample \<Rightarrow>
   'w \<Rightarrow> (('e arrow_error + (sample \<times> nat \<times> bool) option) \<times> 'w) option" where
  "sample_stream env mops ops bops object s w =
     Option.bind (sample_messages env mops ops bops object (sd_new ops) 0 0 s w) (\<lambda>(r, w).
       case r of
         Inl error \<Rightarrow> Some (Inl error, w)
       | Inr None \<Rightarrow> Some (Inr None, w)
       | Inr (Some (decoder, s, represented, reached_eof)) \<Rightarrow>
           Some (if reached_eof
                 then io_bind (external_value (sd_finish ops decoder)) (\<lambda>_. io_lift (Inr (Some (s, represented, reached_eof)))) w
                 else (Inr (Some (s, represented, reached_eof)), w)))"

section \<open>The statistics\<close>

datatype ipc_variant = FileVariant | StreamVariant

definition sample_statistics ::
  "ipc_variant \<Rightarrow> ('w, 'e) reader_env \<Rightarrow> ('s, 'v, 'e) footer_ops \<Rightarrow> ('s, 'v, 'd, 'b, 'e) decoder_ops \<Rightarrow> 'e message_ops \<Rightarrow>
   ('d2, 's, 'b, 'e) stream_decoder \<Rightarrow> 'b batch_ops \<Rightarrow> ipc_object \<Rightarrow> nat \<Rightarrow> nat \<Rightarrow> bool \<Rightarrow> 'w \<Rightarrow>
   (('e arrow_error + sample_statistics_result) \<times> 'w) option" where
  "sample_statistics variant env fops ops mops sops bops object n_columns selected_encoded_bytes single_object w =
     (let s = \<lparr>sa_rows = 0, sa_decoded = 0, sa_columns = replicate n_columns 0\<rparr> in
      Option.bind (case variant of
          FileVariant \<Rightarrow> Some (sample_file env fops ops bops object s w)
        | StreamVariant \<Rightarrow> sample_stream env mops sops bops object s w) (\<lambda>(r, w).
      Some (case r of
          Inl error \<Rightarrow> Inl error
        | Inr None \<Rightarrow> Inr Unavailable
        | Inr (Some (s, represented, reached_eof)) \<Rightarrow>
            statistics_of_sample selected_encoded_bytes single_object s represented reached_eof,
        re_free env SamplingMemory w)))"

section \<open>Estimates\<close>

lemma div_ceil_bounds: "0 < d \<Longrightarrow> n \<le> div_ceil n d * d \<and> div_ceil n d * d < n + d"
proof -
  assume d: "0 < d"
  define q r where "q = n div d" and "r = n mod d"
  have n: "n = d * q + r" by (simp add: q_def r_def)
  have "r < d" using d by (simp add: r_def)
  then show ?thesis unfolding div_ceil_def q_def [symmetric] r_def [symmetric] by (auto simp: n algebra_simps)
qed

text \<open>
  An estimate is the sample scaled to the size of the input, rounded up; the product never overflows its
  128 bits, and only an estimate beyond 64 bits is an error.
\<close>

theorem scaling_rounds_up:
  assumes "0 < represented" and "s \<le> umax 64" and "total_bytes \<le> umax 64"
  shows "(\<exists>e. s * total_bytes \<le> e * represented \<and> e * represented < s * total_bytes + represented \<and>
    scale s total_bytes represented = (if e \<le> umax 64 then Inr e else Inl EstimateTooLarge))"
proof -
  have "s * total_bytes \<le> umax 64 * umax 64" using assms(2,3) by (rule mult_le_mono)
  also have "\<dots> \<le> umax 128" by (simp add: umax_def)
  finally show ?thesis
    using div_ceil_bounds [OF assms(1)] by (intro exI [of _ "div_ceil (s * total_bytes) represented"]) (simp add: scale_def checked_mul_def ok_or_def Let_def)
qed

section \<open>Exact statistics\<close>

fun zip_add :: "nat list \<Rightarrow> nat list \<Rightarrow> nat list" where
  "zip_add (t # ts) (c # cs) = (t + c) # zip_add ts cs"
| "zip_add ts cs = ts"

lemma add_columns_Inr: "add_columns ts cs = Inr us \<Longrightarrow> us = zip_add ts cs"
  by (induction ts cs arbitrary: us rule: add_columns.induct)
    (auto simp: res_bind_Inr_conv ok_or_Inr_conv checked_add_Some_iff)

lemma record_sample_Inr:
  assumes "record_sample ops batch s = Inr (s', t)"
  shows "sa_rows s' = sa_rows s + bo_rows ops batch" and "sa_decoded s' = sa_decoded s + bo_memory ops batch"
    and "sa_columns s' = zip_add (sa_columns s) (bo_columns ops batch)" and "t \<longleftrightarrow> sample_rows \<le> sa_rows s'"
  using assms by (auto simp: record_sample_def res_bind_Inr_conv ok_or_Inr_conv checked_add_Some_iff dest: add_columns_Inr)

text \<open>The batches that the blocks of the stored object decode to.\<close>

fun batches_decode :: "('s, 'v, 'd, 'b, 'e) decoder_ops \<Rightarrow> string \<Rightarrow> 'd \<Rightarrow> block list \<Rightarrow> 'e + 'b list" where
  "batches_decode ops contents decoder [] = Inr []"
| "batches_decode ops contents decoder (b # bs) =
     (case dc_batch ops decoder b (block_data contents b) of
        Inl e \<Rightarrow> Inl e
      | Inr y \<Rightarrow>
          (case batches_decode ops contents decoder bs of
             Inl e \<Rightarrow> Inl e
           | Inr rest \<Rightarrow> Inr (case y of None \<Rightarrow> rest | Some x \<Rightarrow> x # rest)))"

fun dictionaries_decode :: "('s, 'v, 'd, 'b, 'e) decoder_ops \<Rightarrow> string \<Rightarrow> 'd \<Rightarrow> block list \<Rightarrow> 'e + 'd" where
  "dictionaries_decode ops contents decoder [] = Inr decoder"
| "dictionaries_decode ops contents decoder (b # bs) =
     (case dc_dictionary ops decoder b (block_data contents b) of
        Inl e \<Rightarrow> Inl e | Inr decoder \<Rightarrow> dictionaries_decode ops contents decoder bs)"

lemma served_block:
  assumes "serves location contents env" and "block_inside (length contents) b" and "read_block env location b w = (Inr data, w')"
  shows "data = block_data contents b"
  using answersD [OF block_inside_read [OF assms(1,2)] assms(3)] by simp

lemma read_dictionaries_decode:
  assumes "serves location contents env"
  shows "\<forall>b\<in>set blocks. block_inside (length contents) b \<Longrightarrow>
    read_dictionaries env ops location decoder bytes blocks w = (Inr (d, n), w') \<Longrightarrow>
    dictionaries_decode ops contents decoder blocks = Inr d"
proof (induction blocks arbitrary: decoder bytes w)
  case (Cons b bs)
  from Cons.prems(1) have b: "block_inside (length contents) b" by simp
  show ?case
    using Cons.prems Cons.IH by (auto simp: io_bind_Inr external_value_Inr dest!: served_block [OF assms b])
qed simp

lemma sample_dictionaries_decode:
  assumes "serves location contents env"
  shows "\<forall>b\<in>set blocks. block_inside (length contents) b \<Longrightarrow>
    sample_dictionaries env ops location decoder represented blocks w = (Inr (Some (d, n)), w') \<Longrightarrow>
    dictionaries_decode ops contents decoder blocks = Inr d"
proof (induction blocks arbitrary: decoder represented w)
  case (Cons b bs)
  from Cons.prems(1) have b: "block_inside (length contents) b" by simp
  show ?case
    using Cons.prems Cons.IH
    by (auto simp: io_bind_Inr external_value_Inr io_lift_Inr split: sample_reservation.splits dest!: served_block [OF assms b])
      (metis sample_reservation.exhaust)
qed simp

lemma read_batches_decode:
  assumes "serves location contents env"
  shows "\<forall>b\<in>set blocks. block_inside (length contents) b \<Longrightarrow>
    read_batches env ops location decoder bytes blocks w = (batches, None, w') \<Longrightarrow>
    batches_decode ops contents decoder blocks = Inr batches"
proof (induction blocks arbitrary: w batches)
  case (Cons b bs)
  from Cons.prems(1) have b: "block_inside (length contents) b" by simp
  obtain r v where v: "read_batch env ops location decoder bytes b w = (r, v)" by fastforce
  obtain y where y: "r = Inr y" using Cons.prems(2) v by (cases r) auto
  have "dc_batch ops decoder b (block_data contents b) = Inr y"
    using v unfolding y read_batch_def
    by (auto simp: io_bind_Inr external_value_Inr io_lift_Inr split: option.splits dest!: served_block [OF assms b])
  moreover obtain u where u: "try_resize env ReaderMemory bytes v = (Inr (), u)"
    using answersE [OF answers_resize [OF assms]] .
  obtain zs e v' where rest: "read_batches env ops location decoder bytes bs u = (zs, e, v')" by (rule prod_cases3)
  with Cons.prems(2) v y u have "e = None" and "v' = w'" and "batches = (case y of None \<Rightarrow> zs | Some x \<Rightarrow> x # zs)"
    by (auto split: option.splits)
  moreover have "batches_decode ops contents decoder bs = Inr zs"
    using Cons.IH [of u zs] Cons.prems(1) rest \<open>e = None\<close> \<open>v' = w'\<close> by simp
  ultimately show ?case by simp
qed simp

lemma sample_block_decodes:
  fixes env :: "('w, 'e) reader_env"
  assumes serves: "serves location contents env" and inside: "block_inside (length contents) b"
    and run: "sample_block env ops bops location decoder represented s b w = (Inr (Some (s', represented', t)), w')"
  obtains "dc_batch ops decoder b (block_data contents b) = Inr None" and "s' = s" and "\<not> t"
  | x where "dc_batch ops decoder b (block_data contents b) = Inr (Some x)"
    and "sa_rows s' = sa_rows s + bo_rows bops x" and "sa_decoded s' = sa_decoded s + bo_memory bops x"
    and "sa_columns s' = zip_add (sa_columns s) (bo_columns bops x)" and "t \<longleftrightarrow> sample_rows \<le> sa_rows s'"
proof -
  obtain answer v where answer: "reserve_sample_block env b w = (Inr answer, v)"
    using run unfolding sample_block_def io_bind_Inr by blast
  have "answer \<noteq> SampleBoundExceeded"
    using run answer by (auto simp: sample_block_def io_bind_def io_lift_def)
  then obtain held where "answer = Reserved held" by (cases answer) auto
  with answer have reserved: "reserve_sample_block env b w = (Inr (Reserved held), v)" by simp
  obtain y u n where y: "dc_batch ops decoder b (block_data contents b) = Inr y"
    and rest: "(case y of
               None \<Rightarrow> io_bind (io_free env SamplingMemory) (\<lambda>_. io_lift (Inr (Some (s, n, False))))
             | Some b \<Rightarrow>
                 io_bind (io_lift (ok_or SampleOverflow (checked_add (umax 64) held (bo_memory bops b)))) (\<lambda>m.
                 io_bind (try_resize env SamplingMemory m) (\<lambda>_.
                 io_bind (io_lift (record_sample bops b s)) (\<lambda>(s, target_reached).
                 io_bind (io_free env SamplingMemory) (\<lambda>_.
                   io_lift (Inr (Some (s, n, target_reached)))))))) u = (Inr (Some (s', represented', t)), w')"
    using run reserved unfolding sample_block_def
    by (auto simp: io_bind_Inr external_value_Inr io_lift_Inr dest!: served_block [OF serves inside])
  show thesis
  proof (cases y)
    case None
    with rest y that(1) show thesis by (auto simp: io_bind_Inr io_lift_Inr)
  next
    case (Some x)
    with rest have "record_sample bops x s = (Inr (s', t) :: ('e arrow_error, _) result)"
      by (auto simp: io_bind_Inr io_lift_Inr)
    from record_sample_Inr [OF this] y Some that(2) show thesis by simp
  qed
qed

lemma sample_blocks_decode:
  assumes serves: "serves location contents env"
  shows "\<forall>b\<in>set blocks. block_inside (length contents) b \<Longrightarrow> sa_rows s < sample_rows \<Longrightarrow> index + length blocks = n_blocks \<Longrightarrow>
    sample_blocks env ops bops location decoder n_blocks index represented s True blocks w = (Inr (Some (s', represented', True)), w') \<Longrightarrow>
    \<exists>batches. batches_decode ops contents decoder blocks = Inr batches \<and>
      sa_rows s' = sa_rows s + sum_list (map (bo_rows bops) batches) \<and>
      sa_decoded s' = sa_decoded s + sum_list (map (bo_memory bops) batches) \<and>
      sa_columns s' = fold (\<lambda>b ts. zip_add ts (bo_columns bops b)) batches (sa_columns s)"
proof (induction blocks arbitrary: s index represented w)
  case (Cons b bs)
  from Cons.prems(1) have b: "block_inside (length contents) b" by simp
  obtain s1 rep1 t v where run: "sample_block env ops bops location decoder represented s b w = (Inr (Some (s1, rep1, t)), v)"
    using Cons.prems(4) by (auto simp: io_bind_Inr io_lift_Inr split: option.splits)
  from serves b run show ?case
  proof (cases rule: sample_block_decodes)
    case 1
    with Cons.prems run have "sample_blocks env ops bops location decoder n_blocks (index + 1) rep1 s True bs v =
        (Inr (Some (s', represented', True)), w')"
      by (simp add: io_bind_def)
    from Cons.IH [OF _ _ _ this] Cons.prems 1 show ?thesis by auto
  next
    case (2 x)
    show ?thesis
    proof (cases t)
      case True
      with Cons.prems run 2 have "s' = s1" and last: "index + 1 = n_blocks"
        by (auto simp: io_bind_def io_lift_def split: if_splits)
      from last Cons.prems(3) have "bs = []" by auto
      with 2 \<open>s' = s1\<close> show ?thesis by simp
    next
      case False
      with Cons.prems run 2 have "sample_blocks env ops bops location decoder n_blocks (index + 1) rep1 s1 True bs v =
          (Inr (Some (s', represented', True)), w')"
        by (simp add: io_bind_def)
      from Cons.IH [OF _ _ _ this] Cons.prems 2 False show ?thesis by auto
    qed
  qed
qed simp

lemma estimate_columns_exact: "estimate_columns (\<lambda>n. sample_estimate n m r True) precision cs = Inr es \<Longrightarrow> es = map precision cs"
  by (induction cs arbitrary: es) (auto simp: sample_estimate_def res_bind_Inr_conv)

lemma exact_statistics:
  assumes "statistics_of_sample selected single s represented eof = Inr (Available stats)" and "ss_num_rows stats = Exact r"
  shows "single \<and> eof \<and> r = sa_rows s \<and> ss_total_byte_size stats = Exact (sa_decoded s) \<and> ss_columns stats = map Exact (sa_columns s)"
  using assms
  by (auto simp: statistics_of_sample_def Let_def res_bind_Inr_conv split: if_splits dest!: estimate_columns_exact)
    (auto simp: sample_estimate_def)

lemma sample_file_counts:
  assumes serves: "serves (om_location object) contents env" and stored: "om_size object = length contents"
    and run: "sample_file env fops ops bops object s w = (Inr (Some (s', represented, True)), w')" and small: "sa_rows s < sample_rows"
  obtains layout v d batches where "read_file_layout env fops object w = (Inr layout, v)"
    and "dictionaries_decode ops contents (dc_new ops (fl_schema layout) (fl_version layout)) (fl_dictionaries layout) = Inr d"
    and "batches_decode ops contents d (fl_record_batches layout) = Inr batches"
    and "sa_rows s' = sa_rows s + sum_list (map (bo_rows bops) batches)"
    and "sa_decoded s' = sa_decoded s + sum_list (map (bo_memory bops) batches)"
    and "sa_columns s' = fold (\<lambda>b ts. zip_add ts (bo_columns bops b)) batches (sa_columns s)"
proof -
  obtain layout v d n u u' where layout: "read_file_layout env fops object w = (Inr layout, v)"
    and dictionaries: "sample_dictionaries env ops (om_location object) (dc_new ops (fl_schema layout) (fl_version layout)) 0
        (fl_dictionaries layout) v = (Inr (Some (d, n)), u)"
    and blocks: "sample_blocks env ops bops (om_location object) d (length (fl_record_batches layout)) 0 n s True
        (fl_record_batches layout) u = (Inr (Some (s', represented, True)), u')"
    using run by (auto simp: sample_file_def io_bind_Inr io_lift_Inr free_after_Inr split: option.splits)
  have inside: "layout_inside (length contents) layout"
    using read_file_layout_inside [OF layout] stored by simp
  then have d: "\<forall>b\<in>set (fl_dictionaries layout). block_inside (length contents) b"
    and b: "\<forall>b\<in>set (fl_record_batches layout). block_inside (length contents) b" by (auto simp: layout_inside_def)
  from sample_blocks_decode [OF serves b small _ blocks] sample_dictionaries_decode [OF serves d dictionaries] layout that
  show thesis by auto
qed

text \<open>
  C13: Statistics of an Arrow file that are called exact are the counts of what reading the file yields: the
  rows, the bytes and the bytes of each column of all its batches, and the file is the only one of the
  input.
\<close>

theorem exact_statistics_match_the_read:
  fixes env :: "('w, 'e) reader_env"
  assumes serves: "serves (om_location object) contents env" and stored: "om_size object = length contents"
    and sampled: "sample_statistics FileVariant env fops ops mops sops bops object n_columns selected single w = Some (Inr (Available stats), w')"
    and exact: "ss_num_rows stats = Exact r"
    and whole: "open_ipc_file env fops ops \<lparr>pf_meta = object, pf_range = None\<rparr> None schema None v = (Inr (batches, None), v')"
  shows "single \<and> r = sum_list (map (bo_rows bops) batches) \<and>
    ss_total_byte_size stats = Exact (sum_list (map (bo_memory bops) batches)) \<and>
    ss_columns stats = map Exact (fold (\<lambda>b ts. zip_add ts (bo_columns bops b)) batches (replicate n_columns 0))"
proof -
  obtain s represented eof u where sample: "sample_file env fops ops bops object
      \<lparr>sa_rows = 0, sa_decoded = 0, sa_columns = replicate n_columns 0\<rparr> w = (Inr (Some (s, represented, eof)), u)"
    and stats: "statistics_of_sample selected single s represented eof = (Inr (Available stats) :: ('e arrow_error, _) result)"
    using sampled by (auto simp: sample_statistics_def Let_def split: sum.splits option.splits prod.splits)
  from exact_statistics [OF stats exact] have eof: "eof" and result: "single" "r = sa_rows s"
    "ss_total_byte_size stats = Exact (sa_decoded s)" "ss_columns stats = map Exact (sa_columns s)" by auto
  obtain layout x d bs where layout: "read_file_layout env fops object w = (Inr layout, x)"
    and d: "dictionaries_decode ops contents (dc_new ops (fl_schema layout) (fl_version layout)) (fl_dictionaries layout) = Inr d"
    and bs: "batches_decode ops contents d (fl_record_batches layout) = Inr bs"
    and s: "sa_rows s = sum_list (map (bo_rows bops) bs)" "sa_decoded s = sum_list (map (bo_memory bops) bs)"
      "sa_columns s = fold (\<lambda>b ts. zip_add ts (bo_columns bops b)) bs (replicate n_columns 0)"
    by (rule sample_file_counts [OF serves stored sample [unfolded eof [THEN eqTrueI]]]) (auto simp: sample_rows_def)
  obtain y where y: "read_file_layout env fops object v = (Inr layout, y)"
    using answersE [OF steady_answers [OF read_file_layout_steady [OF serves stored] layout]] .
  have inside: "layout_inside (length contents) layout"
    using read_file_layout_inside [OF layout] stored by simp
  then have di: "\<forall>b\<in>set (fl_dictionaries layout). block_inside (length contents) b"
    and bi: "\<forall>b\<in>set (fl_record_batches layout). block_inside (length contents) b" by (auto simp: layout_inside_def)
  have owned: "blocks_of \<lparr>pf_meta = object, pf_range = None\<rparr> layout = fl_record_batches layout"
    by (simp add: blocks_of_def owns_block_def)
  obtain d' n z z' where "read_dictionaries env ops (om_location object) (dc_new ops (fl_schema layout) (fl_version layout)) 0
      (fl_dictionaries layout) y = (Inr (d', n), z)"
    and read: "read_batches env ops (om_location object) d' n (fl_record_batches layout) z = (batches, None, z')"
    using whole y by (auto simp: open_ipc_file_def open_layout_def io_bind_def owned file_stream_def Let_def
        split: if_splits prod.splits sum.splits)
  from read_dictionaries_decode [OF serves di this(1)] d have "d' = d" by simp
  with read_batches_decode [OF serves bi read] bs have "bs = batches" by simp
  with s result show ?thesis by simp
qed

section \<open>Sampling ends\<close>

lemma decode_sample_returns:
  assumes "takes_bytes ops"
  shows "\<exists>r w'. decode_sample env ops bops decoder held s buffer w = Some (r, w')"
proof (induction "length buffer" arbitrary: buffer decoder held s w rule: less_induct)
  case less
  have rest: "\<exists>r w'. decode_sample env ops bops d n u rest v = Some (r, w')"
    if "buffer \<noteq> []" and "sd_decode ops decoder buffer = Inr (d', rest, batch)" for d d' n rest batch u v
    by (rule less) (rule takes_bytesD [OF assms that])
  show ?case
    unfolding decode_sample.simps [of env ops bops decoder held s buffer]
    by (auto split: sum.split option.split prod.split intro!: rest)
qed

lemma sample_messages_returns:
  assumes "takes_bytes ops"
  shows "\<exists>r w'. sample_messages env mops ops bops object decoder offset represented s w = Some (r, w')"
proof (induction "om_size object - offset" arbitrary: decoder offset represented s w rule: less_induct)
  case less
  show ?case
  proof (cases "\<exists>bytes stop v. read_stream_message env mops object offset w = (Inr (StreamMessage bytes stop), v)")
    case False
    then show ?thesis
      unfolding sample_messages.simps [of env mops ops bops object decoder offset]
      by (auto split: prod.split sum.split stream_message_read.split)
  next
    case True
    then obtain bytes stop v where message: "read_stream_message env mops object offset w = (Inr (StreamMessage bytes stop), v)"
      by blast
    have rest: "\<exists>r w'. sample_messages env mops ops bops object d stop n u x = Some (r, w')" for d n u x
      using read_stream_message_Inr [OF message] by (intro less) auto
    obtain r x where counted: "io_bind (try_resize env SamplingMemory (length bytes)) (\<lambda>_.
        io_lift (ok_or SampleOverflow (checked_add (umax 64) represented (length bytes)))) v = (r, x)" by fastforce
    obtain q y where decoded: "decode_sample env ops bops decoder (length bytes) s bytes x = Some (q, y)"
      by (metis decode_sample_returns [OF assms])
    show ?thesis
      unfolding sample_messages.simps [of env mops ops bops object decoder offset]
      by (cases r; cases q) (auto simp: message counted decoded rest split: prod.split)
  qed
qed

text \<open>
  Sampling an input for statistics ends when the stream decoder takes at least one byte of what it is
  given.
\<close>

theorem sampling_ends:
  assumes "takes_bytes sops"
  shows "\<exists>r w'. sample_statistics variant env fops ops mops sops bops object n_columns selected single w = Some (r, w')"
proof (cases variant)
  case FileVariant
  then show ?thesis by (cases "sample_file env fops ops bops object
      \<lparr>sa_rows = 0, sa_decoded = 0, sa_columns = replicate n_columns 0\<rparr> w") (simp add: sample_statistics_def)
next
  case StreamVariant
  let ?s = "\<lparr>sa_rows = 0, sa_decoded = 0, sa_columns = replicate n_columns 0\<rparr>"
  obtain r v where "sample_messages env mops sops bops object (sd_new sops) 0 0 ?s w = Some (r, v)"
    by (metis sample_messages_returns [OF assms])
  then have "\<exists>r w'. sample_stream env mops sops bops object ?s w = Some (r, w')"
    by (auto simp: sample_stream_def split: sum.split option.split prod.split)
  then show ?thesis by (auto simp: sample_statistics_def StreamVariant Let_def)
qed

section \<open>A small sample\<close>

theorem scaling_rounds_up_witness:
  "\<exists>e. 7 * 10 \<le> e * 3 \<and> e * 3 < 7 * 10 + 3 \<and>
    (scale 7 10 3 :: (unit arrow_error, nat) result) = (if e \<le> umax 64 then Inr e else Inl EstimateTooLarge)"
  by (rule scaling_rounds_up) (simp_all add: umax_def)

definition small_batch_ops :: "nat batch_ops" where
  "small_batch_ops = \<lparr>bo_rows = \<lambda>n. n, bo_memory = \<lambda>n. 8 * n, bo_columns = \<lambda>n. [8 * n]\<rparr>"

lemma small_sample:
  "sample_statistics FileVariant small_env small_footer_ops small_decoder_ops stream_ops
     \<lparr>sd_new = (), sd_decode = \<lambda>_ _. Inl (), sd_schema = \<lambda>_. None, sd_finish = \<lambda>_. Inr (), sd_project = \<lambda>_ b. Inr b,
      sd_memory = \<lambda>_. 1, sd_same_schema = \<lambda>_ _. True\<rparr> small_batch_ops small_object 1 17 True (\<lambda>_. 0) =
   Some (Inr (Available \<lparr>ss_num_rows = Exact 5, ss_total_byte_size = Exact 40, ss_columns = [Exact 40]\<rparr>), \<lambda>_. 0)"
  by (simp add: sample_statistics_def sample_file_def read_file_layout_def read_footer_def sample_block_def
      reserve_sample_block_def statistics_of_sample_def sample_estimate_def record_sample_def small_batch_ops_def
      io_bind_def io_lift_def io_free_def free_after_def get_range_def try_resize_def external_def external_value_def small_env_def
      small_object_def small_footer_ops_def small_decoder_ops_def small_bytes_def free_on_error_def layout_of_footer_def
      block_size_def read_block_def unsigned_def checked_add_def ok_or_def max_ipc_safety_bytes_def umax_def sample_rows_def
      Let_def fun_eq_iff)

theorem exact_statistics_match_the_read_witness:
  "True \<and> 5 = sum_list (map (bo_rows small_batch_ops) [3, 2]) \<and>
    Exact 40 = Exact (sum_list (map (bo_memory small_batch_ops) [3, 2])) \<and>
    [Exact 40] = map Exact (fold (\<lambda>b ts. zip_add ts (bo_columns small_batch_ops b)) [3, 2] (replicate 1 0))"
  using exact_statistics_match_the_read [OF small_serves _ small_sample _ small_whole]
  by (simp add: small_object_def small_bytes_def)

theorem sampling_ends_witness:
  "\<exists>r w'. sample_statistics StreamVariant stream_env \<lparr>fo_length = \<lambda>_. Inl (), fo_parse = \<lambda>_. Inl ()\<rparr>
     \<lparr>dc_new = \<lambda>_ (_ :: unit). (), dc_project = \<lambda>_ d. d, dc_dictionary = \<lambda>d _ _. Inr d, dc_batch = \<lambda>_ _ _. Inr None,
      dc_memory = \<lambda>_. 1, dc_same_schema = (=)\<rparr>
     stream_ops byte_decoder \<lparr>bo_rows = \<lambda>_. 1, bo_memory = \<lambda>_. 1, bo_columns = \<lambda>_. []\<rparr> stream_object 0 10 True () = Some (r, w')"
  by (rule sampling_ends [OF byte_decoder_laws(1)])

end
