(* ===== verification/Parquet_Ingest.thy ===== *)
theory Parquet_Ingest
  imports Silk_Prelude "HOL-Library.Sublist"
begin

text \<open>
  The first stage of the Parquet writer (\<open>crates/silk-chiffon-format-parquet/src/output/pipeline/stages.rs\<close>): the
  batches of a sink are cut into row groups, either as they come or with an analysis of their columns that runs
  beside them. A batch is the list of its rows.

  The \<open>BatchCoalescer\<close> of Arrow and the analysis query are parameters; what is relied on of them is
  \<open>coalescer_laws\<close> and \<open>analysis_laws\<close>.
\<close>

section \<open>Operations of the libraries\<close>

datatype 'e ingest_error = IngestFailed 'e | CoalescerNotFull | RowCountUnderflow

record ('c, 'r, 'e) coalescer_ops =
  bc_new :: "nat \<Rightarrow> 'c"
  bc_push :: "'c \<Rightarrow> 'r list \<Rightarrow> 'e + 'c"
  bc_finish :: "'c \<Rightarrow> 'e + 'c"
  bc_next :: "'c \<Rightarrow> 'r list option \<times> 'c"

record ('a, 'r, 's, 'e) analysis_ops =
  an_new :: "'e + 'a"
  an_push :: "'a \<Rightarrow> 'r list \<Rightarrow> 'e + 'a"
  an_finalize :: "'a \<Rightarrow> 'e + 's"
  an_empty :: 's

record ('r, 'p) row_group_work =
  rw_batch :: "'r list"
  rw_props :: 'p

text \<open>\<open>ie_build\<close> makes the properties of a row group from its analysis and its number of rows.\<close>

record ('c, 'a, 'r, 's, 'p, 'e) ingest_env =
  ie_coalescer :: "('c, 'r, 'e) coalescer_ops"
  ie_analysis :: "('a, 'r, 's, 'e) analysis_ops"
  ie_build :: "'s \<Rightarrow> nat \<Rightarrow> 'e + 'p"
  ie_max_rows :: nat
  ie_analyze :: bool

definition lib_result :: "'e + 'x \<Rightarrow> ('e ingest_error, 'x) result" where
  "lib_result r = (case r of Inl e \<Rightarrow> Inl (IngestFailed e) | Inr x \<Rightarrow> Inr x)"

lemma lib_result_Inr [simp]: "lib_result r = Inr x \<longleftrightarrow> r = Inr x"
  by (simp add: lib_result_def split: sum.split)

definition make_work :: "('c, 'a, 'r, 's, 'p, 'e) ingest_env \<Rightarrow> 's \<Rightarrow> 'r list \<Rightarrow> ('e ingest_error, ('r, 'p) row_group_work) result" where
  "make_work env analysis batch =
     res_bind (lib_result (ie_build env analysis (length batch))) (\<lambda>props. Inr \<lparr>rw_batch = batch, rw_props = props\<rparr>)"

section \<open>Without analysis\<close>

text \<open>
  A step of the ingestion gives the work it hands on, in order, and then its state or the error that ends it. The
  loops are those of the code, so a library that never stops would give \<open>None\<close>.
\<close>

partial_function (option) drain_completed ::
  "('c, 'a, 'r, 's, 'p, 'e) ingest_env \<Rightarrow> 'c \<Rightarrow> (('r, 'p) row_group_work list \<times> ('e ingest_error, 'c) result) option" where
  "drain_completed env c =
     (case bc_next (ie_coalescer env) c of
        (None, c) \<Rightarrow> Some ([], Inr c)
      | (Some batch, c) \<Rightarrow>
          (case make_work env (an_empty (ie_analysis env)) batch of
             Inl error \<Rightarrow> Some ([], Inl error)
           | Inr work \<Rightarrow> Option.bind (drain_completed env c) (\<lambda>(works, r). Some (work # works, r))))"

definition passthrough_batch ::
  "('c, 'a, 'r, 's, 'p, 'e) ingest_env \<Rightarrow> 'c \<Rightarrow> 'r list \<Rightarrow> (('r, 'p) row_group_work list \<times> ('e ingest_error, 'c) result) option" where
  "passthrough_batch env c batch =
     (case lib_result (bc_push (ie_coalescer env) c batch) of
        Inl error \<Rightarrow> Some ([], Inl error)
      | Inr c \<Rightarrow> drain_completed env c)"

definition passthrough_finish ::
  "('c, 'a, 'r, 's, 'p, 'e) ingest_env \<Rightarrow> 'c \<Rightarrow> ('r, 'p) row_group_work list \<times> ('e ingest_error, unit) result" where
  "passthrough_finish env c =
     (case lib_result (bc_finish (ie_coalescer env) c) of
        Inl error \<Rightarrow> ([], Inl error)
      | Inr c \<Rightarrow>
          (case fst (bc_next (ie_coalescer env) c) of
             None \<Rightarrow> ([], Inr ())
           | Some batch \<Rightarrow>
               (case make_work env (an_empty (ie_analysis env)) batch of
                  Inl error \<Rightarrow> ([], Inl error)
                | Inr work \<Rightarrow> ([work], Inr ()))))"

section \<open>A hard limit on the rows\<close>

record 'c hard_limit =
  hl_coalescer :: 'c
  hl_max_rows :: nat
  hl_rows :: nat

definition hl_new :: "('c, 'r, 'e) coalescer_ops \<Rightarrow> nat \<Rightarrow> 'c hard_limit" where
  "hl_new ops max_rows = \<lparr>hl_coalescer = bc_new ops max_rows, hl_max_rows = max_rows, hl_rows = 0\<rparr>"

definition hl_push :: "('c, 'r, 'e) coalescer_ops \<Rightarrow> 'c hard_limit \<Rightarrow> 'r list \<Rightarrow>
  ('e ingest_error, 'r list \<times> 'r list option \<times> 'c hard_limit) result" where
  "hl_push ops h batch =
     (if hl_max_rows h < hl_rows h then Inl RowCountUnderflow
      else let space_left = hl_max_rows h - hl_rows h in
        if space_left = 0 then Inr ([], Some batch, h)
        else let (to_push, remaining) =
                   (if length batch \<le> space_left then (batch, None)
                    else (take space_left batch, Some (drop space_left batch))) in
          res_bind (lib_result (bc_push ops (hl_coalescer h) to_push)) (\<lambda>c.
            Inr (to_push, remaining, h\<lparr>hl_coalescer := c, hl_rows := hl_rows h + length to_push\<rparr>)))"

definition hl_is_full :: "'c hard_limit \<Rightarrow> bool" where
  "hl_is_full h \<longleftrightarrow> hl_max_rows h \<le> hl_rows h"

definition hl_finish :: "('c, 'r, 'e) coalescer_ops \<Rightarrow> 'c hard_limit \<Rightarrow>
  ('e ingest_error, 'r list option \<times> 'c hard_limit) result" where
  "hl_finish ops h =
     res_bind (lib_result (bc_finish ops (hl_coalescer h))) (\<lambda>c.
       Inr (fst (bc_next ops c), h\<lparr>hl_coalescer := snd (bc_next ops c), hl_rows := 0\<rparr>))"

section \<open>With analysis\<close>

definition finish_analyzed ::
  "('c, 'a, 'r, 's, 'p, 'e) ingest_env \<Rightarrow> 'a \<Rightarrow> 'r list \<Rightarrow> ('e ingest_error, ('r, 'p) row_group_work) result" where
  "finish_analyzed env analysis batch =
     res_bind (lib_result (an_finalize (ie_analysis env) analysis)) (\<lambda>found. make_work env found batch)"

text \<open>A full row group: it is handed on, and the next one starts with a coalescer and an analysis of its own.\<close>

definition complete_group ::
  "('c, 'a, 'r, 's, 'p, 'e) ingest_env \<Rightarrow> 'c hard_limit \<Rightarrow> 'a \<Rightarrow>
   ('r, 'p) row_group_work list \<times> ('e ingest_error, 'c hard_limit \<times> 'a) result" where
  "complete_group env h analysis =
     (case hl_finish (ie_coalescer env) h of
        Inl error \<Rightarrow> ([], Inl error)
      | Inr (None, _) \<Rightarrow> ([], Inl CoalescerNotFull)
      | Inr (Some batch, _) \<Rightarrow>
          (case finish_analyzed env analysis batch of
             Inl error \<Rightarrow> ([], Inl error)
           | Inr work \<Rightarrow>
               ([work],
                res_bind (lib_result (an_new (ie_analysis env))) (\<lambda>analysis.
                  Inr (hl_new (ie_coalescer env) (ie_max_rows env), analysis)))))"

partial_function (option) analyze_batch ::
  "('c, 'a, 'r, 's, 'p, 'e) ingest_env \<Rightarrow> 'c hard_limit \<Rightarrow> 'a \<Rightarrow> 'r list \<Rightarrow>
   (('r, 'p) row_group_work list \<times> ('e ingest_error, 'c hard_limit \<times> 'a) result) option" where
  "analyze_batch env h analysis batch =
     (case hl_push (ie_coalescer env) h batch of
        Inl error \<Rightarrow> Some ([], Inl error)
      | Inr (pushed, rest, h) \<Rightarrow>
          (case (if 0 < length pushed then lib_result (an_push (ie_analysis env) analysis pushed) else Inr analysis) of
             Inl error \<Rightarrow> Some ([], Inl error)
           | Inr analysis \<Rightarrow>
               (case (if hl_is_full h then complete_group env h analysis else ([], Inr (h, analysis))) of
                  (works, Inl error) \<Rightarrow> Some (works, Inl error)
                | (works, Inr (h, analysis)) \<Rightarrow>
                    (case rest of
                       None \<Rightarrow> Some (works, Inr (h, analysis))
                     | Some batch \<Rightarrow>
                         Option.bind (analyze_batch env h analysis batch) (\<lambda>(more, r). Some (works @ more, r))))))"

definition analyze_finish ::
  "('c, 'a, 'r, 's, 'p, 'e) ingest_env \<Rightarrow> 'c hard_limit \<Rightarrow> 'a \<Rightarrow> ('r, 'p) row_group_work list \<times> ('e ingest_error, unit) result" where
  "analyze_finish env h analysis =
     (case hl_finish (ie_coalescer env) h of
        Inl error \<Rightarrow> ([], Inl error)
      | Inr (None, _) \<Rightarrow> ([], Inr ())
      | Inr (Some batch, _) \<Rightarrow>
          (case finish_analyzed env analysis batch of
             Inl error \<Rightarrow> ([], Inl error)
           | Inr work \<Rightarrow> ([work], Inr ())))"

section \<open>The ingestion task\<close>

datatype ('c, 'a) ingest_state = PassThrough 'c | Analyzing "'c hard_limit" 'a

definition ingest_start :: "('c, 'a, 'r, 's, 'p, 'e) ingest_env \<Rightarrow> ('e ingest_error, ('c, 'a) ingest_state) result" where
  "ingest_start env =
     (if ie_analyze env
      then res_bind (lib_result (an_new (ie_analysis env))) (\<lambda>analysis.
             Inr (Analyzing (hl_new (ie_coalescer env) (ie_max_rows env)) analysis))
      else Inr (PassThrough (bc_new (ie_coalescer env) (ie_max_rows env))))"

fun ingest_batch ::
  "('c, 'a, 'r, 's, 'p, 'e) ingest_env \<Rightarrow> ('c, 'a) ingest_state \<Rightarrow> 'r list \<Rightarrow>
   (('r, 'p) row_group_work list \<times> ('e ingest_error, ('c, 'a) ingest_state) result) option" where
  "ingest_batch env (PassThrough c) batch =
     map_option (\<lambda>(works, r). (works, res_bind r (\<lambda>c. Inr (PassThrough c)))) (passthrough_batch env c batch)"
| "ingest_batch env (Analyzing h analysis) batch =
     map_option (\<lambda>(works, r). (works, res_bind r (\<lambda>(h, analysis). Inr (Analyzing h analysis)))) (analyze_batch env h analysis batch)"

fun ingest_finish ::
  "('c, 'a, 'r, 's, 'p, 'e) ingest_env \<Rightarrow> ('c, 'a) ingest_state \<Rightarrow> ('r, 'p) row_group_work list \<times> ('e ingest_error, unit) result" where
  "ingest_finish env (PassThrough c) = passthrough_finish env c"
| "ingest_finish env (Analyzing h analysis) = analyze_finish env h analysis"

text \<open>The whole task, when everything it hands on is taken.\<close>

fun ingest_rest ::
  "('c, 'a, 'r, 's, 'p, 'e) ingest_env \<Rightarrow> ('c, 'a) ingest_state \<Rightarrow> 'r list list \<Rightarrow>
   (('r, 'p) row_group_work list \<times> ('e ingest_error, unit) result) option" where
  "ingest_rest env st [] = Some (ingest_finish env st)"
| "ingest_rest env st (batch # batches) =
     Option.bind (ingest_batch env st batch) (\<lambda>(works, r).
       case r of
         Inl error \<Rightarrow> Some (works, Inl error)
       | Inr st \<Rightarrow> Option.bind (ingest_rest env st batches) (\<lambda>(more, r). Some (works @ more, r)))"

definition ingest_all ::
  "('c, 'a, 'r, 's, 'p, 'e) ingest_env \<Rightarrow> 'r list list \<Rightarrow> (('r, 'p) row_group_work list \<times> ('e ingest_error, unit) result) option" where
  "ingest_all env batches =
     (case ingest_start env of Inl error \<Rightarrow> Some ([], Inl error) | Inr st \<Rightarrow> ingest_rest env st batches)"

section \<open>What is relied on\<close>

record ('c, 'r) coalescer_view =
  cv_done :: "'c \<Rightarrow> 'r list list"
  cv_buffered :: "'c \<Rightarrow> 'r list"
  cv_target :: "'c \<Rightarrow> nat"

text \<open>
  A coalescer holds completed batches of its target size, in order, and fewer rows than that buffered; finishing
  completes what is buffered.
\<close>

definition coalescer_laws :: "('c, 'r, 'e) coalescer_ops \<Rightarrow> ('c, 'r) coalescer_view \<Rightarrow> bool" where
  "coalescer_laws ops view \<longleftrightarrow>
     (\<forall>n. 0 < n \<longrightarrow> cv_done view (bc_new ops n) = [] \<and> cv_buffered view (bc_new ops n) = [] \<and> cv_target view (bc_new ops n) = n) \<and>
     (\<forall>c b c'. bc_push ops c b = Inr c' \<longrightarrow> 0 < cv_target view c \<longrightarrow>
        cv_target view c' = cv_target view c \<and>
        (\<exists>ds. cv_done view c' = cv_done view c @ ds \<and> (\<forall>d\<in>set ds. length d = cv_target view c) \<and>
           concat ds @ cv_buffered view c' = cv_buffered view c @ b) \<and> length (cv_buffered view c') < cv_target view c) \<and>
     (\<forall>c c'. bc_finish ops c = Inr c' \<longrightarrow>
        cv_done view c' = cv_done view c @ (if cv_buffered view c = [] then [] else [cv_buffered view c])) \<and>
     (\<forall>c. case bc_next ops c of
        (None, c') \<Rightarrow> c' = c \<and> cv_done view c = []
      | (Some d, c') \<Rightarrow> cv_done view c = d # cv_done view c' \<and> cv_buffered view c' = cv_buffered view c \<and>
          cv_target view c' = cv_target view c)"

record ('a, 'r, 's) analysis_view =
  av_rows :: "'a \<Rightarrow> 'r list"
  av_of :: "'r list \<Rightarrow> 's"

text \<open>The analysis is that of the rows it was given, whatever batches they came in.\<close>

definition analysis_laws :: "('a, 'r, 's, 'e) analysis_ops \<Rightarrow> ('a, 'r, 's) analysis_view \<Rightarrow> bool" where
  "analysis_laws ops view \<longleftrightarrow>
     (\<forall>a. an_new ops = Inr a \<longrightarrow> av_rows view a = []) \<and>
     (\<forall>a b a'. an_push ops a b = Inr a' \<longrightarrow> av_rows view a' = av_rows view a @ b) \<and>
     (\<forall>a s. an_finalize ops a = Inr s \<longrightarrow> s = av_of view (av_rows view a))"

lemma coalescer_new:
  "coalescer_laws ops view \<Longrightarrow> 0 < n \<Longrightarrow>
   cv_done view (bc_new ops n) = [] \<and> cv_buffered view (bc_new ops n) = [] \<and> cv_target view (bc_new ops n) = n"
  unfolding coalescer_laws_def by blast

lemma coalescer_push:
  assumes "coalescer_laws ops view" and "bc_push ops c b = Inr c'" and "0 < cv_target view c"
  obtains ds where "cv_target view c' = cv_target view c" and "cv_done view c' = cv_done view c @ ds"
    and "\<forall>d\<in>set ds. length d = cv_target view c" and "concat ds @ cv_buffered view c' = cv_buffered view c @ b"
    and "length (cv_buffered view c') < cv_target view c"
proof -
  have "\<forall>c b c'. bc_push ops c b = Inr c' \<longrightarrow> 0 < cv_target view c \<longrightarrow>
        cv_target view c' = cv_target view c \<and>
        (\<exists>ds. cv_done view c' = cv_done view c @ ds \<and> (\<forall>d\<in>set ds. length d = cv_target view c) \<and>
           concat ds @ cv_buffered view c' = cv_buffered view c @ b) \<and> length (cv_buffered view c') < cv_target view c"
    using assms(1) unfolding coalescer_laws_def by (elim conjE)
  from this [rule_format, OF assms(2,3)] show ?thesis using that by (elim conjE exE)
qed

lemma coalescer_finish:
  "coalescer_laws ops view \<Longrightarrow> bc_finish ops c = Inr c' \<Longrightarrow>
   cv_done view c' = cv_done view c @ (if cv_buffered view c = [] then [] else [cv_buffered view c])"
  unfolding coalescer_laws_def by blast

lemma coalescer_next:
  assumes "coalescer_laws ops view"
  shows "case bc_next ops c of
        (None, c') \<Rightarrow> c' = c \<and> cv_done view c = []
      | (Some d, c') \<Rightarrow> cv_done view c = d # cv_done view c' \<and> cv_buffered view c' = cv_buffered view c \<and>
          cv_target view c' = cv_target view c"
  using assms unfolding coalescer_laws_def by (elim conjE) (erule allE)

lemma coalescer_next_None: "coalescer_laws ops view \<Longrightarrow> cv_done view c = [] \<Longrightarrow> bc_next ops c = (None, c)"
  using coalescer_next [of ops view c] by (cases "bc_next ops c") (auto split: option.splits)

lemma coalescer_next_Some:
  assumes "coalescer_laws ops view" and "cv_done view c = d # ds"
  obtains c' where "bc_next ops c = (Some d, c')" and "cv_done view c' = ds" and "cv_buffered view c' = cv_buffered view c"
    and "cv_target view c' = cv_target view c"
  using coalescer_next [OF assms(1), of c] assms(2) that by (cases "bc_next ops c") (auto split: option.splits)

section \<open>Row groups\<close>

function chunks :: "nat \<Rightarrow> 'r list \<Rightarrow> 'r list list" where
  "chunks n xs = (if n = 0 \<or> xs = [] then [] else take n xs # chunks n (drop n xs))"
  by pat_completeness auto
termination by (relation "measure (length \<circ> snd)") auto

declare chunks.simps [simp del]

lemma chunks_append:
  "0 < n \<Longrightarrow> \<forall>d\<in>set ds. length d = n \<Longrightarrow> length rest < n \<Longrightarrow>
   chunks n (concat ds @ rest) = ds @ (if rest = [] then [] else [rest])"
proof (induction ds)
  case Nil
  then show ?case by (simp add: chunks.simps [of n rest] chunks.simps [of n "[]"])
next
  case (Cons d ds)
  then have "d \<noteq> []" by auto
  with Cons show ?case by (simp add: chunks.simps [of n "d @ concat ds @ rest"])
qed

lemma concat_chunks: "0 < n \<Longrightarrow> concat (chunks n xs) = xs"
  by (induction n xs rule: chunks.induct) (subst chunks.simps, auto)

lemma chunks_sizes: "c \<in> set (chunks n xs) \<Longrightarrow> c \<noteq> [] \<and> length c \<le> n"
proof (induction n xs rule: chunks.induct)
  case (1 n xs)
  then show ?case by (auto simp: chunks.simps [of n xs] split: if_splits)
qed

section \<open>The ingestion cuts row groups\<close>

definition work_ok :: "('c, 'a, 'r, 's, 'p, 'e) ingest_env \<Rightarrow> ('a, 'r, 's) analysis_view \<Rightarrow> ('r, 'p) row_group_work \<Rightarrow> bool" where
  "work_ok env view work \<longleftrightarrow>
     ie_build env (if ie_analyze env then av_of view (rw_batch work) else an_empty (ie_analysis env)) (length (rw_batch work)) =
       Inr (rw_props work)"

definition pending :: "('c, 'a, 'r, 's, 'p, 'e) ingest_env \<Rightarrow> ('c, 'r) coalescer_view \<Rightarrow> ('a, 'r, 's) analysis_view \<Rightarrow>
  ('c, 'a) ingest_state \<Rightarrow> 'r list \<Rightarrow> bool" where
  "pending env cview aview st rows \<longleftrightarrow> length rows < ie_max_rows env \<and>
     (case st of
        PassThrough c \<Rightarrow> \<not> ie_analyze env \<and> cv_done cview c = [] \<and> cv_buffered cview c = rows \<and> cv_target cview c = ie_max_rows env
      | Analyzing h a \<Rightarrow> ie_analyze env \<and> cv_done cview (hl_coalescer h) = [] \<and> cv_buffered cview (hl_coalescer h) = rows \<and>
          cv_target cview (hl_coalescer h) = ie_max_rows env \<and> hl_max_rows h = ie_max_rows env \<and>
          hl_rows h = length rows \<and> av_rows aview a = rows)"

text \<open>
  The result of a step that takes the rows \<open>rows\<close>: full row groups, in order, and what is left pending; an error
  is one of the libraries, after full row groups.
\<close>

definition cuts :: "('c, 'a, 'r, 's, 'p, 'e) ingest_env \<Rightarrow> ('c, 'r) coalescer_view \<Rightarrow> ('a, 'r, 's) analysis_view \<Rightarrow> 'r list \<Rightarrow>
  ('r, 'p) row_group_work list \<Rightarrow> ('e ingest_error, ('c, 'a) ingest_state) result \<Rightarrow> bool" where
  "cuts env cview aview rows works r \<longleftrightarrow>
     (\<forall>w\<in>set works. length (rw_batch w) = ie_max_rows env \<and> work_ok env aview w) \<and>
     (case r of
        Inr st \<Rightarrow> \<exists>rest. pending env cview aview st rest \<and> concat (map rw_batch works) @ rest = rows
      | Inl error \<Rightarrow> (\<exists>e. error = IngestFailed e) \<and> prefix (concat (map rw_batch works)) rows)"

lemma lib_result_Inl: "lib_result r = Inl error \<Longrightarrow> \<exists>e. error = IngestFailed e"
  by (auto simp: lib_result_def split: sum.splits)

lemma make_work_Inr: "make_work env s batch = Inr w \<longleftrightarrow> ie_build env s (length batch) = Inr (rw_props w) \<and> rw_batch w = batch"
  by (cases w) (auto simp: make_work_def res_bind_Inr_conv)

lemma make_work_Inl: "make_work env s batch = Inl error \<Longrightarrow> \<exists>e. error = IngestFailed e"
  by (auto simp: make_work_def res_bind_def dest: lib_result_Inl split: sum.splits)

lemma drain_completed_gives:
  assumes laws: "coalescer_laws (ie_coalescer env) cview"
  shows "cv_done cview c = ds \<Longrightarrow>
    \<exists>works r. drain_completed env c = Some (works, r) \<and>
      (\<forall>w\<in>set works. make_work env (an_empty (ie_analysis env)) (rw_batch w) = Inr w) \<and>
      (case r of
         Inr c' \<Rightarrow> map rw_batch works = ds \<and> cv_done cview c' = [] \<and> cv_buffered cview c' = cv_buffered cview c \<and>
           cv_target cview c' = cv_target cview c
       | Inl error \<Rightarrow> (\<exists>e. error = IngestFailed e) \<and> prefix (map rw_batch works) ds)"
proof (induction ds arbitrary: c)
  case Nil
  then show ?case by (simp add: drain_completed.simps [of env c] coalescer_next_None [OF laws])
next
  case (Cons d ds)
  obtain c' where c': "bc_next (ie_coalescer env) c = (Some d, c')" "cv_done cview c' = ds"
    "cv_buffered cview c' = cv_buffered cview c" "cv_target cview c' = cv_target cview c"
    by (rule coalescer_next_Some [OF laws Cons.prems])
  show ?case
  proof (cases "make_work env (an_empty (ie_analysis env)) d")
    case (Inl error)
    then show ?thesis by (auto simp: drain_completed.simps [of env c] c'(1) dest: make_work_Inl)
  next
    case (Inr w)
    then have w: "rw_batch w = d" by (simp add: make_work_Inr)
    from Cons.IH [OF c'(2)] obtain works r where *: "drain_completed env c' = Some (works, r)"
      "\<forall>w\<in>set works. make_work env (an_empty (ie_analysis env)) (rw_batch w) = Inr w"
      "case r of
         Inr c'' \<Rightarrow> map rw_batch works = ds \<and> cv_done cview c'' = [] \<and> cv_buffered cview c'' = cv_buffered cview c' \<and>
           cv_target cview c'' = cv_target cview c'
       | Inl error \<Rightarrow> (\<exists>e. error = IngestFailed e) \<and> prefix (map rw_batch works) ds"
      by blast
    then show ?thesis using Inr w c'
      by (cases r) (auto simp: drain_completed.simps [of env c])
  qed
qed

lemma concat_prefix: "prefix xs ys \<Longrightarrow> prefix (concat xs) (concat ys)"
  by (auto simp: prefix_def)

lemma passthrough_cuts:
  assumes laws: "coalescer_laws (ie_coalescer env) cview" and max: "0 < ie_max_rows env"
    and st: "pending env cview aview (PassThrough c) rows"
  shows "\<exists>works r. ingest_batch env (PassThrough c) batch = Some (works, r) \<and> cuts env cview aview (rows @ batch) works r"
proof (cases "bc_push (ie_coalescer env) c batch")
  case (Inl e)
  then show ?thesis by (simp add: passthrough_batch_def lib_result_def cuts_def res_bind_def)
next
  case (Inr c')
  from st have c: "\<not> ie_analyze env" "cv_done cview c = []" "cv_buffered cview c = rows" "cv_target cview c = ie_max_rows env"
    by (simp_all add: pending_def)
  from max c have "0 < cv_target cview c" by simp
  from coalescer_push [OF laws Inr this] obtain ds where ds: "cv_target cview c' = ie_max_rows env" "cv_done cview c' = ds"
    "\<forall>d\<in>set ds. length d = ie_max_rows env" "concat ds @ cv_buffered cview c' = rows @ batch"
    "length (cv_buffered cview c') < ie_max_rows env"
    using c by (metis append_Nil)
  from drain_completed_gives [OF laws ds(2)] obtain works r where *: "drain_completed env c' = Some (works, r)"
    "\<forall>w\<in>set works. make_work env (an_empty (ie_analysis env)) (rw_batch w) = Inr w"
    "case r of
         Inr c'' \<Rightarrow> map rw_batch works = ds \<and> cv_done cview c'' = [] \<and> cv_buffered cview c'' = cv_buffered cview c' \<and>
           cv_target cview c'' = cv_target cview c'
       | Inl error \<Rightarrow> (\<exists>e. error = IngestFailed e) \<and> prefix (map rw_batch works) ds"
    by blast
  have batches: "set (map rw_batch works) \<subseteq> set ds"
    using *(3) set_mono_prefix [of "map rw_batch works" ds] by (simp split: sum.splits)
  have ok: "\<forall>w\<in>set works. length (rw_batch w) = ie_max_rows env \<and> work_ok env aview w"
    using *(2) batches ds(3) c(1) by (auto simp: make_work_Inr work_ok_def)
  have step: "ingest_batch env (PassThrough c) batch = Some (works, res_bind r (\<lambda>c. Inr (PassThrough c)))"
    using Inr *(1) by (simp add: passthrough_batch_def lib_result_def)
  have "cuts env cview aview (rows @ batch) works (res_bind r (\<lambda>c. Inr (PassThrough c)))"
  proof (cases r)
    case (Inl e)
    with *(3) have "\<exists>e'. e = IngestFailed e'" and "prefix (concat (map rw_batch works)) (concat ds)"
      by (auto intro: concat_prefix)
    with ok Inl ds(4) show ?thesis unfolding cuts_def by (auto simp: ds(4) [symmetric] intro: prefix_prefix)
  next
    case (Inr c'')
    with *(3) have c'': "map rw_batch works = ds" "cv_done cview c'' = []" "cv_buffered cview c'' = cv_buffered cview c'"
      "cv_target cview c'' = cv_target cview c'" by simp_all
    with ok Inr ds c(1) show ?thesis unfolding cuts_def by (auto simp: pending_def)
  qed
  with step show ?thesis by blast
qed

lemma hl_push_room:
  assumes "hl_rows h < hl_max_rows h"
  shows "hl_push ops h batch =
    (let pushed = take (hl_max_rows h - hl_rows h) batch; rest = drop (hl_max_rows h - hl_rows h) batch in
     case bc_push ops (hl_coalescer h) pushed of
       Inl e \<Rightarrow> Inl (IngestFailed e)
     | Inr c \<Rightarrow> Inr (pushed, if rest = [] then None else Some rest,
         h\<lparr>hl_coalescer := c, hl_rows := hl_rows h + length pushed\<rparr>))"
  using assms by (auto simp: hl_push_def res_bind_def lib_result_def Let_def split: sum.splits)

lemma coalescer_takes:
  assumes laws: "coalescer_laws ops view" and "0 < n" "cv_target view c = n" "cv_done view c = []" "cv_buffered view c = rows"
    and push: "bc_push ops c batch = Inr c'" and len: "length (rows @ batch) \<le> n"
  shows "cv_target view c' = n" and "concat (cv_done view c') @ cv_buffered view c' = rows @ batch"
    and "cv_done view c' = (if length (rows @ batch) = n then [rows @ batch] else [])"
proof -
  from assms obtain ds where ds: "cv_target view c' = n" "cv_done view c' = ds" "\<forall>d\<in>set ds. length d = n"
    "concat ds @ cv_buffered view c' = rows @ batch" "length (cv_buffered view c') < n"
    by (metis coalescer_push [OF laws push] append_Nil)
  show "cv_target view c' = n" and all: "concat (cv_done view c') @ cv_buffered view c' = rows @ batch" using ds by simp_all
  show "cv_done view c' = (if length (rows @ batch) = n then [rows @ batch] else [])"
  proof (cases ds)
    case Nil
    with ds show ?thesis by auto
  next
    case (Cons d ds')
    with ds(3) have "length d = n" by simp
    moreover from ds(4) Cons have eq: "d @ concat ds' @ cv_buffered view c' = rows @ batch" by simp
    moreover have "length d + length (concat ds' @ cv_buffered view c') = length (rows @ batch)"
      using arg_cong [OF eq, of length] by simp
    ultimately have "length (concat ds' @ cv_buffered view c') = 0" using len by linarith
    then have "concat ds' @ cv_buffered view c' = []" by (simp only: length_0_conv)
    moreover from this ds(3) Cons \<open>0 < n\<close> have "ds' = []" by (cases ds') auto
    ultimately show ?thesis using eq \<open>length d = n\<close> ds(2) Cons by auto
  qed
qed

lemma cuts_then:
  assumes first: "cuts env cview aview rows works (Inr st)"
    and next_step: "\<And>rest. pending env cview aview st rest \<Longrightarrow>
      \<exists>works r. step = Some (works, r) \<and> cuts env cview aview (rest @ batch) works r"
  shows "\<exists>later r. step = Some (later, r) \<and> cuts env cview aview (rows @ batch) (works @ later) r"
proof -
  from first obtain rest where rest: "pending env cview aview st rest" "concat (map rw_batch works) @ rest = rows"
    "\<forall>w\<in>set works. length (rw_batch w) = ie_max_rows env \<and> work_ok env aview w"
    by (auto simp: cuts_def)
  from next_step [OF rest(1)] obtain later r where later: "step = Some (later, r)"
    "cuts env cview aview (rest @ batch) later r" by blast
  have "cuts env cview aview (rows @ batch) (works @ later) r"
    using later(2) rest(2,3) by (auto simp: cuts_def split: sum.splits)
  with later(1) show ?thesis by blast
qed

lemma complete_group_cuts:
  assumes laws: "coalescer_laws (ie_coalescer env) cview" "analysis_laws (ie_analysis env) aview" and max: "0 < ie_max_rows env"
    and env: "ie_analyze env"
    and h: "cv_done cview (hl_coalescer h) = [rows]" "cv_buffered cview (hl_coalescer h) = []" "length rows = ie_max_rows env"
      "av_rows aview a = rows"
  shows "case complete_group env h a of (works, r) \<Rightarrow>
    cuts env cview aview rows works (res_bind r (\<lambda>(h, a). Inr (Analyzing h a)))"
proof (cases "bc_finish (ie_coalescer env) (hl_coalescer h)")
  case (Inl e)
  then show ?thesis by (simp add: complete_group_def hl_finish_def lib_result_def res_bind_def cuts_def)
next
  case (Inr c)
  have "cv_done cview c = [rows]" using coalescer_finish [OF laws(1) Inr] h by simp
  then obtain c' where "bc_next (ie_coalescer env) c = (Some rows, c')" by (rule coalescer_next_Some [OF laws(1)])
  with Inr have finish: "\<exists>h'. hl_finish (ie_coalescer env) h = Inr (Some rows, h')"
    by (simp add: hl_finish_def lib_result_def res_bind_def)
  show ?thesis
  proof (cases "finish_analyzed env a rows")
    case (Inl e)
    then have "\<exists>e'. e = IngestFailed e'"
      by (auto simp: finish_analyzed_def res_bind_def dest: lib_result_Inl make_work_Inl split: sum.splits)
    with Inl finish show ?thesis by (auto simp: complete_group_def cuts_def)
  next
    case (Inr w)
    then have "\<exists>s. an_finalize (ie_analysis env) a = Inr s \<and> make_work env s rows = Inr w"
      by (simp add: finish_analyzed_def res_bind_Inr_conv)
    moreover have "an_finalize (ie_analysis env) a = Inr s \<Longrightarrow> s = av_of aview rows" for s
      using laws(2) h(4) unfolding analysis_laws_def by blast
    ultimately have w: "rw_batch w = rows" "work_ok env aview w" using env by (auto simp: make_work_Inr work_ok_def)
    have new: "av_rows aview a' = []" if "an_new (ie_analysis env) = Inr a'" for a'
      using laws(2) that unfolding analysis_laws_def by blast
    from Inr finish w h(3) coalescer_new [OF laws(1) max] new env max show ?thesis
      by (cases "an_new (ie_analysis env)")
        (auto simp: complete_group_def cuts_def res_bind_def lib_result_def pending_def hl_new_def)
  qed
qed

lemma analyze_cuts:
  assumes laws: "coalescer_laws (ie_coalescer env) cview" "analysis_laws (ie_analysis env) aview" and max: "0 < ie_max_rows env"
  shows "pending env cview aview (Analyzing h a) rows \<Longrightarrow>
    \<exists>works r. ingest_batch env (Analyzing h a) batch = Some (works, r) \<and> cuts env cview aview (rows @ batch) works r"
proof (induction "length batch" arbitrary: h a rows batch rule: less_induct)
  case less
  from less.prems have st: "length rows < ie_max_rows env" "ie_analyze env" "cv_done cview (hl_coalescer h) = []"
    "cv_buffered cview (hl_coalescer h) = rows" "cv_target cview (hl_coalescer h) = ie_max_rows env"
    "hl_max_rows h = ie_max_rows env" "hl_rows h = length rows" "av_rows aview a = rows"
    by (simp_all add: pending_def)
  define pushed where "pushed = take (ie_max_rows env - length rows) batch"
  define left where "left = drop (ie_max_rows env - length rows) batch"
  have parts: "batch = pushed @ left" "length (rows @ pushed) \<le> ie_max_rows env"
    "left \<noteq> [] \<Longrightarrow> length (rows @ pushed) = ie_max_rows env"
    using st(1) by (auto simp: pushed_def left_def)
  have room: "hl_rows h < hl_max_rows h" using st by simp
  note push = hl_push_room [OF room, of "ie_coalescer env" batch, unfolded st(6,7) Let_def, folded pushed_def left_def]
  show ?case
  proof (cases "bc_push (ie_coalescer env) (hl_coalescer h) pushed")
    case (Inl e)
    then show ?thesis by (simp add: analyze_batch.simps [of env h] push cuts_def res_bind_def)
  next
    case (Inr c)
    note took = coalescer_takes [OF laws(1) max st(5,3,4) Inr parts(2)]
    define h' where "h' = h\<lparr>hl_coalescer := c, hl_rows := length rows + length pushed\<rparr>"
    define seen where "seen = (if 0 < length pushed then lib_result (an_push (ie_analysis env) a pushed) else Inr a)"
    have pushes: "hl_push (ie_coalescer env) h batch = Inr (pushed, if left = [] then None else Some left, h')"
      by (simp add: push Inr h'_def)
    have unfolds: "analyze_batch env h a batch =
      (case seen of
         Inl error \<Rightarrow> Some ([], Inl error)
       | Inr a \<Rightarrow>
           (case (if hl_is_full h' then complete_group env h' a else ([], Inr (h', a))) of
              (works, Inl error) \<Rightarrow> Some (works, Inl error)
            | (works, Inr (h, a)) \<Rightarrow>
                (case (if left = [] then None else Some left) of
                   None \<Rightarrow> Some (works, Inr (h, a))
                 | Some batch \<Rightarrow> Option.bind (analyze_batch env h a batch) (\<lambda>(later, r). Some (works @ later, r)))))"
      unfolding analyze_batch.simps [of env h a batch] pushes seen_def sum.case prod.case ..
    show ?thesis
    proof (cases seen)
      case (Inl e)
      then have "\<exists>e'. e = IngestFailed e'" by (auto simp: seen_def dest: lib_result_Inl split: if_splits)
      with Inl show ?thesis by (auto simp: unfolds cuts_def res_bind_def)
    next
      case (Inr a')
      have rows': "av_rows aview a' = rows @ pushed"
      proof (cases "pushed = []")
        case False
        with Inr have "an_push (ie_analysis env) a pushed = Inr a'" by (simp add: seen_def)
        with laws(2) st(8) show ?thesis unfolding analysis_laws_def by blast
      qed (use Inr st(8) in \<open>simp add: seen_def\<close>)
      have full: "hl_is_full h' \<longleftrightarrow> length (rows @ pushed) = ie_max_rows env"
        using parts(2) st(6) by (auto simp: hl_is_full_def h'_def)
      define outcome where "outcome = (if hl_is_full h' then complete_group env h' a' else ([], Inr (h', a')))"
      obtain works r where wr: "outcome = (works, r)" by (cases outcome)
      have cut: "cuts env cview aview (rows @ pushed) works (res_bind r (\<lambda>(h, a). Inr (Analyzing h a)))"
      proof (cases "hl_is_full h'")
        case True
        with full took(2,3) have "cv_done cview c = [rows @ pushed]" "cv_buffered cview c = []" by simp_all
        with complete_group_cuts [OF laws max st(2), of h' "rows @ pushed" a'] True full rows' wr show ?thesis
          by (simp add: outcome_def h'_def)
      next
        case False
        with wr have *: "works = []" "r = Inr (h', a')" by (simp_all add: outcome_def)
        have "pending env cview aview (Analyzing h' a') (rows @ pushed)"
          using False full took parts(2) st rows' by (simp add: pending_def h'_def)
        then show ?thesis by (simp add: * cuts_def)
      qed
      have step: "analyze_batch env h a batch =
        (case (works, r) of
           (works, Inl error) \<Rightarrow> Some (works, Inl error)
         | (works, Inr (h, a)) \<Rightarrow>
             if left = [] then Some (works, Inr (h, a))
             else Option.bind (analyze_batch env h a left) (\<lambda>(later, r). Some (works @ later, r)))"
        by (simp add: unfolds Inr outcome_def [symmetric] wr split: sum.split)
      show ?thesis
      proof (cases r)
        case (Inl error)
        with cut have "cuts env cview aview (rows @ batch) works (Inl error)"
          by (auto simp: cuts_def parts(1) simp flip: append_assoc intro: prefix_prefix)
        with Inl step show ?thesis by simp
      next
        case (Inr p)
        obtain h'' a'' where p: "p = (h'', a'')" by (cases p)
        have cut': "cuts env cview aview (rows @ pushed) works (Inr (Analyzing h'' a''))" using cut Inr p by simp
        show ?thesis
        proof (cases "left = []")
          case True
          with step Inr p cut' parts(1) show ?thesis by auto
        next
          case False
          with parts(3) st(1) have "pushed \<noteq> []" by auto
          then have shorter: "length left < length batch" by (simp add: parts(1))
          have "\<exists>later r. ingest_batch env (Analyzing h'' a'') left = Some (later, r) \<and>
            cuts env cview aview ((rows @ pushed) @ left) (works @ later) r"
            by (rule cuts_then [OF cut']) (rule less.hyps [OF shorter])
          then show ?thesis using step Inr p False by (auto simp: parts(1))
        qed
      qed
    qed
  qed
qed

lemma ingest_batch_cuts:
  assumes "coalescer_laws (ie_coalescer env) cview" "analysis_laws (ie_analysis env) aview" "0 < ie_max_rows env"
    and "pending env cview aview st rows"
  shows "\<exists>works r. ingest_batch env st batch = Some (works, r) \<and> cuts env cview aview (rows @ batch) works r"
  using assms by (cases st) (auto intro: passthrough_cuts analyze_cuts simp del: ingest_batch.simps)

lemma finished_groups:
  assumes laws: "coalescer_laws ops cview" and c: "cv_done cview c = []" "cv_buffered cview c = rows"
    and finish: "bc_finish ops c = Inr c'"
  shows "fst (bc_next ops c') = (if rows = [] then None else Some rows)"
proof -
  have done': "cv_done cview c' = (if rows = [] then [] else [rows])" using coalescer_finish [OF laws finish] c by simp
  show ?thesis
  proof (cases "rows = []")
    case True
    then show ?thesis using done' coalescer_next_None [OF laws, of c'] by simp
  next
    case False
    with done' have "cv_done cview c' = rows # []" by simp
    then obtain c'' where "bc_next ops c' = (Some rows, c'')" by (rule coalescer_next_Some [OF laws])
    then show ?thesis using False by simp
  qed
qed

definition row_groups :: "('c, 'a, 'r, 's, 'p, 'e) ingest_env \<Rightarrow> ('a, 'r, 's) analysis_view \<Rightarrow> 'r list \<Rightarrow>
  ('r, 'p) row_group_work list \<Rightarrow> ('e ingest_error, unit) result \<Rightarrow> bool" where
  "row_groups env aview rows works r \<longleftrightarrow>
     (\<forall>w\<in>set works. work_ok env aview w) \<and>
     (case r of
        Inr _ \<Rightarrow> map rw_batch works = chunks (ie_max_rows env) rows
      | Inl error \<Rightarrow> (\<exists>e. error = IngestFailed e) \<and> prefix (map rw_batch works) (chunks (ie_max_rows env) rows))"

lemma chunks_short: "xs \<noteq> [] \<Longrightarrow> length xs \<le> n \<Longrightarrow> chunks n xs = [xs]"
  by (cases xs) (auto simp: chunks.simps [of n "_ # _"] chunks.simps [of n "[]"])

lemma ingest_finish_groups:
  assumes laws: "coalescer_laws (ie_coalescer env) cview" "analysis_laws (ie_analysis env) aview"
    and st: "pending env cview aview st rows"
  shows "case ingest_finish env st of (works, r) \<Rightarrow> row_groups env aview rows works r"
proof (cases st)
  case (PassThrough c)
  with st have c: "\<not> ie_analyze env" "cv_done cview c = []" "cv_buffered cview c = rows" "length rows < ie_max_rows env"
    by (simp_all add: pending_def)
  show ?thesis
  proof (cases "bc_finish (ie_coalescer env) c")
    case (Inr c')
    note next_batch = finished_groups [OF laws(1) c(2,3) Inr]
    show ?thesis
    proof (cases "make_work env (an_empty (ie_analysis env)) rows")
      case (Inl e)
      from make_work_Inl [OF Inl] Inl Inr PassThrough next_batch show ?thesis
        by (auto simp: passthrough_finish_def lib_result_def row_groups_def chunks.simps [of _ "[]"])
    next
      case work: (Inr w)
      then have "rw_batch w = rows" "work_ok env aview w" using c(1) by (auto simp: make_work_Inr work_ok_def)
      with work Inr PassThrough next_batch c(4) show ?thesis
        by (auto simp: passthrough_finish_def lib_result_def row_groups_def chunks.simps [of _ "[]"] chunks_short)
    qed
  qed (use PassThrough in \<open>simp add: passthrough_finish_def lib_result_def row_groups_def\<close>)
next
  case (Analyzing h a)
  with st have c: "ie_analyze env" "cv_done cview (hl_coalescer h) = []" "cv_buffered cview (hl_coalescer h) = rows"
    "length rows < ie_max_rows env" "av_rows aview a = rows"
    by (simp_all add: pending_def)
  show ?thesis
  proof (cases "bc_finish (ie_coalescer env) (hl_coalescer h)")
    case (Inr c')
    note next_batch = finished_groups [OF laws(1) c(2,3) Inr]
    show ?thesis
    proof (cases "finish_analyzed env a rows")
      case (Inl e)
      then have "\<exists>e'. e = IngestFailed e'"
        by (auto simp: finish_analyzed_def res_bind_def dest: lib_result_Inl make_work_Inl split: sum.splits)
      with Inl Inr Analyzing next_batch show ?thesis
        by (auto simp: analyze_finish_def hl_finish_def lib_result_def res_bind_def row_groups_def chunks.simps [of _ "[]"])
    next
      case work: (Inr w)
      then have "\<exists>s. an_finalize (ie_analysis env) a = Inr s \<and> make_work env s rows = Inr w"
        by (simp add: finish_analyzed_def res_bind_Inr_conv)
      moreover have "an_finalize (ie_analysis env) a = Inr s \<Longrightarrow> s = av_of aview rows" for s
        using laws(2) c(5) unfolding analysis_laws_def by blast
      ultimately have "rw_batch w = rows" "work_ok env aview w" using c(1) by (auto simp: make_work_Inr work_ok_def)
      with work Inr Analyzing next_batch c(4) show ?thesis
        by (auto simp: analyze_finish_def hl_finish_def lib_result_def res_bind_def row_groups_def chunks.simps [of _ "[]"]
            chunks_short)
    qed
  qed (use Analyzing in \<open>simp add: analyze_finish_def hl_finish_def lib_result_def res_bind_def row_groups_def\<close>)
qed

lemma chunks_concat: "0 < n \<Longrightarrow> \<forall>d\<in>set ds. length d = n \<Longrightarrow> chunks n (concat ds @ rest) = ds @ chunks n rest"
proof (induction ds)
  case (Cons d ds)
  then have "d \<noteq> []" by auto
  with Cons show ?case by (simp add: chunks.simps [of n "d @ concat ds @ rest"])
qed simp

lemma row_groups_after:
  assumes "0 < ie_max_rows env" "\<forall>w\<in>set works. length (rw_batch w) = ie_max_rows env \<and> work_ok env aview w"
    and "row_groups env aview rest later r"
  shows "row_groups env aview (concat (map rw_batch works) @ rest) (works @ later) r"
  using assms chunks_concat [of "ie_max_rows env" "map rw_batch works" rest]
  by (auto simp: row_groups_def split: sum.splits)

lemma ingest_rest_groups:
  assumes laws: "coalescer_laws (ie_coalescer env) cview" "analysis_laws (ie_analysis env) aview" "0 < ie_max_rows env"
  shows "pending env cview aview st rows \<Longrightarrow>
    \<exists>works r. ingest_rest env st batches = Some (works, r) \<and> row_groups env aview (rows @ concat batches) works r"
proof (induction batches arbitrary: st rows)
  case Nil
  with ingest_finish_groups [OF laws(1,2)] show ?case by (cases "ingest_finish env st") fastforce
next
  case (Cons batch batches)
  from ingest_batch_cuts [OF laws Cons.prems] obtain works r where step: "ingest_batch env st batch = Some (works, r)"
    and cut: "cuts env cview aview (rows @ batch) works r" by blast
  show ?case
  proof (cases r)
    case (Inl error)
    with cut obtain rest where error: "\<exists>e. error = IngestFailed e" "rows @ batch = concat (map rw_batch works) @ rest"
      "\<forall>w\<in>set works. length (rw_batch w) = ie_max_rows env \<and> work_ok env aview w"
      by (auto simp: cuts_def prefix_def)
    have "row_groups env aview (concat (map rw_batch works) @ rest @ concat batches) (works @ []) (Inl error)"
      by (rule row_groups_after [OF laws(3) error(3)]) (use error(1) in \<open>auto simp: row_groups_def\<close>)
    then have "row_groups env aview (rows @ concat (batch # batches)) works (Inl error)"
      using error(2) by (metis append.assoc append_Nil2 concat.simps(2))
    with step Inl show ?thesis by simp
  next
    case (Inr st')
    with cut obtain rest where rest: "pending env cview aview st' rest" "concat (map rw_batch works) @ rest = rows @ batch"
      "\<forall>w\<in>set works. length (rw_batch w) = ie_max_rows env \<and> work_ok env aview w"
      by (auto simp: cuts_def)
    from Cons.IH [OF rest(1)] obtain later r' where later: "ingest_rest env st' batches = Some (later, r')"
      "row_groups env aview (rest @ concat batches) later r'" by blast
    from row_groups_after [OF laws(3) rest(3) later(2)]
    have "row_groups env aview (rows @ concat (batch # batches)) (works @ later) r'"
      using rest(2) by (metis append.assoc concat.simps(2))
    with step later(1) Inr show ?thesis by simp
  qed
qed

lemma ingested_row_groups:
  assumes "coalescer_laws (ie_coalescer env) cview" and "analysis_laws (ie_analysis env) aview" and "0 < ie_max_rows env"
  shows "\<exists>works r. ingest_all env batches = Some (works, r) \<and> row_groups env aview (concat batches) works r"
proof (cases "ingest_start env")
  case (Inl error)
  then show ?thesis
    by (auto simp: ingest_all_def ingest_start_def res_bind_def row_groups_def dest: lib_result_Inl split: if_splits sum.splits)
next
  case (Inr st)
  have "pending env cview aview st []"
    using Inr assms coalescer_new [OF assms(1,3)] unfolding analysis_laws_def
    by (auto simp: ingest_start_def pending_def res_bind_Inr_conv hl_new_def split: if_splits)
  from ingest_rest_groups [OF assms this, of batches] Inr show ?thesis by (simp add: ingest_all_def)
qed

text \<open>
  the row groups of a Parquet file are the input's rows in order, cut every \<open>max_row_group_size\<close> rows, whatever
  batches the rows came in and whether or not the columns are analysed; each row group carries the properties built
  from the analysis of exactly its own rows. The task always ends; it only fails with an error of the libraries, and
  then what it has handed on is a prefix of those row groups.
\<close>

theorem row_groups_are_chunks:
  assumes "coalescer_laws (ie_coalescer env) cview" and "analysis_laws (ie_analysis env) aview" and "0 < ie_max_rows env"
  shows "\<exists>works r. ingest_all env batches = Some (works, r) \<and> row_groups env aview (concat batches) works r"
  by (rule ingested_row_groups [OF assms])

section \<open>A coalescer of lists\<close>

fun split_full :: "nat \<Rightarrow> 'r list \<Rightarrow> 'r list list \<times> 'r list" where
  "split_full n xs =
     (if n = 0 \<or> length xs < n then ([], xs)
      else let (ds, rest) = split_full n (drop n xs) in (take n xs # ds, rest))"

declare split_full.simps [simp del]

lemma split_full_splits:
  "0 < n \<Longrightarrow> split_full n xs = (ds, rest) \<Longrightarrow>
   (\<forall>d\<in>set ds. length d = n) \<and> concat ds @ rest = xs \<and> length rest < n"
proof (induction n xs arbitrary: ds rest rule: split_full.induct)
  case (1 n xs)
  show ?case
  proof (cases "length xs < n")
    case True
    with 1 show ?thesis by (simp add: split_full.simps [of n xs])
  next
    case False
    obtain ds' rest' where s: "split_full n (drop n xs) = (ds', rest')" by fastforce
    with 1 False have "ds = take n xs # ds'" "rest = rest'" by (simp_all add: split_full.simps [of n xs])
    with 1(1) [OF _ 1(2) s] False 1(2) show ?thesis by auto
  qed
qed

definition list_coalescer :: "(nat \<times> 'r list list \<times> 'r list, 'r, 'e) coalescer_ops" where
  "list_coalescer =
     \<lparr>bc_new = (\<lambda>n. (n, [], [])),
      bc_push = (\<lambda>(n, ds, buffer) batch. Inr (n, ds @ fst (split_full n (buffer @ batch)), snd (split_full n (buffer @ batch)))),
      bc_finish = (\<lambda>(n, ds, buffer). Inr (n, ds @ (if buffer = [] then [] else [buffer]), [])),
      bc_next = (\<lambda>(n, ds, buffer). case ds of [] \<Rightarrow> (None, (n, ds, buffer)) | d # ds \<Rightarrow> (Some d, (n, ds, buffer)))\<rparr>"

definition list_view :: "(nat \<times> 'r list list \<times> 'r list, 'r) coalescer_view" where
  "list_view = \<lparr>cv_done = (\<lambda>(n, ds, buffer). ds), cv_buffered = (\<lambda>(n, ds, buffer). buffer), cv_target = fst\<rparr>"

lemma list_coalescer_laws: "coalescer_laws list_coalescer list_view"
  unfolding coalescer_laws_def
proof (intro conjI allI impI, goal_cases)
  case (4 c b c')
  then show ?case by (auto simp: list_coalescer_def list_view_def split: prod.splits)
next
  case (5 c b c')
  obtain n ds buffer where c: "c = (n, ds, buffer)" by (cases c)
  obtain full rest where s: "split_full n (buffer @ b) = (full, rest)" by fastforce
  with 5 c split_full_splits [OF _ s] show ?case by (auto simp: list_coalescer_def list_view_def)
next
  case (6 c b c')
  obtain n ds buffer where c: "c = (n, ds, buffer)" by (cases c)
  obtain full rest where s: "split_full n (buffer @ b) = (full, rest)" by fastforce
  with 6 c split_full_splits [OF _ s] show ?case by (auto simp: list_coalescer_def list_view_def)
qed (auto simp: list_coalescer_def list_view_def split: list.splits prod.splits)

definition list_analysis :: "('r list, 'r, 'r list, 'e) analysis_ops" where
  "list_analysis = \<lparr>an_new = Inr [], an_push = (\<lambda>seen batch. Inr (seen @ batch)), an_finalize = Inr, an_empty = []\<rparr>"

lemma list_analysis_laws: "analysis_laws list_analysis \<lparr>av_rows = (\<lambda>seen. seen), av_of = (\<lambda>rows. rows)\<rparr>"
  by (simp add: analysis_laws_def list_analysis_def)

definition list_ingest :: "bool \<Rightarrow> (nat \<times> nat list list \<times> nat list, nat list, nat, nat list, nat list, string) ingest_env" where
  "list_ingest analyze =
     \<lparr>ie_coalescer = list_coalescer, ie_analysis = list_analysis,
      ie_build = (\<lambda>analysis n. if n = 1 then Inl ''one row'' else Inr (remdups analysis)), ie_max_rows = 3, ie_analyze = analyze\<rparr>"

lemmas list_ingest_simps = list_ingest_def list_coalescer_def list_analysis_def

lemma list_ingest_analyzes:
  "ingest_all (list_ingest True) [[5, 5], [6, 7, 7, 7, 8], []] =
     Some ([\<lparr>rw_batch = [5, 5, 6], rw_props = [5, 6]\<rparr>, \<lparr>rw_batch = [7, 7, 7], rw_props = [7]\<rparr>], Inl (IngestFailed ''one row''))"
  "ingest_all (list_ingest False) [[5, 5], [6, 7, 7, 7, 8, 9], []] =
     Some ([\<lparr>rw_batch = [5, 5, 6], rw_props = []\<rparr>, \<lparr>rw_batch = [7, 7, 7], rw_props = []\<rparr>,
            \<lparr>rw_batch = [8, 9], rw_props = []\<rparr>], Inr ())"
  by (simp_all add: ingest_all_def ingest_start_def list_ingest_simps lib_result_def res_bind_def passthrough_batch_def
      drain_completed.simps analyze_batch.simps split_full.simps hl_new_def hl_push_def hl_is_full_def complete_group_def
      hl_finish_def finish_analyzed_def make_work_def analyze_finish_def passthrough_finish_def)

theorem row_groups_are_chunks_witness:
  "\<exists>works r. ingest_all (list_ingest True) [[5, 5], [6, 7, 7, 7, 8], []] = Some (works, r) \<and>
     row_groups (list_ingest True) \<lparr>av_rows = (\<lambda>seen. seen), av_of = (\<lambda>rows. rows)\<rparr> (concat [[5, 5], [6, 7, 7, 7, 8], []]) works r"
  by (rule row_groups_are_chunks [where cview = list_view])
    (simp_all add: list_ingest_def list_coalescer_laws list_analysis_laws)

end
