(* ===== verification/Parquet_Pipeline.thy ===== *)
theory Parquet_Pipeline
  imports Parquet_Ingest "HOL-Library.Word" "HOL-Library.Multiset"
begin

text \<open>
  The three concurrent stages of the Parquet writer (\<open>crates/silk-chiffon-format-parquet/src/output/pipeline/stages.rs\<close>
  and \<open>pipeline/mod.rs\<close>): ingestion, the encoder coordinator with its encoding tasks, and the writer, joined by bounded
  channels and settled by \<open>settle_pipeline_tasks\<close>. Their interleavings are the step relation \<open>pipeline_step\<close>.
\<close>

section \<open>Encoding a row group\<close>

text \<open>
  The column writers and \<open>compute_leaves\<close> of Arrow are parameters. \<open>order\<close> is the order in which the tasks of the
  columns end; \<open>JoinSet\<close> yields their results in it.
\<close>

record ('w, 'x, 'l, 'c, 'e) encode_env =
  en_writers :: "'w \<Rightarrow> 'e + 'x list"
  en_leaves :: "'w \<Rightarrow> ('e + 'l list) list"
  en_write :: "'x \<Rightarrow> 'l \<Rightarrow> 'e + 'x"
  en_close :: "'x \<Rightarrow> 'e + 'c"

datatype 'e encode_error = EncodeFailed 'e | LeafOutOfBounds

record 'c encoded_row_group =
  eg_chunks :: "'c list"
  eg_rows :: nat

fun push_leaves :: "nat \<Rightarrow> 'l list \<Rightarrow> 'l list list \<Rightarrow> ('e encode_error, nat \<times> 'l list list) result" where
  "push_leaves i [] columns = Inr (i, columns)"
| "push_leaves i (leaf # leaves) columns =
     (if i < length columns then push_leaves (Suc i) leaves (columns[i := columns ! i @ [leaf]]) else Inl LeafOutOfBounds)"

fun leaves_per_column :: "nat \<Rightarrow> ('e + 'l list) list \<Rightarrow> 'l list list \<Rightarrow> ('e encode_error, 'l list list) result" where
  "leaves_per_column i [] columns = Inr columns"
| "leaves_per_column i (Inl e # rest) columns = Inl (EncodeFailed e)"
| "leaves_per_column i (Inr leaves # rest) columns =
     res_bind (push_leaves i leaves columns) (\<lambda>(i, columns). leaves_per_column i rest columns)"

fun write_leaves :: "('w, 'x, 'l, 'c, 'e) encode_env \<Rightarrow> 'x \<Rightarrow> 'l list \<Rightarrow> ('e encode_error, 'c) result" where
  "write_leaves env writer [] = (case en_close env writer of Inl e \<Rightarrow> Inl (EncodeFailed e) | Inr chunk \<Rightarrow> Inr chunk)"
| "write_leaves env writer (leaf # leaves) =
     (case en_write env writer leaf of Inl e \<Rightarrow> Inl (EncodeFailed e) | Inr writer \<Rightarrow> write_leaves env writer leaves)"

fun join_columns :: "(nat \<times> ('e encode_error, 'c) result) list \<Rightarrow> ('e encode_error, (nat \<times> 'c) list) result" where
  "join_columns [] = Inr []"
| "join_columns ((i, r) # results) =
     res_bind r (\<lambda>chunk. res_bind (join_columns results) (\<lambda>indexed. Inr ((i, chunk) # indexed)))"

definition column_results :: "('w, 'x, 'l, 'c, 'e) encode_env \<Rightarrow> 'x list \<Rightarrow> 'l list list \<Rightarrow> (nat \<times> ('e encode_error, 'c) result) list" where
  "column_results env writers columns =
     zip [0..<length writers] (map (\<lambda>(writer, leaves). write_leaves env writer leaves) (zip writers columns))"

definition encode_row_group :: "('w, 'x, 'l, 'c, 'e) encode_env \<Rightarrow> nat list \<Rightarrow> 'w \<Rightarrow> nat \<Rightarrow> ('e encode_error, 'c encoded_row_group) result" where
  "encode_row_group env order work rows =
     (case en_writers env work of
        Inl e \<Rightarrow> Inl (EncodeFailed e)
      | Inr writers \<Rightarrow>
          res_bind (leaves_per_column 0 (en_leaves env work) (replicate (length writers) [])) (\<lambda>columns.
          res_bind (join_columns (map (\<lambda>i. column_results env writers columns ! i) order)) (\<lambda>indexed.
            Inr \<lparr>eg_chunks = map snd (sort_key fst indexed), eg_rows = rows\<rparr>)))"

text \<open>An order of the column tasks is a permutation of the columns.\<close>

definition column_order :: "('w, 'x, 'l, 'c, 'e) encode_env \<Rightarrow> 'w \<Rightarrow> nat list \<Rightarrow> bool" where
  "column_order env work order \<longleftrightarrow>
     (case en_writers env work of Inl _ \<Rightarrow> order = [] | Inr writers \<Rightarrow> distinct order \<and> set order = {..<length writers})"

lemma join_columns_of:
  "join_columns (map (\<lambda>i. (i, r i)) order) = Inr indexed \<longleftrightarrow>
   (\<forall>i\<in>set order. is_ok (r i)) \<and> indexed = map (\<lambda>i. (i, projr (r i))) order"
proof (induction order arbitrary: indexed)
  case (Cons i order)
  then show ?case by (cases "r i") (auto simp: res_bind_Inr_conv)
qed auto

lemma push_leaves_length: "push_leaves i leaves columns = Inr (j, columns') \<Longrightarrow> length columns' = length columns"
  by (induction i leaves columns rule: push_leaves.induct) (auto split: if_splits)

lemma leaves_per_column_length: "leaves_per_column i leaves columns = Inr columns' \<Longrightarrow> length columns' = length columns"
  by (induction i leaves columns rule: leaves_per_column.induct)
    (auto simp: res_bind_Inr_conv dest: push_leaves_length split: prod.splits)

lemma sorted_columns:
  assumes "distinct order" and "set order = {..<n}"
  shows "map snd (sort_key fst (map (\<lambda>i. (i, c i)) order)) = map c [0..<n]"
proof -
  have "mset order = mset [0..<n]" using assms by (metis atLeast_upt distinct_upt set_eq_iff_mset_eq_distinct)
  then have "mset (map (\<lambda>i. (i, c i)) order) = mset (map (\<lambda>i. (i, c i)) [0..<n])" by simp
  then have "sort_key fst (map (\<lambda>i. (i, c i)) order) = map (\<lambda>i. (i, c i)) [0..<n]"
    by (rule sort_key_inj_key_eq) (auto simp: inj_on_def comp_def)
  then show ?thesis by (simp add: comp_def)
qed

lemma column_results_nth:
  "length columns = length writers \<Longrightarrow> i < length writers \<Longrightarrow>
   column_results env writers columns ! i = (i, write_leaves env (writers ! i) (columns ! i))"
  by (simp add: column_results_def)

text \<open>The row group of a work, with the columns taken one after the other.\<close>

definition columns_in_order :: "('w, 'x, 'l, 'c, 'e) encode_env \<Rightarrow> 'w \<Rightarrow> nat list" where
  "columns_in_order env work = (case en_writers env work of Inl _ \<Rightarrow> [] | Inr writers \<Rightarrow> [0..<length writers])"

lemma columns_in_order: "column_order env work (columns_in_order env work)"
  by (auto simp: column_order_def columns_in_order_def split: sum.splits)

lemma encode_row_group_columns:
  assumes order: "column_order env work order" and writers: "en_writers env work = Inr writers"
    and columns: "leaves_per_column 0 (en_leaves env work) (replicate (length writers) []) = Inr columns"
  shows "encode_row_group env order work rows = Inr g \<longleftrightarrow>
    (\<forall>i<length writers. is_ok (write_leaves env (writers ! i) (columns ! i))) \<and>
    g = \<lparr>eg_chunks = map (\<lambda>i. projr (write_leaves env (writers ! i) (columns ! i))) [0..<length writers], eg_rows = rows\<rparr>"
proof -
  have len: "length columns = length writers" using leaves_per_column_length [OF columns] by simp
  have perm: "distinct order" "set order = {..<length writers}" using order writers by (simp_all add: column_order_def)
  have results: "map (\<lambda>i. column_results env writers columns ! i) order =
    map (\<lambda>i. (i, write_leaves env (writers ! i) (columns ! i))) order"
    using perm(2) by (intro map_cong) (auto simp: column_results_nth len)
  have "encode_row_group env order work rows =
    res_bind (join_columns (map (\<lambda>i. (i, write_leaves env (writers ! i) (columns ! i))) order)) (\<lambda>indexed.
      Inr \<lparr>eg_chunks = map snd (sort_key fst indexed), eg_rows = rows\<rparr>)"
    unfolding encode_row_group_def writers results [symmetric] by (simp add: columns)
  then show ?thesis
    using perm by (auto simp: res_bind_Inr_conv join_columns_of sorted_columns)
qed

lemma encode_order_irrelevant:
  assumes "column_order env work order" and "column_order env work order'"
  shows "encode_row_group env order work rows = Inr g \<longleftrightarrow> encode_row_group env order' work rows = Inr g"
proof (cases "en_writers env work")
  case (Inl e)
  then show ?thesis by (simp add: encode_row_group_def)
next
  case (Inr writers)
  show ?thesis
  proof (cases "leaves_per_column 0 (en_leaves env work) (replicate (length writers) [])")
    case (Inl e)
    with Inr show ?thesis by (simp add: encode_row_group_def)
  next
    case columns: (Inr columns)
    show ?thesis
      unfolding encode_row_group_columns [OF assms(1) Inr columns] encode_row_group_columns [OF assms(2) Inr columns] ..
  qed
qed

section \<open>The stages\<close>

datatype stage = Ingestion | Encoder | Writer

datatype 'e outcome = Fine | Failed 'e | Panicked | Aborted

datatype 'e stage_error = StageFailed 'e | StagePanicked

datatype 'g write_state = Receiving | WritingGroup 'g | Closing

text \<open>
  What the pipeline runs with: the row groups that the ingestion hands on and how it then ends, the possible results
  of encoding a row group, the sizes of the channels and the number of row groups encoded at a time.
\<close>

record ('w, 'g, 'e) pipeline_env =
  pe_works :: "'w list"
  pe_end :: "'e outcome"
  pe_encodes :: "'w \<Rightarrow> 'e + 'g \<Rightarrow> bool"
  pe_rows :: "'g \<Rightarrow> nat"
  pe_encoding_size :: nat
  pe_concurrency :: nat
  pe_writing_size :: nat
  pe_channel_closed :: 'e

text \<open>
  The state: what the ingestion has yet to hand on, the two channels, the ordered futures of the encoder and the row
  group it is sending, the writer with its file, how the stages ended, and the settling of their results.
  \<open>pl_external\<close> records that the operation was cancelled from outside.
\<close>

record ('w, 'g, 'e) pipeline =
  pl_todo :: "'w list"
  pl_encoding :: "'w list"
  pl_input_done :: bool
  pl_pending :: "('w \<times> ('e + 'g) option) list"
  pl_sending :: "'g option"
  pl_writing :: "'g list"
  pl_write :: "'g write_state"
  pl_file :: "'g list"
  pl_closed :: bool
  pl_total :: "64 word"
  pl_ended :: "stage \<Rightarrow> 'e outcome option"
  pl_unjoined :: "stage set"
  pl_errors :: "'e stage_error list"
  pl_cancelled :: bool
  pl_aborted :: bool
  pl_external :: bool

definition pipeline_start :: "('w, 'g, 'e) pipeline_env \<Rightarrow> ('w, 'g, 'e) pipeline" where
  "pipeline_start env =
     \<lparr>pl_todo = pe_works env, pl_encoding = [], pl_input_done = False, pl_pending = [], pl_sending = None, pl_writing = [],
      pl_write = Receiving, pl_file = [], pl_closed = False, pl_total = 0, pl_ended = (\<lambda>_. None),
      pl_unjoined = {Ingestion, Encoder, Writer}, pl_errors = [], pl_cancelled = False, pl_aborted = False,
      pl_external = False\<rparr>"

definition end_stage :: "stage \<Rightarrow> 'e outcome \<Rightarrow> ('w, 'g, 'e) pipeline \<Rightarrow> ('w, 'g, 'e) pipeline" where
  "end_stage stage outcome s =
     s\<lparr>pl_ended := (pl_ended s)(stage := Some outcome), pl_pending := (if stage = Encoder then [] else pl_pending s)\<rparr>"

text \<open>\<open>settle_pipeline_tasks\<close>, for one joined task: its error, and whether the others are cancelled and aborted.\<close>

fun settle_task :: "'e stage_error list \<Rightarrow> 'e outcome \<Rightarrow> 'e stage_error list \<times> bool" where
  "settle_task errors Panicked = (errors @ [StagePanicked], True)"
| "settle_task errors Aborted = (errors, False)"
| "settle_task errors (Failed e) = (errors @ [StageFailed e], errors = [])"
| "settle_task errors Fine = (errors, False)"

definition join_stage :: "stage \<Rightarrow> 'e outcome \<Rightarrow> ('w, 'g, 'e) pipeline \<Rightarrow> ('w, 'g, 'e) pipeline" where
  "join_stage stage outcome s =
     (let (errors, stops) = settle_task (pl_errors s) outcome in
      s\<lparr>pl_unjoined := pl_unjoined s - {stage}, pl_errors := errors, pl_cancelled := (pl_cancelled s \<or> stops),
        pl_aborted := (pl_aborted s \<or> stops)\<rparr>)"

abbreviation running :: "('w, 'g, 'e) pipeline \<Rightarrow> stage \<Rightarrow> bool" where
  "running s stage \<equiv> pl_ended s stage = None"

inductive pipeline_step :: "('w, 'g, 'e) pipeline_env \<Rightarrow> ('w, 'g, 'e) pipeline \<Rightarrow> ('w, 'g, 'e) pipeline \<Rightarrow> bool"
  for env where
  ingest_send: "running s Ingestion \<Longrightarrow> pl_todo s = w # ws \<Longrightarrow> running s Encoder \<Longrightarrow>
    length (pl_encoding s) < pe_encoding_size env \<Longrightarrow>
    pipeline_step env s (s\<lparr>pl_todo := ws, pl_encoding := pl_encoding s @ [w]\<rparr>)"
| ingest_closed: "running s Ingestion \<Longrightarrow> pl_todo s \<noteq> [] \<Longrightarrow> \<not> running s Encoder \<Longrightarrow>
    pipeline_step env s (end_stage Ingestion Fine s)"
| ingest_end: "running s Ingestion \<Longrightarrow> pl_todo s = [] \<Longrightarrow> pipeline_step env s (end_stage Ingestion (pe_end env) s)"
| encoder_recv: "running s Encoder \<Longrightarrow> pl_sending s = None \<Longrightarrow> \<not> pl_input_done s \<Longrightarrow>
    length (pl_pending s) < pe_concurrency env \<Longrightarrow> pl_encoding s = w # ws \<Longrightarrow>
    pipeline_step env s (s\<lparr>pl_encoding := ws, pl_pending := pl_pending s @ [(w, None)]\<rparr>)"
| encoder_input_done: "running s Encoder \<Longrightarrow> pl_sending s = None \<Longrightarrow> \<not> pl_input_done s \<Longrightarrow>
    length (pl_pending s) < pe_concurrency env \<Longrightarrow> pl_encoding s = [] \<Longrightarrow> \<not> running s Ingestion \<Longrightarrow>
    pipeline_step env s (s\<lparr>pl_input_done := True\<rparr>)"
| encoded: "running s Encoder \<Longrightarrow> pl_pending s = before @ (w, None) # later \<Longrightarrow> pe_encodes env w r \<Longrightarrow>
    pipeline_step env s (s\<lparr>pl_pending := before @ (w, Some r) # later\<rparr>)"
| encoder_next: "running s Encoder \<Longrightarrow> pl_sending s = None \<Longrightarrow> pl_pending s = (w, Some (Inr g)) # later \<Longrightarrow>
    pipeline_step env s (s\<lparr>pl_pending := later, pl_sending := Some g\<rparr>)"
| encoder_failed: "running s Encoder \<Longrightarrow> pl_sending s = None \<Longrightarrow> pl_pending s = (w, Some (Inl e)) # later \<Longrightarrow>
    pipeline_step env s (end_stage Encoder (Failed e) s)"
| encoder_send: "running s Encoder \<Longrightarrow> pl_sending s = Some g \<Longrightarrow> running s Writer \<Longrightarrow>
    length (pl_writing s) < pe_writing_size env \<Longrightarrow>
    pipeline_step env s (s\<lparr>pl_sending := None, pl_writing := pl_writing s @ [g]\<rparr>)"
| encoder_closed: "running s Encoder \<Longrightarrow> pl_sending s = Some g \<Longrightarrow> \<not> running s Writer \<Longrightarrow>
    pipeline_step env s (end_stage Encoder (Failed (pe_channel_closed env)) s)"
| encoder_end: "running s Encoder \<Longrightarrow> pl_sending s = None \<Longrightarrow>
    pl_input_done s \<or> pe_concurrency env \<le> length (pl_pending s) \<Longrightarrow> pl_pending s = [] \<Longrightarrow>
    pipeline_step env s (end_stage Encoder Fine s)"
| writer_recv: "running s Writer \<Longrightarrow> pl_write s = Receiving \<Longrightarrow> pl_writing s = g # gs \<Longrightarrow>
    pipeline_step env s
      (s\<lparr>pl_writing := gs, pl_write := WritingGroup g, pl_total := pl_total s + of_nat (pe_rows env g)\<rparr>)"
| writer_wrote: "running s Writer \<Longrightarrow> pl_write s = WritingGroup g \<Longrightarrow>
    pipeline_step env s (s\<lparr>pl_write := Receiving, pl_file := pl_file s @ [g]\<rparr>)"
| writer_drained: "running s Writer \<Longrightarrow> pl_write s = Receiving \<Longrightarrow> pl_writing s = [] \<Longrightarrow> \<not> running s Encoder \<Longrightarrow>
    pipeline_step env s (s\<lparr>pl_write := Closing\<rparr>)"
| writer_closed: "running s Writer \<Longrightarrow> pl_write s = Closing \<Longrightarrow>
    pipeline_step env s (end_stage Writer Fine (s\<lparr>pl_closed := True\<rparr>))"
| aborts: "running s stage \<Longrightarrow> pl_aborted s \<Longrightarrow> pipeline_step env s (end_stage stage Aborted s)"
| cancels: "running s stage \<Longrightarrow> pl_cancelled s \<Longrightarrow> pipeline_step env s (end_stage stage Fine s)"
| joins: "stage \<in> pl_unjoined s \<Longrightarrow> pl_ended s stage = Some outcome \<Longrightarrow>
    pipeline_step env s (join_stage stage outcome s)"

text \<open>What may go wrong at any time: a write or the close of the file fails, a task panics, the operation is cancelled.\<close>

inductive pipeline_fault :: "('w, 'g, 'e) pipeline \<Rightarrow> ('w, 'g, 'e) pipeline \<Rightarrow> bool" where
  writer_failed: "running s Writer \<Longrightarrow> pl_write s \<noteq> Receiving \<Longrightarrow> pipeline_fault s (end_stage Writer (Failed e) s)"
| panics: "running s stage \<Longrightarrow> pipeline_fault s (end_stage stage Panicked s)"
| external: "\<not> pl_cancelled s \<Longrightarrow> pipeline_fault s (s\<lparr>pl_cancelled := True, pl_external := True\<rparr>)"

inductive pipeline_reached :: "('w, 'g, 'e) pipeline_env \<Rightarrow> ('w, 'g, 'e) pipeline \<Rightarrow> bool" for env where
  starts: "pipeline_reached env (pipeline_start env)"
| steps: "pipeline_reached env s \<Longrightarrow> pipeline_step env s t \<Longrightarrow> pipeline_reached env t"
| faults: "pipeline_reached env s \<Longrightarrow> pipeline_fault s t \<Longrightarrow> pipeline_reached env t"

definition pipeline_settled :: "('w, 'g, 'e) pipeline \<Rightarrow> bool" where
  "pipeline_settled s \<longleftrightarrow> pl_unjoined s = {}"

text \<open>The result of the settled pipeline: \<open>run_pipeline\<close> returns the rows only when no task failed.\<close>

definition pipeline_result :: "('w, 'g, 'e) pipeline \<Rightarrow> 'e stage_error list + 64 word" where
  "pipeline_result s = (if pl_errors s = [] then Inr (pl_total s) else Inl (pl_errors s))"

section \<open>Every run ends\<close>

definition task_weight :: "'w \<times> ('e + 'g) option \<Rightarrow> nat" where
  "task_weight p = (case snd p of None \<Rightarrow> 5 | Some _ \<Rightarrow> 4)"

definition pipeline_measure :: "('w, 'g, 'e) pipeline \<Rightarrow> nat" where
  "pipeline_measure s =
     7 * length (pl_todo s) + 6 * length (pl_encoding s) + (\<Sum>p\<leftarrow>pl_pending s. task_weight p) +
     (if pl_sending s = None then 0 else 3) + 2 * length (pl_writing s) +
     (case pl_write s of WritingGroup _ \<Rightarrow> 2 | Receiving \<Rightarrow> 1 | Closing \<Rightarrow> 0) +
     card {stage. running s stage} + card (pl_unjoined s) + of_bool (\<not> pl_input_done s) + of_bool (\<not> pl_cancelled s)"

lemma finite_stages [simp]: "finite (A :: stage set)"
  by (rule finite_subset [of _ "{Ingestion, Encoder, Writer}"]) (use stage.exhaust in auto)

lemma end_stage_simps [simp]:
  "pl_todo (end_stage stage outcome s) = pl_todo s" "pl_encoding (end_stage stage outcome s) = pl_encoding s"
  "pl_sending (end_stage stage outcome s) = pl_sending s" "pl_writing (end_stage stage outcome s) = pl_writing s"
  "pl_write (end_stage stage outcome s) = pl_write s" "pl_unjoined (end_stage stage outcome s) = pl_unjoined s"
  "pl_input_done (end_stage stage outcome s) = pl_input_done s" "pl_cancelled (end_stage stage outcome s) = pl_cancelled s"
  "pl_file (end_stage stage outcome s) = pl_file s" "pl_closed (end_stage stage outcome s) = pl_closed s"
  "pl_total (end_stage stage outcome s) = pl_total s" "pl_errors (end_stage stage outcome s) = pl_errors s"
  "pl_aborted (end_stage stage outcome s) = pl_aborted s" "pl_external (end_stage stage outcome s) = pl_external s"
  "pl_ended (end_stage stage outcome s) = (pl_ended s)(stage := Some outcome)"
  "pl_pending (end_stage stage outcome s) = (if stage = Encoder then [] else pl_pending s)"
  by (simp_all add: end_stage_def)

lemma end_stage_decreases:
  assumes "running s stage"
  shows "pipeline_measure (end_stage stage outcome s) < pipeline_measure s"
proof -
  have "{st. ((pl_ended s)(stage := Some outcome)) st = None} \<subset> {st. running s st}" using assms by auto
  then have fewer: "card {st. ((pl_ended s)(stage := Some outcome)) st = None} < card {st. running s st}" by (rule psubset_card_mono [rotated]) simp
  have "(\<Sum>p\<leftarrow>(if stage = Encoder then [] else pl_pending s). task_weight p) \<le> (\<Sum>p\<leftarrow>pl_pending s. task_weight p)" by simp
  with fewer show ?thesis unfolding pipeline_measure_def end_stage_simps by linarith
qed

lemma pipeline_step_decreases: "pipeline_step env s t \<Longrightarrow> pipeline_measure t < pipeline_measure s"
proof (induction rule: pipeline_step.induct)
  case (joins stage s outcome)
  then have "card (pl_unjoined s - {stage}) < card (pl_unjoined s)" by (intro card_Diff1_less) simp_all
  then show ?case
    by (cases outcome) (auto simp: pipeline_measure_def join_stage_def)
next
  case (writer_closed s)
  then have "pipeline_measure (end_stage Writer Fine (s\<lparr>pl_closed := True\<rparr>)) < pipeline_measure (s\<lparr>pl_closed := True\<rparr>)"
    by (intro end_stage_decreases) simp
  then show ?case by (simp add: pipeline_measure_def)
qed (simp_all add: end_stage_decreases, simp_all add: pipeline_measure_def task_weight_def)

lemma pipeline_fault_decreases: "pipeline_fault s t \<Longrightarrow> pipeline_measure t < pipeline_measure s"
  by (induction rule: pipeline_fault.induct) (simp_all add: end_stage_decreases, simp_all add: pipeline_measure_def)

text \<open>Whenever a stage is unsettled, some step of the code is possible: the bounded channels never deadlock.\<close>

lemma pipeline_progress:
  assumes env: "0 < pe_encoding_size env" "0 < pe_concurrency env" "0 < pe_writing_size env" "\<And>w. \<exists>r. pe_encodes env w r"
    and unsettled: "\<not> pipeline_settled s"
  shows "\<exists>t. pipeline_step env s t"
proof -
  obtain stage where stage: "stage \<in> pl_unjoined s" using unsettled by (auto simp: pipeline_settled_def)
  have ingestion: ?thesis if "running s Ingestion" "\<not> running s Encoder \<or> pl_encoding s = []"
  proof (cases "pl_todo s")
    case (Cons w ws)
    with that env(1) ingest_send [of s w ws env] ingest_closed [of s env] show ?thesis by (cases "running s Encoder") auto
  qed (use that in \<open>auto intro: ingest_end\<close>)
  have encoder: ?thesis if run: "running s Encoder" and send: "\<not> running s Writer \<or> pl_writing s = []"
  proof (cases "pl_sending s")
    case (Some g)
    with run send env(3) encoder_send [of s g env] encoder_closed [of s g env] show ?thesis by (cases "running s Writer") auto
  next
    case sending: None
    show ?thesis
    proof (cases "pl_pending s")
      case Nil
      show ?thesis
      proof (cases "pl_input_done s")
        case True
        with run sending Nil show ?thesis by (blast intro: encoder_end)
      next
        case False
        note idle = run sending False env(2) Nil
        show ?thesis
        proof (cases "pl_encoding s")
          case Nil
          with idle encoder_input_done [of s env] ingestion show ?thesis by (cases "running s Ingestion") auto
        next
          case (Cons w ws)
          with idle encoder_recv [of s env w ws] show ?thesis by auto
        qed
      qed
    next
      case (Cons p later)
      obtain w r where p: "p = (w, r)" by (cases p)
      show ?thesis
      proof (cases r)
        case None
        then have "pl_pending s = [] @ (w, None) # later" using Cons p by simp
        with run env(4) [of w] show ?thesis by (blast intro: encoded)
      next
        case (Some r')
        then show ?thesis using run sending Cons p by (cases r') (auto intro: encoder_next encoder_failed)
      qed
    qed
  qed
  have writer: ?thesis if run: "running s Writer"
  proof (cases "pl_write s")
    case Receiving
    show ?thesis
    proof (cases "pl_writing s")
      case Nil
      then show ?thesis using run Receiving encoder by (cases "running s Encoder") (auto intro: writer_drained)
    qed (use run Receiving in \<open>auto intro: writer_recv\<close>)
  qed (use run in \<open>auto intro: writer_wrote writer_closed\<close>)
  show ?thesis
  proof (cases "pl_ended s stage")
    case (Some outcome)
    with stage show ?thesis by (blast intro: joins)
  next
    case None
    then show ?thesis using writer encoder ingestion by (cases "running s Writer"; cases "running s Encoder"; cases stage) auto
  qed
qed

text \<open>
  \<open>settles s\<close>: however the stages are scheduled from \<open>s\<close> and whatever goes wrong, all of them are joined in the end,
  and until then the code can always move by itself.
\<close>

inductive settles :: "('w, 'g, 'e) pipeline_env \<Rightarrow> ('w, 'g, 'e) pipeline \<Rightarrow> bool" for env where
  settled: "pipeline_settled s \<Longrightarrow> settles env s"
| moves: "pipeline_step env s t' \<Longrightarrow> (\<And>t. pipeline_step env s t \<or> pipeline_fault s t \<Longrightarrow> settles env t) \<Longrightarrow> settles env s"

text \<open>
  C15: the pipeline always settles. With positive queue sizes and concurrency, no interleaving of the three stages and
  their encoding tasks deadlocks or runs forever, with failures, panics and cancellation at any moment.
\<close>

theorem pipeline_settles:
  assumes "0 < pe_encoding_size env" and "0 < pe_concurrency env" and "0 < pe_writing_size env"
    and "\<And>w. \<exists>r. pe_encodes env w r"
  shows "settles env (pipeline_start env)"
proof -
  have "settles env s" for s
  proof (induction "pipeline_measure s" arbitrary: s rule: less_induct)
    case less
    show ?case
    proof (cases "pipeline_settled s")
      case False
      then obtain t where "pipeline_step env s t" using pipeline_progress [OF assms] by blast
      then show ?thesis
        by (rule moves) (use less pipeline_step_decreases pipeline_fault_decreases in blast)
    qed (rule settled)
  qed
  then show ?thesis .
qed

section \<open>What is written\<close>

definition written :: "('w, 'g, 'e) pipeline \<Rightarrow> 'g list" where
  "written s = pl_file s @ (case pl_write s of WritingGroup g \<Rightarrow> [g] | _ \<Rightarrow> [])"

definition handed_on :: "('w, 'g, 'e) pipeline \<Rightarrow> 'g list" where
  "handed_on s = written s @ pl_writing s @ (case pl_sending s of None \<Rightarrow> [] | Some g \<Rightarrow> [g])"

text \<open>
  The row groups that left the encoder are those of the first works, in order; while the encoder runs, the other works
  are pending, queued or not yet handed on. This holds whatever goes wrong.
\<close>

definition encoded_from :: "('w, 'g, 'e) pipeline_env \<Rightarrow> 'w list \<Rightarrow> 'g list \<Rightarrow> bool" where
  "encoded_from env works groups \<longleftrightarrow> list_all2 (\<lambda>w g. pe_encodes env w (Inr g)) works groups"

lemma encoded_from_simps [simp]:
  "encoded_from env [] groups \<longleftrightarrow> groups = []"
  "encoded_from env works [] \<longleftrightarrow> works = []"
  "encoded_from env (w # works) (g # groups) \<longleftrightarrow> pe_encodes env w (Inr g) \<and> encoded_from env works groups"
  by (simp_all add: encoded_from_def)

lemma encoded_from_snoc:
  "encoded_from env works groups \<Longrightarrow> pe_encodes env w (Inr g) \<Longrightarrow> encoded_from env (works @ [w]) (groups @ [g])"
  by (auto simp: encoded_from_def intro: list_all2_appendI)

definition in_order :: "('w, 'g, 'e) pipeline_env \<Rightarrow> ('w, 'g, 'e) pipeline \<Rightarrow> 'w list \<Rightarrow> bool" where
  "in_order env s passed \<longleftrightarrow>
     encoded_from env passed (handed_on s) \<and>
     (if running s Encoder then passed @ map fst (pl_pending s) @ pl_encoding s @ pl_todo s = pe_works env
      else prefix passed (pe_works env)) \<and>
     (\<forall>(w, r)\<in>set (pl_pending s). \<forall>g. r = Some (Inr g) \<longrightarrow> pe_encodes env w (Inr g))"

lemma in_order_end:
  assumes "in_order env s passed" and "running s stage"
  shows "in_order env (end_stage stage outcome s) passed"
proof -
  have same: "handed_on (end_stage stage outcome s) = handed_on s" by (simp add: handed_on_def written_def)
  show ?thesis
  proof (cases "stage = Encoder")
    case True
    from assms True have "passed @ map fst (pl_pending s) @ pl_encoding s @ pl_todo s = pe_works env" by (simp add: in_order_def)
    then have "prefix passed (pe_works env)" by (rule prefixI [OF sym])
    with assms(1) True same show ?thesis by (simp add: in_order_def)
  next
    case False
    with assms same show ?thesis by (simp add: in_order_def)
  qed
qed

lemma handed_on_same:
  "handed_on (s\<lparr>pl_closed := b\<rparr>) = handed_on s" "handed_on (s\<lparr>pl_cancelled := b, pl_external := b'\<rparr>) = handed_on s"
  "handed_on (s\<lparr>pl_todo := ws\<rparr>) = handed_on s" "handed_on (s\<lparr>pl_pending := ps\<rparr>) = handed_on s"
  "handed_on (s\<lparr>pl_encoding := ws\<rparr>) = handed_on s"
  "handed_on (s\<lparr>pl_input_done := b\<rparr>) = handed_on s"
  "handed_on (join_stage stage outcome s) = handed_on s"
  by (simp_all add: handed_on_def written_def join_stage_def split: prod.split)

lemma handed_on_moved:
  "pl_sending s = None \<Longrightarrow> handed_on (s\<lparr>pl_pending := ps, pl_sending := Some g\<rparr>) = handed_on s @ [g]"
  "pl_sending s = Some g \<Longrightarrow> handed_on (s\<lparr>pl_sending := None, pl_writing := pl_writing s @ [g]\<rparr>) = handed_on s"
  "pl_write s = Receiving \<Longrightarrow> pl_writing s = g # gs \<Longrightarrow>
   handed_on (s\<lparr>pl_writing := gs, pl_write := WritingGroup g, pl_total := n\<rparr>) = handed_on s"
  "pl_write s = WritingGroup g \<Longrightarrow> handed_on (s\<lparr>pl_write := Receiving, pl_file := pl_file s @ [g]\<rparr>) = handed_on s"
  "pl_write s = Receiving \<Longrightarrow> handed_on (s\<lparr>pl_write := Closing\<rparr>) = handed_on s"
  by (simp_all add: handed_on_def written_def)

lemma in_order_step: "pipeline_step env s t \<Longrightarrow> in_order env s passed \<Longrightarrow> \<exists>passed'. in_order env t passed'"
proof (induction rule: pipeline_step.induct)
  case (encoder_next s w g later)
  then have "in_order env (s\<lparr>pl_pending := later, pl_sending := Some g\<rparr>) (passed @ [w])"
    by (auto simp: in_order_def handed_on_moved intro: encoded_from_snoc)
  then show ?case ..
next
  case (encoded s before w later r)
  then have "in_order env (s\<lparr>pl_pending := before @ (w, Some r) # later\<rparr>) passed"
    by (auto simp: in_order_def handed_on_same)
  then show ?case ..
next
  case (joins stage s outcome)
  then have "in_order env (join_stage stage outcome s) passed"
    by (auto simp: in_order_def handed_on_same) (auto simp: join_stage_def split: prod.splits)
  then show ?case ..
next
  case (writer_closed s)
  then have "in_order env (s\<lparr>pl_closed := True\<rparr>) passed" by (simp add: in_order_def handed_on_same)
  then have "in_order env (end_stage Writer Fine (s\<lparr>pl_closed := True\<rparr>)) passed"
    by (rule in_order_end) (use writer_closed in simp)
  then show ?case ..
qed (rule exI [of _ passed], (rule in_order_end, assumption, assumption | simp add: in_order_def handed_on_same handed_on_moved))+

lemma in_order_fault: "pipeline_fault s t \<Longrightarrow> in_order env s passed \<Longrightarrow> in_order env t passed"
proof (induction rule: pipeline_fault.induct)
  case (external s)
  then show ?case by (simp add: in_order_def handed_on_same)
qed (simp_all add: in_order_end)

lemma in_order_reached: "pipeline_reached env s \<Longrightarrow> \<exists>passed. in_order env s passed"
proof (induction rule: pipeline_reached.induct)
  case starts
  have "in_order env (pipeline_start env) []" by (simp add: in_order_def pipeline_start_def handed_on_def written_def)
  then show ?case ..
qed (use in_order_step in_order_fault in blast)+

section \<open>A settled pipeline without errors is complete\<close>

text \<open>Nothing has gone wrong so far.\<close>

definition undisturbed :: "('w, 'g, 'e) pipeline \<Rightarrow> bool" where
  "undisturbed s \<longleftrightarrow> pl_errors s = [] \<and> \<not> pl_cancelled s \<and> \<not> pl_aborted s \<and>
     (\<forall>stage. pl_ended s stage = None \<or> pl_ended s stage = Some Fine)"

definition complete :: "('w, 'g, 'e) pipeline_env \<Rightarrow> ('w, 'g, 'e) pipeline \<Rightarrow> bool" where
  "complete env s \<longleftrightarrow>
     (\<not> running s Ingestion \<longrightarrow> pl_todo s = [] \<and> pe_end env = Fine) \<and>
     (pl_input_done s \<longrightarrow> \<not> running s Ingestion \<and> pl_encoding s = []) \<and>
     (\<not> running s Encoder \<longrightarrow> pl_input_done s \<and> pl_sending s = None \<and>
        encoded_from env (pe_works env) (written s @ pl_writing s)) \<and>
     (pl_write s = Closing \<longrightarrow> \<not> running s Encoder \<and> pl_writing s = []) \<and>
     (\<not> running s Writer \<longrightarrow> pl_write s = Closing \<and> pl_closed s) \<and>
     pl_total s = (\<Sum>g\<leftarrow>written s. of_nat (pe_rows env g))"

lemma undisturbed_end:
  "undisturbed (end_stage stage outcome s) \<Longrightarrow> running s stage \<Longrightarrow> outcome = Fine \<and> undisturbed s"
  by (auto simp: undisturbed_def dest: spec [of _ stage] split: if_splits)

lemma undisturbed_step_back: "pipeline_step env s t \<Longrightarrow> undisturbed t \<Longrightarrow> undisturbed s"
proof (induction rule: pipeline_step.induct)
  case (joins stage s outcome)
  then show ?case by (cases outcome) (auto simp: undisturbed_def join_stage_def)
next
  case (writer_closed s)
  then have "undisturbed (s\<lparr>pl_closed := True\<rparr>)" using undisturbed_end [of Writer Fine "s\<lparr>pl_closed := True\<rparr>"] by simp
  then show ?case by (simp add: undisturbed_def)
qed (blast dest: undisturbed_end | simp add: undisturbed_def)+

lemma complete_step:
  assumes "pipeline_step env s t" and "0 < pe_concurrency env"
  shows "in_order env s passed \<Longrightarrow> complete env s \<Longrightarrow> undisturbed t \<Longrightarrow> complete env t"
  using assms
proof (induction rule: pipeline_step.induct)
  case (joins stage s outcome)
  then show ?case by (auto simp: complete_def written_def join_stage_def split: prod.split)
next
  case (ingest_end s)
  with undisturbed_end [of Ingestion "pe_end env" s] show ?case by (auto simp: complete_def written_def)
next
  case (encoder_end s)
  then show ?case by (auto simp: complete_def written_def in_order_def handed_on_def)
next
  case (encoder_failed s w e later)
  with undisturbed_end [of Encoder "Failed e" s] show ?case by simp
next
  case (encoder_closed s g)
  with undisturbed_end [of Encoder "Failed (pe_channel_closed env)" s] show ?case by simp
next
  case (aborts s stage)
  with undisturbed_end [of stage Aborted s] show ?case by simp
next
  case (cancels s stage)
  with undisturbed_end [of stage Fine s] show ?case by (simp add: undisturbed_def)
qed (auto simp: complete_def written_def)

definition accounted :: "('w, 'g, 'e) pipeline \<Rightarrow> bool" where
  "accounted s \<longleftrightarrow>
     (pl_aborted s \<longrightarrow> pl_errors s \<noteq> []) \<and> (pl_cancelled s \<longrightarrow> pl_errors s \<noteq> [] \<or> pl_external s) \<and>
     (\<forall>stage. pl_ended s stage = Some Aborted \<longrightarrow> pl_errors s \<noteq> []) \<and>
     (\<forall>stage. stage \<notin> pl_unjoined s \<longrightarrow> pl_errors s \<noteq> [] \<or> pl_ended s stage = Some Fine)"

lemma accounted_end:
  "accounted s \<Longrightarrow> running s stage \<Longrightarrow> (outcome = Aborted \<longrightarrow> pl_errors s \<noteq> []) \<Longrightarrow> accounted (end_stage stage outcome s)"
  unfolding accounted_def by (auto split: if_splits)

lemma accounted_step: "pipeline_step env s t \<Longrightarrow> pe_end env \<noteq> Aborted \<Longrightarrow> accounted s \<Longrightarrow> accounted t"
proof (induction rule: pipeline_step.induct)
  case (joins stage s outcome)
  then show ?case by (cases outcome) (auto simp: accounted_def join_stage_def)
next
  case (writer_closed s)
  then have "accounted (s\<lparr>pl_closed := True\<rparr>)" by (simp add: accounted_def)
  then show ?case by (rule accounted_end) (use writer_closed in simp_all)
next
  case (aborts s stage)
  then show ?case by (intro accounted_end) (auto simp: accounted_def)
qed (simp_all add: accounted_end, simp_all add: accounted_def)

lemma accounted_fault: "pipeline_fault s t \<Longrightarrow> accounted s \<Longrightarrow> accounted t"
proof (induction rule: pipeline_fault.induct)
  case (external s)
  then show ?case by (auto simp: accounted_def)
qed (simp_all add: accounted_end)

lemma accounted_reached: "pipeline_reached env s \<Longrightarrow> pe_end env \<noteq> Aborted \<Longrightarrow> accounted s"
proof (induction rule: pipeline_reached.induct)
  case starts
  show ?case by (simp add: accounted_def pipeline_start_def) (metis stage.exhaust)
qed (use accounted_step accounted_fault in blast)+

lemma undisturbed_fault: "pipeline_fault s t \<Longrightarrow> \<not> undisturbed t"
  by (induction rule: pipeline_fault.induct) (auto simp: undisturbed_def)

lemma complete_reached:
  "pipeline_reached env s \<Longrightarrow> 0 < pe_concurrency env \<Longrightarrow> undisturbed s \<Longrightarrow> complete env s"
proof (induction rule: pipeline_reached.induct)
  case starts
  show ?case by (simp add: complete_def pipeline_start_def written_def)
next
  case (steps s t)
  then show ?case using complete_step in_order_reached [OF steps.hyps(1)] undisturbed_step_back by blast
next
  case (faults s t)
  then show ?case using undisturbed_fault by blast
qed

text \<open>
  A pipeline that returns the number of rows has written them all. When all its tasks are joined, none reported an
  error and the operation was not cancelled from outside, the file is closed and holds the row groups of the ingestion,
  which ended well, each encoded, in their order, and the result is the number of their rows (in 64 bits). So no
  failure, panic or closed channel is lost in the settling.
\<close>

definition file_complete :: "('w, 'g, 'e) pipeline_env \<Rightarrow> ('w, 'g, 'e) pipeline \<Rightarrow> 64 word \<Rightarrow> bool" where
  "file_complete env s rows \<longleftrightarrow>
     pl_closed s \<and> encoded_from env (pe_works env) (pl_file s) \<and> pe_end env = Fine \<and>
     rows = of_nat (\<Sum>g\<leftarrow>pl_file s. pe_rows env g)"

lemma sum_list_of_nat: "(\<Sum>x\<leftarrow>xs. of_nat (f x)) = (of_nat (\<Sum>x\<leftarrow>xs. f x) :: 'a::semiring_1)"
  by (induction xs) simp_all

lemma pipeline_ok_is_complete:
  assumes "pe_end env \<noteq> Aborted"
    and "pipeline_reached env s" and "pipeline_settled s" and "\<not> pl_external s" and "pipeline_result s = Inr rows"
    and "0 < pe_concurrency env"
  shows "file_complete env s rows"
proof -
  have errors: "pl_errors s = []" and rows: "rows = pl_total s" using assms(5) by (auto simp: pipeline_result_def split: if_splits)
  have ended: "pl_ended s stage = Some Fine" for stage
    using accounted_reached [OF assms(2,1)] assms(3) errors by (simp add: accounted_def pipeline_settled_def)
  have "undisturbed s"
    using accounted_reached [OF assms(2,1)] errors assms(4) ended by (auto simp: undisturbed_def accounted_def)
  from complete_reached [OF assms(2,6) this] ended rows show ?thesis
    by (auto simp: file_complete_def complete_def written_def comp_def sum_list_of_nat)
qed

text \<open>
  what the writer has put into the file is at every moment, whatever has gone wrong, the encoding of the first row
  groups of the input in their order.
\<close>

theorem file_is_in_order:
  assumes "pipeline_reached env s"
  shows "\<exists>works. prefix works (pe_works env) \<and> encoded_from env works (pl_file s)"
proof -
  obtain passed where passed: "in_order env s passed" using in_order_reached [OF assms] by blast
  then have "prefix passed (pe_works env)" by (auto simp: in_order_def intro: prefixI [OF sym] split: if_splits)
  moreover obtain later where "handed_on s = pl_file s @ later" by (auto simp: handed_on_def written_def)
  then have "encoded_from env passed (pl_file s @ later)" using passed by (simp add: in_order_def)
  then obtain works where "prefix works passed" "encoded_from env works (pl_file s)"
    by (auto simp: encoded_from_def list_all2_append2 prefix_def)
  ultimately show ?thesis by (blast intro: prefix_order.trans)
qed

definition within_bounds :: "('w, 'g, 'e) pipeline_env \<Rightarrow> ('w, 'g, 'e) pipeline \<Rightarrow> bool" where
  "within_bounds env s \<longleftrightarrow> length (pl_encoding s) \<le> pe_encoding_size env \<and> length (pl_pending s) \<le> pe_concurrency env \<and>
     length (pl_writing s) \<le> pe_writing_size env"

text \<open>
  C40: the row groups in memory between ingestion and file are bounded: at most the sizes of the two queues, the number
  encoded at a time, the one being sent and the one being written.
\<close>

theorem pipeline_in_flight:
  assumes "pipeline_reached env s"
  shows "length (pl_encoding s) + length (pl_pending s) + length (pl_writing s) + length (written s) - length (pl_file s) +
      (if pl_sending s = None then 0 else 1)
    \<le> pe_encoding_size env + pe_concurrency env + pe_writing_size env + 2"
proof -
  from assms have "within_bounds env s"
  proof (induction rule: pipeline_reached.induct)
    case starts
    show ?case by (simp add: within_bounds_def pipeline_start_def)
  next
    case (steps s t)
    from steps(2,3) show ?case
      by (induction rule: pipeline_step.induct) (auto simp: within_bounds_def join_stage_def split: prod.split)
  next
    case (faults s t)
    from faults(2,3) show ?case by (induction rule: pipeline_fault.induct) (auto simp: within_bounds_def)
  qed
  then show ?thesis by (auto simp: within_bounds_def written_def split: write_state.splits)
qed

section \<open>The whole writer\<close>

datatype 'e write_error = IngestError 'e | EncodeError "'e encode_error" | WritingClosed

fun ingest_outcome :: "('e ingest_error, unit) result \<Rightarrow> 'e write_error outcome" where
  "ingest_outcome (Inr _) = Fine"
| "ingest_outcome (Inl (IngestFailed e)) = Failed (IngestError e)"
| "ingest_outcome (Inl CoalescerNotFull) = Panicked"
| "ingest_outcome (Inl RowCountUnderflow) = Panicked"

definition encode_work :: "(('r, 'p) row_group_work, 'x, 'l, 'c, 'e) encode_env \<Rightarrow> nat list \<Rightarrow> ('r, 'p) row_group_work \<Rightarrow>
  'e write_error + 'c encoded_row_group" where
  "encode_work enc order work =
     (case encode_row_group enc order work (length (rw_batch work)) of Inl e \<Rightarrow> Inl (EncodeError e) | Inr g \<Rightarrow> Inr g)"

text \<open>The pipeline of a sink that receives \<open>batches\<close>, with the three limits of its configuration.\<close>

definition parquet_pipeline :: "('c, 'a, 'r, 's, 'p, 'e) ingest_env \<Rightarrow> (('r, 'p) row_group_work, 'x, 'l, 'k, 'e) encode_env \<Rightarrow>
  nat \<times> nat \<times> nat \<Rightarrow> 'r list list \<Rightarrow> (('r, 'p) row_group_work, 'k encoded_row_group, 'e write_error) pipeline_env" where
  "parquet_pipeline env enc limits batches =
     (let (works, r) = the (ingest_all env batches); (encoding_size, concurrency, writing_size) = limits in
      \<lparr>pe_works = works, pe_end = ingest_outcome r,
       pe_encodes = (\<lambda>work r. \<exists>order. column_order enc work order \<and> r = encode_work enc order work),
       pe_rows = eg_rows,
       pe_encoding_size = encoding_size, pe_concurrency = concurrency, pe_writing_size = writing_size,
       pe_channel_closed = WritingClosed\<rparr>)"

text \<open>
  The file holds one row group for every \<open>max_row_group_size\<close> rows of the input, in order, with the columns of each
  encoded in the order of the schema from its own rows and properties.
\<close>

definition parquet_file :: "('c, 'a, 'r, 's, 'p, 'e) ingest_env \<Rightarrow> (('r, 'p) row_group_work, 'x, 'l, 'k, 'e) encode_env \<Rightarrow>
  ('a, 'r, 's) analysis_view \<Rightarrow> 'r list \<Rightarrow> 'k encoded_row_group list \<Rightarrow> bool" where
  "parquet_file env enc aview rows file \<longleftrightarrow>
     (\<exists>works. map rw_batch works = chunks (ie_max_rows env) rows \<and> (\<forall>w\<in>set works. work_ok env aview w) \<and>
        map (\<lambda>w. encode_work enc (columns_in_order enc w) w) works = map Inr file)"

lemma encode_work_group:
  assumes "column_order enc work order" and "encode_work enc order work = Inr g"
  shows "encode_work enc (columns_in_order enc work) work = Inr g"
  using assms encode_order_irrelevant [OF assms(1) columns_in_order, of "length (rw_batch work)" g]
  by (auto simp: encode_work_def split: sum.splits)

lemma encode_work_rows: "encode_work enc order work = Inr g \<Longrightarrow> eg_rows g = length (rw_batch work)"
  by (auto simp: encode_work_def encode_row_group_def res_bind_Inr_conv split: sum.splits)

lemma parquet_encodes:
  assumes "pe_encodes (parquet_pipeline env enc limits batches) w (Inr g)"
  shows "encode_work enc (columns_in_order enc w) w = Inr g"
proof -
  from assms obtain order where "column_order enc w order" "encode_work enc order w = Inr g"
    by (auto simp: parquet_pipeline_def Let_def split: prod.splits)
  then show ?thesis by (rule encode_work_group)
qed

definition parquet_written :: "('c, 'a, 'r, 's, 'p, 'e) ingest_env \<Rightarrow> (('r, 'p) row_group_work, 'x, 'l, 'k, 'e) encode_env \<Rightarrow>
  ('a, 'r, 's) analysis_view \<Rightarrow> 'r list list \<Rightarrow>
  (('r, 'p) row_group_work, 'k encoded_row_group, 'e write_error) pipeline \<Rightarrow> 64 word \<Rightarrow> bool" where
  "parquet_written env enc aview batches s rows \<longleftrightarrow>
     pl_closed s \<and> parquet_file env enc aview (concat batches) (pl_file s) \<and> rows = of_nat (length (concat batches))"

lemma encoded_rows:
  "map (\<lambda>w. encode_work enc (columns_in_order enc w) w) works = map Inr groups \<Longrightarrow>
   (\<Sum>g\<leftarrow>groups. eg_rows g) = length (concat (map rw_batch works))"
proof (induction works arbitrary: groups)
  case (Cons w works)
  then show ?case by (cases groups) (auto simp: encode_work_rows)
qed simp

text \<open>
  C14: a Parquet write that succeeds has written its whole input. When the pipeline of a sink settles without an error
  and was not cancelled from outside, its file is closed, holds one row group for every \<open>max_row_group_size\<close> rows of
  the batches in their order, each with its columns in the order of the schema, encoded with properties from the
  analysis of its own rows; and the reported number of rows is that of the input, modulo \<open>2 ^ 64\<close>. This does not
  depend on the interleaving of the stages, on the order in which columns and row groups end encoding, or on how the
  rows were split into batches.
\<close>

theorem parquet_write_is_complete:
  assumes "coalescer_laws (ie_coalescer env) cview" and "analysis_laws (ie_analysis env) aview" and "0 < ie_max_rows env"
    and "0 < concurrency"
    and "pipeline_reached (parquet_pipeline env enc (encoding_size, concurrency, writing_size) batches) s"
    and "pipeline_settled s" and "\<not> pl_external s" and "pipeline_result s = Inr rows"
  shows "parquet_written env enc aview batches s rows"
proof -
  obtain works r where ingest: "ingest_all env batches = Some (works, r)" "row_groups env aview (concat batches) works r"
    using ingested_row_groups [OF assms(1-3)] by blast
  let ?p = "parquet_pipeline env enc (encoding_size, concurrency, writing_size) batches"
  have p: "pe_works ?p = works" "pe_end ?p = ingest_outcome r" "pe_rows ?p = eg_rows" "pe_concurrency ?p = concurrency"
    by (simp_all add: parquet_pipeline_def ingest(1) split: prod.splits)
  have "pe_end ?p \<noteq> Aborted" unfolding p by (cases r rule: ingest_outcome.cases) simp_all
  from pipeline_ok_is_complete [OF this assms(5-8)] assms(4) have written: "pl_closed s" "encoded_from ?p works (pl_file s)"
    "ingest_outcome r = Fine" "rows = of_nat (\<Sum>g\<leftarrow>pl_file s. eg_rows g)"
    by (simp_all add: file_complete_def p)
  from written(3) obtain u where "r = Inr u" by (cases r rule: ingest_outcome.cases) simp_all
  with ingest(2) have works: "map rw_batch works = chunks (ie_max_rows env) (concat batches)" "\<forall>w\<in>set works. work_ok env aview w"
    by (simp_all add: row_groups_def)
  have "list_all2 (\<lambda>w g. encode_work enc (columns_in_order enc w) w = Inr g) works (pl_file s)"
    using written(2) unfolding encoded_from_def by (rule list_all2_mono) (rule parquet_encodes)
  then have encoded: "map (\<lambda>w. encode_work enc (columns_in_order enc w) w) works = map Inr (pl_file s)"
    by (simp add: list_all2_conv_all_nth list_eq_iff_nth_eq)
  have "rows = of_nat (length (concat batches))"
    using written(4) encoded_rows [OF encoded] concat_chunks [OF assms(3), of "concat batches"] works(1) by simp
  with written(1) encoded works show ?thesis unfolding parquet_written_def parquet_file_def by blast
qed

section \<open>A run of the writer\<close>

text \<open>One column whose chunk is the rows; two batches that make one row group of three rows.\<close>

definition list_encode :: "((nat, nat list) row_group_work, nat list, nat list, nat list, string) encode_env" where
  "list_encode = \<lparr>en_writers = (\<lambda>_. Inr [[]]), en_leaves = (\<lambda>w. [Inr [rw_batch w]]), en_write = (\<lambda>x l. Inr (x @ l)), en_close = Inr\<rparr>"

definition demo_ingest :: "(nat \<times> nat list list \<times> nat list, nat list, nat, nat list, nat list, string) ingest_env" where
  "demo_ingest = list_ingest True"

definition demo_pipeline :: "((nat, nat list) row_group_work, nat list encoded_row_group, string write_error) pipeline_env" where
  "demo_pipeline = parquet_pipeline demo_ingest list_encode (1, 1, 1) [[5, 5], [6]]"

definition demo_work :: "(nat, nat list) row_group_work" where
  "demo_work = \<lparr>rw_batch = [5, 5, 6], rw_props = [5, 6]\<rparr>"

definition demo_group :: "nat list encoded_row_group" where
  "demo_group = \<lparr>eg_chunks = [[5, 5, 6]], eg_rows = 3\<rparr>"

lemma demo_ingests: "ingest_all demo_ingest [[5, 5], [6]] = Some ([demo_work], Inr ())"
  by (simp add: demo_ingest_def demo_work_def ingest_all_def ingest_start_def list_ingest_simps lib_result_def res_bind_def
      analyze_batch.simps split_full.simps hl_new_def hl_push_def hl_is_full_def complete_group_def
      hl_finish_def finish_analyzed_def make_work_def analyze_finish_def)

lemma demo_column_order: "column_order list_encode w [0]"
  by (auto simp: column_order_def list_encode_def)

lemma demo_encodes: "encode_work list_encode [0] demo_work = Inr demo_group"
  by (simp add: encode_work_def encode_row_group_def list_encode_def column_results_def demo_group_def demo_work_def res_bind_def)

lemma demo_pipeline_simps:
  "pe_works demo_pipeline = [demo_work]" "pe_end demo_pipeline = Fine" "pe_rows demo_pipeline = eg_rows"
  "pe_encoding_size demo_pipeline = 1" "pe_concurrency demo_pipeline = 1" "pe_writing_size demo_pipeline = 1"
  "pe_encodes demo_pipeline demo_work (Inr demo_group)"
  using demo_column_order demo_encodes [symmetric] by (auto simp: demo_pipeline_def parquet_pipeline_def demo_ingests)

definition demo_ended :: "stage set \<Rightarrow> stage \<Rightarrow> string write_error outcome option" where
  "demo_ended ended stage = (if stage \<in> ended then Some Fine else None)"

lemma demo_ended_simps [simp]:
  "stage \<in> ended \<Longrightarrow> demo_ended ended stage = Some Fine" "stage \<notin> ended \<Longrightarrow> demo_ended ended stage = None"
  "(\<lambda>_. None) = demo_ended {}" "(demo_ended ended)(stage := Some Fine) = demo_ended (insert stage ended)"
  by (auto simp: demo_ended_def fun_eq_iff)

definition run_state :: "bool \<Rightarrow> ((nat, nat list) row_group_work \<times> (string write_error + nat list encoded_row_group) option) list \<Rightarrow>
  nat list encoded_row_group option \<Rightarrow> nat list encoded_row_group list \<Rightarrow> nat list encoded_row_group write_state \<Rightarrow>
  nat list encoded_row_group list \<Rightarrow> bool \<Rightarrow> 64 word \<Rightarrow> stage set \<Rightarrow> stage set \<Rightarrow>
  ((nat, nat list) row_group_work, nat list encoded_row_group, string write_error) pipeline" where
  "run_state input_done pend sending writing write out closed rows ended unjoined =
     \<lparr>pl_todo = [], pl_encoding = [], pl_input_done = input_done, pl_pending = pend, pl_sending = sending, pl_writing = writing,
      pl_write = write, pl_file = out, pl_closed = closed, pl_total = rows,
      pl_ended = demo_ended ended, pl_unjoined = unjoined, pl_errors = [],
      pl_cancelled = False, pl_aborted = False, pl_external = False\<rparr>"

abbreviation "all_stages \<equiv> {Ingestion, Encoder, Writer}"

abbreviation "demo_reached s \<equiv> pipeline_reached demo_pipeline s"

lemma demo_pending: "demo_reached (run_state False [(demo_work, None)] None [] Receiving [] False 0 {} all_stages)"
proof -
  note s0 = pipeline_reached.starts [of demo_pipeline, unfolded pipeline_start_def demo_pipeline_simps]
  note s1 = steps [OF s0 ingest_send [where w = demo_work and ws = "[]"], simplified demo_pipeline_simps, simplified]
  show ?thesis
    using steps [OF s1 encoder_recv [where w = demo_work and ws = "[]"], simplified demo_pipeline_simps, simplified]
    by (simp add: run_state_def)
qed

lemma demo_encoded: "demo_reached (run_state False [(demo_work, Some (Inr demo_group))] None [] Receiving [] False 0 {Ingestion} all_stages)"
proof -
  have s3: "demo_reached (run_state False [(demo_work, None)] None [] Receiving [] False 0 {Ingestion} all_stages)"
    using steps [OF demo_pending ingest_end] by (simp add: run_state_def end_stage_def demo_pipeline_simps)
  show ?thesis
    using steps [OF s3 encoded [where before = "[]" and later = "[]", OF _ _ demo_pipeline_simps(7)]] by (simp add: run_state_def)
qed

lemma demo_sent: "demo_reached (run_state True [] None [demo_group] Receiving [] False 0 {Ingestion, Encoder} all_stages)"
proof -
  have s5: "demo_reached (run_state False [] (Some demo_group) [] Receiving [] False 0 {Ingestion} all_stages)"
    using steps [OF demo_encoded encoder_next] by (simp add: run_state_def)
  have s6: "demo_reached (run_state False [] None [demo_group] Receiving [] False 0 {Ingestion} all_stages)"
    using steps [OF s5 encoder_send] by (simp add: run_state_def demo_pipeline_simps)
  have s7: "demo_reached (run_state True [] None [demo_group] Receiving [] False 0 {Ingestion} all_stages)"
    using steps [OF s6 encoder_input_done] by (simp add: run_state_def demo_pipeline_simps)
  show ?thesis
    using steps [OF s7 encoder_end] by (simp add: run_state_def end_stage_def insert_commute)
qed

lemma demo_settled: "demo_reached (run_state True [] None [] Closing [demo_group] True 3 all_stages {})"
proof -
  have s9: "demo_reached (run_state True [] None [] (WritingGroup demo_group) [] False 3 {Ingestion, Encoder} all_stages)"
    using steps [OF demo_sent writer_recv] by (simp add: run_state_def demo_pipeline_simps demo_group_def)
  have s10: "demo_reached (run_state True [] None [] Receiving [demo_group] False 3 {Ingestion, Encoder} all_stages)"
    using steps [OF s9 writer_wrote] by (simp add: run_state_def)
  have s11: "demo_reached (run_state True [] None [] Closing [demo_group] False 3 {Ingestion, Encoder} all_stages)"
    using steps [OF s10 writer_drained] by (simp add: run_state_def)
  have s12: "demo_reached (run_state True [] None [] Closing [demo_group] True 3 all_stages all_stages)"
    using steps [OF s11 writer_closed] by (simp add: run_state_def end_stage_def insert_commute)
  have join: "demo_reached (run_state True [] None [] Closing [demo_group] True 3 all_stages (unjoined - {stage}))"
    if "demo_reached (run_state True [] None [] Closing [demo_group] True 3 all_stages unjoined)" "stage \<in> unjoined" for unjoined stage
    using steps [OF that(1) joins [of stage _ Fine]] that(2) by (cases stage) (simp_all add: run_state_def join_stage_def)
  from join [OF join [OF join [OF s12, of Ingestion], of Encoder], of Writer] show ?thesis by (simp add: insert_Diff_if)
qed

theorem parquet_write_is_complete_witness:
  "parquet_written demo_ingest list_encode \<lparr>av_rows = (\<lambda>seen. seen), av_of = (\<lambda>rows. rows)\<rparr> [[5, 5], [6]]
     (run_state True [] None [] Closing [demo_group] True 3 all_stages {}) 3"
  by (rule parquet_write_is_complete [OF _ _ _ _ demo_settled [unfolded demo_pipeline_def], where cview = list_view])
    (simp_all add: demo_ingest_def list_ingest_def list_coalescer_laws list_analysis_laws run_state_def pipeline_settled_def
      pipeline_result_def)

theorem pipeline_settles_witness: "settles demo_pipeline (pipeline_start demo_pipeline)"
proof (rule pipeline_settles)
  fix w
  have "pe_encodes demo_pipeline w (encode_work list_encode [0] w)"
    using demo_column_order [of w] by (auto simp: demo_pipeline_def parquet_pipeline_def demo_ingests)
  then show "\<exists>r. pe_encodes demo_pipeline w r" ..
qed (simp_all add: demo_pipeline_simps)

theorem file_is_in_order_witness:
  "\<exists>works. prefix works (pe_works demo_pipeline) \<and> encoded_from demo_pipeline works [demo_group]"
  using file_is_in_order [OF demo_settled] by (simp add: run_state_def)

theorem pipeline_in_flight_witness:
  "length [(demo_work, None :: (string write_error + nat list encoded_row_group) option)] \<le>
   pe_encoding_size demo_pipeline + pe_concurrency demo_pipeline + pe_writing_size demo_pipeline + 2"
  using pipeline_in_flight [OF demo_pending] by (simp add: run_state_def written_def)

end
