(* ===== verification/Spec2Isabelle.thy ===== *)
theory Spec2Isabelle
  imports Silk_Prelude Retry_Backoff Retry_Budget Retry_Classify Read_Stream Object_Upload Partition_Runs
    Partitioned_Output Location Location_Pattern Storage_Handle Storage_Registry Storage_Session Target_Template
    Target_Render Memory_Pool Read_Liveness Pushdown_Text Pushdown Pushdown_Grammar Pushdown_Leaves Pushdown_Exact
    Snapshot_Pin Table_Reference Read_Session Arrow_Layout Arrow_Stream Arrow_Scan Arrow_Sampling
    Parquet_Ingest Parquet_Pipeline
begin

text \<open>
  Verification library for silk-chiffon, a command-line program that converts columnar data between
  Arrow, Parquet, Vortex and BigQuery: it reads inputs (files behind object stores, or BigQuery tables
  through Storage Read sessions), runs a query plan, and writes the result to one file or to many
  partition files. The theories follow the crates of the program; below, \<open>storage/\<close> is
  \<open>crates/silk-chiffon-storage/src/\<close>, \<open>bigquery/\<close> is \<open>crates/silk-chiffon-input-bigquery/src/\<close>,
  \<open>core/\<close> is \<open>crates/silk-chiffon-core/src/\<close> and \<open>transform/\<close> is \<open>src/commands/transform/\<close>.

  \<^bold>\<open>Conventions\<close> (\<open>Silk_Prelude\<close>). A fallible function returns a sum, \<open>Inl\<close> the error; a panic is \<open>None\<close>
  or an error of its own. A \<open>str\<close> is its UTF-8 bytes. Unsigned integers are natural numbers with the
  checked and saturating operations of the source written out where it uses them, and 64-bit words
  where the source lets them wrap. Durations are nanoseconds. Effects are explicit: a function takes the state
  of the world it acts on and returns the new one, or records what it does in a trace.

  \<^bold>\<open>BigQuery reads\<close>. \<open>Retry_Backoff\<close> (\<open>bigquery/retry/backoff.rs\<close>) holds the policies and the delay
  arithmetic, \<open>Retry_Budget\<close> (\<open>retry/budget.rs\<close>) the budgets and \<open>plan_retry\<close>, \<open>Retry_Classify\<close>
  (\<open>retry/mod.rs\<close>, \<open>retry/status_detail.rs\<close>) the reading of gRPC status details and the retry tables.
  \<open>Read_Stream\<close> (\<open>read_stream.rs\<close>) is the state machine of one partition: it opens a stream at an offset,
  accepts batches, and reconnects through the three parts before it. Its main theorem is that a
  partition delivers every row once and in order, whatever failures happen; the others bound the
  retries and delays and show that the arithmetic never overflows. \<open>Read_Liveness\<close> shows that the
  loop behind a poll always returns, as long as no call sends responses without rows for ever.

  \<^bold>\<open>BigQuery sources\<close>. \<open>Table_Reference\<close> (\<open>bigquery/reference.rs\<close>) parses what names a table,
  \<open>Snapshot_Pin\<close> (\<open>snapshot.rs\<close>) finds the instant all sessions of a query read at, and \<open>Read_Session\<close>
  (\<open>session.rs\<close>) specifies a session, checks the answer of the service against the specification and creates it with the
  retries of the theories above; a lease ends its streams' retries in time. A snapshot lies in the past of the
  server, an answer is accepted exactly when it is the session asked for, and the identity of a source
  is an injective encoding below the digest.

  \<^bold>\<open>Filters for BigQuery\<close>. \<open>Pushdown_Text\<close> and \<open>Pushdown\<close> (\<open>bigquery/pushdown.rs\<close>) translate query filters into
  the text of a row restriction. \<open>Pushdown_Grammar\<close> is the reference of what the service reads (a lexer and a
  parser with as much fuel as tokens, which is enough as printing and parsing shows), \<open>Pushdown_Leaves\<close> gives
  rows, literals and comparisons their meaning on both sides, and \<open>Pushdown_Exact\<close> shows that the restriction
  has the truth value of the filters in every row without special floats; it also evaluates the NaN row for
  which it has not.

  \<^bold>\<open>Storage\<close>. \<open>Location\<close> and \<open>Location_Pattern\<close> (\<open>storage/location.rs\<close>, \<open>pattern.rs\<close>, \<open>local.rs\<close>) parse
  what a user writes into canonical URLs and patterns. \<open>Storage_Registry\<close> (\<open>backend.rs\<close>,
  \<open>backend/binding.rs\<close>, \<open>registry.rs\<close>) builds backends and the index that routes a scheme to one of them;
  its locale \<open>claim_index\<close> is interpreted for the names and for the claims. \<open>Storage_Handle\<close>
  (\<open>handle.rs\<close>, \<open>input.rs\<close>, \<open>output.rs\<close>) is the read-only view of a store. \<open>Storage_Session\<close>
  (\<open>session.rs\<close>) composes them: routing, the cache of clients, the claims on output targets and the
  expansion of patterns. Its theorems hold for every sequence of operations: a target is claimed at
  most once, one client per store, no panic.

  \<^bold>\<open>Uploads\<close>. \<open>Object_Upload\<close> (\<open>storage/upload.rs\<close>, \<open>upload/task.rs\<close>) is the upload worker with its
  multipart state, the front end that feeds it and the task that settles it. A successful upload has
  stored exactly the bytes written; any other leaves nothing behind.

  \<^bold>\<open>Partitioned output\<close>. \<open>Partition_Runs\<close> (\<open>transform/file_output/partition_runs.rs\<close>, \<open>report.rs\<close>,
  \<open>projection.rs\<close>, \<open>core/data_sink.rs\<close>) splits batches into runs of equal partition values and makes
  their keys. \<open>Partitioned_Output\<close> (\<open>file_output/mod.rs\<close>) holds the three writing strategies over the
  sinks of the formats. \<open>Target_Template\<close> and \<open>Target_Render\<close> (\<open>file_output/target_template.rs\<close>) hold the
  templates that name the files: the envelope, the tag scan, the rule for \<open>file_number\<close>, and rendering.
  No row is lost, repeated or written to the wrong file, every sink is settled on every path, a
  rendered path never leaves its envelope and numbered files never share a path.

  \<^bold>\<open>Query memory\<close>. \<open>Memory_Pool\<close> (\<open>core/pipeline/memory_pool.rs\<close>) is the memory pool, at the width of its
  counters, driven by the protocol of its clients as an inductive reachability relation.

  \<^bold>\<open>Arrow inputs\<close> (\<open>crates/silk-chiffon-format-arrow/src/input/mod.rs\<close>). \<open>Arrow_Layout\<close> reads the footer of an
  IPC file, checks its blocks and reads the record batches a byte range owns; \<open>Arrow_Stream\<close> frames the messages
  of a stream, infers its schema and decodes it; \<open>Arrow_Scan\<close> distributes whole files over partitions and shares
  layouts between the scans of one object; \<open>Arrow_Sampling\<close> computes statistics from samples. Partitions that tile a
  file read each of its batches once, the store is asked only for ranges that lie in the object and are paid for,
  and statistics called exact are those of the read.

  \<^bold>\<open>Parquet output\<close> (\<open>crates/silk-chiffon-format-parquet/src/output/pipeline/\<close>). \<open>Parquet_Ingest\<close> cuts the batches
  of a sink into row groups, with or without an analysis of their columns; \<open>Parquet_Pipeline\<close> is the step relation
  of the three concurrent stages, with every interleaving of their tasks and with failures, panics and cancellation
  at any moment. The stages always settle, and a result without an error means that the file holds every row group.

  \<^bold>\<open>Bounds and fuel\<close>. The loops of the stream and of the upload take the length of the script of
  outcomes they are driven by; trimming white space takes one unit of fuel for each byte, and each
  step removes at least one. The loops of the Arrow readers and of the Parquet ingestion are \<open>partial_function (option)\<close>,
  as their libraries decide when they stop; that they return is proved from what is documented of those. Everything else is structural or has a measure.

  \<^bold>\<open>Parameters\<close>. Third-party code is an argument of the definitions that use it, with the documented
  behaviour relied on as a named hypothesis: the \<open>url\<close>, \<open>glob\<close>, \<open>percent_encoding\<close> and \<open>minijinja\<close> crates,
  Arrow's kernels and formatter, \<open>object_store\<close>, the \<open>lru\<close> cache, prost decoders, the RPC service, the clock
  and random samples. Each property with such a hypothesis has a witness with a concrete instance.

  \<^bold>\<open>Not modelled\<close>. Clap arguments and help texts; the wiring of DataFusion, of the Arrow, Parquet and
  Vortex crates, and of tonic, reqwest and the cloud clients; inspection output; test support; metrics,
  log messages and error texts. Threads and tasks appear as the sequences of events they can produce.
\<close>

end
